(* ===== verification/Go_Prelude.thy ===== *)
theory Go_Prelude
  imports Main "HOL-Library.Word"
begin

text \<open>
  The vocabulary every component of the development shares.

  \<^item> Machine integers: Go's \<open>byte\<close>, \<open>uint16\<close>, \<open>uint32\<close> and \<open>uint64\<close> are words of that
    width, so \<open>+\<close> wraps the way the program's arithmetic does.  A byte slice is a list.
  \<^item> Outcomes: a Go function that may fail returns \<open>Ok\<close>, \<open>Err\<close> (an \<open>error\<close> value) or
    \<open>Panic\<close> (a run-time panic: an index or a slice expression out of range).  Indexing,
    assigning to an element and slicing are the fallible operations \<open>index\<close>, \<open>store\<close> and
    \<open>slice\<close>; a slice expression is
    required to stay within the length of its operand, which is stricter than Go (Go allows
    the upper bound to reach the capacity).
  \<^item> Big-endian encoding: \<open>put_be\<close> and \<open>get_be\<close> are \<open>encoding/binary\<close>'s \<open>PutUint\<close> and
    \<open>Uint\<close> families, for any number of octets.
\<close>

named_theorems no_panic \<open>rules that a computation does not panic\<close>

section \<open>Machine integers and byte slices\<close>

type_synonym byte = "8 word"
type_synonym u16 = "16 word"
type_synonym u32 = "32 word"
type_synonym u64 = "64 word"
type_synonym bytes = "byte list"

abbreviation zeros :: "nat \<Rightarrow> bytes" where
  "zeros n \<equiv> replicate n 0"

section \<open>Outcomes of fallible code\<close>

datatype ('e, 'a) res = Ok 'a | Err 'e | Panic

primrec bindR :: "('e, 'a) res \<Rightarrow> ('a \<Rightarrow> ('e, 'b) res) \<Rightarrow> ('e, 'b) res" where
  "bindR (Ok x) f = f x"
| "bindR (Err e) f = Err e"
| "bindR Panic f = Panic"

text \<open>An \<open>if cond { return err }\<close> statement.\<close>

definition guardR :: "bool \<Rightarrow> 'e \<Rightarrow> ('e, 'a) res \<Rightarrow> ('e, 'a) res" where
  "guardR c e k = (if c then Err e else k)"

text \<open>Wrapping an error on the way out, \<open>fmt.Errorf("...: %w", err)\<close>.\<close>

primrec wrapR :: "('e \<Rightarrow> 'f) \<Rightarrow> ('e, 'a) res \<Rightarrow> ('f, 'a) res" where
  "wrapR g (Ok x) = Ok x"
| "wrapR g (Err e) = Err (g e)"
| "wrapR g Panic = Panic"

definition index :: "'a list \<Rightarrow> nat \<Rightarrow> ('e, 'a) res" where
  "index b i = (if i < length b then Ok (b ! i) else Panic)"

definition slice :: "'a list \<Rightarrow> nat \<Rightarrow> nat \<Rightarrow> ('e, 'a list) res" where
  "slice b i j = (if i \<le> j \<and> j \<le> length b then Ok (take (j - i) (drop i b)) else Panic)"

definition store :: "'a list \<Rightarrow> nat \<Rightarrow> 'a \<Rightarrow> ('e, 'a list) res" where
  "store b i v = (if i < length b then Ok (b[i := v]) else Panic)"

text \<open>
  \<open>copy(dst, src)\<close> overwrites a prefix of \<open>dst\<close>; \<open>copyAt dst i src\<close> is \<open>copy(dst[i:], src)\<close>
  for \<open>i \<le> len(dst)\<close>.
\<close>

definition copy :: "'a list \<Rightarrow> 'a list \<Rightarrow> 'a list" where
  "copy dst src = take (length dst) src @ drop (length src) dst"

definition copyAt :: "'a list \<Rightarrow> nat \<Rightarrow> 'a list \<Rightarrow> 'a list" where
  "copyAt dst i src = take i dst @ copy (drop i dst) src"

text \<open>
  \<open>io.ReadFull(r, buf)\<close> with \<open>len(buf) = n\<close>, on the octets \<open>rnd\<close> the reader still has to
  offer: it fails unless there are \<open>n\<close> of them.
\<close>

definition ReadFull :: "'e \<Rightarrow> nat \<Rightarrow> bytes \<Rightarrow> ('e, bytes) res" where
  "ReadFull e n rnd = (if length rnd < n then Err e else Ok (take n rnd))"

lemma length_copy [simp]: "length (copy dst src) = length dst"
  by (simp add: copy_def)

lemma length_copyAt [simp]: "i \<le> length dst \<Longrightarrow> length (copyAt dst i src) = length dst"
  by (simp add: copyAt_def)

lemma copy_same [simp]: "length src = length dst \<Longrightarrow> copy dst src = src"
  by (simp add: copy_def)

lemma bindR_cong [fundef_cong]:
  "m = m' \<Longrightarrow> (\<And>x. m' = Ok x \<Longrightarrow> f x = f' x) \<Longrightarrow> bindR m f = bindR m' f'"
  by (cases m') auto

lemma guardR_cong [fundef_cong]:
  "c = c' \<Longrightarrow> e = e' \<Longrightarrow> (\<not> c' \<Longrightarrow> k = k') \<Longrightarrow> guardR c e k = guardR c' e' k'"
  by (simp add: guardR_def)

lemma guardR_simps [simp]:
  "guardR True e k = Err e" "guardR False e k = k"
  by (simp_all add: guardR_def)

lemma bindR_eq_Ok [simp]: "bindR m f = Ok y \<longleftrightarrow> (\<exists>x. m = Ok x \<and> f x = Ok y)"
  by (cases m) auto

lemma guardR_eq_Ok [simp]: "guardR c e k = Ok y \<longleftrightarrow> \<not> c \<and> k = Ok y"
  by (simp add: guardR_def)

lemma wrapR_eq_Ok [simp]: "wrapR g m = Ok y \<longleftrightarrow> m = Ok y"
  by (cases m) auto

lemma bindR_assoc: "bindR (bindR m f) g = bindR m (\<lambda>x. bindR (f x) g)"
  by (cases m) auto

lemma slice_Ok [simp]: "i \<le> j \<Longrightarrow> j \<le> length b \<Longrightarrow> slice b i j = Ok (take (j - i) (drop i b))"
  by (simp add: slice_def)

lemma index_Ok [simp]: "i < length b \<Longrightarrow> index b i = Ok (b ! i)"
  by (simp add: index_def)

lemma store_Ok [simp]: "i < length b \<Longrightarrow> store b i v = Ok (b[i := v])"
  by (simp add: store_def)

lemma slice_eq_Ok: "slice b i j = Ok x \<longleftrightarrow> i \<le> j \<and> j \<le> length b \<and> x = take (j - i) (drop i b)"
  by (auto simp: slice_def)

lemma index_eq_Ok: "index b i = Ok x \<longleftrightarrow> i < length b \<and> x = b ! i"
  by (auto simp: index_def)

text \<open>
  \<open>panic_free m\<close>: the computation \<open>m\<close> returns a value or an error.  The rules of \<open>no_panic\<close>
  push the claim down to the bounds of each index and slice expression.
\<close>

definition panic_free :: "('e, 'a) res \<Rightarrow> bool" where
  "panic_free m \<longleftrightarrow> m \<noteq> Panic"

lemma panic_free_Ok [no_panic]: "panic_free (Ok x)"
  and panic_free_Err [no_panic]: "panic_free (Err e)"
  by (simp_all add: panic_free_def)

lemma panic_free_bindR [no_panic]:
  "panic_free m \<Longrightarrow> (\<And>x. m = Ok x \<Longrightarrow> panic_free (f x)) \<Longrightarrow> panic_free (bindR m f)"
  by (cases m) (auto simp: panic_free_def)

lemma panic_free_guardR [no_panic]: "(\<not> c \<Longrightarrow> panic_free k) \<Longrightarrow> panic_free (guardR c e k)"
  by (simp add: guardR_def panic_free_def)

lemma panic_free_wrapR [no_panic]: "panic_free m \<Longrightarrow> panic_free (wrapR g m)"
  by (cases m) (auto simp: panic_free_def)

lemma panic_free_slice [no_panic]: "i \<le> j \<Longrightarrow> j \<le> length b \<Longrightarrow> panic_free (slice b i j)"
  by (simp add: panic_free_def)

lemma panic_free_index [no_panic]: "i < length b \<Longrightarrow> panic_free (index b i)"
  by (simp add: panic_free_def)

lemma panic_free_if [no_panic]:
  "(c \<Longrightarrow> panic_free x) \<Longrightarrow> (\<not> c \<Longrightarrow> panic_free y) \<Longrightarrow> panic_free (if c then x else y)"
  by simp

lemma panic_free_case_prod [no_panic]:
  "(\<And>a b. p = (a, b) \<Longrightarrow> panic_free (f a b)) \<Longrightarrow> panic_free (case p of (a, b) \<Rightarrow> f a b)"
  by (cases p) simp

lemma panic_free_case_option [no_panic]:
  "(x = None \<Longrightarrow> panic_free n) \<Longrightarrow> (\<And>y. x = Some y \<Longrightarrow> panic_free (f y)) \<Longrightarrow>
   panic_free (case x of None \<Rightarrow> n | Some y \<Rightarrow> f y)"
  by (cases x) simp_all

lemma panic_free_ReadFull [no_panic]: "panic_free (ReadFull e n rnd)"
  by (simp add: ReadFull_def panic_free_def)

section \<open>Big-endian encoding\<close>

fun put_be :: "nat \<Rightarrow> nat \<Rightarrow> bytes" where
  "put_be 0 v = []"
| "put_be (Suc n) v = put_be n (v div 256) @ [word_of_nat v]"

definition get_be :: "bytes \<Rightarrow> nat" where
  "get_be b = foldl (\<lambda>a x. a * 256 + unat x) 0 b"

definition PutUint16 :: "u16 \<Rightarrow> bytes" where
  "PutUint16 v = put_be 2 (unat v)"

definition PutUint32 :: "u32 \<Rightarrow> bytes" where
  "PutUint32 v = put_be 4 (unat v)"

definition PutUint64 :: "u64 \<Rightarrow> bytes" where
  "PutUint64 v = put_be 8 (unat v)"

definition Uint16 :: "bytes \<Rightarrow> u16" where
  "Uint16 b = word_of_nat (get_be b)"

definition Uint32 :: "bytes \<Rightarrow> u32" where
  "Uint32 b = word_of_nat (get_be b)"

definition Uint64 :: "bytes \<Rightarrow> u64" where
  "Uint64 b = word_of_nat (get_be b)"

text \<open>\<open>binary.BigEndian\<close> on a slice whose length is not known from the code before it.\<close>

definition be_Uint32 :: "bytes \<Rightarrow> ('e, u32) res" where
  "be_Uint32 b = (if length b < 4 then Panic else Ok (Uint32 (take 4 b)))"

definition be_Uint64 :: "bytes \<Rightarrow> ('e, u64) res" where
  "be_Uint64 b = (if length b < 8 then Panic else Ok (Uint64 (take 8 b)))"

lemma length_put_be [simp]: "length (put_be n v) = n"
  by (induction n v rule: put_be.induct) auto

lemma get_be_Nil [simp]: "get_be [] = 0"
  by (simp add: get_be_def)

lemma get_be_snoc [simp]: "get_be (b @ [x]) = get_be b * 256 + unat x"
  by (simp add: get_be_def)

lemma unat_byte_less [simp]: "unat (x :: byte) < 256"
  using unsigned_less [of x, where ?'a = nat] by simp

lemma unat_of_nat_byte: "unat (word_of_nat v :: byte) = v mod 256"
  by (simp add: unat_of_nat)

lemma get_put_be: "get_be (put_be n v) = v mod 256 ^ n"
proof (induction n arbitrary: v)
  case 0
  show ?case by simp
next
  case (Suc n)
  have "get_be (put_be (Suc n) v) = (v div 256 mod 256 ^ n) * 256 + v mod 256"
    by (simp add: Suc.IH unat_of_nat_byte)
  also have "\<dots> = v mod (256 * 256 ^ n)"
    by (simp add: mod_mult2_eq mult.commute)
  finally show ?case by simp
qed

lemma get_be_less: "get_be b < 256 ^ length b"
proof (induction b rule: rev_induct)
  case Nil
  show ?case by simp
next
  case (snoc x b)
  have "get_be b * 256 + unat x < (get_be b + 1) * 256"
    using unat_byte_less [of x] by simp
  also have "\<dots> \<le> 256 ^ length b * 256"
    using snoc by (intro mult_le_mono1) simp
  finally show ?case by simp
qed

lemma put_get_be: "put_be (length b) (get_be b) = b"
proof (induction b rule: rev_induct)
  case Nil
  show ?case by simp
next
  case (snoc x b)
  have "(get_be b * 256 + unat x) div 256 = get_be b"
    using unat_byte_less [of x] by simp
  moreover have "(word_of_nat (get_be b * 256 + unat x) :: byte) = x"
    by (simp only: word_unat_eq_iff unat_of_nat_byte) simp
  ultimately show ?case using snoc by simp
qed

lemma length_PutUint [simp]:
  "length (PutUint16 a) = 2" "length (PutUint32 b) = 4" "length (PutUint64 c) = 8"
  by (simp_all add: PutUint16_def PutUint32_def PutUint64_def)

lemma Uint16_PutUint16 [simp]: "Uint16 (PutUint16 v) = v"
  using unsigned_less [of v, where ?'a = nat]
  by (simp add: Uint16_def PutUint16_def get_put_be del: put_be.simps)

lemma Uint32_PutUint32 [simp]: "Uint32 (PutUint32 v) = v"
  using unsigned_less [of v, where ?'a = nat]
  by (simp add: Uint32_def PutUint32_def get_put_be del: put_be.simps)

lemma Uint64_PutUint64 [simp]: "Uint64 (PutUint64 v) = v"
  using unsigned_less [of v, where ?'a = nat]
  by (simp add: Uint64_def PutUint64_def get_put_be del: put_be.simps)

lemma PutUint16_inject [simp]: "PutUint16 v = PutUint16 w \<longleftrightarrow> v = w"
  by (metis Uint16_PutUint16)

lemma PutUint32_inject [simp]: "PutUint32 v = PutUint32 w \<longleftrightarrow> v = w"
  by (metis Uint32_PutUint32)

lemma PutUint64_inject [simp]: "PutUint64 v = PutUint64 w \<longleftrightarrow> v = w"
  by (metis Uint64_PutUint64)

end
