(* ===== verification/Replay.thy ===== *)
theory Replay
  imports Go_Prelude
begin

text \<open>
  The anti-replay window of \<open>internal/esp/replay.go\<close>: a bitmap of 64-bit words over the
  last \<open>size\<close> sequence numbers.  Bit \<open>o\<close> of the bitmap stands for sequence number
  \<open>last - o\<close>.
\<close>

unbundle bit_operations_syntax

section \<open>The window and its operations\<close>

text \<open>
  The errors of package \<open>esp\<close>, one constructor per \<open>errors.New\<close> or \<open>fmt.Errorf\<close> of
  \<open>esp.go\<close>, with the values the message carries.
\<close>

datatype esp_err =
    ErrReplay
  | ErrSeqExhausted
  | ErrKeyMaterial nat nat
  | ErrUnknownSuite byte
  | ErrNotAEADSuite byte
  | ErrKeySize nat
  | ErrRand
  | ErrPacketTooShort
  | ErrUnknownSPI u32
  | ErrICV
  | ErrNotBlockAligned
  | ErrAEADAuth
  | ErrPlaintextShort
  | ErrPadRange
  | ErrPadding
  | ErrNextHeader byte

record replay_window =
  rw_size :: u32
  rw_last :: u32
  rw_bits :: "u64 list"

definition MaxReplayWindow :: u32 where
  "MaxReplayWindow = push_bit 20 1"

definition NewReplayWindow :: "u32 \<Rightarrow> replay_window" where
  "NewReplayWindow size0 =
     (let size1 = (if size0 < 64 then 64 else size0);
          size2 = (if size1 > MaxReplayWindow then MaxReplayWindow else size1);
          words = (ucast size2 + 63 :: u64) div 64
      in \<lparr>rw_size = ucast (words * 64), rw_last = 0, rw_bits = replicate (unat words) 0\<rparr>)"

text \<open>
  \<open>shiftUp\<close> moves the bitmap towards higher offsets, in place.  \<open>shift_loop\<close> is its
  descending loop \<open>for i := len(b) - 1; i > words; i--\<close>.
\<close>

fun shift_loop :: "nat \<Rightarrow> nat \<Rightarrow> nat \<Rightarrow> u64 list \<Rightarrow> (esp_err, u64 list) res" where
  "shift_loop words bits 0 b = Ok b"
| "shift_loop words bits (Suc i) b =
     (if Suc i > words then
        bindR (index b (Suc i - words)) (\<lambda>hi.
        bindR (index b (Suc i - words - 1)) (\<lambda>lo.
        bindR (store b (Suc i) (push_bit bits hi OR drop_bit (64 - bits) lo)) (\<lambda>b'.
        shift_loop words bits i b')))
      else Ok b)"

definition shiftUp :: "u64 list \<Rightarrow> u64 \<Rightarrow> (esp_err, u64 list) res" where
  "shiftUp b n =
     (if n = 0 then Ok b
      else
        let words = unat (n div 64); bits = unat (n mod 64) in
        if words \<ge> length b then Ok (replicate (length b) 0)
        else
          bindR
            (if bits = 0 then
               bindR (slice b 0 (length b - words)) (\<lambda>src. Ok (take words b @ src))
             else
               bindR (shift_loop words bits (length b - 1) b) (\<lambda>b1.
               bindR (index b1 0) (\<lambda>b0.
               store b1 words (push_bit bits b0))))
            (\<lambda>b2. Ok (replicate words 0 @ drop words b2)))"

definition setBit :: "replay_window \<Rightarrow> u32 \<Rightarrow> (esp_err, replay_window) res" where
  "setBit w off =
     bindR (index (rw_bits w) (unat (off div 64))) (\<lambda>x.
     bindR (store (rw_bits w) (unat (off div 64)) (x OR push_bit (unat (off mod 64)) 1)) (\<lambda>b.
     Ok (w\<lparr>rw_bits := b\<rparr>)))"

definition getBit :: "replay_window \<Rightarrow> u32 \<Rightarrow> (esp_err, bool) res" where
  "getBit w off =
     bindR (index (rw_bits w) (unat (off div 64))) (\<lambda>x.
     Ok (x AND push_bit (unat (off mod 64)) 1 \<noteq> 0))"

definition Accept :: "replay_window \<Rightarrow> u32 \<Rightarrow> (esp_err, bool \<times> replay_window) res" where
  "Accept w seq =
     (if seq = 0 then Ok (False, w)
      else if seq > rw_last w then
        bindR (shiftUp (rw_bits w) (ucast (seq - rw_last w))) (\<lambda>b.
        bindR (setBit (w\<lparr>rw_bits := b, rw_last := seq\<rparr>) 0) (\<lambda>w'.
        Ok (True, w')))
      else if seq = rw_last w then Ok (False, w)
      else
        let off = rw_last w - seq in
        if off \<ge> rw_size w then Ok (False, w)
        else
          bindR (getBit w off) (\<lambda>seen.
          if seen then Ok (False, w)
          else bindR (setBit w off) (\<lambda>w'. Ok (True, w'))))"

section \<open>The bitmap as a set of offsets\<close>

definition offset_set :: "u64 list \<Rightarrow> nat \<Rightarrow> bool" where
  "offset_set b k \<longleftrightarrow> k div 64 < length b \<and> bit (b ! (k div 64)) (k mod 64)"

lemma shift_loop_spec:
  assumes "i < length b" "bits < 64"
  shows "\<exists>r. shift_loop words bits i b = Ok r \<and> length r = length b \<and>
     (\<forall>j < length b. r ! j =
        (if words < j \<and> j \<le> i
         then push_bit bits (b ! (j - words)) OR drop_bit (64 - bits) (b ! (j - words - 1))
         else b ! j))"
  using assms
proof (induction i arbitrary: b)
  case 0
  then show ?case by auto
next
  case (Suc i)
  show ?case
  proof (cases "words < Suc i")
    case False
    then show ?thesis by auto
  next
    case True
    define b' where "b' = b[Suc i := push_bit bits (b ! (Suc i - words)) OR
       drop_bit (64 - bits) (b ! (Suc i - words - 1))]"
    have step: "shift_loop words bits (Suc i) b = shift_loop words bits i b'"
      using True Suc.prems by (simp add: b'_def)
    have len: "length b' = length b" by (simp add: b'_def)
    from Suc.IH [of b'] Suc.prems len obtain r where
      r: "shift_loop words bits i b' = Ok r" "length r = length b'"
        "\<forall>j < length b'. r ! j =
          (if words < j \<and> j \<le> i
           then push_bit bits (b' ! (j - words)) OR drop_bit (64 - bits) (b' ! (j - words - 1))
           else b' ! j)"
      by auto
    have "\<forall>j < length b. r ! j =
        (if words < j \<and> j \<le> Suc i
         then push_bit bits (b ! (j - words)) OR drop_bit (64 - bits) (b ! (j - words - 1))
         else b ! j)"
      using r(3) True by (auto simp: b'_def nth_list_update less_Suc_eq_le le_Suc_eq)
    with step r(1,2) show ?thesis by (auto simp: b'_def)
  qed
qed

lemma shift_bit_arith:
  fixes k n :: nat
  assumes "n \<le> k"
  shows "(k - n) div 64 = (if k mod 64 < n mod 64 then k div 64 - n div 64 - 1 else k div 64 - n div 64)"
    and "(k - n) mod 64 = (if k mod 64 < n mod 64 then k mod 64 + 64 - n mod 64 else k mod 64 - n mod 64)"
proof -
  define a b c d where abcd: "a = k div 64" "b = k mod 64" "c = n div 64" "d = n mod 64"
  have k: "k = 64 * a + b" and n: "n = 64 * c + d" and lt: "b < 64" "d < 64"
    by (simp_all add: abcd)
  have "(k - n) div 64 = (if b < d then a - c - 1 else a - c) \<and>
    (k - n) mod 64 = (if b < d then b + 64 - d else b - d)"
  proof (cases "b < d")
    case True
    with assms k n lt have "c < a" by simp
    then obtain e where "a = Suc (c + e)" using less_iff_Suc_add by auto
    moreover define r where "r = b + 64 - d"
    ultimately have "k - n = 64 * e + r" "r < 64"
      using k n True lt by simp_all
    then have "(k - n) div 64 = e" "(k - n) mod 64 = r" by simp_all
    with True \<open>a = Suc (c + e)\<close> show ?thesis by (simp add: r_def)
  next
    case False
    with assms k n lt have "c \<le> a" by simp
    then obtain e where "a = c + e" using le_Suc_ex by blast
    moreover define r where "r = b - d"
    ultimately have "k - n = 64 * e + r" "r < 64"
      using k n False lt by simp_all
    then have "(k - n) div 64 = e" "(k - n) mod 64 = r" by simp_all
    with False \<open>a = c + e\<close> show ?thesis by (simp add: r_def)
  qed
  then show "(k - n) div 64 = (if k mod 64 < n mod 64 then k div 64 - n div 64 - 1 else k div 64 - n div 64)"
    and "(k - n) mod 64 = (if k mod 64 < n mod 64 then k mod 64 + 64 - n mod 64 else k mod 64 - n mod 64)"
    by (simp_all add: abcd)
qed

lemma shiftUp_bits:
  fixes b r :: "u64 list"
  assumes n: "n = 64 * w + s" "s < 64" and len: "length r = length b" "k < 64 * length b"
    and low: "\<And>j. j < w \<Longrightarrow> r ! j = 0"
    and base: "r ! w = push_bit s (b ! 0)"
    and high: "\<And>j. w < j \<Longrightarrow> j < length b \<Longrightarrow>
       r ! j = push_bit s (b ! (j - w)) OR (if s = 0 then 0 else drop_bit (64 - s) (b ! (j - w - 1)))"
  shows "offset_set r k \<longleftrightarrow> n \<le> k \<and> offset_set b (k - n)"
proof -
  define q m where qm: "q = k div 64" "m = k mod 64"
  have k: "k = 64 * q + m" and m: "m < 64" and q: "q < length b" using len by (auto simp: qm)
  have nle: "n \<le> k \<longleftrightarrow> w < q \<or> w = q \<and> s \<le> m" using k m n by linarith
  have nd: "n div 64 = w" "n mod 64 = s" using n by simp_all
  have sub: "(k - n) div 64 = (if m < s then q - w - 1 else q - w)"
    "(k - n) mod 64 = (if m < s then m + 64 - s else m - s)" if "n \<le> k"
    using shift_bit_arith [OF that] nd by (simp_all flip: qm)
  consider "q < w" | "q = w" | "w < q" by linarith
  then show ?thesis
  proof cases
    case 1
    then show ?thesis using low nle by (simp add: offset_set_def flip: qm)
  next
    case 2
    then have "bit (r ! q) m \<longleftrightarrow> s \<le> m \<and> bit (b ! 0) (m - s)"
      using base m by (simp add: bit_simps)
    then show ?thesis
      using 2 nle q len sub by (cases "s \<le> m") (auto simp: offset_set_def simp flip: qm)
  next
    case 3
    have high_bit: "bit (r ! q) m \<longleftrightarrow>
       (if m < s then bit (b ! (q - w - 1)) (m + 64 - s) else bit (b ! (q - w)) (m - s))"
    proof (cases "m < s")
      case True
      with n m show ?thesis by (simp add: high [OF 3 q] bit_simps add.commute)
    next
      case False
      then have "\<not> bit (drop_bit (64 - s) (b ! (q - w - 1))) m"
        using n m by (auto simp: bit_simps dest: bit_imp_le_length)
      with False m show ?thesis by (simp add: high [OF 3 q] bit_simps)
    qed
    show ?thesis
      using high_bit by (cases "m < s") (use 3 nle q len sub in \<open>auto simp: offset_set_def simp flip: qm\<close>)
  qed
qed

lemma shiftUp_spec:
  "\<exists>r. shiftUp b n = Ok r \<and> length r = length b \<and>
     (\<forall>k < 64 * length b. offset_set r k \<longleftrightarrow> unat n \<le> k \<and> offset_set b (k - unat n))"
proof (cases "n = 0")
  case True
  then show ?thesis by (simp add: shiftUp_def)
next
  case False
  define w s where ws: "w = unat (n div 64)" "s = unat (n mod 64)"
  have wn: "w = unat n div 64" and sn: "s = unat n mod 64"
    by (simp_all add: ws unat_div unat_mod)
  then have n: "unat n = 64 * w + s" and s: "s < 64" by simp_all
  consider "length b \<le> w" | "w < length b" "s = 0" | "w < length b" "0 < s" by linarith
  then show ?thesis
  proof cases
    case 1
    then have "k div 64 < length b \<Longrightarrow> \<not> unat n \<le> k" for k
      using n by auto
    with 1 False show ?thesis
      by (auto simp: shiftUp_def Let_def offset_set_def simp flip: ws)
  next
    case 2
    define r where "r = replicate w 0 @ take (length b - w) b"
    have r: "shiftUp b n = Ok r" "length r = length b"
      using 2 False by (auto simp: shiftUp_def Let_def r_def simp flip: ws)
    have "offset_set r k \<longleftrightarrow> unat n \<le> k \<and> offset_set b (k - unat n)"
      if "k < 64 * length b" for k
      by (rule shiftUp_bits [OF n s r(2) that]) (use 2 in \<open>simp_all add: r_def nth_append\<close>)
    with r show ?thesis by blast
  next
    case 3
    then have "length b - 1 < length b" by linarith
    from shift_loop_spec [OF this s, of w] obtain b1 where
      b1: "shift_loop w s (length b - 1) b = Ok b1" "length b1 = length b"
        "\<forall>j < length b. b1 ! j =
          (if w < j \<and> j \<le> length b - 1
           then push_bit s (b ! (j - w)) OR drop_bit (64 - s) (b ! (j - w - 1)) else b ! j)"
      by blast
    then have lt: "0 < length b1" "w < length b1" using 3 by linarith+
    define r where "r = replicate w 0 @ drop w (b1[w := push_bit s (b1 ! 0)])"
    have r: "shiftUp b n = Ok r" "length r = length b"
      using 3 False b1(1,2) lt by (simp_all add: shiftUp_def Let_def r_def flip: ws)
    have "r ! j = 0" if "j < w" for j
      using that by (simp add: r_def nth_append)
    moreover have "r ! w = push_bit s (b ! 0)"
      using lt b1(2,3) by (simp add: r_def nth_append)
    moreover have "r ! j = push_bit s (b ! (j - w)) OR
        (if s = 0 then 0 else drop_bit (64 - s) (b ! (j - w - 1)))" if "w < j" "j < length b" for j
    proof -
      have "j \<le> length b - 1" using that by linarith
      moreover have "r ! j = b1 ! j" using that lt b1(2) by (simp add: r_def nth_append)
      ultimately show ?thesis using b1(3) that 3 by simp
    qed
    ultimately have "offset_set r k \<longleftrightarrow> unat n \<le> k \<and> offset_set b (k - unat n)"
      if "k < 64 * length b" for k
      using shiftUp_bits [OF n s r(2) that] by blast
    with r show ?thesis by blast
  qed
qed

section \<open>The contract: which sequence numbers a window of a given width admits\<close>

text \<open>
  The specification speaks of the whole history \<open>H\<close> of accepted sequence numbers, which
  the bitmap does not keep: \<open>admits n H s\<close> says that \<open>s\<close> is a valid number, was never
  accepted, and is less than \<open>n\<close> behind the highest accepted one.
\<close>

definition admits :: "nat \<Rightarrow> nat set \<Rightarrow> nat \<Rightarrow> bool" where
  "admits n H s \<longleftrightarrow> 0 < s \<and> s \<notin> H \<and> (\<forall>h\<in>H. h < s + n)"

definition remember :: "nat \<Rightarrow> nat set \<Rightarrow> nat \<Rightarrow> nat set" where
  "remember n H s = (if admits n H s then insert s H else H)"

text \<open>\<open>tracks w H\<close>: the bitmap of \<open>w\<close> is the part of \<open>H\<close> the window covers.\<close>

definition tracks :: "replay_window \<Rightarrow> nat set \<Rightarrow> bool" where
  "tracks w H \<longleftrightarrow>
     0 < length (rw_bits w) \<and> 64 * length (rw_bits w) = unat (rw_size w) \<and>
     H \<subseteq> {1 .. unat (rw_last w)} \<and> (rw_last w \<noteq> 0 \<longrightarrow> unat (rw_last w) \<in> H) \<and>
     (\<forall>k < unat (rw_size w).
        offset_set (rw_bits w) k \<longleftrightarrow> k < unat (rw_last w) \<and> unat (rw_last w) - k \<in> H)"

abbreviation width :: "replay_window \<Rightarrow> nat" where
  "width w \<equiv> unat (rw_size w)"

text \<open>Any component that filters by sequence number relies on this contract only.\<close>

locale anti_replay =
  fixes accept :: "'w \<Rightarrow> u32 \<Rightarrow> (esp_err, bool \<times> 'w) res"
    and abs :: "'w \<Rightarrow> nat set \<Rightarrow> bool"
    and span :: "'w \<Rightarrow> nat"
  assumes accept_refines: "abs w H \<Longrightarrow>
    \<exists>w'. accept w s = Ok (admits (span w) H (unat s), w') \<and>
         abs w' (remember (span w) H (unat s)) \<and> span w' = span w"

primrec accept_all ::
  "('w \<Rightarrow> u32 \<Rightarrow> (esp_err, bool \<times> 'w) res) \<Rightarrow> 'w \<Rightarrow> u32 list \<Rightarrow> (esp_err, u32 list \<times> 'w) res" where
  "accept_all acc w [] = Ok ([], w)"
| "accept_all acc w (s # ss) =
     bindR (acc w s) (\<lambda>(ok, w1).
     bindR (accept_all acc w1 ss) (\<lambda>(ts, w2).
     Ok (if ok then s # ts else ts, w2)))"

context anti_replay
begin

lemma accept_all_distinct:
  "abs w H \<Longrightarrow> \<exists>ts w'. accept_all accept w ss = Ok (ts, w') \<and> distinct ts \<and>
     0 \<notin> set ts \<and> unat ` set ts \<inter> H = {} \<and> abs w' (H \<union> unat ` set ts) \<and> span w' = span w"
proof (induction ss arbitrary: w H)
  case Nil
  then show ?case by auto
next
  case (Cons s ss)
  define H1 where "H1 = remember (span w) H (unat s)"
  obtain w1 where w1: "accept w s = Ok (admits (span w) H (unat s), w1)" "abs w1 H1" "span w1 = span w"
    using accept_refines [OF Cons.prems] by (auto simp: H1_def)
  obtain ts w2 where ts: "accept_all accept w1 ss = Ok (ts, w2)" "distinct ts" "0 \<notin> set ts"
    "unat ` set ts \<inter> H1 = {}" "abs w2 (H1 \<union> unat ` set ts)" "span w2 = span w1"
    using Cons.IH [OF w1(2)] by auto
  show ?case
  proof (cases "admits (span w) H (unat s)")
    case True
    then have "H1 = insert (unat s) H" "unat s \<notin> H" "0 < unat s"
      by (auto simp: H1_def remember_def admits_def)
    moreover from this have "s \<noteq> 0" by auto
    ultimately show ?thesis using True ts w1 by (auto simp: insert_commute)
  next
    case False
    then show ?thesis using ts w1 by (auto simp: H1_def remember_def)
  qed
qed

end

section \<open>The bitmap window meets the contract\<close>

lemma offset_set_update:
  assumes "k < 64 * length b"
  shows "offset_set (b[k div 64 := b ! (k div 64) OR push_bit (k mod 64) 1]) j \<longleftrightarrow> j = k \<or> offset_set b j"
proof (cases "j div 64 = k div 64")
  case True
  have "k div 64 < length b" using assms by auto
  moreover have "j mod 64 = k mod 64 \<longleftrightarrow> j = k" using True by (metis div_mod_decomp)
  moreover have "bit (1 :: u64) (j mod 64 - k mod 64) \<longleftrightarrow> j mod 64 \<le> k mod 64"
    by (auto simp: bit_1_iff)
  ultimately show ?thesis
    using True by (auto simp: offset_set_def bit_simps)
next
  case False
  then show ?thesis by (auto simp: offset_set_def)
qed

lemma setBit_spec:
  assumes "unat off < 64 * length (rw_bits w)"
  shows "\<exists>b. setBit w off = Ok (w\<lparr>rw_bits := b\<rparr>) \<and> length b = length (rw_bits w) \<and>
     (\<forall>j. offset_set b j \<longleftrightarrow> j = unat off \<or> offset_set (rw_bits w) j)"
proof -
  have "unat (off div 64) = unat off div 64" "unat (off mod 64) = unat off mod 64"
    by (simp_all add: unat_div unat_mod)
  moreover have "unat off div 64 < length (rw_bits w)" using assms by auto
  ultimately have "setBit w off = Ok (w\<lparr>rw_bits := (rw_bits w)[unat off div 64 :=
      rw_bits w ! (unat off div 64) OR push_bit (unat off mod 64) 1]\<rparr>)"
    by (simp add: setBit_def)
  then show ?thesis
    using offset_set_update [OF assms] by (intro exI conjI) (assumption | simp)+
qed

lemma getBit_spec:
  assumes "unat off < 64 * length (rw_bits w)"
  shows "getBit w off = Ok (offset_set (rw_bits w) (unat off))"
proof -
  have "unat (off div 64) = unat off div 64" "unat (off mod 64) = unat off mod 64"
    by (simp_all add: unat_div unat_mod)
  moreover have "unat off div 64 < length (rw_bits w)" using assms by auto
  moreover have "x AND push_bit m 1 \<noteq> 0 \<longleftrightarrow> bit x m" if "m < 64" for x :: u64 and m
    using that by (simp add: bit_iff_and_push_bit_not_eq_0)
  ultimately show ?thesis by (simp add: getBit_def offset_set_def)
qed

lemma unat_ucast_u64: "unat (ucast x :: u64) = unat (x :: u32)"
proof -
  have "unat x < 2 ^ 64"
    using unsigned_less [of x, where ?'a = nat] by (simp add: less_trans)
  then show ?thesis by (simp add: unsigned_ucast_eq take_bit_nat_eq_self)
qed

lemma Accept_advance:
  assumes t: "tracks w H" and gt: "rw_last w < seq"
  shows "\<exists>w'. Accept w seq = Ok (True, w') \<and> tracks w' (insert (unat seq) H) \<and> rw_size w' = rw_size w"
proof -
  let ?d = "unat seq - unat (rw_last w)"
  have lt: "unat (rw_last w) < unat seq" using gt by (simp add: word_less_nat_alt)
  then have d: "unat (ucast (seq - rw_last w) :: u64) = ?d"
    using gt by (simp add: unat_ucast_u64 unat_sub less_imp_le)
  obtain b where b: "shiftUp (rw_bits w) (ucast (seq - rw_last w)) = Ok b" "length b = length (rw_bits w)"
    "\<forall>k < 64 * length (rw_bits w). offset_set b k \<longleftrightarrow> ?d \<le> k \<and> offset_set (rw_bits w) (k - ?d)"
    using shiftUp_spec [of "rw_bits w" "ucast (seq - rw_last w)"] d by auto
  let ?w = "w\<lparr>rw_bits := b, rw_last := seq\<rparr>"
  have "0 < length (rw_bits w)" using t by (simp add: tracks_def)
  then have "0 < length b" by (simp only: b(2))
  then have zero: "unat (0 :: u32) < 64 * length (rw_bits ?w)" by simp
  obtain c where c: "setBit ?w 0 = Ok (?w\<lparr>rw_bits := c\<rparr>)" "length c = length b"
    "\<forall>j. offset_set c j \<longleftrightarrow> j = 0 \<or> offset_set b j"
    using setBit_spec [OF zero] by auto
  have "seq \<noteq> 0" using gt by auto
  then have run: "Accept w seq = Ok (True, ?w\<lparr>rw_bits := c\<rparr>)"
    using gt b(1) c(1) by (simp add: Accept_def)
  have "offset_set c k \<longleftrightarrow> k < unat seq \<and> unat seq - k \<in> insert (unat seq) H"
    if k: "k < unat (rw_size w)" for k
  proof (cases "?d \<le> k")
    case True
    then have "k - ?d < unat (rw_size w)" using k by simp
    then have "offset_set (rw_bits w) (k - ?d) \<longleftrightarrow>
        k - ?d < unat (rw_last w) \<and> unat (rw_last w) - (k - ?d) \<in> H"
      using t by (simp add: tracks_def)
    moreover have "k - ?d < unat (rw_last w) \<longleftrightarrow> k < unat seq"
      "unat (rw_last w) - (k - ?d) = unat seq - k"
      using True lt by auto
    ultimately show ?thesis using True b c k t lt by (auto simp: tracks_def)
  next
    case False
    then have "unat (rw_last w) < unat seq - k" using lt by linarith
    then have "unat seq - k \<notin> H" using t by (auto simp: tracks_def)
    then show ?thesis using False b c k t lt by (auto simp: tracks_def)
  qed
  then have "tracks (?w\<lparr>rw_bits := c\<rparr>) (insert (unat seq) H)"
    using t b(2) c(2) lt by (auto simp: tracks_def)
  with run show ?thesis by simp
qed

lemma Accept_within:
  assumes t: "tracks w H" and seq: "seq \<noteq> 0" "seq < rw_last w" "rw_last w - seq < rw_size w"
  shows "\<exists>w'. Accept w seq = Ok (unat seq \<notin> H, w') \<and>
     tracks w' (insert (unat seq) H) \<and> rw_size w' = rw_size w"
proof -
  let ?off = "rw_last w - seq"
  have lt: "unat seq < unat (rw_last w)" using seq(2) by (simp add: word_less_nat_alt)
  have off: "unat ?off = unat (rw_last w) - unat seq"
    using seq(2) by (simp add: unat_sub less_imp_le)
  have inr: "unat ?off < unat (rw_size w)" using seq(3) by (simp add: word_less_nat_alt)
  then have inb: "unat ?off < 64 * length (rw_bits w)" using t by (simp add: tracks_def)
  have "0 < unat seq" using seq(1) by (simp add: unat_gt_0)
  then have get: "getBit w ?off = Ok (unat seq \<in> H)"
    using getBit_spec [OF inb] t inr off lt by (simp add: tracks_def)
  show ?thesis
  proof (cases "unat seq \<in> H")
    case True
    then show ?thesis
      using get seq t by (auto simp: Accept_def Let_def insert_absorb)
  next
    case False
    obtain c where c: "setBit w ?off = Ok (w\<lparr>rw_bits := c\<rparr>)" "length c = length (rw_bits w)"
      "\<forall>j. offset_set c j \<longleftrightarrow> j = unat ?off \<or> offset_set (rw_bits w) j"
      using setBit_spec [OF inb] by auto
    have "Accept w seq = Ok (True, w\<lparr>rw_bits := c\<rparr>)"
      using get c(1) seq False by (auto simp: Accept_def Let_def)
    moreover have "tracks (w\<lparr>rw_bits := c\<rparr>) (insert (unat seq) H)"
      using t c(2,3) off lt \<open>0 < unat seq\<close> by (auto simp: tracks_def)
    ultimately show ?thesis using False by simp
  qed
qed

lemma Accept_refines:
  assumes t: "tracks w H"
  shows "\<exists>w'. Accept w seq = Ok (admits (width w) H (unat seq), w') \<and>
     tracks w' (remember (width w) H (unat seq)) \<and> width w' = width w"
proof -
  have H: "h \<le> unat (rw_last w)" "0 < h" if "h \<in> H" for h
    using t that by (auto simp: tracks_def)
  consider "seq = 0" | "rw_last w < seq" | "seq \<noteq> 0" "seq = rw_last w"
    | "seq \<noteq> 0" "seq < rw_last w" "rw_size w \<le> rw_last w - seq"
    | "seq \<noteq> 0" "seq < rw_last w" "rw_last w - seq < rw_size w"
    by (metis linorder_less_linear linorder_not_le)
  then show ?thesis
  proof cases
    case 1
    then show ?thesis using t by (simp add: Accept_def admits_def remember_def)
  next
    case 2
    then have "admits (width w) H (unat seq)"
      using H by (force simp: admits_def word_less_nat_alt)
    with Accept_advance [OF t 2] show ?thesis by (auto simp: remember_def)
  next
    case 3
    then have "unat seq \<in> H" using t by (auto simp: tracks_def)
    with 3 t show ?thesis by (simp add: Accept_def admits_def remember_def)
  next
    case 4
    then have "width w \<le> unat (rw_last w) - unat seq"
      by (metis less_imp_le unat_sub word_le_nat_alt)
    moreover have "unat (rw_last w) \<in> H" using 4 t by (auto simp: tracks_def)
    moreover have "unat seq < unat (rw_last w)" using 4 by (simp add: word_less_nat_alt)
    ultimately have "\<not> admits (width w) H (unat seq)" by (force simp: admits_def)
    with 4 t show ?thesis by (auto simp: Accept_def Let_def remember_def)
  next
    case 5
    then have "unat (rw_last w) - unat seq < width w"
      by (metis less_imp_le unat_sub word_less_nat_alt)
    moreover have "0 < unat seq" using 5(1) by (simp add: unat_gt_0)
    ultimately have "admits (width w) H (unat seq) \<longleftrightarrow> unat seq \<notin> H"
      using H by (force simp: admits_def)
    with Accept_within [OF t 5] show ?thesis
      by (auto simp: remember_def insert_absorb)
  qed
qed

interpretation rw: anti_replay Accept tracks width
  by unfold_locales (rule Accept_refines)

lemma NewReplayWindow_words:
  "\<exists>k. 1 \<le> k \<and> k \<le> 16384 \<and> NewReplayWindow n =
     \<lparr>rw_size = word_of_nat (64 * k), rw_last = 0, rw_bits = replicate k 0\<rparr> \<and>
     k = (max 64 (min (unat n) 1048576) + 63) div 64"
proof -
  define m :: u32 where "m = (let s = (if n < 64 then 64 else n) in if s > MaxReplayWindow then MaxReplayWindow else s)"
  have max: "MaxReplayWindow = 1048576" by (simp add: MaxReplayWindow_def)
  have m: "unat m = max 64 (min (unat n) 1048576)"
    by (simp add: m_def max Let_def word_less_nat_alt)
  have "unat m \<le> 1048576" by (simp only: m)
  then have "unat (ucast m :: u64) + unat (63 :: u64) < 2 ^ 64" by (simp add: unat_ucast_u64)
  then have "unat (ucast m + 63 :: u64) = unat m + 63"
    by (subst unat_add_lem [THEN iffD1]) (simp_all add: unat_ucast_u64)
  then have words: "unat ((ucast m + 63 :: u64) div 64) = (unat m + 63) div 64"
    by (simp add: unat_div)
  define k where "k = (unat m + 63) div 64"
  have mb: "64 \<le> unat m" "unat m \<le> 1048576" by (simp_all only: m)
  have k: "1 \<le> k" "k \<le> 16384"
    using div_le_mono [of 64 "unat m + 63" 64] div_le_mono [of "unat m + 63" "1048576 + 63" 64] mb
    by (simp_all add: k_def)
  have "(ucast m + 63 :: u64) div 64 = word_of_nat k"
    unfolding k_def words [symmetric] by simp
  moreover have "ucast (word_of_nat k * 64 :: u64) = (word_of_nat (64 * k) :: u32)"
  proof -
    have "word_of_nat k * 64 = (word_of_nat (64 * k) :: u64)" by simp
    moreover have "ucast (word_of_nat (64 * k) :: u64) = (word_of_nat (64 * k) :: u32)"
      by (simp only: unsigned_of_nat) (use k in \<open>simp add: take_bit_nat_eq_self\<close>)
    ultimately show ?thesis by argo
  qed
  moreover have "NewReplayWindow n = (let words = (ucast m + 63 :: u64) div 64 in
      \<lparr>rw_size = ucast (words * 64), rw_last = 0, rw_bits = replicate (unat words) 0\<rparr>)"
    by (simp only: NewReplayWindow_def m_def Let_def)
  ultimately have "NewReplayWindow n = \<lparr>rw_size = word_of_nat (64 * k), rw_last = 0, rw_bits = replicate k 0\<rparr>"
    using words by (simp only: Let_def flip: k_def)
  moreover have "k = (max 64 (min (unat n) 1048576) + 63) div 64"
    by (simp only: k_def m)
  ultimately show ?thesis using k by blast
qed

lemma tracks_NewReplayWindow: "tracks (NewReplayWindow n) {}"
proof -
  obtain k where k: "1 \<le> k" "k \<le> 16384"
    "NewReplayWindow n = \<lparr>rw_size = word_of_nat (64 * k), rw_last = 0, rw_bits = replicate k 0\<rparr>"
    using NewReplayWindow_words by blast
  then have "unat (word_of_nat (64 * k) :: u32) = 64 * k"
    by (simp only: unat_of_nat) simp
  with k show ?thesis by (auto simp: tracks_def offset_set_def)
qed

section \<open>Properties\<close>

text \<open>
  C26 (refinement).  \<open>Accept\<close> implements the anti-replay contract: on a window whose bitmap
  agrees with a history \<open>H\<close> of accepted numbers it answers, without panicking, exactly
  whether the number is new, non-zero and less than one window width behind the highest
  accepted number, and leaves a window that agrees with the extended history.
\<close>

theorem replay_accept_contract:
  assumes "tracks w H"
  shows "\<exists>w'. Accept w seq = Ok (admits (width w) H (unat seq), w') \<and>
     tracks w' (remember (width w) H (unat seq)) \<and> width w' = width w"
  using assms by (rule rw.accept_refines)

theorem replay_accept_contract_witness:
  "tracks (NewReplayWindow 64) {} \<and>
   (\<exists>w'. Accept (NewReplayWindow 64) 5 = Ok (admits (width (NewReplayWindow 64)) {} (unat (5::u32)), w') \<and>
     tracks w' (remember (width (NewReplayWindow 64)) {} (unat (5::u32))) \<and>
     width w' = width (NewReplayWindow 64))"
  using replay_accept_contract [OF tracks_NewReplayWindow, of 64 5] tracks_NewReplayWindow [of 64]
  by simp

text \<open>
  Whatever sequence numbers arrive, in any order and however often, a fresh
  window of any configured size never panics, accepts no number twice and never accepts 0.
\<close>

lemma replay_no_duplicates:
  "\<exists>ts w'. accept_all Accept (NewReplayWindow n) seqs = Ok (ts, w') \<and> distinct ts \<and> 0 \<notin> set ts"
  using rw.accept_all_distinct [OF tracks_NewReplayWindow] by fastforce

text \<open>
  \<open>NewReplayWindow\<close> returns a window whose width is the requested size
  clamped to \<open>[64, 2^20]\<close> and rounded up to a multiple of 64, with exactly one bit per
  sequence number: no requested size, however close to \<open>2^32\<close>, makes the word count wrap.
\<close>

lemma replay_window_size:
  "width (NewReplayWindow n) = (max 64 (min (unat n) 1048576) + 63) div 64 * 64 \<and>
   64 * length (rw_bits (NewReplayWindow n)) = width (NewReplayWindow n) \<and>
   min (unat n) 1048576 \<le> width (NewReplayWindow n) \<and> width (NewReplayWindow n) \<le> 1048576"
proof -
  obtain k where k: "1 \<le> k" "k \<le> 16384"
    "NewReplayWindow n = \<lparr>rw_size = word_of_nat (64 * k), rw_last = 0, rw_bits = replicate k 0\<rparr>"
    "k = (max 64 (min (unat n) 1048576) + 63) div 64"
    using NewReplayWindow_words by blast
  then have "unat (word_of_nat (64 * k) :: u32) = 64 * k"
    by (simp only: unat_of_nat) simp
  then have w: "width (NewReplayWindow n) = 64 * k" by (simp add: k(3))
  have "x \<le> (x + 63) div 64 * 64" for x :: nat by presburger
  from this [of "max 64 (min (unat n) 1048576)"] have "min (unat n) 1048576 \<le> 64 * k"
    unfolding k(4) by linarith
  with w k(2) show ?thesis by (simp add: k(3)) (simp add: k(4))
qed

end
