(* ===== verification/Primitives.thy ===== *)
theory Primitives
  imports Go_Prelude
begin

text \<open>
  The cryptographic primitives the program takes from the Go standard library and from
  \<open>golang.org/x/crypto\<close>.  They are parameters of the model: a record of functions that the
  definitions receive as their argument \<open>P\<close>.  What the program relies on is the predicate
  \<open>prims_ok\<close>: decryption inverts encryption, ciphertexts have their documented lengths, and
  HMAC-SHA2-256 returns 32 octets.  No secrecy or unforgeability is assumed anywhere.
\<close>

record prims =
  cbc_enc :: "bytes \<Rightarrow> bytes \<Rightarrow> bytes \<Rightarrow> bytes"
  cbc_dec :: "bytes \<Rightarrow> bytes \<Rightarrow> bytes \<Rightarrow> bytes"
  hmac_sha256 :: "bytes \<Rightarrow> bytes \<Rightarrow> bytes"
  gcm_seal :: "bytes \<Rightarrow> bytes \<Rightarrow> bytes \<Rightarrow> bytes \<Rightarrow> bytes"
  gcm_open :: "bytes \<Rightarrow> bytes \<Rightarrow> bytes \<Rightarrow> bytes \<Rightarrow> bytes option"
  chacha_seal :: "bytes \<Rightarrow> bytes \<Rightarrow> bytes \<Rightarrow> bytes \<Rightarrow> bytes"
  chacha_open :: "bytes \<Rightarrow> bytes \<Rightarrow> bytes \<Rightarrow> bytes \<Rightarrow> bytes option"

text \<open>
  \<open>cipher.AEAD\<close> as the program uses it: sealing appends a tag of 16 octets, opening undoes
  sealing under the same key, nonce and associated data, and whatever opens is 16 octets
  longer than its plaintext.  Argument order: key, nonce, text, associated data.
\<close>

definition aead_laws ::
  "(bytes \<Rightarrow> bytes \<Rightarrow> bytes \<Rightarrow> bytes \<Rightarrow> bytes) \<Rightarrow>
   (bytes \<Rightarrow> bytes \<Rightarrow> bytes \<Rightarrow> bytes \<Rightarrow> bytes option) \<Rightarrow> bool" where
  "aead_laws seal open \<longleftrightarrow>
     (\<forall>k n pt ad. length (seal k n pt ad) = length pt + 16 \<and>
        open k n (seal k n pt ad) ad = Some pt) \<and>
     (\<forall>k n ct ad pt. open k n ct ad = Some pt \<longrightarrow> length ct = length pt + 16)"

definition prims_ok :: "prims \<Rightarrow> bool" where
  "prims_ok P \<longleftrightarrow>
     (\<forall>k iv x. length x mod 16 = 0 \<longrightarrow>
        length (cbc_enc P k iv x) = length x \<and> length (cbc_dec P k iv x) = length x \<and>
        cbc_dec P k iv (cbc_enc P k iv x) = x) \<and>
     (\<forall>k d. length (hmac_sha256 P k d) = 32) \<and>
     aead_laws (gcm_seal P) (gcm_open P) \<and> aead_laws (chacha_seal P) (chacha_open P)"

section \<open>The cipher interfaces\<close>

text \<open>
  \<open>cipher.Block\<close> is the key it was built from.  \<open>cipher.NewCBCEncrypter\<close> and
  \<open>cipher.NewCBCDecrypter\<close> panic unless the IV is one block, and \<open>CryptBlocks\<close> panics unless
  its input is a whole number of blocks.
\<close>

definition cbc_encrypt :: "prims \<Rightarrow> bytes \<Rightarrow> bytes \<Rightarrow> bytes \<Rightarrow> ('e, bytes) res" where
  "cbc_encrypt P key iv src =
     (if length iv \<noteq> 16 \<or> length src mod 16 \<noteq> 0 then Panic else Ok (cbc_enc P key iv src))"

definition cbc_decrypt :: "prims \<Rightarrow> bytes \<Rightarrow> bytes \<Rightarrow> bytes \<Rightarrow> ('e, bytes) res" where
  "cbc_decrypt P key iv src =
     (if length iv \<noteq> 16 \<or> length src mod 16 \<noteq> 0 then Panic else Ok (cbc_dec P key iv src))"

datatype aead = GCM bytes | ChaCha bytes

text \<open>A nonce of the wrong size panics in both AEADs.\<close>

definition Seal :: "prims \<Rightarrow> aead \<Rightarrow> bytes \<Rightarrow> bytes \<Rightarrow> bytes \<Rightarrow> ('e, bytes) res" where
  "Seal P a nonce pt ad =
     (if length nonce \<noteq> 12 then Panic
      else case a of GCM k \<Rightarrow> Ok (gcm_seal P k nonce pt ad) | ChaCha k \<Rightarrow> Ok (chacha_seal P k nonce pt ad))"

definition Open :: "prims \<Rightarrow> aead \<Rightarrow> bytes \<Rightarrow> bytes \<Rightarrow> bytes \<Rightarrow> ('e, bytes option) res" where
  "Open P a nonce ct ad =
     (if length nonce \<noteq> 12 then Panic
      else case a of GCM k \<Rightarrow> Ok (gcm_open P k nonce ct ad) | ChaCha k \<Rightarrow> Ok (chacha_open P k nonce ct ad))"

lemma length_hmac: "prims_ok P \<Longrightarrow> length (hmac_sha256 P k d) = 32"
  by (simp add: prims_ok_def)

lemma cbc_roundtrip:
  "prims_ok P \<Longrightarrow> length x mod 16 = 0 \<Longrightarrow> cbc_dec P k iv (cbc_enc P k iv x) = x"
  "prims_ok P \<Longrightarrow> length x mod 16 = 0 \<Longrightarrow> length (cbc_enc P k iv x) = length x"
  "prims_ok P \<Longrightarrow> length x mod 16 = 0 \<Longrightarrow> length (cbc_dec P k iv x) = length x"
  by (simp_all add: prims_ok_def)

lemma Seal_Ok:
  assumes "prims_ok P" "length nonce = 12" "Seal P a nonce pt ad = Ok ct"
  shows "length ct = length pt + 16" "Open P a nonce ct ad = Ok (Some pt)"
  using assms by (cases a; simp add: Seal_def Open_def prims_ok_def aead_laws_def; blast?)+

lemma Open_length:
  "prims_ok P \<Longrightarrow> Open P a nonce ct ad = Ok (Some pt) \<Longrightarrow> length ct = length pt + 16"
  by (cases a) (auto simp: Open_def prims_ok_def aead_laws_def split: if_splits)

lemma panic_free_Open [no_panic]: "length nonce = 12 \<Longrightarrow> panic_free (Open P a nonce ct ad)"
  by (cases a) (auto simp: Open_def panic_free_def)

lemma panic_free_Seal [no_panic]: "length nonce = 12 \<Longrightarrow> panic_free (Seal P a nonce pt ad)"
  by (cases a) (auto simp: Seal_def panic_free_def)

lemma panic_free_cbc [no_panic]:
  "length iv = 16 \<Longrightarrow> length x mod 16 = 0 \<Longrightarrow> panic_free (cbc_encrypt P k iv x)"
  "length iv = 16 \<Longrightarrow> length x mod 16 = 0 \<Longrightarrow> panic_free (cbc_decrypt P k iv x)"
  by (simp_all add: cbc_encrypt_def cbc_decrypt_def panic_free_def)

section \<open>Primitives that satisfy the laws\<close>

text \<open>
  A concrete instance for witnesses: ciphers that do not hide anything and tags computed
  from the key and the authenticated octets.
\<close>

definition plain_tag :: "bytes \<Rightarrow> bytes \<Rightarrow> bytes \<Rightarrow> bytes" where
  "plain_tag k n x = take 16 (rev (k @ n @ x) @ zeros 16)"

definition plain_seal :: "bytes \<Rightarrow> bytes \<Rightarrow> bytes \<Rightarrow> bytes \<Rightarrow> bytes" where
  "plain_seal k n pt ad = pt @ plain_tag k n (pt @ ad)"

definition plain_open :: "bytes \<Rightarrow> bytes \<Rightarrow> bytes \<Rightarrow> bytes \<Rightarrow> bytes option" where
  "plain_open k n ct ad =
     (let l = length ct - 16; pt = take l ct in
      if 16 \<le> length ct \<and> drop l ct = plain_tag k n (pt @ ad) then Some pt else None)"

definition plain_prims :: prims where
  "plain_prims =
     \<lparr>cbc_enc = (\<lambda>k iv x. x), cbc_dec = (\<lambda>k iv x. x),
      hmac_sha256 = (\<lambda>k d. take 32 (rev (k @ d) @ zeros 32)),
      gcm_seal = plain_seal, gcm_open = plain_open,
      chacha_seal = plain_seal, chacha_open = plain_open\<rparr>"

lemma length_plain_tag [simp]: "length (plain_tag k n x) = 16"
  by (simp add: plain_tag_def)

lemma plain_aead_laws: "aead_laws plain_seal plain_open"
  by (auto simp: aead_laws_def plain_seal_def plain_open_def Let_def split: if_splits)

lemma plain_prims_ok: "prims_ok plain_prims"
  by (auto simp: prims_ok_def plain_prims_def plain_aead_laws min_def)

end
