(* ===== verification/Esp.thy ===== *)
theory Esp
  imports Replay Primitives
begin

text \<open>
  The ESP transform of \<open>internal/esp/esp.go\<close>: construction of a Child SA's crypto context,
  allocation of outbound sequence numbers, encryption and decryption of one packet for the
  AES-CBC suite and for the two AEAD suites.
\<close>

section \<open>Suites and constants\<close>

type_synonym Suite = byte

definition SuiteAESCBC256SHA256 :: Suite where [simp]: "SuiteAESCBC256SHA256 = 0"
definition SuiteAESGCM256 :: Suite where [simp]: "SuiteAESGCM256 = 1"
definition SuiteChaCha20Poly1305 :: Suite where [simp]: "SuiteChaCha20Poly1305 = 2"

definition espHeaderLen :: nat where [simp]: "espHeaderLen = 8"
definition cbcIVLen :: nat where [simp]: "cbcIVLen = 16"
definition espICVLen :: nat where [simp]: "espICVLen = 16"
definition espBlock :: nat where [simp]: "espBlock = 16"
definition aeadIVLen :: nat where [simp]: "aeadIVLen = 8"
definition aeadSaltLen :: nat where [simp]: "aeadSaltLen = 4"
definition cbcEncrKeyLen :: nat where [simp]: "cbcEncrKeyLen = 32"
definition cbcIntegKeyLen :: nat where [simp]: "cbcIntegKeyLen = 32"
definition aeadEncrKeyLen :: nat where [simp]: "aeadEncrKeyLen = 32 + aeadSaltLen"
definition nextHeaderIPv4 :: byte where [simp]: "nextHeaderIPv4 = 4"
definition nextHeaderIPv6 :: byte where [simp]: "nextHeaderIPv6 = 41"

section \<open>The security association\<close>

text \<open>
  A nil interface value (\<open>outBlock\<close> of an AEAD suite, \<open>outAEAD\<close> of the CBC suite) is \<open>None\<close>.
\<close>

record SA =
  sa_suite :: Suite
  sa_outSPI :: u32
  sa_inSPI :: u32
  sa_outBlock :: "bytes option"
  sa_inBlock :: "bytes option"
  sa_outInteg :: bytes
  sa_inInteg :: bytes
  sa_outAEAD :: "aead option"
  sa_inAEAD :: "aead option"
  sa_outSalt :: bytes
  sa_inSalt :: bytes
  sa_seq :: u32
  sa_replay :: replay_window

text \<open>\<open>aes.NewCipher\<close>, \<open>cipher.NewGCM\<close> and \<open>chacha20poly1305.New\<close> only check the key length.\<close>

definition aes_NewCipher :: "bytes \<Rightarrow> (esp_err, bytes) res" where
  "aes_NewCipher key = guardR (length key \<notin> {16, 24, 32}) (ErrKeySize (length key)) (Ok key)"

definition chacha20poly1305_New :: "bytes \<Rightarrow> (esp_err, aead) res" where
  "chacha20poly1305_New key = guardR (length key \<noteq> 32) (ErrKeySize (length key)) (Ok (ChaCha key))"

definition newAEAD :: "Suite \<Rightarrow> bytes \<Rightarrow> (esp_err, aead) res" where
  "newAEAD suite key =
     (if suite = SuiteAESGCM256 then bindR (aes_NewCipher key) (\<lambda>b. Ok (GCM b))
      else if suite = SuiteChaCha20Poly1305 then chacha20poly1305_New key
      else Err (ErrNotAEADSuite suite))"

definition NewSA ::
  "Suite \<Rightarrow> u32 \<Rightarrow> u32 \<Rightarrow> bytes \<Rightarrow> bytes \<Rightarrow> bytes \<Rightarrow> bytes \<Rightarrow> u32 \<Rightarrow> (esp_err, SA) res" where
  "NewSA suite outSPI inSPI outEncr outInteg inEncr inInteg replayWindow =
     (let sa = \<lparr>sa_suite = suite, sa_outSPI = outSPI, sa_inSPI = inSPI,
                sa_outBlock = None, sa_inBlock = None, sa_outInteg = [], sa_inInteg = [],
                sa_outAEAD = None, sa_inAEAD = None, sa_outSalt = [], sa_inSalt = [],
                sa_seq = 0, sa_replay = NewReplayWindow replayWindow\<rparr> in
      if suite = SuiteAESCBC256SHA256 then
        guardR (length outEncr \<noteq> cbcEncrKeyLen \<or> length outInteg \<noteq> cbcIntegKeyLen)
          (ErrKeyMaterial (length outEncr) (length outInteg))
        (guardR (length inEncr \<noteq> cbcEncrKeyLen \<or> length inInteg \<noteq> cbcIntegKeyLen)
          (ErrKeyMaterial (length inEncr) (length inInteg))
        (bindR (aes_NewCipher outEncr) (\<lambda>ob.
         bindR (aes_NewCipher inEncr) (\<lambda>ib.
         Ok (sa\<lparr>sa_outBlock := Some ob, sa_inBlock := Some ib,
               sa_outInteg := outInteg, sa_inInteg := inInteg\<rparr>)))))
      else if suite = SuiteAESGCM256 \<or> suite = SuiteChaCha20Poly1305 then
        guardR (length outEncr \<noteq> aeadEncrKeyLen \<or> length outInteg \<noteq> 0)
          (ErrKeyMaterial (length outEncr) (length outInteg))
        (guardR (length inEncr \<noteq> aeadEncrKeyLen \<or> length inInteg \<noteq> 0)
          (ErrKeyMaterial (length inEncr) (length inInteg))
        (bindR (slice outEncr 0 (aeadEncrKeyLen - aeadSaltLen)) (\<lambda>okey.
         bindR (newAEAD suite okey) (\<lambda>oa.
         bindR (slice inEncr 0 (aeadEncrKeyLen - aeadSaltLen)) (\<lambda>ikey.
         bindR (newAEAD suite ikey) (\<lambda>ia.
         bindR (slice outEncr (aeadEncrKeyLen - aeadSaltLen) (length outEncr)) (\<lambda>osalt.
         bindR (slice inEncr (aeadEncrKeyLen - aeadSaltLen) (length inEncr)) (\<lambda>isalt.
         Ok (sa\<lparr>sa_outAEAD := Some oa, sa_inAEAD := Some ia,
               sa_outSalt := osalt, sa_inSalt := isalt\<rparr>)))))))))
      else Err (ErrUnknownSuite suite))"

section \<open>Encryption\<close>

definition nextHeaderFor :: "bytes \<Rightarrow> byte" where
  "nextHeaderFor inner =
     (if 0 < length inner \<and> drop_bit 4 (inner ! 0) = 6 then nextHeaderIPv6 else nextHeaderIPv4)"

text \<open>
  \<open>fillTrailer\<close> writes every octet of the buffer \<open>plain\<close>, whose length at both call sites is
  \<open>len(inner) + padLen + 2\<close>.
\<close>

definition fillTrailer :: "bytes \<Rightarrow> nat \<Rightarrow> bytes" where
  "fillTrailer inner padLen =
     inner @ map (\<lambda>i. word_of_nat (i + 1)) [0..<padLen] @ [word_of_nat padLen, nextHeaderFor inner]"

primrec deref :: "'a option \<Rightarrow> ('e, 'a) res" where
  "deref None = Panic"
| "deref (Some x) = Ok x"

definition encryptCBC :: "prims \<Rightarrow> SA \<Rightarrow> bytes \<Rightarrow> bytes \<Rightarrow> u32 \<Rightarrow> (esp_err, bytes) res" where
  "encryptCBC P sa rnd inner seq =
     (let padLen = (espBlock - (length inner + 2) mod espBlock) mod espBlock in
      bindR (ReadFull ErrRand cbcIVLen rnd) (\<lambda>iv.
      bindR (deref (sa_outBlock sa)) (\<lambda>blk.
      bindR (cbc_encrypt P blk iv (fillTrailer inner padLen)) (\<lambda>ct.
      let hdr = PutUint32 (sa_outSPI sa) @ PutUint32 seq @ iv @ ct in
      bindR (slice (hmac_sha256 P (sa_outInteg sa) hdr) 0 espICVLen) (\<lambda>icv.
      Ok (hdr @ icv))))))"

definition encryptAEAD :: "prims \<Rightarrow> SA \<Rightarrow> bytes \<Rightarrow> u32 \<Rightarrow> (esp_err, bytes) res" where
  "encryptAEAD P sa inner seq =
     (let padLen = (4 - (length inner + 2) mod 4) mod 4;
          hdr = PutUint32 (sa_outSPI sa) @ PutUint32 seq;
          iv = PutUint64 (ucast seq);
          nonce = copy (zeros aeadSaltLen) (sa_outSalt sa) @ copy (zeros aeadIVLen) iv in
      bindR (deref (sa_outAEAD sa)) (\<lambda>a.
      bindR (Seal P a nonce (fillTrailer inner padLen) hdr) (\<lambda>ct.
      Ok (hdr @ iv @ ct))))"

text \<open>
  \<open>Encrypt\<close> takes the next sequence number and encrypts.  With no other goroutine between
  the load and the swap the loop runs once; the interleaved case is the step relation
  \<open>alloc_step\<close> below.
\<close>

definition nextSeq :: "SA \<Rightarrow> (esp_err, u32 \<times> SA) res" where
  "nextSeq sa =
     (let cur = sa_seq sa in
      guardR (cur = NOT 0) ErrSeqExhausted (Ok (cur + 1, sa\<lparr>sa_seq := cur + 1\<rparr>)))"

definition Encrypt :: "prims \<Rightarrow> SA \<Rightarrow> bytes \<Rightarrow> bytes \<Rightarrow> (esp_err, bytes) res \<times> SA" where
  "Encrypt P sa rnd inner =
     (case nextSeq sa of
        Ok (seq, sa') \<Rightarrow>
          (if sa_suite sa = SuiteAESCBC256SHA256 then encryptCBC P sa' rnd inner seq
           else encryptAEAD P sa' inner seq, sa')
      | Err e \<Rightarrow> (Err e, sa)
      | Panic \<Rightarrow> (Panic, sa))"

section \<open>Decryption\<close>

text \<open>\<open>parseTrailer\<close>; \<open>pad_ok i\<close> is its loop over the pad octets from index \<open>i\<close>.\<close>

fun pad_ok :: "nat \<Rightarrow> bytes \<Rightarrow> bool" where
  "pad_ok i [] = True"
| "pad_ok i (b # bs) = (if unat b \<noteq> i + 1 then False else pad_ok (i + 1) bs)"

definition parseTrailer :: "bytes \<Rightarrow> (esp_err, bytes) res" where
  "parseTrailer plain =
     guardR (length plain < 2) ErrPlaintextShort
     (bindR (index plain (length plain - 2)) (\<lambda>pl.
      let padLen = unat pl in
      guardR (padLen + 2 > length plain) ErrPadRange
      (bindR (slice plain (length plain - 2 - padLen) (length plain - 2)) (\<lambda>pad.
       guardR (\<not> pad_ok 0 pad) ErrPadding
       (bindR (index plain (length plain - 1)) (\<lambda>nh.
        guardR (nh \<noteq> nextHeaderIPv4 \<and> nh \<noteq> nextHeaderIPv6) (ErrNextHeader nh)
        (slice plain 0 (length plain - padLen - 2))))))))"

text \<open>\<open>sa.replay.Accept(seq)\<close> followed by \<open>k\<close> on the updated association.\<close>

definition acceptSeq :: "SA \<Rightarrow> u32 \<Rightarrow> (esp_err, bytes) res \<Rightarrow> (esp_err, bytes) res \<times> SA" where
  "acceptSeq sa seq k =
     (case Accept (sa_replay sa) seq of
        Ok (ok, w) \<Rightarrow> (guardR (\<not> ok) ErrReplay k, sa\<lparr>sa_replay := w\<rparr>)
      | Err e \<Rightarrow> (Err e, sa)
      | Panic \<Rightarrow> (Panic, sa))"

definition decryptCBC :: "prims \<Rightarrow> SA \<Rightarrow> bytes \<Rightarrow> (esp_err, bytes) res \<times> SA" where
  "decryptCBC P sa pkt =
     (let checked =
        guardR (length pkt < espHeaderLen + cbcIVLen + espBlock + espICVLen) ErrPacketTooShort
        (bindR (slice pkt 0 4) (\<lambda>s.
         guardR (Uint32 s \<noteq> sa_inSPI sa) (ErrUnknownSPI (Uint32 s))
         (bindR (slice pkt 4 8) (\<lambda>q.
          let icvStart = length pkt - espICVLen in
          bindR (slice pkt 0 icvStart) (\<lambda>covered.
          bindR (slice (hmac_sha256 P (sa_inInteg sa) covered) 0 espICVLen) (\<lambda>want.
          bindR (slice pkt icvStart (length pkt)) (\<lambda>icv.
          guardR (want \<noteq> icv) ErrICV (Ok (Uint32 q)))))))))
      in case checked of
           Ok seq \<Rightarrow>
             acceptSeq sa seq
               (bindR (slice pkt espHeaderLen (espHeaderLen + cbcIVLen)) (\<lambda>iv.
                bindR (slice pkt (espHeaderLen + cbcIVLen) (length pkt - espICVLen)) (\<lambda>ct.
                guardR (length ct = 0 \<or> length ct mod espBlock \<noteq> 0) ErrNotBlockAligned
                (bindR (deref (sa_inBlock sa)) (\<lambda>blk.
                 bindR (cbc_decrypt P blk iv ct) parseTrailer)))))
         | Err e \<Rightarrow> (Err e, sa)
         | Panic \<Rightarrow> (Panic, sa))"

definition decryptAEAD :: "prims \<Rightarrow> SA \<Rightarrow> bytes \<Rightarrow> (esp_err, bytes) res \<times> SA" where
  "decryptAEAD P sa pkt =
     (let opened =
        guardR (length pkt < espHeaderLen + aeadIVLen + 2 + espICVLen) ErrPacketTooShort
        (bindR (slice pkt 0 4) (\<lambda>s.
         guardR (Uint32 s \<noteq> sa_inSPI sa) (ErrUnknownSPI (Uint32 s))
         (bindR (slice pkt 4 8) (\<lambda>q.
          bindR (slice pkt espHeaderLen (espHeaderLen + aeadIVLen)) (\<lambda>iv.
          let nonce = copy (zeros aeadSaltLen) (sa_inSalt sa) @ copy (zeros aeadIVLen) iv in
          bindR (deref (sa_inAEAD sa)) (\<lambda>a.
          bindR (slice pkt (espHeaderLen + aeadIVLen) (length pkt)) (\<lambda>ct.
          bindR (slice pkt 0 espHeaderLen) (\<lambda>ad.
          bindR (Open P a nonce ct ad) (\<lambda>plain.
          case plain of None \<Rightarrow> Err ErrAEADAuth | Some pt \<Rightarrow> Ok (Uint32 q, pt))))))))))
      in case opened of
           Ok (seq, plain) \<Rightarrow> acceptSeq sa seq (parseTrailer plain)
         | Err e \<Rightarrow> (Err e, sa)
         | Panic \<Rightarrow> (Panic, sa))"

definition Decrypt :: "prims \<Rightarrow> SA \<Rightarrow> bytes \<Rightarrow> (esp_err, bytes) res \<times> SA" where
  "Decrypt P sa pkt =
     (if sa_suite sa = SuiteAESCBC256SHA256 then decryptCBC P sa pkt else decryptAEAD P sa pkt)"

section \<open>The trailer\<close>

lemma pad_ok_pad:
  "i \<le> n \<Longrightarrow> n \<le> 255 \<Longrightarrow> pad_ok i (map (\<lambda>j. word_of_nat (j + 1)) [i..<n])"
proof (induction "n - i" arbitrary: i)
  case 0
  then show ?case by simp
next
  case (Suc d)
  then have "[i..<n] = i # [i + 1..<n]" by (simp add: upt_conv_Cons)
  moreover have "unat (word_of_nat (i + 1) :: byte) = i + 1"
    using Suc by (simp only: unat_of_nat_byte) simp
  ultimately show ?case using Suc by simp
qed

lemma pad_ok_iff:
  "pad_ok i bs \<longleftrightarrow> (\<forall>k < length bs. unat (bs ! k) = i + k + 1)"
  by (induction bs arbitrary: i) (auto simp: nth_Cons split: nat.splits)

lemma length_fillTrailer [simp]: "length (fillTrailer inner p) = length inner + p + 2"
  by (simp add: fillTrailer_def)

lemma parse_fillTrailer:
  assumes "p \<le> 255"
  shows "parseTrailer (fillTrailer inner p) = Ok inner"
proof -
  let ?pad = "map (\<lambda>i. word_of_nat (i + 1)) [0..<p] :: bytes"
  let ?t = "fillTrailer inner p"
  have t: "?t = (inner @ ?pad) @ [word_of_nat p, nextHeaderFor inner]"
    by (simp add: fillTrailer_def)
  have pl: "?t ! (length inner + p) = word_of_nat p"
    unfolding t by (subst nth_append_right) simp_all
  have nh: "?t ! (Suc (length inner + p)) = nextHeaderFor inner"
    unfolding t by (subst nth_append_right) simp_all
  have p: "unat (word_of_nat p :: byte) = p" using assms by (simp add: unat_of_nat_byte)
  have "nextHeaderFor inner = 4 \<or> nextHeaderFor inner = 41"
    by (simp add: nextHeaderFor_def)
  moreover have "take p (drop (length inner) ?t) = ?pad" by (simp add: fillTrailer_def)
  moreover have "take (length inner) ?t = inner" by (simp add: fillTrailer_def)
  ultimately show ?thesis using pl nh p pad_ok_pad [of 0 p] assms
    by (auto simp: parseTrailer_def Let_def)
qed

lemma parseTrailer_panic_free [no_panic]: "panic_free (parseTrailer plain)"
  unfolding parseTrailer_def Let_def
  by (intro no_panic allI impI) auto

section \<open>Well-formed associations\<close>

definition sa_ok :: "SA \<Rightarrow> bool" where
  "sa_ok sa \<longleftrightarrow>
     (if sa_suite sa = SuiteAESCBC256SHA256 then sa_outBlock sa \<noteq> None \<and> sa_inBlock sa \<noteq> None
      else sa_outAEAD sa \<noteq> None \<and> sa_inAEAD sa \<noteq> None) \<and>
     (\<exists>H. tracks (sa_replay sa) H)"

definition mirrors :: "SA \<Rightarrow> SA \<Rightarrow> bool" where
  "mirrors a b \<longleftrightarrow>
     sa_suite a = sa_suite b \<and> sa_outSPI a = sa_inSPI b \<and> sa_outBlock a = sa_inBlock b \<and>
     sa_outInteg a = sa_inInteg b \<and> sa_outAEAD a = sa_inAEAD b \<and> sa_outSalt a = sa_inSalt b"

lemma newAEAD_Ok:
  "length key = 32 \<Longrightarrow> newAEAD 1 key = Ok (GCM key)"
  "length key = 32 \<Longrightarrow> newAEAD 2 key = Ok (ChaCha key)"
  by (simp_all add: newAEAD_def aes_NewCipher_def chacha20poly1305_New_def)

text \<open>The associations \<open>NewSA\<close> builds, suite by suite.\<close>

definition cbcSA :: "u32 \<Rightarrow> u32 \<Rightarrow> bytes \<Rightarrow> bytes \<Rightarrow> bytes \<Rightarrow> bytes \<Rightarrow> u32 \<Rightarrow> SA" where
  "cbcSA outSPI inSPI outEncr outInteg inEncr inInteg n =
     \<lparr>sa_suite = 0, sa_outSPI = outSPI, sa_inSPI = inSPI,
      sa_outBlock = Some outEncr, sa_inBlock = Some inEncr,
      sa_outInteg = outInteg, sa_inInteg = inInteg, sa_outAEAD = None, sa_inAEAD = None,
      sa_outSalt = [], sa_inSalt = [], sa_seq = 0, sa_replay = NewReplayWindow n\<rparr>"

definition aeadSA :: "Suite \<Rightarrow> (bytes \<Rightarrow> aead) \<Rightarrow> u32 \<Rightarrow> u32 \<Rightarrow> bytes \<Rightarrow> bytes \<Rightarrow> u32 \<Rightarrow> SA" where
  "aeadSA suite mk outSPI inSPI outEncr inEncr n =
     \<lparr>sa_suite = suite, sa_outSPI = outSPI, sa_inSPI = inSPI,
      sa_outBlock = None, sa_inBlock = None, sa_outInteg = [], sa_inInteg = [],
      sa_outAEAD = Some (mk (take 32 outEncr)), sa_inAEAD = Some (mk (take 32 inEncr)),
      sa_outSalt = drop 32 outEncr, sa_inSalt = drop 32 inEncr,
      sa_seq = 0, sa_replay = NewReplayWindow n\<rparr>"

lemma NewSA_cbc_iff:
  "NewSA 0 so si oe og ie ig n = Ok sa \<longleftrightarrow>
     length oe = 32 \<and> length og = 32 \<and> length ie = 32 \<and> length ig = 32 \<and> sa = cbcSA so si oe og ie ig n"
  by (auto simp: NewSA_def aes_NewCipher_def cbcSA_def)

lemma NewSA_gcm_iff:
  "NewSA 1 so si oe og ie ig n = Ok sa \<longleftrightarrow>
     length oe = 36 \<and> og = [] \<and> length ie = 36 \<and> ig = [] \<and> sa = aeadSA 1 GCM so si oe ie n"
  by (auto simp: NewSA_def newAEAD_Ok aeadSA_def)

lemma NewSA_chacha_iff:
  "NewSA 2 so si oe og ie ig n = Ok sa \<longleftrightarrow>
     length oe = 36 \<and> og = [] \<and> length ie = 36 \<and> ig = [] \<and> sa = aeadSA 2 ChaCha so si oe ie n"
  by (auto simp: NewSA_def newAEAD_Ok aeadSA_def)

lemma NewSA_suite: "NewSA suite so si oe og ie ig n = Ok sa \<Longrightarrow> suite = 0 \<or> suite = 1 \<or> suite = 2"
  by (rule ccontr) (simp add: NewSA_def)

lemma NewSA_sa_ok:
  assumes "NewSA suite so si oe og ie ig n = Ok sa"
  shows "sa_ok sa" "sa_seq sa = 0" "sa_suite sa = suite" "sa_replay sa = NewReplayWindow n"
    "sa_outSPI sa = so" "sa_inSPI sa = si"
  using assms NewSA_suite [OF assms] tracks_NewReplayWindow [of n]
  by (auto simp: NewSA_cbc_iff NewSA_gcm_iff NewSA_chacha_iff cbcSA_def aeadSA_def sa_ok_def)

lemma NewSA_mirrors:
  assumes "NewSA suite spiA spiB ke ki ke' ki' n = Ok a" "NewSA suite spiB spiA ke' ki' ke ki m = Ok b"
  shows "mirrors a b"
  using assms NewSA_suite [OF assms(1)]
  by (auto simp: NewSA_cbc_iff NewSA_gcm_iff NewSA_chacha_iff cbcSA_def aeadSA_def mirrors_def)

lemma mod_less_255: "(a mod 16 :: nat) \<le> 255" "(a mod 4 :: nat) \<le> 255"
  using mod_less_divisor [of 16 a] mod_less_divisor [of 4 a] by simp_all

lemma pad_to_block: "(n + (16 - (n + 2) mod 16) mod 16 + 2) mod 16 = (0::nat)"
proof -
  have "(n + (16 - (n + 2) mod 16) mod 16 + 2) mod 16 = ((n + 2) mod 16 + (16 - (n + 2) mod 16)) mod 16"
    by (simp only: mod_add_left_eq add.assoc [of n] add.commute [of _ 2])
      (simp only: add.assoc [symmetric] mod_add_right_eq mod_add_left_eq)
  also have "(n + 2) mod 16 + (16 - (n + 2) mod 16) = 16"
    by (simp add: less_imp_le)
  finally show ?thesis by simp
qed

text \<open>
  One packet from the sender's association to the mirrored one: encryption succeeds and
  what is left of decryption is the replay check on the sequence number.
\<close>

lemma encrypt_decrypt_cbc:
  assumes "prims_ok P" "mirrors a b" "sa_suite a = 0" "sa_outBlock a = Some k" "16 \<le> length rnd"
  shows "\<exists>pkt. encryptCBC P a rnd inner seq = Ok pkt \<and> decryptCBC P b pkt = acceptSeq b seq (Ok inner)"
proof -
  define padLen where "padLen = (espBlock - (length inner + 2) mod espBlock) mod espBlock"
  define pt where "pt = fillTrailer inner padLen"
  define iv where "iv = take 16 rnd"
  define ct where "ct = cbc_enc P k iv pt"
  define hdr where "hdr = PutUint32 (sa_outSPI a) @ PutUint32 seq @ iv @ ct"
  define pkt where "pkt = hdr @ take 16 (hmac_sha256 P (sa_outInteg a) hdr)"
  have pt: "length pt mod 16 = 0" "2 \<le> length pt"
    by (simp_all only: pt_def length_fillTrailer padLen_def espBlock_def pad_to_block)
  then have ptlen: "16 \<le> length pt" by presburger
  have iv: "length iv = 16" using assms by (simp add: iv_def)
  have ct: "length ct = length pt" "cbc_dec P k iv ct = pt"
    using assms(1) pt by (simp_all add: ct_def cbc_roundtrip)
  have mac: "length (hmac_sha256 P (sa_outInteg a) hdr) = 32" using assms(1) by (rule length_hmac)
  have enc: "encryptCBC P a rnd inner seq = Ok pkt"
    using assms iv pt(1) mac
    unfolding pkt_def hdr_def ct_def pt_def iv_def padLen_def
    by (simp add: encryptCBC_def Let_def ReadFull_def cbc_encrypt_def)
  have len: "length hdr = 24 + length pt" "length pkt = 40 + length pt"
    using iv ct mac by (simp_all add: hdr_def pkt_def)
  have parts: "take 4 pkt = PutUint32 (sa_outSPI a)" "take 4 (drop 4 pkt) = PutUint32 seq"
    "take 16 (drop 8 pkt) = iv" "take (length pt) (drop 24 pkt) = ct"
    "take (24 + length pt) pkt = hdr" "drop (24 + length pt) pkt = take 16 (hmac_sha256 P (sa_outInteg a) hdr)"
    using iv ct len by (simp_all add: pkt_def hdr_def)
  have "parseTrailer pt = Ok inner"
    unfolding pt_def padLen_def espBlock_def by (intro parse_fillTrailer mod_less_255)
  moreover have "sa_inBlock b = Some k" "sa_inSPI b = sa_outSPI a" "sa_inInteg b = sa_outInteg a"
    using assms(2,4) by (simp_all add: mirrors_def)
  moreover have "ct \<noteq> []" using ct(1) ptlen by auto
  ultimately have "decryptCBC P b pkt = acceptSeq b seq (Ok inner)"
    using len ptlen ct pt mac parts iv by (simp add: decryptCBC_def cbc_decrypt_def)
  with enc show ?thesis by blast
qed

lemma encrypt_decrypt_aead:
  assumes "prims_ok P" "mirrors a b" "sa_outAEAD a = Some k"
  shows "\<exists>pkt. encryptAEAD P a inner seq = Ok pkt \<and> decryptAEAD P b pkt = acceptSeq b seq (Ok inner)"
proof -
  define padLen where "padLen = (4 - (length inner + 2) mod 4) mod 4"
  define pt where "pt = fillTrailer inner padLen"
  define iv where "iv = PutUint64 (ucast seq)"
  define nonce where "nonce = copy (zeros aeadSaltLen) (sa_outSalt a) @ copy (zeros aeadIVLen) iv"
  define hdr where "hdr = PutUint32 (sa_outSPI a) @ PutUint32 seq"
  have n: "length nonce = 12" by (simp add: nonce_def)
  then obtain ct where seal: "\<And>dummy. Seal P k nonce pt hdr = (Ok ct :: (esp_err, bytes) res)"
    by (cases k) (auto simp: Seal_def)
  have ct: "length ct = length pt + 16" "Open P k nonce ct hdr = (Ok (Some pt) :: (esp_err, bytes option) res)"
    using Seal_Ok [OF assms(1) n seal] by simp_all
  define pkt where "pkt = hdr @ iv @ ct"
  have enc: "encryptAEAD P a inner seq = Ok pkt"
    using assms(3) seal unfolding pkt_def hdr_def nonce_def pt_def iv_def padLen_def
    by (simp add: encryptAEAD_def Let_def)
  have len: "length hdr = 8" "length iv = 8" "2 \<le> length pt" "length pkt = 32 + length pt"
    using ct by (simp_all add: hdr_def iv_def pt_def pkt_def)
  have parts: "take 4 pkt = PutUint32 (sa_outSPI a)" "take 4 (drop 4 pkt) = PutUint32 seq"
    "take 8 (drop 8 pkt) = iv" "drop 16 pkt = ct" "take 8 pkt = hdr"
    using len by (simp_all add: pkt_def hdr_def)
  have "parseTrailer pt = Ok inner"
    unfolding pt_def padLen_def by (intro parse_fillTrailer mod_less_255)
  moreover have "nonce = copy (zeros aeadSaltLen) (sa_inSalt b) @ copy (zeros aeadIVLen) iv"
    using assms(2) by (simp add: nonce_def mirrors_def)
  moreover have "sa_inAEAD b = Some k" "sa_inSPI b = sa_outSPI a"
    using assms(2,3) by (simp_all add: mirrors_def)
  ultimately have "decryptAEAD P b pkt = acceptSeq b seq (Ok inner)"
    using len ct parts by (simp add: decryptAEAD_def)
  with enc show ?thesis by blast
qed

lemma encrypt_decrypt:
  assumes "prims_ok P" "sa_ok a" "mirrors a b" "sa_seq a \<noteq> NOT 0" "16 \<le> length rnd"
  shows "\<exists>pkt. Encrypt P a rnd inner = (Ok pkt, a\<lparr>sa_seq := sa_seq a + 1\<rparr>) \<and>
     Decrypt P b pkt = acceptSeq b (sa_seq a + 1) (Ok inner)"
proof -
  let ?a = "a\<lparr>sa_seq := sa_seq a + 1\<rparr>"
  have m: "mirrors ?a b" "sa_suite b = sa_suite a" using assms(3) by (simp_all add: mirrors_def)
  show ?thesis
  proof (cases "sa_suite a = 0")
    case True
    with assms(2) obtain k where "sa_outBlock ?a = Some k" by (auto simp: sa_ok_def)
    from encrypt_decrypt_cbc [OF assms(1) m(1) _ this assms(5), of inner "sa_seq a + 1"] True m(2) assms(4)
    show ?thesis by (auto simp: Encrypt_def Decrypt_def nextSeq_def Let_def)
  next
    case False
    with assms(2) obtain k where "sa_outAEAD ?a = Some k" by (auto simp: sa_ok_def)
    from encrypt_decrypt_aead [OF assms(1) m(1) this, of inner "sa_seq a + 1"] False m(2) assms(4)
    show ?thesis by (auto simp: Encrypt_def Decrypt_def nextSeq_def Let_def)
  qed
qed

lemma acceptSeq_spec:
  assumes "tracks (sa_replay sa) H"
  shows "\<exists>w'. acceptSeq sa seq k =
      (if admits (width (sa_replay sa)) H (unat seq) then k else Err ErrReplay, sa\<lparr>sa_replay := w'\<rparr>) \<and>
    tracks w' (remember (width (sa_replay sa)) H (unat seq)) \<and> width w' = width (sa_replay sa)"
  using rw.accept_refines [OF assms, of seq] by (auto simp: acceptSeq_def)

lemma cbcSA_ok: "sa_ok (cbcSA so si oe og ie ig n)"
  and aeadSA_ok: "suite \<noteq> 0 \<Longrightarrow> sa_ok (aeadSA suite mk so si oe ie n)"
  using tracks_NewReplayWindow by (auto simp: sa_ok_def cbcSA_def aeadSA_def)

section \<open>What decryption can do\<close>

text \<open>
  The sequence number a packet carries, and whether its ICV or AEAD tag verifies under the
  association's inbound keys.
\<close>

definition seqOf :: "bytes \<Rightarrow> u32" where
  "seqOf pkt = Uint32 (take 4 (drop 4 pkt))"

definition authentic :: "prims \<Rightarrow> SA \<Rightarrow> bytes \<Rightarrow> bool" where
  "authentic P sa pkt \<longleftrightarrow>
     (if sa_suite sa = SuiteAESCBC256SHA256 then
        drop (length pkt - 16) pkt = take 16 (hmac_sha256 P (sa_inInteg sa) (take (length pkt - 16) pkt))
      else case sa_inAEAD sa of None \<Rightarrow> False
        | Some a \<Rightarrow>
            (case (Open P a (copy (zeros 4) (sa_inSalt sa) @ take 8 (drop 8 pkt)) (drop 16 pkt) (take 8 pkt)
                    :: (esp_err, bytes option) res) of
               Ok (Some _) \<Rightarrow> True | _ \<Rightarrow> False))"

lemma decryptCBC_shape:
  assumes "prims_ok P" "sa_suite sa = 0" "sa_inBlock sa \<noteq> None"
  shows "(\<exists>e. decryptCBC P sa pkt = (Err e, sa)) \<or>
     (authentic P sa pkt \<and> Uint32 (take 4 pkt) = sa_inSPI sa \<and> (\<exists>k. panic_free k \<and> decryptCBC P sa pkt = acceptSeq sa (seqOf pkt) k))"
proof (cases "length pkt < 56 \<or> Uint32 (take 4 pkt) \<noteq> sa_inSPI sa \<or> \<not> authentic P sa pkt")
  case True
  moreover have "length (hmac_sha256 P (sa_inInteg sa) d) = 32" for d using assms(1) by (rule length_hmac)
  ultimately have "\<exists>e. decryptCBC P sa pkt = (Err e, sa)" using assms(2)
    by (auto simp: decryptCBC_def guardR_def authentic_def)
  then show ?thesis by blast
next
  case False
  obtain blk where blk: "sa_inBlock sa = Some blk" using assms(3) by blast
  define k where "k = bindR (slice pkt espHeaderLen (espHeaderLen + cbcIVLen)) (\<lambda>iv.
    bindR (slice pkt (espHeaderLen + cbcIVLen) (length pkt - espICVLen)) (\<lambda>ct.
    guardR (length ct = 0 \<or> length ct mod espBlock \<noteq> 0) ErrNotBlockAligned
    (bindR (deref (sa_inBlock sa)) (\<lambda>blk. bindR (cbc_decrypt P blk iv ct) parseTrailer))))"
  have mac: "length (hmac_sha256 P (sa_inInteg sa) d) = 32" for d using assms(1) by (rule length_hmac)
  have "panic_free k"
    unfolding k_def using False by (intro no_panic) (auto simp: blk slice_eq_Ok intro!: no_panic)
  moreover have "decryptCBC P sa pkt = acceptSeq sa (seqOf pkt) k"
    unfolding k_def using False mac assms(2) by (simp add: decryptCBC_def authentic_def seqOf_def)
  ultimately show ?thesis using False by blast
qed

lemma decryptAEAD_shape:
  assumes "sa_suite sa \<noteq> 0" "sa_inAEAD sa \<noteq> None"
  shows "(\<exists>e. decryptAEAD P sa pkt = (Err e, sa)) \<or>
     (authentic P sa pkt \<and> Uint32 (take 4 pkt) = sa_inSPI sa \<and> (\<exists>k. panic_free k \<and> decryptAEAD P sa pkt = acceptSeq sa (seqOf pkt) k))"
proof (cases "length pkt < 34 \<or> Uint32 (take 4 pkt) \<noteq> sa_inSPI sa")
  case True
  then have "\<exists>e. decryptAEAD P sa pkt = (Err e, sa)" by (auto simp: decryptAEAD_def guardR_def)
  then show ?thesis by blast
next
  case False
  obtain a where a: "sa_inAEAD sa = Some a" using assms(2) by blast
  let ?nonce = "copy (zeros 4) (sa_inSalt sa) @ take 8 (drop 8 pkt)"
  have "length ?nonce = 12" using False by auto
  then obtain po where po: "(Open P a ?nonce (drop 16 pkt) (take 8 pkt) :: (esp_err, bytes option) res) = Ok po"
    by (cases a) (auto simp: Open_def)
  moreover have iv: "copy (zeros 8) (take 8 (drop 8 pkt)) = take 8 (drop 8 pkt)"
    using False by (intro copy_same) auto
  ultimately have "decryptAEAD P sa pkt =
     (case po of None \<Rightarrow> (Err ErrAEADAuth, sa) | Some pt \<Rightarrow> acceptSeq sa (seqOf pkt) (parseTrailer pt))"
    using False po a by (simp add: decryptAEAD_def seqOf_def split: option.split)
  moreover have "authentic P sa pkt \<longleftrightarrow> po \<noteq> None"
    using assms(1) a po by (auto simp: authentic_def split: option.splits)
  ultimately show ?thesis using False parseTrailer_panic_free by (cases po) auto
qed

lemma Decrypt_shape:
  assumes "prims_ok P" "sa_ok sa"
  obtains (rejected) e where "Decrypt P sa pkt = (Err e, sa)"
  | (checked) k where "authentic P sa pkt" "Uint32 (take 4 pkt) = sa_inSPI sa" "panic_free k"
      "Decrypt P sa pkt = acceptSeq sa (seqOf pkt) k"
  using decryptCBC_shape [OF assms(1), of sa pkt] decryptAEAD_shape [of sa P pkt] assms(2)
  by (cases "sa_suite sa = 0") (auto simp: sa_ok_def Decrypt_def)

lemma sa_ok_replay: "sa_ok sa \<Longrightarrow> tracks w H \<Longrightarrow> sa_ok (sa\<lparr>sa_replay := w\<rparr>)"
  by (auto simp: sa_ok_def)

lemma Decrypt_sa_ok:
  assumes "prims_ok P" "sa_ok sa"
  shows "fst (Decrypt P sa pkt) \<noteq> Panic" "sa_ok (snd (Decrypt P sa pkt))"
proof -
  obtain H where H: "tracks (sa_replay sa) H" using assms(2) by (auto simp: sa_ok_def)
  have "fst (Decrypt P sa pkt) \<noteq> Panic \<and> sa_ok (snd (Decrypt P sa pkt))"
    using assms
  proof (cases rule: Decrypt_shape [where pkt = pkt])
    case (rejected e)
    then show ?thesis using assms(2) by simp
  next
    case (checked k)
    then show ?thesis using acceptSeq_spec [OF H, of "seqOf pkt" k] sa_ok_replay [OF assms(2)]
      by (auto simp: panic_free_def split: if_splits)
  qed
  then show "fst (Decrypt P sa pkt) \<noteq> Panic" "sa_ok (snd (Decrypt P sa pkt))" by simp_all
qed


section \<open>Runs of packets\<close>

text \<open>
  \<open>sendAll\<close> encrypts a list of datagrams, each with the octets \<open>crypto/rand\<close> offers for it;
  \<open>delivered\<close> decrypts a list of packets and keeps those that yield a datagram.
\<close>

primrec sendAll :: "prims \<Rightarrow> SA \<Rightarrow> (bytes \<times> bytes) list \<Rightarrow> (esp_err, bytes) res list" where
  "sendAll P sa [] = []"
| "sendAll P sa (x # xs) =
     (let (r, sa') = Encrypt P sa (fst x) (snd x) in r # sendAll P sa' xs)"

primrec delivered :: "prims \<Rightarrow> SA \<Rightarrow> bytes list \<Rightarrow> (bytes \<times> bytes) list" where
  "delivered P sa [] = []"
| "delivered P sa (pkt # pkts) =
     (let (r, sa') = Decrypt P sa pkt in
      (case r of Ok inner \<Rightarrow> [(pkt, inner)] | _ \<Rightarrow> []) @ delivered P sa' pkts)"

fun oks :: "('e, 'a) res list \<Rightarrow> 'a list" where
  "oks [] = []"
| "oks (Ok x # rs) = x # oks rs"
| "oks (_ # rs) = oks rs"

lemma tunnel_run:
  assumes "prims_ok P" "sa_ok a" "mirrors a b" "tracks (sa_replay b) H"
    "\<forall>h\<in>H. h \<le> unat (sa_seq a)" "unat (sa_seq a) + length xs < 2 ^ 32"
    "\<forall>x\<in>set xs. 16 \<le> length (fst x)"
  shows "\<exists>pkts. sendAll P a xs = map Ok pkts \<and> map snd (delivered P b pkts) = map snd xs"
  using assms
proof (induction xs arbitrary: a b H)
  case Nil
  then show ?case by (intro exI [of _ "[]"]) simp
next
  case (Cons x xs)
  let ?s = "sa_seq a + 1" and ?a = "a\<lparr>sa_seq := sa_seq a + 1\<rparr>"
  have s: "unat ?s = unat (sa_seq a) + 1"
    using Cons.prems(6) by (simp add: unat_word_ariths)
  have ne: "sa_seq a \<noteq> NOT 0"
    using Cons.prems(6) by (auto simp: unsigned_minus_1_eq_mask mask_eq_exp_minus_1)
  have len: "16 \<le> length (fst x)" using Cons.prems(7) by simp
  obtain pkt where pkt: "Encrypt P a (fst x) (snd x) = (Ok pkt, ?a)"
    "Decrypt P b pkt = acceptSeq b ?s (Ok (snd x))"
    using encrypt_decrypt [OF Cons.prems(1-3) ne len] by blast
  let ?n = "width (sa_replay b)"
  have adm: "admits ?n H (unat ?s)"
    using Cons.prems(5) s by (fastforce simp: admits_def)
  obtain w where w: "acceptSeq b ?s (Ok (snd x)) = (Ok (snd x), b\<lparr>sa_replay := w\<rparr>)"
    "tracks w (insert (unat ?s) H)"
    using acceptSeq_spec [OF Cons.prems(4), of ?s "Ok (snd x)"] adm by (auto simp: remember_def)
  have "sa_ok ?a" using Cons.prems(2) by (simp add: sa_ok_def)
  moreover have "mirrors ?a (b\<lparr>sa_replay := w\<rparr>)" using Cons.prems(3) by (simp add: mirrors_def)
  moreover note Cons.IH [OF Cons.prems(1), of ?a "b\<lparr>sa_replay := w\<rparr>", of "insert (unat ?s) H"]
  ultimately obtain pkts where
    "sendAll P ?a xs = map Ok pkts" "map snd (delivered P (b\<lparr>sa_replay := w\<rparr>) pkts) = map snd xs"
    using w(2) Cons.prems(5-7) s by fastforce
  then show ?case using pkt w(1) by (intro exI [of _ "pkt # pkts"]) simp
qed

lemma Encrypt_seqOf:
  assumes "Encrypt P sa rnd inner = (r, sa')"
  shows "sa_seq sa = NOT 0 \<and> r = Err ErrSeqExhausted \<and> sa' = sa \<or>
     sa_seq sa \<noteq> NOT 0 \<and> sa' = sa\<lparr>sa_seq := sa_seq sa + 1\<rparr> \<and>
     (\<forall>pkt. r = Ok pkt \<longrightarrow> seqOf pkt = sa_seq sa + 1 \<and>
        (sa_suite sa \<noteq> 0 \<longrightarrow> take 8 (drop 8 pkt) = PutUint64 (ucast (sa_seq sa + 1))))"
proof (cases "sa_seq sa = NOT 0")
  case True
  then show ?thesis using assms by (simp add: Encrypt_def nextSeq_def)
next
  case False
  have "seqOf pkt = seq" if "encryptCBC P sa1 rnd inner seq = Ok pkt" for pkt seq sa1
    using that by (auto simp: encryptCBC_def Let_def seqOf_def)
  moreover have "seqOf pkt = seq \<and> take 8 (drop 8 pkt) = PutUint64 (ucast seq)"
    if "encryptAEAD P sa1 inner seq = Ok pkt" for pkt seq sa1
    using that by (auto simp: encryptAEAD_def Let_def seqOf_def)
  ultimately show ?thesis using assms False
    by (auto simp: Encrypt_def nextSeq_def Let_def split: if_splits)
qed

lemma word_succ:
  fixes s :: u32
  assumes "s \<noteq> NOT 0"
  shows "unat (s + 1) = unat s + 1" "s < s + 1"
proof -
  have "1 + s \<noteq> 0" using assms by (metis add.commute add_eq_0_iff bit.compl_zero)
  then show "unat (s + 1) = unat s + 1" using unatSuc [of s] by (simp add: add.commute [of s 1])
  then show "s < s + 1" by (simp add: word_less_nat_alt)
qed

lemma sendAll_seqs:
  "sorted_wrt (<) (map seqOf (oks (sendAll P sa xs))) \<and> (\<forall>p\<in>set (oks (sendAll P sa xs)). sa_seq sa < seqOf p) \<and>
   (sa_suite sa \<noteq> 0 \<longrightarrow> (\<forall>p\<in>set (oks (sendAll P sa xs)). take 8 (drop 8 p) = PutUint64 (ucast (seqOf p))))"
proof (induction xs arbitrary: sa)
  case Nil
  show ?case by simp
next
  case (Cons x xs)
  obtain r sa' where e: "Encrypt P sa (fst x) (snd x) = (r, sa')" by fastforce
  show ?case
  proof (cases "sa_seq sa = NOT 0")
    case True
    then show ?thesis using Encrypt_seqOf [OF e] Cons.IH [of sa] e by auto
  next
    case False
    have sa': "sa' = sa\<lparr>sa_seq := sa_seq sa + 1\<rparr>" using Encrypt_seqOf [OF e] False by simp
    show ?thesis
    proof (cases r)
      case (Ok pkt)
      then show ?thesis using Encrypt_seqOf [OF e] Cons.IH [of sa'] e word_succ(2) [OF False] sa'
        by auto
    qed (use Cons.IH [of sa'] e word_succ(2) [OF False] sa' in auto)
  qed
qed

lemma delivered_seqs:
  assumes "prims_ok P" "sa_ok sa" "tracks (sa_replay sa) H"
  shows "distinct (map (\<lambda>x. seqOf (fst x)) (delivered P sa pkts)) \<and>
     unat ` seqOf ` fst ` set (delivered P sa pkts) \<inter> H = {}"
  using assms(2,3)
proof (induction pkts arbitrary: sa H)
  case Nil
  show ?case by simp
next
  case (Cons pkt pkts)
  from assms(1) Cons.prems(1) show ?case
  proof (cases rule: Decrypt_shape [where pkt = pkt])
    case (rejected e)
    then show ?thesis using Cons.IH [OF Cons.prems] by simp
  next
    case (checked k)
    let ?H = "remember (width (sa_replay sa)) H (unat (seqOf pkt))"
    obtain w where w: "acceptSeq sa (seqOf pkt) k =
       (if admits (width (sa_replay sa)) H (unat (seqOf pkt)) then k else Err ErrReplay, sa\<lparr>sa_replay := w\<rparr>)"
      "tracks w ?H"
      using acceptSeq_spec [OF Cons.prems(2)] by blast
    have IH: "distinct (map (\<lambda>x. seqOf (fst x)) (delivered P (sa\<lparr>sa_replay := w\<rparr>) pkts)) \<and>
      unat ` seqOf ` fst ` set (delivered P (sa\<lparr>sa_replay := w\<rparr>) pkts) \<inter> ?H = {}"
      using w(2) sa_ok_replay [OF Cons.prems(1) w(2)] by (intro Cons.IH) simp_all
    have del: "delivered P sa (pkt # pkts) =
       (case (if admits (width (sa_replay sa)) H (unat (seqOf pkt)) then k else Err ErrReplay) of
          Ok inner \<Rightarrow> [(pkt, inner)] | _ \<Rightarrow> []) @ delivered P (sa\<lparr>sa_replay := w\<rparr>) pkts"
      by (simp add: w(1) checked(4))
    show ?thesis
    proof (cases "admits (width (sa_replay sa)) H (unat (seqOf pkt))")
      case True
      then have H: "?H = insert (unat (seqOf pkt)) H" "unat (seqOf pkt) \<notin> H"
        by (simp_all add: remember_def admits_def)
      show ?thesis
      proof (cases k)
        case (Ok inner)
        with IH H True show ?thesis unfolding del by (auto simp: image_iff)
      qed (use IH H True in \<open>simp_all add: del del: delivered.simps\<close>)
    next
      case False
      then have "?H = H" by (simp add: remember_def)
      with IH False show ?thesis unfolding del by simp
    qed
  qed
qed

section \<open>Interleaved allocation of sequence numbers\<close>

text \<open>
  The allocation loop of \<open>Encrypt\<close> as run by any number of goroutines that share the
  atomic counter.  A goroutine loads the counter, gives up on \<open>2^32 - 1\<close>, and otherwise
  tries the compare-and-swap; a failed swap goes back to the load.  \<open>al_log\<close> records the
  numbers handed out, latest first.
\<close>

datatype alloc_pc = AtLoad | Loaded u32 | Got u32 | Exhausted

record alloc =
  al_seq :: u32
  al_pc :: "nat \<Rightarrow> alloc_pc"
  al_log :: "u32 list"

inductive alloc_step :: "alloc \<Rightarrow> alloc \<Rightarrow> bool" where
  load: "al_pc s t = AtLoad \<Longrightarrow> alloc_step s (s\<lparr>al_pc := (al_pc s)(t := Loaded (al_seq s))\<rparr>)"
| exhausted: "al_pc s t = Loaded cur \<Longrightarrow> cur = NOT 0 \<Longrightarrow>
    alloc_step s (s\<lparr>al_pc := (al_pc s)(t := Exhausted)\<rparr>)"
| swap: "al_pc s t = Loaded cur \<Longrightarrow> cur \<noteq> NOT 0 \<Longrightarrow> al_seq s = cur \<Longrightarrow>
    alloc_step s \<lparr>al_seq = cur + 1, al_pc = (al_pc s)(t := Got (cur + 1)), al_log = (cur + 1) # al_log s\<rparr>"
| retry: "al_pc s t = Loaded cur \<Longrightarrow> cur \<noteq> NOT 0 \<Longrightarrow> al_seq s \<noteq> cur \<Longrightarrow>
    alloc_step s (s\<lparr>al_pc := (al_pc s)(t := AtLoad)\<rparr>)"
| again: "al_pc s t = Got q \<or> al_pc s t = Exhausted \<Longrightarrow>
    alloc_step s (s\<lparr>al_pc := (al_pc s)(t := AtLoad)\<rparr>)"

definition alloc_init :: alloc where
  "alloc_init = \<lparr>al_seq = 0, al_pc = (\<lambda>_. AtLoad), al_log = []\<rparr>"

definition alloc_inv :: "alloc \<Rightarrow> bool" where
  "alloc_inv s \<longleftrightarrow> map unat (rev (al_log s)) = [1..<unat (al_seq s) + 1] \<and>
     (\<forall>t cur. al_pc s t = Loaded cur \<longrightarrow> cur \<le> al_seq s)"

lemma alloc_inv_step: "alloc_step s s' \<Longrightarrow> alloc_inv s \<Longrightarrow> alloc_inv s'"
proof (induction rule: alloc_step.induct)
  case (swap s t cur)
  have lt: "cur < cur + 1" "unat (cur + 1) = unat cur + 1" using word_succ [OF swap(2)] by simp_all
  then show ?case using swap by (fastforce simp: alloc_inv_def)
qed (auto simp: alloc_inv_def)

lemma alloc_inv_reachable: "alloc_step\<^sup>*\<^sup>* alloc_init s \<Longrightarrow> alloc_inv s"
  by (induction rule: rtranclp_induct) (auto simp: alloc_inv_step, simp add: alloc_inv_def alloc_init_def)

section \<open>Properties\<close>

text \<open>
  A packet from \<open>Encrypt\<close> on one end, whatever the suite and the datagram,
  decrypts on the mirrored end to that datagram if the receiver's window admits its sequence
  number, and is refused with \<open>ErrReplay\<close> otherwise; the receiver's window then records the
  number, and the sender's counter has advanced by one.
\<close>

lemma esp_roundtrip:
  assumes "prims_ok P" "sa_ok a" "mirrors a b" "sa_seq a \<noteq> NOT 0" "16 \<le> length rnd"
    and "tracks (sa_replay b) H"
  shows "\<exists>pkt w. Encrypt P a rnd inner = (Ok pkt, a\<lparr>sa_seq := sa_seq a + 1\<rparr>) \<and>
     Decrypt P b pkt =
       (if admits (width (sa_replay b)) H (unat (sa_seq a + 1)) then Ok inner else Err ErrReplay,
        b\<lparr>sa_replay := w\<rparr>) \<and>
     tracks w (remember (width (sa_replay b)) H (unat (sa_seq a + 1)))"
proof -
  obtain pkt where "Encrypt P a rnd inner = (Ok pkt, a\<lparr>sa_seq := sa_seq a + 1\<rparr>)"
    "Decrypt P b pkt = acceptSeq b (sa_seq a + 1) (Ok inner)"
    using encrypt_decrypt [OF assms(1-5)] by blast
  then show ?thesis using acceptSeq_spec [OF assms(6), of "sa_seq a + 1" "Ok inner"] by auto
qed

text \<open>
  C1 (functional).  Two associations built by \<open>NewSA\<close> from mirrored SPIs and keys carry
  every datagram of a run, in order and unchanged, up to the exhaustion of the 32-bit
  sequence space.
\<close>

theorem esp_tunnel_delivers:
  assumes "prims_ok P"
    and "NewSA suite spiA spiB ke ki ke' ki' n = Ok a" "NewSA suite spiB spiA ke' ki' ke ki m = Ok b"
    and "length xs < 2 ^ 32" "\<forall>x\<in>set xs. 16 \<le> length (fst x)"
  shows "\<exists>pkts. sendAll P a xs = map Ok pkts \<and> map snd (delivered P b pkts) = map snd xs"
  using NewSA_sa_ok [OF assms(2)] NewSA_sa_ok [OF assms(3)] NewSA_mirrors [OF assms(2,3)]
    assms(1,4,5) tracks_NewReplayWindow [of m]
  by (intro tunnel_run [where H = "{}"]) simp_all

theorem esp_tunnel_delivers_witness:
  "\<exists>pkts. sendAll plain_prims (aeadSA 1 GCM 7 9 (zeros 36) (zeros 36) 64) [(zeros 16, [69]), (zeros 16, [96, 2])] = map Ok pkts \<and>
     map snd (delivered plain_prims (aeadSA 1 GCM 9 7 (zeros 36) (zeros 36) 64) pkts) = [[69], [96, 2]]"
  using esp_tunnel_delivers [OF plain_prims_ok, of 1 7 9 "zeros 36" "[]" "zeros 36" "[]" 64
      "aeadSA 1 GCM 7 9 (zeros 36) (zeros 36) 64" 64 "aeadSA 1 GCM 9 7 (zeros 36) (zeros 36) 64"
      "[(zeros 16, [69]), (zeros 16, [96, 2])]"]
  by (simp add: NewSA_gcm_iff del: sendAll.simps)

text \<open>
  However many datagrams are encrypted, the packets an AEAD association emits
  have strictly increasing sequence numbers and pairwise different IVs: a nonce is never
  used twice under one key, not even when the counter reaches its end.
\<close>

lemma esp_nonce_unique:
  assumes "sa_suite sa \<noteq> SuiteAESCBC256SHA256"
  shows "sorted_wrt (<) (map seqOf (oks (sendAll P sa xs))) \<and>
     (\<forall>pkt\<in>set (oks (sendAll P sa xs)). sa_seq sa < seqOf pkt) \<and>
     distinct (map (\<lambda>pkt. take 8 (drop 8 pkt)) (oks (sendAll P sa xs)))"
proof -
  let ?ps = "oks (sendAll P sa xs)"
  have seqs: "sorted_wrt (<) (map seqOf ?ps)" "\<forall>p\<in>set ?ps. sa_seq sa < seqOf p"
    and iv: "\<forall>p\<in>set ?ps. take 8 (drop 8 p) = PutUint64 (ucast (seqOf p))"
    using sendAll_seqs [of P sa xs] assms by simp_all
  have "distinct (map seqOf ?ps)" using seqs(1) by (simp add: strict_sorted_iff)
  moreover have "inj_on (\<lambda>s. PutUint64 (ucast s)) (UNIV :: u32 set)"
    by (intro inj_onI) (metis PutUint64_inject unat_ucast_u64 word_unat_eq_iff)
  ultimately have "distinct (map (\<lambda>s. PutUint64 (ucast s)) (map seqOf ?ps))"
    by (simp add: distinct_map inj_on_def del: map_map)
  moreover have "map (\<lambda>p. take 8 (drop 8 p)) ?ps = map (\<lambda>s. PutUint64 (ucast s)) (map seqOf ?ps)"
    using iv by simp
  ultimately have "distinct (map (\<lambda>p. take 8 (drop 8 p)) ?ps)" by (simp only:)
  with seqs show ?thesis by blast
qed

text \<open>
  C25 (safety).  Whatever octets arrive, \<open>Decrypt\<close> on a well-formed association does not
  panic and leaves it well-formed; a packet whose ICV or tag does not verify, or whose SPI is
  not the association's, is an error that leaves the association, and so its replay window,
  exactly as it was.
\<close>

theorem esp_unauthenticated_inert:
  assumes "prims_ok P" "sa_ok sa"
  shows "fst (Decrypt P sa pkt) \<noteq> Panic \<and> sa_ok (snd (Decrypt P sa pkt)) \<and>
     (\<not> authentic P sa pkt \<or> Uint32 (take 4 pkt) \<noteq> sa_inSPI sa \<longrightarrow> (\<exists>e. Decrypt P sa pkt = (Err e, sa)))"
  using Decrypt_sa_ok [OF assms, of pkt] by (cases rule: Decrypt_shape [OF assms, of pkt]) auto

theorem esp_unauthenticated_inert_witness:
  "sa_ok (cbcSA 7 9 (zeros 32) (zeros 32) (zeros 32) (zeros 32) 64) \<and>
   Uint32 (take 4 [1, 2, 3, 4, 5]) \<noteq> sa_inSPI (cbcSA 7 9 (zeros 32) (zeros 32) (zeros 32) (zeros 32) 64) \<and>
   (\<exists>e. Decrypt plain_prims (cbcSA 7 9 (zeros 32) (zeros 32) (zeros 32) (zeros 32) 64) [1, 2, 3, 4, 5] =
     (Err e, cbcSA 7 9 (zeros 32) (zeros 32) (zeros 32) (zeros 32) 64))"
proof -
  let ?sa = "cbcSA 7 9 (zeros 32) (zeros 32) (zeros 32) (zeros 32) 64"
  have ok: "sa_ok ?sa" by (rule cbcSA_ok)
  have "Uint32 (take 4 [1, 2, 3, 4, 5]) \<noteq> sa_inSPI ?sa" by (simp add: cbcSA_def Uint32_def get_be_def)
  with ok esp_unauthenticated_inert [OF plain_prims_ok ok, of "[1, 2, 3, 4, 5]"] show ?thesis by blast
qed

text \<open>
  Over any sequence of received packets, genuine, forged, replayed or
  reordered, no two packets that yield a datagram carry the same sequence number.
\<close>

lemma esp_no_double_delivery:
  assumes "prims_ok P" "sa_ok sa"
  shows "distinct (map (\<lambda>x. seqOf (fst x)) (delivered P sa pkts))"
proof -
  obtain H where "tracks (sa_replay sa) H" using assms(2) by (auto simp: sa_ok_def)
  then show ?thesis using delivered_seqs [OF assms] by blast
qed

text \<open>
  C28 (safety).  However the goroutines that share an association interleave in the
  allocation loop, the numbers they obtain are \<open>1, 2, 3, ...\<close> without repetition and without
  a gap, and the counter never wraps; a failed swap means that another goroutine has
  obtained a number since the load.
\<close>

theorem esp_alloc_unique:
  assumes "alloc_step\<^sup>*\<^sup>* alloc_init s"
  shows "map unat (rev (al_log s)) = [1..<unat (al_seq s) + 1] \<and>
     (\<forall>t cur. al_pc s t = Loaded cur \<and> cur \<noteq> al_seq s \<longrightarrow> cur < al_seq s)"
  using alloc_inv_reachable [OF assms] by (auto simp: alloc_inv_def less_le)

theorem esp_alloc_unique_witness:
  "\<exists>s. alloc_step\<^sup>*\<^sup>* alloc_init s \<and> al_seq s = 1 \<and> map unat (rev (al_log s)) = [1]"
proof -
  let ?s1 = "alloc_init\<lparr>al_pc := (al_pc alloc_init)(0 := Loaded (al_seq alloc_init))\<rparr>"
  let ?s2 = "\<lparr>al_seq = 0 + 1, al_pc = (al_pc ?s1)(0 := Got (0 + 1)), al_log = (0 + 1) # al_log ?s1\<rparr>"
  have "alloc_step alloc_init ?s1" by (rule alloc_step.load) (simp add: alloc_init_def)
  moreover have "alloc_step ?s1 ?s2" by (rule alloc_step.swap) (simp_all add: alloc_init_def)
  ultimately have r: "alloc_step\<^sup>*\<^sup>* alloc_init ?s2" by (rule rtranclp.rtrancl_into_rtrancl [OF r_into_rtranclp])
  have "map unat (rev (al_log ?s2)) = [1..<unat (al_seq ?s2) + 1]" using esp_alloc_unique [OF r] by blast
  with r show ?thesis by (intro exI [of _ ?s2]) (simp add: alloc_init_def)
qed

end
