(* ===== verification/Ikemsg_Const.thy ===== *)
theory Ikemsg_Const
  imports Go_Prelude
begin

text \<open>
  The registries of \<open>internal/ikemsg/const.go\<close>: every named type is the machine integer it is
  declared over, every constant has its source value.
\<close>

unbundle bit_operations_syntax

type_synonym PayloadType = byte
type_synonym ExchangeType = byte
type_synonym ProtocolID = byte
type_synonym TransformType = byte
type_synonym NotifyType = u16
type_synonym IDType = byte
type_synonym ConfigType = byte
type_synonym ConfigAttrType = u16
type_synonym TSType = byte
type_synonym CertEncoding = byte
type_synonym Flags = byte

definition PayloadNone :: PayloadType where [simp]: "PayloadNone = 0"
definition PayloadSA :: PayloadType where [simp]: "PayloadSA = 33"
definition PayloadKE :: PayloadType where [simp]: "PayloadKE = 34"
definition PayloadIDi :: PayloadType where [simp]: "PayloadIDi = 35"
definition PayloadIDr :: PayloadType where [simp]: "PayloadIDr = 36"
definition PayloadCert :: PayloadType where [simp]: "PayloadCert = 37"
definition PayloadCertReq :: PayloadType where [simp]: "PayloadCertReq = 38"
definition PayloadAuth :: PayloadType where [simp]: "PayloadAuth = 39"
definition PayloadNonce :: PayloadType where [simp]: "PayloadNonce = 40"
definition PayloadNotify :: PayloadType where [simp]: "PayloadNotify = 41"
definition PayloadDelete :: PayloadType where [simp]: "PayloadDelete = 42"
definition PayloadVendorID :: PayloadType where [simp]: "PayloadVendorID = 43"
definition PayloadTSi :: PayloadType where [simp]: "PayloadTSi = 44"
definition PayloadTSr :: PayloadType where [simp]: "PayloadTSr = 45"
definition PayloadSK :: PayloadType where [simp]: "PayloadSK = 46"
definition PayloadCP :: PayloadType where [simp]: "PayloadCP = 47"
definition PayloadEAP :: PayloadType where [simp]: "PayloadEAP = 48"
definition ExchangeIKESAInit :: ExchangeType where [simp]: "ExchangeIKESAInit = 34"
definition ExchangeIKEAuth :: ExchangeType where [simp]: "ExchangeIKEAuth = 35"
definition ExchangeCreateChildSA :: ExchangeType where [simp]: "ExchangeCreateChildSA = 36"
definition ExchangeInformational :: ExchangeType where [simp]: "ExchangeInformational = 37"
definition ProtocolNone :: ProtocolID where [simp]: "ProtocolNone = 0"
definition ProtocolIKE :: ProtocolID where [simp]: "ProtocolIKE = 1"
definition ProtocolAH :: ProtocolID where [simp]: "ProtocolAH = 2"
definition ProtocolESP :: ProtocolID where [simp]: "ProtocolESP = 3"
definition TransformEncr :: TransformType where [simp]: "TransformEncr = 1"
definition TransformPRF :: TransformType where [simp]: "TransformPRF = 2"
definition TransformInteg :: TransformType where [simp]: "TransformInteg = 3"
definition TransformDH :: TransformType where [simp]: "TransformDH = 4"
definition TransformESN :: TransformType where [simp]: "TransformESN = 5"
definition ENCR_AES_CBC :: u16 where [simp]: "ENCR_AES_CBC = 12"
definition ENCR_AES_GCM_16 :: u16 where [simp]: "ENCR_AES_GCM_16 = 20"
definition ENCR_CHACHA20_POLY1305 :: u16 where [simp]: "ENCR_CHACHA20_POLY1305 = 28"
definition PRF_HMAC_SHA2_256 :: u16 where [simp]: "PRF_HMAC_SHA2_256 = 5"
definition AUTH_NONE :: u16 where [simp]: "AUTH_NONE = 0"
definition AUTH_HMAC_SHA2_256_128 :: u16 where [simp]: "AUTH_HMAC_SHA2_256_128 = 12"
definition DH_MODP2048 :: u16 where [simp]: "DH_MODP2048 = 14"
definition DH_X25519 :: u16 where [simp]: "DH_X25519 = 31"
definition ESN_NONE :: u16 where [simp]: "ESN_NONE = 0"
definition AttrKeyLength :: u16 where [simp]: "AttrKeyLength = 14"
definition NotifyStatus :: u16 where [simp]: "NotifyStatus = 16384"
definition NotifyInvalidSyntax :: NotifyType where [simp]: "NotifyInvalidSyntax = 7"
definition NotifyNoProposalChosen :: NotifyType where [simp]: "NotifyNoProposalChosen = 14"
definition NotifyInvalidKEPayload :: NotifyType where [simp]: "NotifyInvalidKEPayload = 17"
definition NotifyAuthenticationFailed :: NotifyType where [simp]: "NotifyAuthenticationFailed = 24"
definition NotifyTemporaryFailure :: NotifyType where [simp]: "NotifyTemporaryFailure = 43"
definition NotifyChildSANotFound :: NotifyType where [simp]: "NotifyChildSANotFound = 44"
definition NotifyInitialContact :: NotifyType where [simp]: "NotifyInitialContact = 16384"
definition NotifyNATDetectionSourceIP :: NotifyType where [simp]: "NotifyNATDetectionSourceIP = 16388"
definition NotifyNATDetectionDestinationIP :: NotifyType where [simp]: "NotifyNATDetectionDestinationIP = 16389"
definition NotifyCookie :: NotifyType where [simp]: "NotifyCookie = 16390"
definition NotifyRekeySA :: NotifyType where [simp]: "NotifyRekeySA = 16393"
definition IDTypeIPv4 :: IDType where [simp]: "IDTypeIPv4 = 1"
definition IDTypeFQDN :: IDType where [simp]: "IDTypeFQDN = 2"
definition IDTypeRFC822 :: IDType where [simp]: "IDTypeRFC822 = 3"
definition IDTypeIPv6 :: IDType where [simp]: "IDTypeIPv6 = 5"
definition IDTypeDERASN1DN :: IDType where [simp]: "IDTypeDERASN1DN = 9"
definition IDTypeKeyID :: IDType where [simp]: "IDTypeKeyID = 11"
definition ConfigRequest :: ConfigType where [simp]: "ConfigRequest = 1"
definition ConfigReply :: ConfigType where [simp]: "ConfigReply = 2"
definition ConfigSet :: ConfigType where [simp]: "ConfigSet = 3"
definition ConfigAck :: ConfigType where [simp]: "ConfigAck = 4"
definition ConfigAttrInternalIP4Address :: ConfigAttrType where [simp]: "ConfigAttrInternalIP4Address = 1"
definition ConfigAttrInternalIP4Netmask :: ConfigAttrType where [simp]: "ConfigAttrInternalIP4Netmask = 2"
definition ConfigAttrInternalIP4DNS :: ConfigAttrType where [simp]: "ConfigAttrInternalIP4DNS = 3"
definition ConfigAttrInternalIP6Address :: ConfigAttrType where [simp]: "ConfigAttrInternalIP6Address = 8"
definition ConfigAttrInternalIP6DNS :: ConfigAttrType where [simp]: "ConfigAttrInternalIP6DNS = 10"
definition TSIPv4AddrRange :: TSType where [simp]: "TSIPv4AddrRange = 7"
definition TSIPv6AddrRange :: TSType where [simp]: "TSIPv6AddrRange = 8"
definition CertX509Signature :: CertEncoding where [simp]: "CertX509Signature = 4"
definition FlagInitiator :: Flags where [simp]: "FlagInitiator = 8"
definition FlagVersion :: Flags where [simp]: "FlagVersion = 16"
definition FlagResponse :: Flags where [simp]: "FlagResponse = 32"

definition IsError :: "NotifyType \<Rightarrow> bool" where
  "IsError t \<longleftrightarrow> t \<noteq> 0 \<and> t < NotifyStatus"

definition IsInitiator :: "Flags \<Rightarrow> bool" where
  "IsInitiator f \<longleftrightarrow> f AND FlagInitiator \<noteq> 0"

definition IsResponse :: "Flags \<Rightarrow> bool" where
  "IsResponse f \<longleftrightarrow> f AND FlagResponse \<noteq> 0"

end
