(* ===== verification/Ikemsg_Body.thy ===== *)
theory Ikemsg_Body
  imports Ikemsg_Const
begin

text \<open>
  The payload bodies of \<open>internal/ikemsg\<close> (\<open>payloads_sa.go\<close>, \<open>payloads_simple.go\<close>,
  \<open>payloads_notify.go\<close>, \<open>payloads_ts.go\<close>, \<open>payloads_config.go\<close>): encoding, bounds-checked
  decoding, and that decoding inverts encoding.  A nil slice and an empty slice are both the
  empty list.
\<close>

section \<open>Errors\<close>

datatype ikemsg_err =
    ErrTruncated
  | ErrLengthMinimum nat
  | ErrOverrun nat nat
  | ErrLengthMismatch nat nat
  | ErrUnknownCritical PayloadType
  | ErrBodyTooLong PayloadType nat
  | ErrPayload PayloadType ikemsg_err
  | ErrSPITooLong nat
  | ErrTooManyTransforms nat
  | ErrKeyLengthFlag TransformType u16 u16
  | ErrNonceLength nat
  | ErrSPIWidths
  | ErrZeroWidthSPIs nat
  | ErrNoSelectors
  | ErrTSType TSType
  | ErrTSAddrLen TSType nat
  | ErrTSLength TSType nat nat
  | ErrTrailing nat nat

section \<open>Lists of substructures\<close>

text \<open>
  Proposals and transforms are written one after the other, each told whether another one
  follows.
\<close>

primrec put_all :: "(bool \<Rightarrow> 'a \<Rightarrow> (ikemsg_err, bytes) res) \<Rightarrow> 'a list \<Rightarrow> (ikemsg_err, bytes) res" where
  "put_all put [] = Ok []"
| "put_all put (x # xs) =
     bindR (put (xs \<noteq> []) x) (\<lambda>b. bindR (put_all put xs) (\<lambda>r. Ok (b @ r)))"

section \<open>Security Association payload\<close>

record Transform =
  tr_Type :: TransformType
  tr_ID :: u16
  tr_KeyLength :: u16
  tr_HasKeyLength :: bool

record Proposal =
  pr_Number :: byte
  pr_Protocol :: ProtocolID
  pr_SPI :: bytes
  pr_Transforms :: "Transform list"

definition ByType :: "Proposal \<Rightarrow> TransformType \<Rightarrow> Transform list" where
  "ByType p t = filter (\<lambda>tr. tr_Type tr = t) (pr_Transforms p)"

text \<open>
  The length field at offset 2 is written last, over the whole substructure, so the encoders
  lay the octets out around it.
\<close>

definition marshalTransform :: "bool \<Rightarrow> Transform \<Rightarrow> (ikemsg_err, bytes) res" where
  "marshalTransform follows t =
     guardR (tr_KeyLength t \<noteq> 0 \<and> \<not> tr_HasKeyLength t)
       (ErrKeyLengthFlag (tr_Type t) (tr_ID t) (tr_KeyLength t))
     (let attr = (if tr_HasKeyLength t
                  then PutUint16 (0x8000 OR AttrKeyLength) @ PutUint16 (tr_KeyLength t) else []);
          tl = [tr_Type t, 0] @ PutUint16 (tr_ID t) @ attr
      in Ok ([if follows then 3 else 0, 0] @ PutUint16 (word_of_nat (4 + length tl)) @ tl))"

definition marshalProposal :: "bool \<Rightarrow> Proposal \<Rightarrow> (ikemsg_err, bytes) res" where
  "marshalProposal follows p =
     guardR (length (pr_SPI p) > 255) (ErrSPITooLong (length (pr_SPI p)))
     (guardR (length (pr_Transforms p) > 255) (ErrTooManyTransforms (length (pr_Transforms p)))
     (bindR (put_all marshalTransform (pr_Transforms p)) (\<lambda>td.
      let tl = [pr_Number p, pr_Protocol p, word_of_nat (length (pr_SPI p)),
                word_of_nat (length (pr_Transforms p))] @ pr_SPI p @ td
      in Ok ([if follows then 2 else 0, 0] @ PutUint16 (word_of_nat (4 + length tl)) @ tl))))"

text \<open>\<open>parse_attrs\<close> is the loop over the attributes of one transform.\<close>

function parse_attrs :: "nat \<Rightarrow> bytes \<Rightarrow> Transform \<Rightarrow> (ikemsg_err, Transform) res" where
  "parse_attrs tlen attrs t =
     (if length attrs = 0 then Ok t
      else
        guardR (length attrs < 4) (ErrOverrun 4 tlen)
        (bindR (slice attrs 0 2) (\<lambda>f.
         bindR (slice attrs 2 4) (\<lambda>v.
         if Uint16 f AND 0x8000 \<noteq> 0 then
           bindR (slice attrs 4 (length attrs)) (\<lambda>rest.
           parse_attrs tlen rest
             (if Uint16 f AND 0x7fff = AttrKeyLength
              then t\<lparr>tr_KeyLength := Uint16 v, tr_HasKeyLength := True\<rparr> else t))
         else
           let alen = unat (Uint16 v) in
           guardR (4 + alen > length attrs) (ErrOverrun alen (length attrs))
           (bindR (slice attrs (4 + alen) (length attrs)) (\<lambda>rest.
            parse_attrs tlen rest t))))))"
  by pat_completeness auto
termination
  by (relation "measure (\<lambda>(_, attrs, _). length attrs)") (auto simp: slice_eq_Ok)

function parseTransforms :: "bytes \<Rightarrow> (ikemsg_err, Transform list) res" where
  "parseTransforms body =
     (if length body = 0 then Ok []
      else
        guardR (length body < 8) ErrTruncated
        (bindR (slice body 2 4) (\<lambda>l.
         let tlen = unat (Uint16 l) in
         guardR (tlen < 8) (ErrLengthMinimum tlen)
         (guardR (tlen > length body) (ErrOverrun tlen (length body))
         (bindR (index body 4) (\<lambda>ty.
          bindR (slice body 6 8) (\<lambda>i.
          bindR (slice body 8 tlen) (\<lambda>attrs.
          bindR (parse_attrs tlen attrs
                  \<lparr>tr_Type = ty, tr_ID = Uint16 i, tr_KeyLength = 0, tr_HasKeyLength = False\<rparr>) (\<lambda>t.
          bindR (slice body tlen (length body)) (\<lambda>rest.
          bindR (parseTransforms rest) (\<lambda>ts.
          Ok (t # ts))))))))))))"
  by pat_completeness auto
termination
  by (relation "measure length") (auto simp: slice_eq_Ok)

text \<open>\<open>parseProposals\<close> is the loop of \<open>SAPayload.unmarshalBody\<close>.\<close>

function parseProposals :: "bytes \<Rightarrow> (ikemsg_err, Proposal list) res" where
  "parseProposals body =
     (if length body = 0 then Ok []
      else
        guardR (length body < 8) ErrTruncated
        (bindR (slice body 2 4) (\<lambda>l.
         let plen = unat (Uint16 l) in
         guardR (plen < 8) (ErrLengthMinimum plen)
         (guardR (plen > length body) (ErrOverrun plen (length body))
         (bindR (index body 6) (\<lambda>sz.
          let spiSize = unat sz in
          guardR (8 + spiSize > plen) (ErrOverrun spiSize plen)
          (bindR (index body 4) (\<lambda>num.
           bindR (index body 5) (\<lambda>proto.
           bindR (if spiSize > 0 then slice body 8 (8 + spiSize) else Ok []) (\<lambda>spi.
           bindR (slice body (8 + spiSize) plen) (\<lambda>tb.
           bindR (parseTransforms tb) (\<lambda>ts.
           bindR (slice body plen (length body)) (\<lambda>rest.
           bindR (parseProposals rest) (\<lambda>ps.
           Ok (\<lparr>pr_Number = num, pr_Protocol = proto, pr_SPI = spi, pr_Transforms = ts\<rparr> # ps)))))))))))))))"
  by pat_completeness auto
termination
  by (relation "measure length") (auto simp: slice_eq_Ok)

section \<open>Identification\<close>

definition MarshalIDBody :: "IDType \<Rightarrow> bytes \<Rightarrow> bytes" where
  "MarshalIDBody idType data = [idType, 0, 0, 0] @ data"

definition parseIDBody :: "bytes \<Rightarrow> (ikemsg_err, IDType \<times> bytes) res" where
  "parseIDBody body =
     guardR (length body < 4) ErrTruncated
     (bindR (index body 0) (\<lambda>t. bindR (slice body 4 (length body)) (\<lambda>d. Ok (t, d))))"

section \<open>Traffic selectors\<close>

record TrafficSelector =
  ts_TSType :: TSType
  ts_Protocol :: byte
  ts_StartPort :: u16
  ts_EndPort :: u16
  ts_StartAddr :: bytes
  ts_EndAddr :: bytes

definition addrLen :: "TSType \<Rightarrow> nat" where
  "addrLen t = (if t = TSIPv4AddrRange then 4 else if t = TSIPv6AddrRange then 16 else 0)"

definition marshalSelector :: "TrafficSelector \<Rightarrow> (ikemsg_err, bytes) res" where
  "marshalSelector ts =
     (let alen = addrLen (ts_TSType ts) in
      guardR (alen = 0) (ErrTSType (ts_TSType ts))
      (guardR (length (ts_StartAddr ts) \<noteq> alen \<or> length (ts_EndAddr ts) \<noteq> alen)
         (ErrTSAddrLen (ts_TSType ts) alen)
      (let tl = PutUint16 (ts_StartPort ts) @ PutUint16 (ts_EndPort ts) @ ts_StartAddr ts @ ts_EndAddr ts
       in Ok ([ts_TSType ts, ts_Protocol ts] @ PutUint16 (word_of_nat (4 + length tl)) @ tl))))"

definition marshalTSBody :: "TrafficSelector list \<Rightarrow> (ikemsg_err, bytes) res" where
  "marshalTSBody selectors =
     guardR (length selectors = 0) ErrNoSelectors
     (bindR (put_all (\<lambda>_. marshalSelector) selectors) (\<lambda>r.
      Ok ([word_of_nat (length selectors), 0, 0, 0] @ r)))"

text \<open>\<open>parse_selectors\<close> is the \<open>for range count\<close> loop; it returns what is left of the body.\<close>

primrec parse_selectors :: "nat \<Rightarrow> bytes \<Rightarrow> (ikemsg_err, TrafficSelector list \<times> bytes) res" where
  "parse_selectors 0 rest = Ok ([], rest)"
| "parse_selectors (Suc n) rest =
     guardR (length rest < 8) ErrTruncated
     (bindR (index rest 0) (\<lambda>t.
      let alen = addrLen t in
      guardR (alen = 0) (ErrTSType t)
      (bindR (slice rest 2 4) (\<lambda>l.
       let selLen = unat (Uint16 l) in
       guardR (selLen \<noteq> 8 + 2 * alen) (ErrTSLength t selLen (8 + 2 * alen))
       (guardR (selLen > length rest) (ErrOverrun selLen (length rest))
       (bindR (index rest 1) (\<lambda>proto.
        bindR (slice rest 4 6) (\<lambda>sp.
        bindR (slice rest 6 8) (\<lambda>ep.
        bindR (slice rest 8 (8 + alen)) (\<lambda>sa.
        bindR (slice rest (8 + alen) (8 + 2 * alen)) (\<lambda>ea.
        bindR (slice rest selLen (length rest)) (\<lambda>rest'.
        bindR (parse_selectors n rest') (\<lambda>(tss, left).
        Ok (\<lparr>ts_TSType = t, ts_Protocol = proto, ts_StartPort = Uint16 sp, ts_EndPort = Uint16 ep,
             ts_StartAddr = sa, ts_EndAddr = ea\<rparr> # tss, left))))))))))))))"

definition parseTSBody :: "bytes \<Rightarrow> (ikemsg_err, TrafficSelector list) res" where
  "parseTSBody body =
     guardR (length body < 4) ErrTruncated
     (bindR (index body 0) (\<lambda>c.
      let count = unat c in
      guardR (count = 0) ErrNoSelectors
      (bindR (slice body 4 (length body)) (\<lambda>rest.
       bindR (parse_selectors count rest) (\<lambda>(out, left).
       guardR (length left \<noteq> 0) (ErrTrailing (length left) count) (Ok out))))))"

section \<open>Configuration attributes\<close>

record ConfigAttr =
  ca_Type :: ConfigAttrType
  ca_Value :: bytes

definition marshalConfigAttr :: "ConfigAttr \<Rightarrow> bytes" where
  "marshalConfigAttr attr =
     PutUint16 (ca_Type attr AND 0x7fff) @ PutUint16 (word_of_nat (length (ca_Value attr))) @ ca_Value attr"

function parseConfigAttrs :: "bytes \<Rightarrow> (ikemsg_err, ConfigAttr list) res" where
  "parseConfigAttrs rest =
     (if length rest = 0 then Ok []
      else
        guardR (length rest < 4) ErrTruncated
        (bindR (slice rest 0 2) (\<lambda>t.
         bindR (slice rest 2 4) (\<lambda>l.
         let n = unat (Uint16 l) in
         guardR (4 + n > length rest) (ErrOverrun n (length rest))
         (bindR (slice rest 4 (4 + n)) (\<lambda>v.
          bindR (slice rest (4 + n) (length rest)) (\<lambda>rest'.
          bindR (parseConfigAttrs rest') (\<lambda>as.
          Ok (\<lparr>ca_Type = Uint16 t AND 0x7fff, ca_Value = v\<rparr> # as)))))))))"
  by pat_completeness auto
termination
  by (relation "measure length") (auto simp: slice_eq_Ok)

section \<open>Delete\<close>

definition SPISize :: "bytes list \<Rightarrow> byte" where
  "SPISize spis = (case spis of [] \<Rightarrow> 0 | spi # _ \<Rightarrow> word_of_nat (length spi))"

text \<open>\<open>take_spis\<close> is the \<open>for range count\<close> loop, at offset \<open>off\<close>.\<close>

primrec take_spis :: "nat \<Rightarrow> nat \<Rightarrow> nat \<Rightarrow> bytes \<Rightarrow> (ikemsg_err, bytes list) res" where
  "take_spis 0 w off body = Ok []"
| "take_spis (Suc n) w off body =
     bindR (slice body off (off + w)) (\<lambda>spi.
     bindR (take_spis n w (off + w) body) (\<lambda>spis.
     Ok (spi # spis)))"

section \<open>Payloads\<close>

datatype payload =
    SAPayload "Proposal list"
  | KEPayload u16 bytes
  | IDiPayload IDType bytes
  | IDrPayload IDType bytes
  | CertPayload CertEncoding bytes
  | CertRequestPayload CertEncoding bytes
  | AuthPayload byte bytes
  | NoncePayload bytes
  | NotifyPayload ProtocolID NotifyType bytes bytes
  | DeletePayload ProtocolID "bytes list"
  | VendorIDPayload bytes
  | TSiPayload "TrafficSelector list"
  | TSrPayload "TrafficSelector list"
  | EncryptedPayload PayloadType bytes
  | ConfigPayload ConfigType "ConfigAttr list"
  | EAPPayload bytes

primrec PayloadType :: "payload \<Rightarrow> PayloadType" where
  "PayloadType (SAPayload _) = PayloadSA"
| "PayloadType (KEPayload _ _) = PayloadKE"
| "PayloadType (IDiPayload _ _) = PayloadIDi"
| "PayloadType (IDrPayload _ _) = PayloadIDr"
| "PayloadType (CertPayload _ _) = PayloadCert"
| "PayloadType (CertRequestPayload _ _) = PayloadCertReq"
| "PayloadType (AuthPayload _ _) = PayloadAuth"
| "PayloadType (NoncePayload _) = PayloadNonce"
| "PayloadType (NotifyPayload _ _ _ _) = PayloadNotify"
| "PayloadType (DeletePayload _ _) = PayloadDelete"
| "PayloadType (VendorIDPayload _) = PayloadVendorID"
| "PayloadType (TSiPayload _) = PayloadTSi"
| "PayloadType (TSrPayload _) = PayloadTSr"
| "PayloadType (EncryptedPayload _ _) = PayloadSK"
| "PayloadType (ConfigPayload _ _) = PayloadCP"
| "PayloadType (EAPPayload _) = PayloadEAP"

definition minNonceLen :: nat where [simp]: "minNonceLen = 16"
definition maxNonceLen :: nat where [simp]: "maxNonceLen = 256"

text \<open>
  The methods \<open>marshalBody\<close> and \<open>unmarshalBody\<close> of each payload type.  An \<open>unmarshalBody\<close>
  overwrites its receiver, except that SA and CP append to what the receiver holds.
\<close>

definition SA_marshalBody :: "Proposal list \<Rightarrow> (ikemsg_err, bytes) res" where [simp]:
  "SA_marshalBody ps = put_all marshalProposal ps"

definition SA_unmarshalBody :: "Proposal list \<Rightarrow> bytes \<Rightarrow> (ikemsg_err, payload) res" where [simp]:
  "SA_unmarshalBody ps body = bindR (parseProposals body) (\<lambda>qs. Ok (SAPayload (ps @ qs)))"

definition KE_marshalBody :: "u16 \<Rightarrow> bytes \<Rightarrow> (ikemsg_err, bytes) res" where [simp]:
  "KE_marshalBody g d = Ok (PutUint16 g @ [0, 0] @ d)"

definition KE_unmarshalBody :: "bytes \<Rightarrow> (ikemsg_err, payload) res" where [simp]:
  "KE_unmarshalBody body =
     guardR (length body < 4) ErrTruncated
     (bindR (slice body 0 2) (\<lambda>g. bindR (slice body 4 (length body)) (\<lambda>d. Ok (KEPayload (Uint16 g) d))))"

definition Nonce_marshalBody :: "bytes \<Rightarrow> (ikemsg_err, bytes) res" where [simp]:
  "Nonce_marshalBody d = Ok d"

definition Nonce_unmarshalBody :: "bytes \<Rightarrow> (ikemsg_err, payload) res" where [simp]:
  "Nonce_unmarshalBody body =
     guardR (length body < minNonceLen \<or> length body > maxNonceLen) (ErrNonceLength (length body))
     (Ok (NoncePayload body))"

definition IDi_unmarshalBody :: "bytes \<Rightarrow> (ikemsg_err, payload) res" where [simp]:
  "IDi_unmarshalBody body = bindR (parseIDBody body) (\<lambda>(t, d). Ok (IDiPayload t d))"

definition IDr_unmarshalBody :: "bytes \<Rightarrow> (ikemsg_err, payload) res" where [simp]:
  "IDr_unmarshalBody body = bindR (parseIDBody body) (\<lambda>(t, d). Ok (IDrPayload t d))"

definition Auth_marshalBody :: "byte \<Rightarrow> bytes \<Rightarrow> (ikemsg_err, bytes) res" where [simp]:
  "Auth_marshalBody m d = Ok ([m, 0, 0, 0] @ d)"

definition Auth_unmarshalBody :: "bytes \<Rightarrow> (ikemsg_err, payload) res" where [simp]:
  "Auth_unmarshalBody body =
     guardR (length body < 4) ErrTruncated
     (bindR (index body 0) (\<lambda>m. bindR (slice body 4 (length body)) (\<lambda>d. Ok (AuthPayload m d))))"

definition Cert_marshalBody :: "CertEncoding \<Rightarrow> bytes \<Rightarrow> (ikemsg_err, bytes) res" where [simp]:
  "Cert_marshalBody e d = Ok ([e] @ d)"

definition Cert_unmarshalBody :: "bytes \<Rightarrow> (ikemsg_err, payload) res" where [simp]:
  "Cert_unmarshalBody body =
     guardR (length body < 1) ErrTruncated
     (bindR (index body 0) (\<lambda>e. bindR (slice body 1 (length body)) (\<lambda>d. Ok (CertPayload e d))))"

definition CertRequest_marshalBody :: "CertEncoding \<Rightarrow> bytes \<Rightarrow> (ikemsg_err, bytes) res" where [simp]:
  "CertRequest_marshalBody e d = Ok ([e] @ d)"

definition CertRequest_unmarshalBody :: "bytes \<Rightarrow> (ikemsg_err, payload) res" where [simp]:
  "CertRequest_unmarshalBody body =
     guardR (length body < 1) ErrTruncated
     (bindR (index body 0) (\<lambda>e. bindR (slice body 1 (length body)) (\<lambda>d. Ok (CertRequestPayload e d))))"

definition Notify_marshalBody :: "ProtocolID \<Rightarrow> NotifyType \<Rightarrow> bytes \<Rightarrow> bytes \<Rightarrow> (ikemsg_err, bytes) res" where [simp]:
  "Notify_marshalBody p t spi d =
     Ok ([p, word_of_nat (length spi)] @ PutUint16 t @ spi @ d)"

definition Notify_unmarshalBody :: "bytes \<Rightarrow> (ikemsg_err, payload) res" where [simp]:
  "Notify_unmarshalBody body =
     guardR (length body < 4) ErrTruncated
     (bindR (index body 1) (\<lambda>sz.
      let spiSize = unat sz in
      guardR (4 + spiSize > length body) (ErrOverrun spiSize (length body))
      (bindR (index body 0) (\<lambda>p.
       bindR (slice body 2 4) (\<lambda>t.
       bindR (slice body 4 (4 + spiSize)) (\<lambda>spi.
       bindR (slice body (4 + spiSize) (length body)) (\<lambda>d.
       Ok (NotifyPayload p (Uint16 t) spi d))))))))"

definition Delete_marshalBody :: "ProtocolID \<Rightarrow> bytes list \<Rightarrow> (ikemsg_err, bytes) res" where [simp]:
  "Delete_marshalBody p spis =
     guardR (\<exists>spi\<in>set spis. (word_of_nat (length spi) :: byte) \<noteq> SPISize spis) ErrSPIWidths
     (Ok ([p, SPISize spis] @ PutUint16 (word_of_nat (length spis)) @ concat spis))"

definition Delete_unmarshalBody :: "bytes \<Rightarrow> (ikemsg_err, payload) res" where [simp]:
  "Delete_unmarshalBody body =
     guardR (length body < 4) ErrTruncated
     (bindR (index body 0) (\<lambda>p.
      bindR (index body 1) (\<lambda>sz.
      bindR (slice body 2 4) (\<lambda>c.
      let w = unat sz; count = unat (Uint16 c) in
      guardR (w = 0 \<and> count > 0) (ErrZeroWidthSPIs count)
      (guardR (4 + w * count > length body) (ErrOverrun (w * count) (length body))
      (bindR (take_spis count w 4 body) (\<lambda>spis.
       Ok (DeletePayload p spis))))))))"

definition VendorID_marshalBody :: "bytes \<Rightarrow> (ikemsg_err, bytes) res" where [simp]:
  "VendorID_marshalBody d = Ok d"

definition VendorID_unmarshalBody :: "bytes \<Rightarrow> (ikemsg_err, payload) res" where [simp]:
  "VendorID_unmarshalBody body = Ok (VendorIDPayload body)"

definition TSi_unmarshalBody :: "bytes \<Rightarrow> (ikemsg_err, payload) res" where [simp]:
  "TSi_unmarshalBody body = bindR (parseTSBody body) (\<lambda>s. Ok (TSiPayload s))"

definition TSr_unmarshalBody :: "bytes \<Rightarrow> (ikemsg_err, payload) res" where [simp]:
  "TSr_unmarshalBody body = bindR (parseTSBody body) (\<lambda>s. Ok (TSrPayload s))"

definition Encrypted_marshalBody :: "bytes \<Rightarrow> (ikemsg_err, bytes) res" where [simp]:
  "Encrypted_marshalBody d = Ok d"

definition Encrypted_unmarshalBody :: "PayloadType \<Rightarrow> bytes \<Rightarrow> (ikemsg_err, payload) res" where [simp]:
  "Encrypted_unmarshalBody f body = Ok (EncryptedPayload f body)"

definition Config_marshalBody :: "ConfigType \<Rightarrow> ConfigAttr list \<Rightarrow> (ikemsg_err, bytes) res" where [simp]:
  "Config_marshalBody t as = Ok ([t, 0, 0, 0] @ concat (map marshalConfigAttr as))"

definition Config_unmarshalBody :: "ConfigAttr list \<Rightarrow> bytes \<Rightarrow> (ikemsg_err, payload) res" where [simp]:
  "Config_unmarshalBody as body =
     guardR (length body < 4) ErrTruncated
     (bindR (index body 0) (\<lambda>t.
      bindR (slice body 4 (length body)) (\<lambda>rest.
      bindR (parseConfigAttrs rest) (\<lambda>bs. Ok (ConfigPayload t (as @ bs))))))"

definition EAP_marshalBody :: "bytes \<Rightarrow> (ikemsg_err, bytes) res" where [simp]:
  "EAP_marshalBody d = Ok d"

definition EAP_unmarshalBody :: "bytes \<Rightarrow> (ikemsg_err, payload) res" where [simp]:
  "EAP_unmarshalBody body = Ok (EAPPayload body)"

text \<open>The interface methods: dispatch on the payload type.\<close>

primrec marshalBody :: "payload \<Rightarrow> (ikemsg_err, bytes) res" where
  "marshalBody (SAPayload ps) = SA_marshalBody ps"
| "marshalBody (KEPayload g d) = KE_marshalBody g d"
| "marshalBody (IDiPayload t d) = Ok (MarshalIDBody t d)"
| "marshalBody (IDrPayload t d) = Ok (MarshalIDBody t d)"
| "marshalBody (CertPayload e d) = Cert_marshalBody e d"
| "marshalBody (CertRequestPayload e d) = CertRequest_marshalBody e d"
| "marshalBody (AuthPayload m d) = Auth_marshalBody m d"
| "marshalBody (NoncePayload d) = Nonce_marshalBody d"
| "marshalBody (NotifyPayload p t spi d) = Notify_marshalBody p t spi d"
| "marshalBody (DeletePayload p spis) = Delete_marshalBody p spis"
| "marshalBody (VendorIDPayload d) = VendorID_marshalBody d"
| "marshalBody (TSiPayload s) = marshalTSBody s"
| "marshalBody (TSrPayload s) = marshalTSBody s"
| "marshalBody (EncryptedPayload _ d) = Encrypted_marshalBody d"
| "marshalBody (ConfigPayload t as) = Config_marshalBody t as"
| "marshalBody (EAPPayload d) = EAP_marshalBody d"

primrec unmarshalBody :: "payload \<Rightarrow> bytes \<Rightarrow> (ikemsg_err, payload) res" where
  "unmarshalBody (SAPayload ps) body = SA_unmarshalBody ps body"
| "unmarshalBody (KEPayload _ _) body = KE_unmarshalBody body"
| "unmarshalBody (IDiPayload _ _) body = IDi_unmarshalBody body"
| "unmarshalBody (IDrPayload _ _) body = IDr_unmarshalBody body"
| "unmarshalBody (CertPayload _ _) body = Cert_unmarshalBody body"
| "unmarshalBody (CertRequestPayload _ _) body = CertRequest_unmarshalBody body"
| "unmarshalBody (AuthPayload _ _) body = Auth_unmarshalBody body"
| "unmarshalBody (NoncePayload _) body = Nonce_unmarshalBody body"
| "unmarshalBody (NotifyPayload _ _ _ _) body = Notify_unmarshalBody body"
| "unmarshalBody (DeletePayload _ _) body = Delete_unmarshalBody body"
| "unmarshalBody (VendorIDPayload _) body = VendorID_unmarshalBody body"
| "unmarshalBody (TSiPayload _) body = TSi_unmarshalBody body"
| "unmarshalBody (TSrPayload _) body = TSr_unmarshalBody body"
| "unmarshalBody (EncryptedPayload f _) body = Encrypted_unmarshalBody f body"
| "unmarshalBody (ConfigPayload _ as) body = Config_unmarshalBody as body"
| "unmarshalBody (EAPPayload _) body = EAP_unmarshalBody body"

declare parse_attrs.simps [simp del] parseTransforms.simps [simp del] parseProposals.simps [simp del]
  parseConfigAttrs.simps [simp del]

section \<open>Decoding never panics\<close>

lemma parse_attrs_panic_free [no_panic]: "panic_free (parse_attrs tlen attrs t)"
proof (induction attrs arbitrary: t rule: length_induct)
  case (1 attrs)
  then show ?case
    by (subst parse_attrs.simps) (auto simp: Let_def slice_eq_Ok intro!: no_panic)
qed

lemma parseTransforms_panic_free [no_panic]: "panic_free (parseTransforms body)"
proof (induction body rule: length_induct)
  case (1 body)
  then show ?case
    by (subst parseTransforms.simps) (auto simp: Let_def slice_eq_Ok intro!: no_panic)
qed

lemma parseProposals_panic_free [no_panic]: "panic_free (parseProposals body)"
proof (induction body rule: length_induct)
  case (1 body)
  then show ?case
    by (subst parseProposals.simps) (auto simp: Let_def slice_eq_Ok intro!: no_panic)
qed

lemma parseConfigAttrs_panic_free [no_panic]: "panic_free (parseConfigAttrs body)"
proof (induction body rule: length_induct)
  case (1 body)
  then show ?case
    by (subst parseConfigAttrs.simps) (auto simp: Let_def slice_eq_Ok intro!: no_panic)
qed

lemma parse_selectors_panic_free [no_panic]: "panic_free (parse_selectors n rest)"
  by (induction n arbitrary: rest) (auto simp: Let_def slice_eq_Ok intro!: no_panic)

lemma take_spis_panic_free [no_panic]: "off + w * n \<le> length body \<Longrightarrow> panic_free (take_spis n w off body)"
  by (induction n arbitrary: off) (auto simp: slice_eq_Ok intro!: no_panic)

lemma unmarshalBody_panic_free [no_panic]: "panic_free (unmarshalBody p body)"
  by (cases p) (auto simp: Let_def slice_eq_Ok parseIDBody_def parseTSBody_def mult.commute Suc_le_eq intro!: no_panic)


section \<open>Decoding inverts encoding\<close>

text \<open>
  The contract of a list of length-prefixed substructures: the decoding loop consumes
  exactly one encoded element at a time.  Its one consequence, that the loop returns the
  encoded list, then holds for transforms, proposals and configuration attributes.
\<close>

locale substructures =
  fixes put :: "bool \<Rightarrow> 'a \<Rightarrow> (ikemsg_err, bytes) res"
    and loop :: "bytes \<Rightarrow> (ikemsg_err, 'a list) res"
    and wf :: "'a \<Rightarrow> bool"
  assumes loop_nil: "loop [] = Ok []"
    and loop_put: "wf x \<Longrightarrow> put m x = Ok b \<Longrightarrow> length b < 65536 \<Longrightarrow>
      loop (b @ rest) = bindR (loop rest) (\<lambda>xs. Ok (x # xs))"
begin

lemma loop_put_all:
  "put_all put xs = Ok body \<Longrightarrow> \<forall>x\<in>set xs. wf x \<Longrightarrow> length body < 65536 \<Longrightarrow> loop body = Ok xs"
proof (induction xs arbitrary: body)
  case Nil
  then show ?case by (simp add: loop_nil)
next
  case (Cons x xs)
  then obtain b r where b: "put (xs \<noteq> []) x = Ok b" "put_all put xs = Ok r" "body = b @ r" by auto
  with Cons have "wf x" "length b < 65536" "loop r = Ok xs" by simp_all
  with loop_put [OF _ b(1), of r] show ?case by (simp add: b(3))
qed

end

lemma unat_of_nat_u16: "n < 65536 \<Longrightarrow> unat (word_of_nat n :: u16) = n"
  by (simp add: unat_of_nat)

lemma unat_of_nat_byte_le: "n \<le> 255 \<Longrightarrow> unat (word_of_nat n :: byte) = n"
  by (simp add: unat_of_nat)

lemma parse_attrs_Nil: "parse_attrs tlen [] t = Ok t"
  by (simp add: parse_attrs.simps)

lemma parse_attrs_KeyLength:
  "parse_attrs tlen (PutUint16 (0x8000 OR AttrKeyLength) @ PutUint16 v) t =
     Ok (t\<lparr>tr_KeyLength := v, tr_HasKeyLength := True\<rparr>)"
  by (subst parse_attrs.simps) (simp add: parse_attrs_Nil)

lemma parseTransforms_put:
  assumes "marshalTransform m t = Ok b"
  shows "parseTransforms (b @ rest) = bindR (parseTransforms rest) (\<lambda>ts. Ok (t # ts))"
proof (cases "tr_HasKeyLength t")
  case True
  then have b: "b = [if m then 3 else 0, 0] @ PutUint16 12 @ [tr_Type t, 0] @ PutUint16 (tr_ID t) @
     PutUint16 (0x8000 OR AttrKeyLength) @ PutUint16 (tr_KeyLength t)"
    using assms by (auto simp: marshalTransform_def Let_def)
  have t: "\<lparr>tr_Type = tr_Type t, tr_ID = tr_ID t, tr_KeyLength = tr_KeyLength t, tr_HasKeyLength = True\<rparr> = t"
    using True by (cases t) simp
  show ?thesis unfolding b
    by (subst parseTransforms.simps) (simp add: nth_append parse_attrs_KeyLength t del: AttrKeyLength_def)
next
  case False
  then have b: "b = [if m then 3 else 0, 0] @ PutUint16 8 @ [tr_Type t, 0] @ PutUint16 (tr_ID t)"
    and "tr_KeyLength t = 0"
    using assms by (auto simp: marshalTransform_def Let_def)
  then have t: "\<lparr>tr_Type = tr_Type t, tr_ID = tr_ID t, tr_KeyLength = 0, tr_HasKeyLength = False\<rparr> = t"
    using False by (cases t) simp
  show ?thesis unfolding b
    by (subst parseTransforms.simps) (simp add: nth_append parse_attrs_Nil t)
qed

interpretation tr: substructures marshalTransform parseTransforms "\<lambda>_. True"
  by unfold_locales (simp_all add: parseTransforms.simps [of "[]"] parseTransforms_put)

lemma parseProposals_put:
  assumes "marshalProposal m p = Ok b" "length b < 65536"
  shows "parseProposals (b @ rest) = bindR (parseProposals rest) (\<lambda>ps. Ok (p # ps))"
proof -
  obtain td where td: "put_all marshalTransform (pr_Transforms p) = Ok td" "length (pr_SPI p) \<le> 255"
    and b: "b = [if m then 2 else 0, 0] @ PutUint16 (word_of_nat (8 + length (pr_SPI p) + length td)) @
      [pr_Number p, pr_Protocol p, word_of_nat (length (pr_SPI p)), word_of_nat (length (pr_Transforms p))] @
      pr_SPI p @ td"
    using assms(1) by (auto simp: marshalProposal_def Let_def)
  have len: "8 + length (pr_SPI p) + length td < 65536" using assms(2) by (simp add: b)
  then have l: "unat (word_of_nat (8 + length (pr_SPI p) + length td) :: u16) = 8 + length (pr_SPI p) + length td"
    by (rule unat_of_nat_u16)
  have ts: "parseTransforms td = Ok (pr_Transforms p)"
    using td len by (intro tr.loop_put_all) simp_all
  define hd where "hd = [if m then 2 else 0, 0] @ PutUint16 (word_of_nat (8 + length (pr_SPI p) + length td)) @
      [pr_Number p, pr_Protocol p, word_of_nat (length (pr_SPI p)), word_of_nat (length (pr_Transforms p))]"
  define x where "x = b @ rest"
  have x: "x = hd @ pr_SPI p @ td @ rest" and hd: "length hd = 8" by (simp_all add: x_def b hd_def)
  have fields: "take 2 (drop 2 x) = PutUint16 (word_of_nat (8 + length (pr_SPI p) + length td))"
    "x ! 4 = pr_Number p" "x ! 5 = pr_Protocol p" "x ! 6 = word_of_nat (length (pr_SPI p))"
    unfolding x hd_def by (simp_all add: nth_append del: of_nat_add)
  have parts: "take (length (pr_SPI p)) (drop 8 x) = pr_SPI p"
    "take (length td) (drop (8 + length (pr_SPI p)) x) = td"
    "drop (8 + length (pr_SPI p) + length td) x = rest"
    "length x = 8 + length (pr_SPI p) + length td + length rest"
    using hd by (simp_all add: x)
  have spi: "(if 0 < length (pr_SPI p) then Ok (pr_SPI p) else Ok []) = (Ok (pr_SPI p) :: (ikemsg_err, bytes) res)"
    by simp
  have p: "\<lparr>pr_Number = pr_Number p, pr_Protocol = pr_Protocol p, pr_SPI = pr_SPI p, pr_Transforms = pr_Transforms p\<rparr> = p"
    "pr_SPI p = [] \<Longrightarrow>
       \<lparr>pr_Number = pr_Number p, pr_Protocol = pr_Protocol p, pr_SPI = [], pr_Transforms = pr_Transforms p\<rparr> = p"
    by (cases p; simp)+
  show ?thesis unfolding x_def [symmetric]
    by (subst parseProposals.simps)
      (simp add: fields parts ts l unat_of_nat_byte_le td spi p del: of_nat_add)
qed

interpretation pr: substructures marshalProposal parseProposals "\<lambda>_. True"
  by unfold_locales (simp_all add: parseProposals.simps [of "[]"] parseProposals_put)

lemma mask_0x7fff: "(t :: u16) < 0x8000 \<Longrightarrow> t AND 0x7fff = t"
  using less_mask_eq [of t 15] by (simp add: take_bit_eq_mask mask_eq_exp_minus_1 word_less_nat_alt flip: take_bit_eq_mask)

lemma parseConfigAttrs_put:
  assumes "ca_Type a < 0x8000" "length (marshalConfigAttr a) < 65536"
  shows "parseConfigAttrs (marshalConfigAttr a @ rest) = bindR (parseConfigAttrs rest) (\<lambda>as. Ok (a # as))"
proof -
  let ?n = "length (ca_Value a)"
  have l: "unat (word_of_nat ?n :: u16) = ?n"
    using assms(2) by (intro unat_of_nat_u16) (simp add: marshalConfigAttr_def)
  have a: "\<lparr>ca_Type = ca_Type a, ca_Value = ca_Value a\<rparr> = a" by (cases a) simp
  show ?thesis using assms(1)
    by (subst parseConfigAttrs.simps) (simp add: marshalConfigAttr_def l mask_0x7fff a)
qed

interpretation cfg: substructures "\<lambda>_ a. Ok (marshalConfigAttr a)" parseConfigAttrs "\<lambda>a. ca_Type a < 0x8000"
  by unfold_locales (auto simp: parseConfigAttrs.simps [of "[]"] parseConfigAttrs_put)

lemma put_all_total: "put_all (\<lambda>_ a. Ok (f a)) as = Ok (concat (map f as))"
  by (induction as) simp_all

lemma parseConfigAttrs_concat:
  "\<forall>a\<in>set as. ca_Type a < 0x8000 \<Longrightarrow> length (concat (map marshalConfigAttr as)) < 65536 \<Longrightarrow>
   parseConfigAttrs (concat (map marshalConfigAttr as)) = Ok as"
  by (rule cfg.loop_put_all [OF put_all_total])

lemma addrLen_le: "addrLen t \<le> 16"
  by (simp add: addrLen_def)

lemma marshalSelector_OkD:
  assumes "marshalSelector ts = Ok b"
  shows "addrLen (ts_TSType ts) \<noteq> 0" "length (ts_StartAddr ts) = addrLen (ts_TSType ts)"
    "length (ts_EndAddr ts) = addrLen (ts_TSType ts)"
    "b = [ts_TSType ts, ts_Protocol ts] @
       PutUint16 (word_of_nat (4 + length (PutUint16 (ts_StartPort ts) @ PutUint16 (ts_EndPort ts) @ ts_StartAddr ts @ ts_EndAddr ts))) @
       PutUint16 (ts_StartPort ts) @ PutUint16 (ts_EndPort ts) @ ts_StartAddr ts @ ts_EndAddr ts"
  using assms unfolding marshalSelector_def Let_def guardR_eq_Ok by blast+

lemma parse_selectors_put:
  assumes "marshalSelector ts = Ok b"
  shows "parse_selectors (Suc n) (b @ rest) =
     bindR (parse_selectors n rest) (\<lambda>(tss, left). Ok (ts # tss, left))"
proof -
  define alen where "alen = addrLen (ts_TSType ts)"
  have alen: "0 < alen" "alen \<le> 16" "length (ts_StartAddr ts) = alen" "length (ts_EndAddr ts) = alen"
    using marshalSelector_OkD(1-3) [OF assms] addrLen_le [of "ts_TSType ts"] by (simp_all add: alen_def)
  have b: "b = [ts_TSType ts, ts_Protocol ts] @ PutUint16 (word_of_nat (8 + 2 * alen)) @
     PutUint16 (ts_StartPort ts) @ PutUint16 (ts_EndPort ts) @ ts_StartAddr ts @ ts_EndAddr ts"
    using marshalSelector_OkD(4) [OF assms] alen(3,4) by (simp del: of_nat_add)
  have l: "unat (word_of_nat (8 + 2 * alen) :: u16) = 8 + 2 * alen"
    using alen by (intro unat_of_nat_u16) simp
  define hd where "hd = [ts_TSType ts, ts_Protocol ts] @ PutUint16 (word_of_nat (8 + 2 * alen)) @
     PutUint16 (ts_StartPort ts) @ PutUint16 (ts_EndPort ts)"
  define x where "x = b @ rest"
  have x: "x = hd @ ts_StartAddr ts @ ts_EndAddr ts @ rest" and hd: "length hd = 8"
    by (simp_all add: x_def b hd_def)
  have fields: "x ! 0 = ts_TSType ts" "x ! Suc 0 = ts_Protocol ts"
    "take 2 (drop 2 x) = PutUint16 (word_of_nat (8 + 2 * alen))"
    "take 2 (drop 4 x) = PutUint16 (ts_StartPort ts)" "take 2 (drop 6 x) = PutUint16 (ts_EndPort ts)"
    unfolding x hd_def by (simp_all add: nth_append del: of_nat_add)
  have parts: "take alen (drop 8 x) = ts_StartAddr ts" "take alen (drop (8 + alen) x) = ts_EndAddr ts"
    "drop (8 + 2 * alen) x = rest" "length x = 8 + 2 * alen + length rest"
    using hd alen by (simp_all add: x)
  have ts: "\<lparr>ts_TSType = ts_TSType ts, ts_Protocol = ts_Protocol ts, ts_StartPort = ts_StartPort ts,
     ts_EndPort = ts_EndPort ts, ts_StartAddr = ts_StartAddr ts, ts_EndAddr = ts_EndAddr ts\<rparr> = ts"
    by (cases ts) simp
  have len: "\<not> length x < 8" "0 < length x" "1 < length x" "8 + alen \<le> length x" "8 + 2 * alen \<le> length x"
    "length x - (8 + 2 * alen) = length rest"
    using parts(4) by simp_all
  show ?thesis unfolding x_def [symmetric] parse_selectors.simps Let_def
    using fields parts(1-3) l alen(1) len
    by (simp add: alen_def [symmetric] ts del: of_nat_add)
qed

lemma parse_selectors_put_all:
  "put_all (\<lambda>_. marshalSelector) tss = Ok r \<Longrightarrow> parse_selectors (length tss) (r @ rest) = Ok (tss, rest)"
proof (induction tss arbitrary: r)
  case Nil
  then show ?case by simp
next
  case (Cons ts tss)
  then obtain b r' where "marshalSelector ts = Ok b" "put_all (\<lambda>_. marshalSelector) tss = Ok r'" "r = b @ r'"
    by auto
  with Cons.IH show ?case by (simp add: parse_selectors_put del: parse_selectors.simps)
qed

lemma parseTSBody_put:
  assumes "marshalTSBody tss = Ok body" "length tss \<le> 255"
  shows "parseTSBody body = Ok tss"
proof -
  obtain r where r: "put_all (\<lambda>_. marshalSelector) tss = Ok r" "tss \<noteq> []"
    "body = [word_of_nat (length tss), 0, 0, 0] @ r"
    using assms(1) by (auto simp: marshalTSBody_def)
  have "unat (word_of_nat (length tss) :: byte) = length tss" using assms(2) by (rule unat_of_nat_byte_le)
  with r parse_selectors_put_all [OF r(1), of "[]"] show ?thesis
    by (simp add: parseTSBody_def Let_def)
qed

lemma take_spis_concat:
  "\<forall>spi\<in>set spis. length spi = w \<Longrightarrow> off = length pre \<Longrightarrow>
   take_spis (length spis) w off (pre @ concat spis @ rest) = Ok spis"
proof (induction spis arbitrary: off pre)
  case Nil
  then show ?case by simp
next
  case (Cons spi spis)
  then show ?case using Cons.IH [of "off + w" "pre @ spi"] by simp
qed

end
