(* ===== verification/Ikemsg.thy ===== *)
theory Ikemsg
  imports Ikemsg_Body
begin

text \<open>
  The payload chain (\<open>internal/ikemsg/payload.go\<close>) and the message framing
  (\<open>internal/ikemsg/message.go\<close>).
\<close>

section \<open>Encoding\<close>

definition headerLen :: nat where [simp]: "headerLen = 28"
definition version :: byte where [simp]: "version = 0x20"
definition genericHeaderLen :: nat where [simp]: "genericHeaderLen = 4"
definition criticalBit :: byte where [simp]: "criticalBit = 0x80"

type_synonym Payloads = "payload list"

text \<open>
  The Next Payload octet of a payload followed by \<open>ps\<close>; \<open>marshalChain\<close> is the loop of
  \<open>Payloads.Marshal\<close>.
\<close>

definition nextType :: "payload \<Rightarrow> Payloads \<Rightarrow> PayloadType" where
  "nextType p ps =
     (case ps of q # _ \<Rightarrow> PayloadType q
      | [] \<Rightarrow> (case p of EncryptedPayload innerFirst _ \<Rightarrow> innerFirst | _ \<Rightarrow> PayloadNone))"

primrec marshalChain :: "Payloads \<Rightarrow> (ikemsg_err, bytes) res" where
  "marshalChain [] = Ok []"
| "marshalChain (p # ps) =
     bindR (marshalBody p) (\<lambda>b.
     guardR (length b > 0xFFFF - genericHeaderLen) (ErrBodyTooLong (PayloadType p) (length b))
     (bindR (marshalChain ps) (\<lambda>r.
      Ok ([nextType p ps, 0] @ PutUint16 (word_of_nat (genericHeaderLen + length b)) @ b @ r))))"

definition MarshalPayloads :: "Payloads \<Rightarrow> (ikemsg_err, PayloadType \<times> bytes) res" where
  "MarshalPayloads ps =
     (case ps of [] \<Rightarrow> Ok (PayloadNone, [])
      | p # _ \<Rightarrow> bindR (marshalChain ps) (\<lambda>b. Ok (PayloadType p, b)))"

record Message =
  InitiatorSPI :: u64
  ResponderSPI :: u64
  Exchange :: ExchangeType
  MFlags :: Flags
  MessageID :: u32
  MPayloads :: Payloads

definition Marshal :: "Message \<Rightarrow> (ikemsg_err, bytes) res" where
  "Marshal m =
     bindR (MarshalPayloads (MPayloads m)) (\<lambda>(first, body).
     Ok (PutUint64 (InitiatorSPI m) @ PutUint64 (ResponderSPI m) @
         [first, version, Exchange m, MFlags m] @ PutUint32 (MessageID m) @
         PutUint32 (word_of_nat (headerLen + length body)) @ body))"

section \<open>Decoding\<close>

definition newPayload :: "PayloadType \<Rightarrow> payload option" where
  "newPayload t =
     (if t = PayloadSA then Some (SAPayload [])
      else if t = PayloadKE then Some (KEPayload 0 [])
      else if t = PayloadIDi then Some (IDiPayload 0 [])
      else if t = PayloadIDr then Some (IDrPayload 0 [])
      else if t = PayloadCert then Some (CertPayload 0 [])
      else if t = PayloadCertReq then Some (CertRequestPayload 0 [])
      else if t = PayloadAuth then Some (AuthPayload 0 [])
      else if t = PayloadNonce then Some (NoncePayload [])
      else if t = PayloadNotify then Some (NotifyPayload 0 0 [] [])
      else if t = PayloadDelete then Some (DeletePayload 0 [])
      else if t = PayloadVendorID then Some (VendorIDPayload [])
      else if t = PayloadTSi then Some (TSiPayload [])
      else if t = PayloadTSr then Some (TSrPayload [])
      else if t = PayloadSK then Some (EncryptedPayload 0 [])
      else if t = PayloadCP then Some (ConfigPayload 0 [])
      else if t = PayloadEAP then Some (EAPPayload [])
      else None)"

text \<open>The SK payload remembers the Next Payload octet of its own header.\<close>

definition setInnerFirst :: "PayloadType \<Rightarrow> payload \<Rightarrow> payload" where
  "setInnerFirst following p =
     (case p of EncryptedPayload _ d \<Rightarrow> EncryptedPayload following d | _ \<Rightarrow> p)"

function parseChain :: "PayloadType \<Rightarrow> bytes \<Rightarrow> (ikemsg_err, Payloads) res" where
  "parseChain next body =
     (if length body = 0 then Ok []
      else
        guardR (length body < genericHeaderLen) ErrTruncated
        (bindR (index body 0) (\<lambda>following.
         bindR (index body 1) (\<lambda>flags.
         bindR (slice body 2 4) (\<lambda>l.
         let plen = unat (Uint16 l) in
         guardR (plen < genericHeaderLen) (ErrLengthMinimum plen)
         (guardR (plen > length body) (ErrOverrun plen (length body))
         (bindR (slice body plen (length body)) (\<lambda>rest.
          case newPayload next of
            None \<Rightarrow>
              guardR (flags AND criticalBit \<noteq> 0) (ErrUnknownCritical next) (parseChain following rest)
          | Some p \<Rightarrow>
              bindR (slice body genericHeaderLen plen) (\<lambda>b.
              bindR (wrapR (ErrPayload next) (unmarshalBody (setInnerFirst following p) b)) (\<lambda>q.
              bindR (parseChain following rest) (\<lambda>ps.
              Ok (q # ps))))))))))))"
  by pat_completeness auto
termination
  by (relation "measure (\<lambda>(_, body). length body)") (auto simp: slice_eq_Ok)

declare parseChain.simps [simp del]

definition ParsePayloads :: "PayloadType \<Rightarrow> bytes \<Rightarrow> (ikemsg_err, Payloads) res" where
  "ParsePayloads first body = parseChain first body"

definition Parse :: "bytes \<Rightarrow> (ikemsg_err, Message) res" where
  "Parse raw =
     guardR (length raw < headerLen) ErrTruncated
     (bindR (slice raw 24 28) (\<lambda>l.
      let len = unat (Uint32 l) in
      guardR (len < headerLen) (ErrLengthMinimum len)
      (guardR (length raw \<noteq> len) (ErrLengthMismatch (length raw) len)
      (bindR (slice raw 0 8) (\<lambda>spii.
       bindR (slice raw 8 16) (\<lambda>spir.
       bindR (index raw 18) (\<lambda>ex.
       bindR (index raw 19) (\<lambda>fl.
       bindR (slice raw 20 24) (\<lambda>mid.
       bindR (index raw 16) (\<lambda>first.
       bindR (slice raw headerLen (length raw)) (\<lambda>body.
       bindR (parseChain first body) (\<lambda>ps.
       Ok \<lparr>InitiatorSPI = Uint64 spii, ResponderSPI = Uint64 spir, Exchange = ex, MFlags = fl,
           MessageID = Uint32 mid, MPayloads = ps\<rparr>))))))))))))"

section \<open>Decoding never panics\<close>

lemma parseChain_panic_free [no_panic]: "panic_free (parseChain next body)"
proof (induction body arbitrary: "next" rule: length_induct)
  case (1 body)
  then show ?case
    by (subst parseChain.simps) (auto simp: Let_def slice_eq_Ok intro!: no_panic)
qed

lemma Parse_panic_free [no_panic]: "panic_free (Parse raw)"
  unfolding Parse_def Let_def by (auto intro!: no_panic)

section \<open>Decoding inverts encoding\<close>

text \<open>
  The payloads the encoding can carry: a nonce has 16 to 256 octets, one-octet counts and
  sizes fit, the SPIs of a Delete have one common positive width, and configuration
  attribute types have 15 bits.
\<close>

fun payload_ok :: "payload \<Rightarrow> bool" where
  "payload_ok (NoncePayload d) \<longleftrightarrow> 16 \<le> length d \<and> length d \<le> 256"
| "payload_ok (NotifyPayload p t spi d) \<longleftrightarrow> length spi \<le> 255"
| "payload_ok (DeletePayload p spis) \<longleftrightarrow>
     (\<forall>spi\<in>set spis. length spi = length (hd spis) \<and> 0 < length spi \<and> length spi \<le> 255)"
| "payload_ok (TSiPayload s) \<longleftrightarrow> length s \<le> 255"
| "payload_ok (TSrPayload s) \<longleftrightarrow> length s \<le> 255"
| "payload_ok (ConfigPayload t as) \<longleftrightarrow> (\<forall>a\<in>set as. ca_Type a < 0x8000)"
| "payload_ok _ \<longleftrightarrow> True"

text \<open>An SK payload names its first inner payload, unless a sibling follows it.\<close>

fun chain_ok :: "Payloads \<Rightarrow> bool" where
  "chain_ok [] \<longleftrightarrow> True"
| "chain_ok (EncryptedPayload f d # q # ps) \<longleftrightarrow> f = PayloadType q \<and> chain_ok (q # ps)"
| "chain_ok (p # ps) \<longleftrightarrow> payload_ok p \<and> chain_ok ps"

lemma Notify_roundtrip:
  assumes "length spi \<le> 255" "body = [p, word_of_nat (length spi)] @ PutUint16 t @ spi @ d"
  shows "unmarshalBody (NotifyPayload a b c d') body = Ok (NotifyPayload p t spi d)"
proof -
  define pre where "pre = [p, word_of_nat (length spi)] @ PutUint16 t"
  have "body = pre @ spi @ d" "length pre = 4" by (simp_all add: pre_def assms(2))
  then have "drop (4 + length spi) body = d" "take (length spi) (drop 4 body) = spi"
    "length body = 4 + length spi + length d"
    by simp_all
  moreover have "body ! 0 = p" "body ! Suc 0 = word_of_nat (length spi)" "take 2 (drop 2 body) = PutUint16 t"
    by (simp_all add: assms(2))
  ultimately show ?thesis using assms(1) by (simp add: unat_of_nat_byte_le Let_def)
qed

lemma length_concat_ge:
  "\<forall>spi\<in>set spis. length spi = w \<Longrightarrow> length (concat spis) = w * length spis"
  by (induction spis) auto

lemma Delete_roundtrip:
  assumes "payload_ok (DeletePayload p spis)" "marshalBody (DeletePayload p spis) = Ok body"
    "length body < 65536"
  shows "unmarshalBody (DeletePayload a b) body = Ok (DeletePayload p spis)"
proof (cases spis)
  case Nil
  then show ?thesis using assms(2) by (auto simp: SPISize_def)
next
  case (Cons spi0 rest)
  define w where "w = length spi0"
  have w: "\<forall>spi\<in>set spis. length spi = w" "0 < w" "w \<le> 255"
    using assms(1) Cons by (auto simp: w_def)
  have size: "unat (SPISize spis) = w"
    using w(3) Cons by (simp add: SPISize_def unat_of_nat_byte_le w_def)
  have body: "body = [p, SPISize spis] @ PutUint16 (word_of_nat (length spis)) @ concat spis"
    using assms(2) by simp
  have len: "length body = 4 + w * length spis" using length_concat_ge [OF w(1)] by (simp add: body)
  then have "length spis < 65536" using w(2) assms(3) by (cases w) auto
  then have n: "unat (word_of_nat (length spis) :: u16) = length spis" by (rule unat_of_nat_u16)
  have "take_spis (length spis) w 4 body = Ok spis"
    using take_spis_concat [OF w(1), of 4 "[p, SPISize spis] @ PutUint16 (word_of_nat (length spis))" "[]"]
    by (simp add: body)
  moreover have "body ! 0 = p" "body ! Suc 0 = SPISize spis"
    "take 2 (drop 2 body) = PutUint16 (word_of_nat (length spis))"
    by (simp_all add: body)
  ultimately show ?thesis using len size n w(2) by (simp add: Let_def)
qed

lemma Config_roundtrip:
  assumes "payload_ok (ConfigPayload t as)" "marshalBody (ConfigPayload t as) = Ok body"
    "length body < 65536"
  shows "unmarshalBody (ConfigPayload a []) body = Ok (ConfigPayload t as)"
  using assms parseConfigAttrs_concat [of as] by auto

lemma body_roundtrip:
  assumes "payload_ok p" "marshalBody p = Ok body" "length body \<le> 65531"
    "\<And>g d. p = EncryptedPayload g d \<Longrightarrow> f = g"
  shows "\<exists>z. newPayload (PayloadType p) = Some z \<and> unmarshalBody (setInnerFirst f z) body = Ok p"
proof (cases p)
  case (SAPayload ps)
  then have "parseProposals body = Ok ps" using assms(2,3) by (intro pr.loop_put_all) simp_all
  then show ?thesis using SAPayload by (simp add: newPayload_def setInnerFirst_def)
next
  case (DeletePayload q spis)
  then have "unmarshalBody (DeletePayload 0 []) body = Ok p"
    using Delete_roundtrip [OF assms(1,2) [unfolded DeletePayload]] assms(3) DeletePayload
    by (simp del: unmarshalBody.simps)
  then show ?thesis using DeletePayload
    by (simp add: newPayload_def setInnerFirst_def del: unmarshalBody.simps)
next
  case (ConfigPayload t as)
  then have "unmarshalBody (ConfigPayload 0 []) body = Ok p"
    using Config_roundtrip [OF assms(1,2) [unfolded ConfigPayload]] assms(3) ConfigPayload
    by (simp del: unmarshalBody.simps)
  then show ?thesis using ConfigPayload
    by (simp add: newPayload_def setInnerFirst_def del: unmarshalBody.simps)
next
  case (TSiPayload s)
  then show ?thesis using parseTSBody_put [of s body] assms by (simp add: newPayload_def setInnerFirst_def)
next
  case (TSrPayload s)
  then show ?thesis using parseTSBody_put [of s body] assms by (simp add: newPayload_def setInnerFirst_def)
next
  case (NotifyPayload q t spi d)
  then show ?thesis using Notify_roundtrip [of spi body q t d] assms
    by (simp add: newPayload_def setInnerFirst_def del: unmarshalBody.simps)
qed (use assms in \<open>auto simp: newPayload_def setInnerFirst_def MarshalIDBody_def parseIDBody_def\<close>)

lemma chain_roundtrip:
  "chain_ok ps \<Longrightarrow> marshalChain ps = Ok body \<Longrightarrow>
   parseChain (case ps of [] \<Rightarrow> n | p # _ \<Rightarrow> PayloadType p) body = Ok ps"
proof (induction ps arbitrary: body n)
  case Nil
  then show ?case by (simp add: parseChain.simps)
next
  case (Cons p ps)
  obtain b r where b: "marshalBody p = Ok b" "length b \<le> 65531" "marshalChain ps = Ok r"
    "body = [nextType p ps, 0] @ PutUint16 (word_of_nat (4 + length b)) @ b @ r"
    using Cons.prems(2) by (auto simp del: of_nat_add)
  have ok: "payload_ok p" "chain_ok ps" "\<And>g d. p = EncryptedPayload g d \<Longrightarrow> nextType p ps = g"
    using Cons.prems(1) by (cases p; cases ps; simp add: nextType_def)+
  obtain z where z: "newPayload (PayloadType p) = Some z"
    "unmarshalBody (setInnerFirst (nextType p ps) z) b = Ok p"
    using body_roundtrip [OF ok(1) b(1,2), of "nextType p ps"] ok(3) by blast
  have l: "unat (word_of_nat (4 + length b) :: u16) = 4 + length b" using b(2) by (intro unat_of_nat_u16) simp
  have "parseChain (nextType p ps) r = Ok ps"
  proof (cases ps)
    case Nil
    then show ?thesis using b(3) by (simp add: parseChain.simps)
  next
    case (Cons q qs)
    then show ?thesis using Cons.IH [OF ok(2) b(3)] by (simp add: nextType_def)
  qed
  moreover define pre where "pre = [nextType p ps, 0] @ PutUint16 (word_of_nat (4 + length b))"
  moreover have body: "body = pre @ b @ r" "length pre = 4" by (simp_all add: pre_def b(4) del: of_nat_add)
  moreover have "body ! 0 = nextType p ps" "body ! Suc 0 = 0"
    "take 2 (drop 2 body) = PutUint16 (word_of_nat (4 + length b))"
    by (simp_all add: b(4) del: of_nat_add)
  moreover have "take (length b) (drop 4 body) = b" "drop (4 + length b) body = r"
    "length body = 4 + length b + length r" "body \<noteq> []"
    using body by auto
  ultimately show ?case using z l
    by (subst parseChain.simps) (simp del: of_nat_add)
qed

lemma unat_of_nat_u32: "n < 2 ^ 32 \<Longrightarrow> unat (word_of_nat n :: u32) = n"
  by (simp add: unat_of_nat)

lemma Parse_Marshal:
  assumes "Marshal m = Ok raw" "chain_ok (MPayloads m)" "length raw < 2 ^ 32"
  shows "Parse raw = Ok m"
proof -
  obtain first body where mp: "MarshalPayloads (MPayloads m) = Ok (first, body)"
    and raw: "raw = PutUint64 (InitiatorSPI m) @ PutUint64 (ResponderSPI m) @
         [first, version, Exchange m, MFlags m] @ PutUint32 (MessageID m) @
         PutUint32 (word_of_nat (headerLen + length body)) @ body"
    using assms(1) by (auto simp: Marshal_def simp del: of_nat_add)
  have pc: "parseChain first body = Ok (MPayloads m)"
    using mp chain_roundtrip [OF assms(2), of body]
    by (auto simp: MarshalPayloads_def parseChain.simps [of _ "[]"] split: list.splits)
  have l: "unat (word_of_nat (28 + length body) :: u32) = 28 + length body"
    using assms(3) by (intro unat_of_nat_u32) (simp add: raw)
  have fields: "take 4 (drop 24 raw) = PutUint32 (word_of_nat (28 + length body))"
    "take 8 raw = PutUint64 (InitiatorSPI m)" "take 8 (drop 8 raw) = PutUint64 (ResponderSPI m)"
    "raw ! 16 = first" "raw ! 18 = Exchange m" "raw ! 19 = MFlags m"
    "take 4 (drop 20 raw) = PutUint32 (MessageID m)" "drop 28 raw = body" "length raw = 28 + length body"
    by (simp_all add: raw nth_append del: of_nat_add)
  have m: "\<lparr>InitiatorSPI = InitiatorSPI m, ResponderSPI = ResponderSPI m, Exchange = Exchange m,
     MFlags = MFlags m, MessageID = MessageID m, MPayloads = MPayloads m\<rparr> = m" by (cases m) simp
  show ?thesis by (simp add: Parse_def fields l pc m del: of_nat_add)
qed


section \<open>What decoding inverts, exactly\<close>

lemma unat_byte_le: "unat (c :: byte) \<le> 255"
  using unat_byte_less [of c] by linarith

text \<open>Every payload a decoder returns satisfies \<open>payload_ok\<close>.\<close>

lemma parseConfigAttrs_types: "parseConfigAttrs body = Ok as \<Longrightarrow> \<forall>a\<in>set as. ca_Type a < 0x8000"
proof (induction body arbitrary: as rule: length_induct)
  case (1 body)
  show ?case
  proof (cases "body = []")
    case True
    then show ?thesis using "1.prems" by (simp add: parseConfigAttrs.simps)
  next
    case False
    then obtain n rest t v as' where p: "4 + n \<le> length body" "rest = drop (4 + n) body"
      "parseConfigAttrs rest = Ok as'" "as = \<lparr>ca_Type = t AND 0x7fff, ca_Value = v\<rparr> # as'"
      using "1.prems" [unfolded parseConfigAttrs.simps [of body]] by (fastforce simp: Let_def slice_eq_Ok)
    have "t AND 0x7fff \<le> (0x7fff :: u16)" by (rule word_and_le1)
    then have "t AND 0x7fff < (0x8000 :: u16)" by (rule le_less_trans) simp
    moreover have "\<forall>a\<in>set as'. ca_Type a < 0x8000"
      using "1.IH" [rule_format, OF _ p(3)] p(1,2) False by simp
    ultimately show ?thesis by (simp add: p(4))
  qed
qed

lemma parse_selectors_length: "parse_selectors n body = Ok (ss, left) \<Longrightarrow> length ss = n"
  by (induction n arbitrary: body ss) (auto simp: Let_def)

lemma parseTSBody_length: "parseTSBody body = Ok ss \<Longrightarrow> length ss \<le> 255"
proof -
  assume "parseTSBody body = Ok ss"
  then obtain c :: byte and rest left where "parse_selectors (unat c) rest = Ok (ss, left)"
    by (auto simp: parseTSBody_def Let_def)
  then show "length ss \<le> 255" using unat_byte_le [of c] by (auto dest!: parse_selectors_length)
qed

lemma take_spis_widths: "take_spis n w off body = Ok spis \<Longrightarrow> \<forall>spi\<in>set spis. length spi = w"
  by (induction n arbitrary: off spis) (auto simp: slice_eq_Ok)

lemma take_spis_none: "take_spis n w off body = Ok spis \<Longrightarrow> length spis = n"
  by (induction n arbitrary: off spis) auto

lemma unmarshal_Delete_ok: "Delete_unmarshalBody body = Ok p \<Longrightarrow> payload_ok p"
proof -
  assume "Delete_unmarshalBody body = Ok p"
  then obtain pr spis count and sz :: byte where p: "p = DeletePayload pr spis"
    "take_spis count (unat sz) 4 body = Ok spis" "\<not> (unat sz = 0 \<and> count > 0)"
    by (auto simp: Let_def)
  note w = take_spis_widths [OF p(2)] take_spis_none [OF p(2)]
  have "length spi = length (hd spis) \<and> 0 < length spi \<and> length spi \<le> 255" if "spi \<in> set spis" for spi
  proof -
    have "hd spis \<in> set spis" "count > 0" using that w(2) by (auto intro: hd_in_set length_pos_if_in_set)
    then show ?thesis using w(1) that p(3) unat_byte_le [of sz] by auto
  qed
  then show "payload_ok p" unfolding p(1) payload_ok.simps by blast
qed

lemma unmarshal_Notify_ok: "Notify_unmarshalBody body = Ok p \<Longrightarrow> payload_ok p"
proof -
  assume "Notify_unmarshalBody body = Ok p"
  then obtain pr t spi d and sz :: byte where p: "p = NotifyPayload pr t spi d"
    "slice body 4 (4 + unat sz) = (Ok spi :: (ikemsg_err, bytes) res)"
    unfolding Notify_unmarshalBody_def Let_def guardR_eq_Ok bindR_eq_Ok by (metis res.inject(1))
  then show "payload_ok p" using unat_byte_le [of sz] by (auto simp: slice_eq_Ok)
qed

lemma unmarshal_ok:
  assumes "newPayload t = Some z" "unmarshalBody (setInnerFirst f z) body = Ok p"
  shows "payload_ok p \<and> (\<forall>g d. p = EncryptedPayload g d \<longrightarrow> g = f)"
proof (cases z)
  case (NotifyPayload a b c d)
  then have "Notify_unmarshalBody body = Ok p" using assms(2) by (simp add: setInnerFirst_def del: Notify_unmarshalBody_def)
  from unmarshal_Notify_ok [OF this] show ?thesis
    using assms(2) NotifyPayload by (auto simp: setInnerFirst_def Let_def)
next
  case (DeletePayload a b)
  then have "Delete_unmarshalBody body = Ok p" using assms(2) by (simp add: setInnerFirst_def del: Delete_unmarshalBody_def)
  from unmarshal_Delete_ok [OF this] show ?thesis
    using assms(2) DeletePayload by (auto simp: setInnerFirst_def Let_def)
next
  case (ConfigPayload a b)
  then have "b = []" using assms(1) by (auto simp: newPayload_def split: if_splits)
  then show ?thesis using assms(2) ConfigPayload
    by (auto simp: setInnerFirst_def dest!: parseConfigAttrs_types)
qed (use assms(2) in \<open>auto simp: setInnerFirst_def parseTSBody_length\<close>)

lemma chain_roundtrip_only:
  "marshalChain ps = Ok body \<Longrightarrow>
   parseChain (case ps of [] \<Rightarrow> n | p # _ \<Rightarrow> PayloadType p) body = Ok ps \<Longrightarrow> chain_ok ps"
proof (induction ps arbitrary: body n)
  case Nil
  then show ?case by simp
next
  case (Cons p ps)
  obtain b r where b: "marshalBody p = Ok b" "length b \<le> 65531" "marshalChain ps = Ok r"
    "body = [nextType p ps, 0] @ PutUint16 (word_of_nat (4 + length b)) @ b @ r"
    using Cons.prems(1) by (auto simp del: of_nat_add)
  have l: "unat (word_of_nat (4 + length b) :: u16) = 4 + length b" using b(2) by (intro unat_of_nat_u16) simp
  define pre where "pre = [nextType p ps, 0] @ PutUint16 (word_of_nat (4 + length b))"
  have body: "body = pre @ b @ r" "length pre = 4" by (simp_all add: pre_def b(4) del: of_nat_add)
  have "body ! 0 = nextType p ps" "body ! Suc 0 = 0"
    "take 2 (drop 2 body) = PutUint16 (word_of_nat (4 + length b))"
    by (simp_all add: b(4) del: of_nat_add)
  moreover have "take (length b) (drop 4 body) = b" "drop (4 + length b) body = r"
    "length body = 4 + length b + length r" "body \<noteq> []"
    using body by auto
  moreover obtain z where z: "newPayload (PayloadType p) = Some z" by (cases p) (simp_all add: newPayload_def)
  ultimately have "parseChain (PayloadType p) body =
     bindR (wrapR (ErrPayload (PayloadType p)) (unmarshalBody (setInnerFirst (nextType p ps) z) b))
       (\<lambda>q. bindR (parseChain (nextType p ps) r) (\<lambda>ps. Ok (q # ps)))"
    using l by (subst parseChain.simps) (simp del: of_nat_add unmarshalBody.simps)
  then have u: "unmarshalBody (setInnerFirst (nextType p ps) z) b = Ok p" "parseChain (nextType p ps) r = Ok ps"
    using Cons.prems(2) by (simp_all add: bindR_eq_Ok wrapR_eq_Ok)
  note ok = unmarshal_ok [OF z u(1)]
  have "chain_ok ps"
  proof (cases ps)
    case (Cons q qs)
    then show ?thesis using Cons.IH [OF b(3), of 0] u(2) by (simp add: nextType_def)
  qed simp
  then show ?case using ok by (cases p; cases ps) (auto simp: nextType_def)
qed

lemma Parse_Marshal_only:
  assumes "Marshal m = Ok raw" "Parse raw = Ok m"
  shows "chain_ok (MPayloads m) \<and> length raw < 2 ^ 32"
proof -
  obtain first body where mp: "MarshalPayloads (MPayloads m) = Ok (first, body)"
    and raw: "raw = PutUint64 (InitiatorSPI m) @ PutUint64 (ResponderSPI m) @
         [first, version, Exchange m, MFlags m] @ PutUint32 (MessageID m) @
         PutUint32 (word_of_nat (headerLen + length body)) @ body"
    using assms(1) by (auto simp: Marshal_def simp del: of_nat_add)
  have fields: "raw ! 16 = first" "drop 28 raw = body" "length raw = 28 + length body"
    by (simp_all add: raw nth_append del: of_nat_add)
  obtain l f bd ps a1 a2 a3 a4 a5 where
    l: "\<not> length raw \<noteq> unat (Uint32 l)" and f: "index raw 16 = (Ok f :: (ikemsg_err, byte) res)"
    and bd: "slice raw 28 (length raw) = (Ok bd :: (ikemsg_err, bytes) res)" and ps: "parseChain f bd = Ok ps"
    and m: "Ok \<lparr>InitiatorSPI = a1, ResponderSPI = a2, Exchange = a3, MFlags = a4, MessageID = a5, MPayloads = ps\<rparr> =
       (Ok m :: (ikemsg_err, Message) res)"
    using assms(2) unfolding Parse_def Let_def guardR_eq_Ok bindR_eq_Ok headerLen_def by blast
  have "f = first" using f fields(1,3) by (simp add: index_def)
  moreover have "bd = body" using bd fields(2,3) by (simp add: slice_eq_Ok)
  moreover have "MPayloads m = ps" using m by auto
  ultimately have p: "parseChain first body = Ok (MPayloads m)" using ps by simp
  have "chain_ok (MPayloads m)"
    using mp p chain_roundtrip_only [of "MPayloads m" body 0]
    by (cases "MPayloads m") (auto simp: MarshalPayloads_def)
  moreover have "length raw < 2 ^ 32" using l unsigned_less [of "Uint32 l", where ?'a = nat] by simp
  ultimately show ?thesis ..
qed

section \<open>What decoding may allocate\<close>

text \<open>
  The number of list elements a decoded payload holds (proposals, transforms, selectors,
  attributes, SPIs) and the number of octets it copies out of the datagram.
\<close>

fun items :: "payload \<Rightarrow> nat" where
  "items (SAPayload ps) = length ps + sum_list (map (\<lambda>p. length (pr_Transforms p)) ps)"
| "items (DeletePayload _ spis) = length spis"
| "items (TSiPayload s) = length s"
| "items (TSrPayload s) = length s"
| "items (ConfigPayload _ as) = length as"
| "items _ = 0"

fun octets :: "payload \<Rightarrow> nat" where
  "octets (SAPayload ps) = sum_list (map (\<lambda>p. length (pr_SPI p)) ps)"
| "octets (KEPayload _ d) = length d"
| "octets (IDiPayload _ d) = length d"
| "octets (IDrPayload _ d) = length d"
| "octets (CertPayload _ d) = length d"
| "octets (CertRequestPayload _ d) = length d"
| "octets (AuthPayload _ d) = length d"
| "octets (NoncePayload d) = length d"
| "octets (NotifyPayload _ _ spi d) = length spi + length d"
| "octets (DeletePayload _ spis) = sum_list (map length spis)"
| "octets (VendorIDPayload d) = length d"
| "octets (TSiPayload s) = sum_list (map (\<lambda>t. length (ts_StartAddr t) + length (ts_EndAddr t)) s)"
| "octets (TSrPayload s) = sum_list (map (\<lambda>t. length (ts_StartAddr t) + length (ts_EndAddr t)) s)"
| "octets (EncryptedPayload _ d) = length d"
| "octets (ConfigPayload _ as) = sum_list (map (\<lambda>a. length (ca_Value a)) as)"
| "octets (EAPPayload d) = length d"

lemma parseTransforms_size: "parseTransforms body = Ok ts \<Longrightarrow> 8 * length ts \<le> length body"
proof (induction body arbitrary: ts rule: length_induct)
  case (1 body)
  show ?case
  proof (cases "body = []")
    case True
    then show ?thesis using "1.prems" by (simp add: parseTransforms.simps)
  next
    case False
    then obtain n rest t ts' where p: "8 \<le> n" "n \<le> length body" "rest = drop n body"
      "parseTransforms rest = Ok ts'" "ts = t # ts'"
      using "1.prems" by (subst (asm) parseTransforms.simps) (auto simp: Let_def slice_eq_Ok)
    have "8 * length ts' \<le> length rest" using "1.IH" [rule_format, OF _ p(4)] p False by simp
    with p show ?thesis by simp
  qed
qed

lemma parseProposals_size:
  "parseProposals body = Ok ps \<Longrightarrow>
   8 * length ps + 8 * sum_list (map (\<lambda>p. length (pr_Transforms p)) ps) + sum_list (map (\<lambda>p. length (pr_SPI p)) ps) \<le> length body"
proof (induction body arbitrary: ps rule: length_induct)
  case (1 body)
  show ?case
  proof (cases "body = []")
    case True
    then show ?thesis using "1.prems" by (simp add: parseProposals.simps)
  next
    case False
    obtain n sz num proto spi tb ts rest ps' where p: "8 + unat (sz :: byte) \<le> n" "n \<le> length body"
      "(if unat sz > 0 then slice body 8 (8 + unat sz) else Ok []) = (Ok spi :: (ikemsg_err, bytes) res)"
      "tb = take (n - (8 + unat sz)) (drop (8 + unat sz) body)" "parseTransforms tb = Ok ts"
      "rest = drop n body" "parseProposals rest = Ok ps'"
      "ps = \<lparr>pr_Number = num, pr_Protocol = proto, pr_SPI = spi, pr_Transforms = ts\<rparr> # ps'"
      using "1.prems" [unfolded parseProposals.simps [of body]] False
      by (auto simp: Let_def slice_eq_Ok)
    have "length spi = unat sz" using p(1-3) by (auto simp: slice_eq_Ok split: if_splits)
    moreover have "8 * length ps' + 8 * sum_list (map (\<lambda>p. length (pr_Transforms p)) ps') +
        sum_list (map (\<lambda>p. length (pr_SPI p)) ps') \<le> length rest"
      using "1.IH" [rule_format, OF _ p(7)] p False by simp
    moreover have "8 * length ts \<le> n - (8 + unat sz)"
      using parseTransforms_size [OF p(5)] p(1,2,4) by simp
    ultimately show ?thesis using p by simp
  qed
qed

lemma parseConfigAttrs_size:
  "parseConfigAttrs body = Ok as \<Longrightarrow> 4 * length as + sum_list (map (\<lambda>a. length (ca_Value a)) as) \<le> length body"
proof (induction body arbitrary: as rule: length_induct)
  case (1 body)
  show ?case
  proof (cases "body = []")
    case True
    then show ?thesis using "1.prems" by (simp add: parseConfigAttrs.simps)
  next
    case False
    then obtain n rest a as' where p: "4 + n \<le> length body" "rest = drop (4 + n) body" "length (ca_Value a) \<le> n"
      "parseConfigAttrs rest = Ok as'" "as = a # as'"
      using "1.prems" [unfolded parseConfigAttrs.simps [of body]] by (fastforce simp: Let_def slice_eq_Ok)
    have "4 * length as' + sum_list (map (\<lambda>a. length (ca_Value a)) as') \<le> length rest"
      using "1.IH" [rule_format, OF _ p(4)] p False by simp
    with p show ?thesis by simp
  qed
qed

lemma parse_selectors_size:
  "parse_selectors n body = Ok (ss, left) \<Longrightarrow>
   8 * length ss + sum_list (map (\<lambda>t. length (ts_StartAddr t) + length (ts_EndAddr t)) ss) \<le> length body"
proof (induction n arbitrary: body ss)
  case 0
  then show ?case by simp
next
  case (Suc n)
  then obtain t proto sp ep sa ea rest ss' where p: "8 + 2 * addrLen t \<le> length body"
    "rest = drop (8 + 2 * addrLen t) body" "length sa \<le> addrLen t" "length ea \<le> addrLen t"
    "parse_selectors n rest = Ok (ss', left)"
    "ss = \<lparr>ts_TSType = t, ts_Protocol = proto, ts_StartPort = sp, ts_EndPort = ep,
           ts_StartAddr = sa, ts_EndAddr = ea\<rparr> # ss'"
    by (auto simp: Let_def slice_eq_Ok)
  from Suc.IH [OF p(5)] p show ?case by simp
qed

lemma take_spis_size:
  "take_spis n w off body = Ok spis \<Longrightarrow> length spis = n \<and> sum_list (map length spis) = n * w"
  by (induction n arbitrary: off spis) (auto simp: slice_eq_Ok)

lemma unmarshalBody_size:
  assumes "newPayload t = Some z" "unmarshalBody (setInnerFirst f z) b = Ok p"
  shows "items p \<le> length b \<and> octets p \<le> length b"
proof -
  have "z \<in> {SAPayload [], KEPayload 0 [], IDiPayload 0 [], IDrPayload 0 [], CertPayload 0 [],
      CertRequestPayload 0 [], AuthPayload 0 [], NoncePayload [], NotifyPayload 0 0 [] [],
      DeletePayload 0 [], VendorIDPayload [], TSiPayload [], TSrPayload [], EncryptedPayload 0 [],
      ConfigPayload 0 [], EAPPayload []}"
    using assms(1) by (auto simp: newPayload_def split: if_splits)
  then consider
      (sa) "z = SAPayload []" | (del) "z = DeletePayload 0 []" | (ts) "z = TSiPayload [] \<or> z = TSrPayload []"
    | (cp) "z = ConfigPayload 0 []" | (nt) "z = NotifyPayload 0 0 [] []"
    | (simple) "z \<in> {KEPayload 0 [], IDiPayload 0 [], IDrPayload 0 [], CertPayload 0 [],
      CertRequestPayload 0 [], AuthPayload 0 [], NoncePayload [], VendorIDPayload [], EncryptedPayload 0 [],
      EAPPayload []}"
    by blast
  then show ?thesis
  proof cases
    case sa
    then show ?thesis using assms(2) parseProposals_size [of b] by (fastforce simp: setInnerFirst_def)
  next
    case del
    then obtain q sz c spis where d: "\<not> (unat (sz :: byte) = 0 \<and> unat c > 0)" "4 + unat sz * unat c \<le> length b"
      "take_spis (unat (c :: u16)) (unat sz) 4 b = Ok spis" "p = DeletePayload q spis"
      using assms(2) by (auto simp: setInnerFirst_def Let_def slice_eq_Ok not_less)
    have "unat c \<le> unat sz * unat c" using d(1) by (cases "unat sz = 0") auto
    then have "unat c \<le> length b" "unat c * unat sz \<le> length b"
      using d(2) unfolding mult.commute [of "unat c" "unat sz"] by linarith+
    then show ?thesis using take_spis_size [OF d(3)] d(4) by simp
  next
    case ts
    then show ?thesis using assms(2) parse_selectors_size
      by (fastforce simp: setInnerFirst_def parseTSBody_def Let_def slice_eq_Ok)
  next
    case cp
    then show ?thesis using assms(2) parseConfigAttrs_size
      by (fastforce simp: setInnerFirst_def slice_eq_Ok)
  next
    case nt
    then show ?thesis using assms(2) by (auto simp: setInnerFirst_def Let_def slice_eq_Ok)
  next
    case simple
    then show ?thesis using assms(2) by (auto simp: setInnerFirst_def parseIDBody_def slice_eq_Ok)
  qed
qed

lemma parseChain_size:
  "parseChain n body = Ok ps \<Longrightarrow>
   4 * length ps + sum_list (map octets ps) \<le> length body \<and> sum_list (map items ps) \<le> length body"
proof (induction body arbitrary: n ps rule: length_induct)
  case (1 body)
  show ?case
  proof (cases "body = []")
    case True
    then show ?thesis using "1.prems" by (simp add: parseChain.simps)
  next
    case False
    obtain following flags plen rest where p: "4 \<le> plen" "plen \<le> length body" "rest = drop plen body"
      "(case newPayload n of
            None \<Rightarrow>
              guardR (flags AND criticalBit \<noteq> 0) (ErrUnknownCritical n) (parseChain following rest)
          | Some p \<Rightarrow>
              bindR (slice body genericHeaderLen plen) (\<lambda>b.
              bindR (wrapR (ErrPayload n) (unmarshalBody (setInnerFirst following p) b)) (\<lambda>q.
              bindR (parseChain following rest) (\<lambda>ps. Ok (q # ps))))) = Ok ps"
      using "1.prems" [unfolded parseChain.simps [of n body]] False
      by (auto simp: Let_def slice_eq_Ok not_less simp del: guardR_eq_Ok bindR_eq_Ok)
         (auto simp: Let_def slice_eq_Ok not_less)
    have lt: "length rest < length body" using p False by simp
    show ?thesis
    proof (cases "newPayload n")
      case None
      then have "parseChain following rest = Ok ps" using p(4) by simp
      then show ?thesis using "1.IH" [rule_format, OF lt] p by fastforce
    next
      case (Some z)
      then obtain b q qs where q: "b = take (plen - 4) (drop 4 body)"
        "unmarshalBody (setInnerFirst following z) b = Ok q" "parseChain following rest = Ok qs" "ps = q # qs"
        using p(1,2,4) by (auto simp: slice_eq_Ok)
      have "items q \<le> plen - 4" "octets q \<le> plen - 4"
        using unmarshalBody_size [OF Some q(2)] q(1) p(2) by auto
      moreover have "4 * length qs + sum_list (map octets qs) \<le> length rest" "sum_list (map items qs) \<le> length rest"
        using "1.IH" [rule_format, OF lt q(3)] by simp_all
      moreover have "length rest = length body - plen" by (simp add: p(3))
      ultimately have "4 + 4 * length qs + octets q + sum_list (map octets qs) \<le> length body"
        "items q + sum_list (map items qs) \<le> length body"
        using p(1,2) by linarith+
      then show ?thesis by (simp add: q(4))
    qed
  qed
qed

section \<open>Properties\<close>

text \<open>
  C24 (safety).  The decoders are total on hostile input: no datagram makes \<open>Parse\<close> panic,
  and no decrypted inner chain makes \<open>ParsePayloads\<close> panic.
\<close>

theorem ikemsg_no_panic: "Parse raw \<noteq> Panic \<and> ParsePayloads first body \<noteq> Panic"
  using Parse_panic_free parseChain_panic_free by (simp add: ParsePayloads_def panic_free_def)

text \<open>
  C23 (roundtrip).  Of what \<open>Marshal\<close> emits, \<open>Parse\<close> reads back unchanged (the header fields and
  every payload of the chain with its nested proposals, transforms, selectors, attributes and
  SPIs) exactly the messages whose chain satisfies \<open>chain_ok\<close>, in less than 4 GiB: nonces of 16
  to 256 octets, notify SPIs of at most 255 octets, Delete SPIs of one common width between 1
  and 255, at most 255 traffic selectors, attribute types of 15 bits, and a sibling after an SK
  payload only if the payload names it.  The encoder does not refuse every message outside
  this set, and the decoder then refuses it or returns a different one.
\<close>

theorem ikemsg_roundtrip:
  assumes "Marshal m = Ok raw"
  shows "Parse raw = Ok m \<longleftrightarrow> chain_ok (MPayloads m) \<and> length raw < 2 ^ 32"
  using Parse_Marshal [OF assms] Parse_Marshal_only [OF assms] by blast

theorem ikemsg_roundtrip_witness:
  "\<exists>raw. Marshal \<lparr>InitiatorSPI = 1, ResponderSPI = 2, Exchange = ExchangeInformational, MFlags = FlagInitiator,
      MessageID = 3, MPayloads = [DeletePayload ProtocolESP [[1, 2, 3, 4]], EncryptedPayload 41 [9]]\<rparr> = Ok raw \<and>
    Parse raw = Ok \<lparr>InitiatorSPI = 1, ResponderSPI = 2, Exchange = ExchangeInformational, MFlags = FlagInitiator,
      MessageID = 3, MPayloads = [DeletePayload ProtocolESP [[1, 2, 3, 4]], EncryptedPayload 41 [9]]\<rparr>"
proof -
  let ?ps = "[DeletePayload ProtocolESP [[1, 2, 3, 4]], EncryptedPayload 41 [9]]"
  let ?m = "\<lparr>InitiatorSPI = 1, ResponderSPI = 2, Exchange = ExchangeInformational, MFlags = FlagInitiator,
      MessageID = 3, MPayloads = ?ps\<rparr>"
  obtain r where r: "marshalChain ?ps = Ok r" "length r = 17"
    by (simp add: SPISize_def)
  define raw where "raw = PutUint64 1 @ PutUint64 2 @ [PayloadDelete, version, ExchangeInformational, FlagInitiator] @
     PutUint32 3 @ PutUint32 (word_of_nat (headerLen + length r)) @ r"
  have raw: "Marshal ?m = Ok raw" "length raw < 2 ^ 32"
    using r by (simp_all add: Marshal_def MarshalPayloads_def raw_def del: marshalChain.simps of_nat_add)
  have "Parse raw = Ok ?m" unfolding ikemsg_roundtrip [OF raw(1)] using raw(2) by simp
  with raw(1) show ?thesis by blast
qed

text \<open>
  C33 (bounds).  Decoding cannot be used to amplify memory: the payloads, list elements and
  octets of a decoded message are bounded by the length of the datagram, which is exactly the
  length its header declares.
\<close>

theorem ikemsg_alloc_bound:
  assumes "Parse raw = Ok m"
  shows "length raw = unat (Uint32 (take 4 (drop 24 raw))) \<and>
     28 + 4 * length (MPayloads m) + sum_list (map octets (MPayloads m)) \<le> length raw \<and>
     28 + sum_list (map items (MPayloads m)) \<le> length raw"
proof -
  obtain l first body ps a1 a2 a3 a4 a5 where
    l: "slice raw 24 28 = (Ok l :: (ikemsg_err, bytes) res)" "\<not> unat (Uint32 l) < 28" "\<not> length raw \<noteq> unat (Uint32 l)"
    and body: "slice raw 28 (length raw) = (Ok body :: (ikemsg_err, bytes) res)"
    and ps: "parseChain first body = Ok ps"
    and m: "Ok \<lparr>InitiatorSPI = a1, ResponderSPI = a2, Exchange = a3, MFlags = a4, MessageID = a5, MPayloads = ps\<rparr> =
       (Ok m :: (ikemsg_err, Message) res)"
    using assms unfolding Parse_def Let_def guardR_eq_Ok bindR_eq_Ok headerLen_def by blast
  have eqs: "take 4 (drop 24 raw) = l" "length body = length raw - 28" "28 \<le> length raw"
    using l(1) body by (auto simp: slice_eq_Ok)
  have "MPayloads m = ps" using m by auto
  with parseChain_size [OF ps] have "28 + 4 * length (MPayloads m) + sum_list (map octets (MPayloads m)) \<le> length raw"
    "28 + sum_list (map items (MPayloads m)) \<le> length raw"
    using eqs(2,3) by auto
  then show ?thesis unfolding eqs(1) using l(3) by blast
qed

theorem ikemsg_alloc_bound_witness:
  "\<exists>raw. Parse raw = Ok \<lparr>InitiatorSPI = 1, ResponderSPI = 2, Exchange = 37, MFlags = 8, MessageID = 3,
      MPayloads = [VendorIDPayload [1, 2]]\<rparr> \<and> length raw = unat (Uint32 (take 4 (drop 24 raw))) \<and>
    28 + 4 * length [VendorIDPayload [1, 2]] + sum_list (map octets [VendorIDPayload [1, 2]]) \<le> length raw"
proof -
  let ?m = "\<lparr>InitiatorSPI = 1, ResponderSPI = 2, Exchange = 37, MFlags = 8, MessageID = 3,
      MPayloads = [VendorIDPayload [1, 2]]\<rparr>"
  obtain raw where "Marshal ?m = Ok raw" "length raw < 2 ^ 32" by (simp add: Marshal_def MarshalPayloads_def)
  then have "Parse raw = Ok ?m" by (intro Parse_Marshal) simp_all
  with ikemsg_alloc_bound [OF this] show ?thesis by (intro exI [of _ raw] conjI; simp only: select_convs)
qed

text \<open>
  A payload of a type the codec does not model is skipped, whatever its
  body, when its Critical bit is clear, and fails the parse with its type when it is set.
\<close>

lemma ikemsg_unknown_payload:
  assumes "newPayload t = None" "length b \<le> 65531"
  shows "parseChain t ([following, flags] @ PutUint16 (word_of_nat (4 + length b)) @ b @ rest) =
     (if flags AND 0x80 \<noteq> 0 then Err (ErrUnknownCritical t) else parseChain following rest)"
proof -
  define pre where "pre = [following, flags] @ PutUint16 (word_of_nat (4 + length b))"
  define body where "body = pre @ b @ rest"
  have l: "unat (word_of_nat (4 + length b) :: u16) = 4 + length b"
    using assms(2) by (intro unat_of_nat_u16) simp
  have pre: "length pre = 4" by (simp add: pre_def del: of_nat_add)
  have "body ! 0 = following" "body ! Suc 0 = flags"
    "take 2 (drop 2 body) = PutUint16 (word_of_nat (4 + length b))"
    by (simp_all add: body_def pre_def del: of_nat_add)
  moreover have "drop (4 + length b) body = rest" "length body = 4 + length b + length rest" "body \<noteq> []"
    using pre by (auto simp: body_def)
  ultimately have "parseChain t body =
     (if flags AND 0x80 \<noteq> 0 then Err (ErrUnknownCritical t) else parseChain following rest)"
    using l assms(1) by (subst parseChain.simps) (simp add: guardR_def del: of_nat_add)
  then show ?thesis by (simp add: body_def pre_def del: of_nat_add)
qed

text \<open>
  The one-octet selector count of a Traffic Selector payload wraps: 256
  selectors are encoded without an error into a body that declares none, which the decoder
  refuses.  Every other count and length of the codec is checked or bounded by the 16-bit
  payload length.
\<close>

lemma ikemsg_ts_count_wraps:
  "\<exists>body. marshalTSBody (replicate 256 \<lparr>ts_TSType = TSIPv4AddrRange, ts_Protocol = 0, ts_StartPort = 0,
       ts_EndPort = 0xffff, ts_StartAddr = [0, 0, 0, 0], ts_EndAddr = [255, 255, 255, 255]\<rparr>) = Ok body \<and>
     body ! 0 = 0 \<and> parseTSBody body = Err ErrNoSelectors"
proof -
  let ?ts = "\<lparr>ts_TSType = TSIPv4AddrRange, ts_Protocol = 0, ts_StartPort = 0,
       ts_EndPort = 0xffff, ts_StartAddr = [0, 0, 0, 0], ts_EndAddr = [255, 255, 255, 255]\<rparr>"
  obtain b where b: "marshalSelector ?ts = Ok b" by (simp add: marshalSelector_def addrLen_def)
  have "\<exists>r. put_all (\<lambda>_. marshalSelector) (replicate n ?ts) = Ok r" for n
    using b by (induction n) (auto simp del: TSIPv4AddrRange_def)
  then obtain r where "put_all (\<lambda>_. marshalSelector) (replicate 256 ?ts) = Ok r" by blast
  then have "marshalTSBody (replicate 256 ?ts) = Ok ([0, 0, 0, 0] @ r)"
    by (simp add: marshalTSBody_def del: TSIPv4AddrRange_def)
  then show ?thesis by (intro exI [of _ "[0, 0, 0, 0] @ r"]) (simp add: parseTSBody_def)
qed

end
