(* ===== verification/Natt.thy ===== *)
theory Natt
  imports Esp Ikemsg
begin

text \<open>
  NAT traversal: the framing on port 4500 and the detection hash of \<open>internal/natt/natt.go\<close>,
  and the session's use of them in \<open>internal/session/natt.go\<close>.  SHA-1 of \<open>crypto/sha1\<close> is
  the parameter \<open>sha1\<close>.
\<close>

section \<open>Framing\<close>

definition Port4500 :: u16 where "Port4500 = 4500"

definition nonESPMarker :: bytes where [simp]: "nonESPMarker = [0, 0, 0, 0]"

definition KeepaliveByte :: byte where [simp]: "KeepaliveByte = 0xFF"

definition WrapIKE :: "bytes \<Rightarrow> bytes" where
  "WrapIKE ike = nonESPMarker @ ike"

datatype Kind = KindUnknown | KindIKE | KindESP | KindKeepalive

definition Classify :: "bytes \<Rightarrow> Kind \<times> bytes" where
  "Classify datagram =
     (if length datagram = 1 \<and> datagram ! 0 = KeepaliveByte then (KindKeepalive, [])
      else if length datagram \<ge> 4 then
        (if Uint32 (take 4 datagram) = 0 then (KindIKE, drop 4 datagram) else (KindESP, datagram))
      else (KindUnknown, []))"

section \<open>Addresses and the detection hash\<close>

text \<open>
  A valid \<open>netip.Addr\<close> without zone is its family and its octets.  A \<open>net.Addr\<close> is a
  \<open>*net.UDPAddr\<close> with its IP slice and port, or something else.
\<close>

datatype Addr = Addr4 bytes | Addr16 bytes

datatype net_Addr = UDPAddr bytes nat | OtherAddr

definition DetectionHash :: "(bytes \<Rightarrow> bytes) \<Rightarrow> u64 \<Rightarrow> u64 \<Rightarrow> Addr \<Rightarrow> u16 \<Rightarrow> bytes" where
  "DetectionHash sha1 spiI spiR ip port =
     sha1 (PutUint64 spiI @ PutUint64 spiR @ (case ip of Addr4 a4 \<Rightarrow> a4 | Addr16 a16 \<Rightarrow> a16) @ PutUint16 port)"

text \<open>\<open>Unmap\<close> turns an IPv4-mapped IPv6 address into the IPv4 address.\<close>

definition Unmap :: "bytes \<Rightarrow> Addr" where
  "Unmap b = (if take 12 b = zeros 10 @ [0xFF, 0xFF] then Addr4 (drop 12 b) else Addr16 b)"

definition addrPort :: "net_Addr \<Rightarrow> Addr \<times> u16" where
  "addrPort a =
     (let zero = Addr4 [0, 0, 0, 0] in
      case a of
        OtherAddr \<Rightarrow> (zero, 0)
      | UDPAddr ip port \<Rightarrow>
          if length ip = 4 then (Addr4 ip, word_of_nat port)
          else if length ip = 16 then (Unmap ip, word_of_nat port)
          else (zero, word_of_nat port))"

section \<open>The session's use\<close>

text \<open>
  \<open>sendDatagram\<close> is what is handed to the transport.  \<open>recvDatagram\<close> runs on the results the
  transport's \<open>Recv\<close> gives in turn; it returns the first IKE message, or the error, together
  with the results not yet consumed, and \<open>None\<close> if they run out while it is still receiving.
\<close>

definition sendDatagram :: "bool \<Rightarrow> bytes \<Rightarrow> bytes" where
  "sendDatagram nattMode ike = (if nattMode then WrapIKE ike else ike)"

fun recvDatagram :: "bool \<Rightarrow> ('e + bytes) list \<Rightarrow> (('e + bytes) \<times> ('e + bytes) list) option" where
  "recvDatagram nattMode [] = None"
| "recvDatagram nattMode (Inl err # inp) = Some (Inl err, inp)"
| "recvDatagram nattMode (Inr raw # inp) =
     (if \<not> nattMode then Some (Inr raw, inp)
      else
        case Classify raw of
          (KindIKE, payload) \<Rightarrow> Some (Inr payload, inp)
        | (KindKeepalive, _) \<Rightarrow> recvDatagram nattMode inp
        | _ \<Rightarrow> recvDatagram nattMode inp)"

definition appendNATDetection ::
  "(bytes \<Rightarrow> bytes) \<Rightarrow> u64 \<Rightarrow> u64 \<Rightarrow> net_Addr \<Rightarrow> net_Addr \<Rightarrow> Payloads \<Rightarrow> Payloads" where
  "appendNATDetection sha1 spiI spiR localAddr remoteAddr c =
     (let (localIP, localPort) = addrPort localAddr;
          (remoteIP, remotePort) = addrPort remoteAddr;
          src = DetectionHash sha1 spiI spiR localIP localPort;
          dst = DetectionHash sha1 spiI spiR remoteIP remotePort in
      c @ [NotifyPayload 0 NotifyNATDetectionSourceIP [] src, NotifyPayload 0 NotifyNATDetectionDestinationIP [] dst])"

text \<open>
  \<open>processNATDetection\<close> on the notifies (type and data) of the response, from the previous
  value of \<open>natDetected\<close>; \<open>nat_loop\<close> is its loop.
\<close>

fun nat_loop :: "bytes \<Rightarrow> bytes \<Rightarrow> (NotifyType \<times> bytes) list \<Rightarrow> bool \<Rightarrow> bool" where
  "nat_loop expectPeerSrc expectOurDst [] nd = nd"
| "nat_loop expectPeerSrc expectOurDst ((t, d) # ns) nd =
     nat_loop expectPeerSrc expectOurDst ns
       (if t = NotifyNATDetectionSourceIP then (if d \<noteq> expectPeerSrc then True else nd)
        else if t = NotifyNATDetectionDestinationIP then (if d \<noteq> expectOurDst then True else nd)
        else nd)"

definition processNATDetection ::
  "(bytes \<Rightarrow> bytes) \<Rightarrow> u64 \<Rightarrow> u64 \<Rightarrow> net_Addr \<Rightarrow> net_Addr \<Rightarrow> (NotifyType \<times> bytes) list \<Rightarrow> bool \<Rightarrow> bool" where
  "processNATDetection sha1 spiI spiR localAddr remoteAddr notifies natDetected =
     (if length notifies = 0 then natDetected
      else
        let (localIP, localPort) = addrPort localAddr;
            (remoteIP, remotePort) = addrPort remoteAddr;
            expectPeerSrc = DetectionHash sha1 spiI spiR remoteIP remotePort;
            expectOurDst = DetectionHash sha1 spiI spiR localIP localPort in
        nat_loop expectPeerSrc expectOurDst notifies natDetected)"

text \<open>\<open>migrateNATT\<close>: whether the session is in NAT-T mode afterwards, by whether the transport
  can migrate.\<close>

definition migrateNATT :: "bool \<Rightarrow> bool \<Rightarrow> bool" where
  "migrateNATT canMigrate nattMode = (if canMigrate then True else nattMode)"

section \<open>The three kinds of datagram do not overlap\<close>

lemma Uint32_zeros [simp]: "Uint32 [0, 0, 0, 0] = 0"
  by (simp add: Uint32_def get_be_def)

lemma Classify_WrapIKE: "Classify (WrapIKE m) = (KindIKE, m)"
  by (simp add: Classify_def WrapIKE_def)

lemma Encrypt_starts_with_SPI:
  assumes "Encrypt P sa rnd inner = (Ok pkt, sa')"
  shows "take 4 pkt = PutUint32 (sa_outSPI sa)" "4 \<le> length pkt" "length pkt \<noteq> 1"
proof -
  have "take 4 pkt = PutUint32 (sa_outSPI sa) \<and> 4 \<le> length pkt"
    using assms
    by (auto simp: Encrypt_def nextSeq_def encryptCBC_def encryptAEAD_def Let_def split: if_splits res.splits)
  then show "take 4 pkt = PutUint32 (sa_outSPI sa)" "4 \<le> length pkt" "length pkt \<noteq> 1" by auto
qed

lemma nat_loop_iff:
  "nat_loop ps od ns nd \<longleftrightarrow>
     nd \<or> (\<exists>d. (NotifyNATDetectionSourceIP, d) \<in> set ns \<and> d \<noteq> ps) \<or>
     (\<exists>d. (NotifyNATDetectionDestinationIP, d) \<in> set ns \<and> d \<noteq> od)"
  by (induction ps od ns nd rule: nat_loop.induct) auto

section \<open>Properties\<close>

text \<open>
  On port 4500 every datagram this end emits is classified by the other end
  as what it is: a wrapped IKE message as IKE with the message intact, a packet of
  \<open>Encrypt\<close> under a non-zero SPI as ESP with the packet intact, the keepalive octet as a
  keepalive.
\<close>

lemma natt_classify_emitted:
  assumes "Encrypt P sa rnd inner = (Ok pkt, sa')" "sa_outSPI sa \<noteq> 0"
  shows "Classify (sendDatagram True m) = (KindIKE, m) \<and> Classify pkt = (KindESP, pkt) \<and>
     Classify [KeepaliveByte] = (KindKeepalive, [])"
proof -
  have "Uint32 (take 4 pkt) \<noteq> 0" using Encrypt_starts_with_SPI(1) [OF assms(1)] assms(2) by simp
  then show ?thesis using Encrypt_starts_with_SPI(2,3) [OF assms(1)] Classify_WrapIKE [of m]
    by (simp add: sendDatagram_def Classify_def)
qed

text \<open>
  In NAT-T mode \<open>recvDatagram\<close> returns the first wrapped IKE message in the
  stream and skips every keepalive, ESP packet and junk datagram before it, without losing
  what follows.
\<close>

lemma natt_recv_first_ike:
  assumes "list_all (\<lambda>d. fst (Classify d) \<noteq> KindIKE) junk"
  shows "recvDatagram True (map Inr junk @ Inr (WrapIKE m) # rest) = Some (Inr m, rest)"
  using assms
proof (induction junk)
  case Nil
  then show ?case by (simp add: Classify_WrapIKE)
next
  case (Cons d junk)
  then show ?case by (cases "Classify d"; cases "fst (Classify d)") auto
qed

text \<open>
  NAT detection is exact with respect to the hashes: it raises the flag if
  and only if the response carries a source hash that is not that of the server's address as
  this end sees it, or a destination hash that is not that of this end's own address.
\<close>

lemma natt_detection_exact:
  "processNATDetection sha1 spiI spiR localAddr remoteAddr ns nd \<longleftrightarrow>
     nd \<or>
     (\<exists>d. (NotifyNATDetectionSourceIP, d) \<in> set ns \<and>
        d \<noteq> DetectionHash sha1 spiI spiR (fst (addrPort remoteAddr)) (snd (addrPort remoteAddr))) \<or>
     (\<exists>d. (NotifyNATDetectionDestinationIP, d) \<in> set ns \<and>
        d \<noteq> DetectionHash sha1 spiI spiR (fst (addrPort localAddr)) (snd (addrPort localAddr)))"
  by (auto simp: processNATDetection_def nat_loop_iff Let_def split: prod.splits)

end
