(* ===== verification/Ikesa.thy ===== *)
theory Ikesa
  imports Primitives
begin

text \<open>
  The IKE SA of \<open>internal/ikesa\<close> (\<open>crypto.go\<close>, \<open>keys.go\<close>, \<open>child.go\<close>): the pseudorandom
  function and its expansion, the key schedules of the initial exchange, of an IKE rekey and
  of a Child SA, and the SK{} envelope.  The constants and the suite identifiers carry the
  prefix \<open>ike_\<close> where package \<open>esp\<close> has one of the same name.
\<close>

section \<open>Suites and constants\<close>

type_synonym ike_Suite = byte

definition ike_SuiteAESCBC256SHA256 :: ike_Suite where [simp]: "ike_SuiteAESCBC256SHA256 = 0"
definition ike_SuiteAESGCM256 :: ike_Suite where [simp]: "ike_SuiteAESGCM256 = 1"
definition ike_SuiteChaCha20Poly1305 :: ike_Suite where [simp]: "ike_SuiteChaCha20Poly1305 = 2"

definition prfKeyLen :: nat where [simp]: "prfKeyLen = 32"
definition integKeyLen :: nat where [simp]: "integKeyLen = 32"
definition integICVLen :: nat where [simp]: "integICVLen = 16"
definition encrKeyLen :: nat where [simp]: "encrKeyLen = 32"
definition aesBlock :: nat where [simp]: "aesBlock = 16"
definition ike_aeadIVLen :: nat where [simp]: "ike_aeadIVLen = 8"
definition ike_aeadSaltLen :: nat where [simp]: "ike_aeadSaltLen = 4"
definition aeadTagLen :: nat where [simp]: "aeadTagLen = 16"
definition ike_aeadEncrKeyLen :: nat where [simp]: "ike_aeadEncrKeyLen = 32 + ike_aeadSaltLen"
definition ikeHdrLen :: nat where [simp]: "ikeHdrLen = 28"
definition genericHdrLen :: nat where [simp]: "genericHdrLen = 4"
definition ike_minNonceLen :: nat where [simp]: "ike_minNonceLen = 16"

datatype ike_err =
    ErrIKEKeySize nat
  | ErrIKENotAEAD ike_Suite
  | ErrIKERand
  | ErrPlaintextAlign
  | ErrSKShorterThanIV
  | ErrSKAlign
  | ErrNonceShort
  | ErrEmptyDHShared
  | ErrEmptySKd
  | ErrSKFinalizeShort
  | ErrSKShort
  | ErrSKAuth
  | ErrSKPad
  | ErrSKICV
  | ErrMsgShorterThanICV
  | ErrDHGroup nat
  | ErrDHPeerLength
  | ErrDHPeerRange
  | ErrX25519

datatype Role = Initiator | Responder

definition ike_aead :: "ike_Suite \<Rightarrow> bool" where
  "ike_aead s \<longleftrightarrow> s = ike_SuiteAESGCM256 \<or> s = ike_SuiteChaCha20Poly1305"

definition keyLens :: "ike_Suite \<Rightarrow> nat \<times> nat" where
  "keyLens s = (if ike_aead s then (ike_aeadEncrKeyLen, 0) else (encrKeyLen, integKeyLen))"

definition ike_aes_NewCipher :: "bytes \<Rightarrow> (ike_err, bytes) res" where
  "ike_aes_NewCipher key = guardR (length key \<notin> {16, 24, 32}) (ErrIKEKeySize (length key)) (Ok key)"

definition ike_newAEAD :: "ike_Suite \<Rightarrow> bytes \<Rightarrow> (ike_err, aead) res" where
  "ike_newAEAD suite key =
     (if suite = ike_SuiteAESGCM256 then bindR (ike_aes_NewCipher key) (\<lambda>b. Ok (GCM b))
      else if suite = ike_SuiteChaCha20Poly1305 then
        guardR (length key \<noteq> 32) (ErrIKEKeySize (length key)) (Ok (ChaCha key))
      else Err (ErrIKENotAEAD suite))"

section \<open>The pseudorandom function\<close>

definition prf_HMAC :: "prims \<Rightarrow> bytes \<Rightarrow> bytes \<Rightarrow> bytes" where
  "prf_HMAC P key data = hmac_sha256 P key data"

text \<open>\<open>prfPlus_loop\<close> is the block loop, from block index \<open>i\<close>; the index is one octet.\<close>

function prfPlus_loop ::
  "prims \<Rightarrow> bytes \<Rightarrow> bytes \<Rightarrow> nat \<Rightarrow> nat \<Rightarrow> bytes \<Rightarrow> bytes \<Rightarrow> (ike_err, bytes) res" where
  "prfPlus_loop P key seed keyLen i prev out =
     (if length out < keyLen then
        (if i > 255 then Panic
         else let t = hmac_sha256 P key (prev @ seed @ [word_of_nat i])
              in prfPlus_loop P key seed keyLen (i + 1) t (out @ t))
      else Ok out)"
  by pat_completeness auto
termination
  by (relation "measure (\<lambda>(_, _, _, _, i, _, _). 256 - i)") auto

declare prfPlus_loop.simps [simp del]

definition prfPlus :: "prims \<Rightarrow> bytes \<Rightarrow> bytes \<Rightarrow> nat \<Rightarrow> (ike_err, bytes) res" where
  "prfPlus P key seed keyLen =
     bindR (prfPlus_loop P key seed keyLen 1 [] []) (\<lambda>out. slice out 0 keyLen)"

definition integ :: "prims \<Rightarrow> bytes \<Rightarrow> bytes \<Rightarrow> (ike_err, bytes) res" where
  "integ P key data = slice (hmac_sha256 P key data) 0 integICVLen"

section \<open>AES-CBC\<close>

definition aesCBCEncrypt :: "prims \<Rightarrow> bytes \<Rightarrow> bytes \<Rightarrow> bytes \<Rightarrow> (ike_err, bytes) res" where
  "aesCBCEncrypt P rnd key plaintext =
     guardR (length plaintext mod aesBlock \<noteq> 0) ErrPlaintextAlign
     (bindR (ike_aes_NewCipher key) (\<lambda>block.
      bindR (ReadFull ErrIKERand aesBlock rnd) (\<lambda>iv.
      bindR (cbc_encrypt P block iv plaintext) (\<lambda>ct.
      Ok (iv @ ct)))))"

definition aesCBCDecrypt :: "prims \<Rightarrow> bytes \<Rightarrow> bytes \<Rightarrow> (ike_err, bytes) res" where
  "aesCBCDecrypt P key ivAndCT =
     guardR (length ivAndCT < aesBlock) ErrSKShorterThanIV
     (bindR (slice ivAndCT 0 aesBlock) (\<lambda>iv.
      bindR (slice ivAndCT aesBlock (length ivAndCT)) (\<lambda>ct.
      guardR (length ct = 0 \<or> length ct mod aesBlock \<noteq> 0) ErrSKAlign
      (bindR (ike_aes_NewCipher key) (\<lambda>block.
       cbc_decrypt P block iv ct)))))"

section \<open>The key schedule\<close>

record IKESA =
  ik_Role :: Role
  ik_Suite :: ike_Suite
  ik_InitiatorSPI :: u64
  ik_ResponderSPI :: u64
  SKd :: bytes
  SKai :: bytes
  SKar :: bytes
  SKei :: bytes
  SKer :: bytes
  SKpi :: bytes
  SKpr :: bytes
  ik_outAEAD :: "aead option"
  ik_inAEAD :: "aead option"
  ik_outSalt :: bytes
  ik_inSalt :: bytes
  skSeq :: u64

definition outboundIntegKey :: "IKESA \<Rightarrow> bytes" where
  "outboundIntegKey s = (if ik_Role s = Initiator then SKai s else SKar s)"

definition inboundIntegKey :: "IKESA \<Rightarrow> bytes" where
  "inboundIntegKey s = (if ik_Role s = Initiator then SKar s else SKai s)"

definition outboundEncrKey :: "IKESA \<Rightarrow> bytes" where
  "outboundEncrKey s = (if ik_Role s = Initiator then SKei s else SKer s)"

definition inboundEncrKey :: "IKESA \<Rightarrow> bytes" where
  "inboundEncrKey s = (if ik_Role s = Initiator then SKer s else SKei s)"

text \<open>
  \<open>takeKey ks off n\<close> is the closure \<open>take\<close> of the two derivations: a fresh copy of
  \<open>ks[off:off+n]\<close>, with \<open>off\<close> then advanced by \<open>n\<close>.
\<close>

definition takeKey :: "bytes \<Rightarrow> nat \<Rightarrow> nat \<Rightarrow> (ike_err, bytes \<times> nat) res" where
  "takeKey ks off n = bindR (slice ks off (off + n)) (\<lambda>b. Ok (copy (zeros n) b, off + n))"

definition deriveFromSKEYSEED ::
  "prims \<Rightarrow> ike_Suite \<Rightarrow> Role \<Rightarrow> u64 \<Rightarrow> u64 \<Rightarrow> bytes \<Rightarrow> bytes \<Rightarrow> bytes \<Rightarrow> (ike_err, IKESA) res" where
  "deriveFromSKEYSEED P suite role spii spir nonceI nonceR skeyseed =
     (let seed = nonceI @ nonceR @ PutUint64 spii @ PutUint64 spir;
          encrLen = fst (keyLens suite); integLen = snd (keyLens suite);
          total = prfKeyLen + 2 * integLen + 2 * encrLen + 2 * prfKeyLen in
      bindR (prfPlus P skeyseed seed total) (\<lambda>ks.
      bindR (takeKey ks 0 prfKeyLen) (\<lambda>(kd, o1).
      bindR (takeKey ks o1 integLen) (\<lambda>(kai, o2).
      bindR (takeKey ks o2 integLen) (\<lambda>(kar, o3).
      bindR (takeKey ks o3 encrLen) (\<lambda>(kei, o4).
      bindR (takeKey ks o4 encrLen) (\<lambda>(ker, o5).
      bindR (takeKey ks o5 prfKeyLen) (\<lambda>(kpi, o6).
      bindR (takeKey ks o6 prfKeyLen) (\<lambda>(kpr, o7).
      let s = \<lparr>ik_Role = role, ik_Suite = suite, ik_InitiatorSPI = spii, ik_ResponderSPI = spir,
               SKd = kd, SKai = kai, SKar = kar, SKei = kei, SKer = ker, SKpi = kpi, SKpr = kpr,
               ik_outAEAD = None, ik_inAEAD = None, ik_outSalt = [], ik_inSalt = [], skSeq = 0\<rparr> in
      if \<not> ike_aead suite then Ok s
      else
        bindR (slice (outboundEncrKey s) 0 (encrLen - ike_aeadSaltLen)) (\<lambda>okey.
        bindR (ike_newAEAD suite okey) (\<lambda>oa.
        bindR (slice (inboundEncrKey s) 0 (encrLen - ike_aeadSaltLen)) (\<lambda>ikey.
        bindR (ike_newAEAD suite ikey) (\<lambda>ia.
        bindR (slice (outboundEncrKey s) (encrLen - ike_aeadSaltLen) (length (outboundEncrKey s))) (\<lambda>osalt.
        bindR (slice (inboundEncrKey s) (encrLen - ike_aeadSaltLen) (length (inboundEncrKey s))) (\<lambda>isalt.
        Ok (s\<lparr>ik_outAEAD := Some oa, ik_inAEAD := Some ia, ik_outSalt := osalt, ik_inSalt := isalt\<rparr>)
        )))))))))))))))"

definition Derive ::
  "prims \<Rightarrow> ike_Suite \<Rightarrow> Role \<Rightarrow> u64 \<Rightarrow> u64 \<Rightarrow> bytes \<Rightarrow> bytes \<Rightarrow> bytes \<Rightarrow> (ike_err, IKESA) res" where
  "Derive P suite role spii spir nonceI nonceR dhShared =
     guardR (length nonceI < ike_minNonceLen \<or> length nonceR < ike_minNonceLen) ErrNonceShort
     (guardR (length dhShared = 0) ErrEmptyDHShared
     (let skeyseed = prf_HMAC P (nonceI @ nonceR) dhShared in
      deriveFromSKEYSEED P suite role spii spir nonceI nonceR skeyseed))"

definition DeriveRekeyIKE ::
  "prims \<Rightarrow> ike_Suite \<Rightarrow> bytes \<Rightarrow> Role \<Rightarrow> u64 \<Rightarrow> u64 \<Rightarrow> bytes \<Rightarrow> bytes \<Rightarrow> bytes \<Rightarrow> (ike_err, IKESA) res" where
  "DeriveRekeyIKE P suite oldSKd role spii spir nonceI nonceR dhShared =
     guardR (length oldSKd = 0) ErrEmptySKd
     (guardR (length nonceI < ike_minNonceLen \<or> length nonceR < ike_minNonceLen) ErrNonceShort
     (guardR (length dhShared = 0) ErrEmptyDHShared
     (let skeyseed = prf_HMAC P oldSKd (dhShared @ nonceI @ nonceR) in
      deriveFromSKEYSEED P suite role spii spir nonceI nonceR skeyseed)))"

record ChildKeys =
  EncrIR :: bytes
  IntegIR :: bytes
  EncrRI :: bytes
  IntegRI :: bytes

definition deriveChildKeys ::
  "prims \<Rightarrow> IKESA \<Rightarrow> bytes \<Rightarrow> bytes \<Rightarrow> bytes \<Rightarrow> nat \<Rightarrow> nat \<Rightarrow> (ike_err, ChildKeys) res" where
  "deriveChildKeys P s dhShared nonceI nonceR encrLen integLen =
     (let seed = dhShared @ nonceI @ nonceR in
      bindR (prfPlus P (SKd s) seed (2 * (encrLen + integLen))) (\<lambda>ks.
      bindR (takeKey ks 0 encrLen) (\<lambda>(eir, o1).
      bindR (takeKey ks o1 integLen) (\<lambda>(iir, o2).
      bindR (takeKey ks o2 encrLen) (\<lambda>(eri, o3).
      bindR (takeKey ks o3 integLen) (\<lambda>(iri, o4).
      Ok \<lparr>EncrIR = eir, IntegIR = iir, EncrRI = eri, IntegRI = iri\<rparr>))))))"

definition DeriveChildKeys ::
  "prims \<Rightarrow> IKESA \<Rightarrow> bytes \<Rightarrow> bytes \<Rightarrow> nat \<Rightarrow> nat \<Rightarrow> (ike_err, ChildKeys) res" where
  "DeriveChildKeys P s nonceI nonceR encrLen integLen =
     deriveChildKeys P s [] nonceI nonceR encrLen integLen"

definition DeriveChildKeysPFS ::
  "prims \<Rightarrow> IKESA \<Rightarrow> bytes \<Rightarrow> bytes \<Rightarrow> bytes \<Rightarrow> nat \<Rightarrow> nat \<Rightarrow> (ike_err, ChildKeys) res" where
  "DeriveChildKeysPFS P s dhShared nonceI nonceR encrLen integLen =
     deriveChildKeys P s dhShared nonceI nonceR encrLen integLen"

section \<open>The SK{} envelope\<close>

definition EncryptToSK :: "prims \<Rightarrow> IKESA \<Rightarrow> bytes \<Rightarrow> bytes \<Rightarrow> (ike_err, bytes) res \<times> IKESA" where
  "EncryptToSK P s rnd plaintext =
     (if ike_aead (ik_Suite s) then
        let seq = skSeq s + 1 in
        (Ok (PutUint64 seq @ plaintext @ zeros (1 + aeadTagLen)), s\<lparr>skSeq := seq\<rparr>)
      else
        let padLen = (aesBlock - (length plaintext + 1) mod aesBlock) mod aesBlock;
            padded = plaintext @ map word_of_nat [1..<padLen + 1] @ [word_of_nat padLen] in
        (bindR (aesCBCEncrypt P rnd (outboundEncrKey s) padded) (\<lambda>ivCT.
         Ok (ivCT @ zeros integICVLen)), s))"

definition checksum :: "prims \<Rightarrow> IKESA \<Rightarrow> bytes \<Rightarrow> (ike_err, bytes) res" where
  "checksum P s msg =
     guardR (length msg < integICVLen) ErrMsgShorterThanICV
     (bindR (slice msg 0 (length msg - integICVLen)) (\<lambda>covered.
      bindR (integ P (outboundIntegKey s) covered) (\<lambda>mac.
      Ok (copyAt msg (length msg - integICVLen) mac))))"

definition FinalizeSK :: "prims \<Rightarrow> IKESA \<Rightarrow> bytes \<Rightarrow> nat \<Rightarrow> (ike_err, bytes) res" where
  "FinalizeSK P s raw skDataLen =
     (if \<not> ike_aead (ik_Suite s) then checksum P s raw
      else
        let skStart = int (length raw) - int skDataLen in
        guardR (skStart < int (ikeHdrLen + genericHdrLen) \<or> skDataLen < ike_aeadIVLen + 1 + aeadTagLen)
          ErrSKFinalizeShort
        (bindR (slice raw (nat skStart) (nat skStart + ike_aeadIVLen)) (\<lambda>iv.
         bindR (slice raw (nat skStart + ike_aeadIVLen) (length raw - aeadTagLen)) (\<lambda>pt.
         bindR (slice raw 0 (nat skStart)) (\<lambda>aad.
         bindR (case ik_outAEAD s of None \<Rightarrow> Panic | Some a \<Rightarrow> Seal P a (ik_outSalt s @ iv) pt aad) (\<lambda>ct.
         Ok (copyAt raw (nat skStart + ike_aeadIVLen) ct)))))))"

definition verifyChecksum :: "prims \<Rightarrow> IKESA \<Rightarrow> bytes \<Rightarrow> (ike_err, bool) res" where
  "verifyChecksum P s msg =
     (if length msg < integICVLen then Ok False
      else
        bindR (slice msg (length msg - integICVLen) (length msg)) (\<lambda>want.
        bindR (slice msg 0 (length msg - integICVLen)) (\<lambda>covered.
        bindR (integ P (inboundIntegKey s) covered) (\<lambda>got.
        Ok (want = got)))))"

text \<open>The last step of both envelopes: the self-describing padding.\<close>

definition stripPad :: "bytes \<Rightarrow> (ike_err, bytes) res" where
  "stripPad padded =
     bindR (if length padded = 0 then Panic else index padded (length padded - 1)) (\<lambda>pl.
     guardR (unat pl + 1 > length padded) ErrSKPad
     (slice padded 0 (length padded - unat pl - 1)))"

definition decryptSK :: "prims \<Rightarrow> IKESA \<Rightarrow> bytes \<Rightarrow> (ike_err, bytes) res" where
  "decryptSK P s skData =
     guardR (length skData < integICVLen + aesBlock) ErrSKShort
     (bindR (slice skData 0 (length skData - integICVLen)) (\<lambda>ivCT.
      bindR (aesCBCDecrypt P (inboundEncrKey s) ivCT) stripPad))"

text \<open>\<open>OpenSK\<close> returns its error together with \<open>icvOK\<close>.\<close>

definition OpenSK :: "prims \<Rightarrow> IKESA \<Rightarrow> bytes \<Rightarrow> bytes \<Rightarrow> (ike_err, bytes) res \<times> bool" where
  "OpenSK P s raw skData =
     (if ike_aead (ik_Suite s) then
        let skStart = int (length raw) - int (length skData) in
        if skStart < int (ikeHdrLen + genericHdrLen) \<or> length skData < ike_aeadIVLen + 1 + aeadTagLen
        then (Err ErrSKShort, False)
        else
          case bindR (slice skData 0 ike_aeadIVLen) (\<lambda>iv.
               bindR (slice skData ike_aeadIVLen (length skData)) (\<lambda>ct.
               bindR (slice raw 0 (nat skStart)) (\<lambda>aad.
               (case ik_inAEAD s of None \<Rightarrow> Panic | Some a \<Rightarrow> Open P a (ik_inSalt s @ iv) ct aad))))
          of Ok (Some padded) \<Rightarrow> (stripPad padded, True)
           | Ok None \<Rightarrow> (Err ErrSKAuth, False)
           | Err e \<Rightarrow> (Err e, False)
           | Panic \<Rightarrow> (Panic, False)
      else
        case verifyChecksum P s raw of
          Ok ok \<Rightarrow> if \<not> ok then (Err ErrSKICV, False) else (decryptSK P s skData, True)
        | Err e \<Rightarrow> (Err e, False)
        | Panic \<Rightarrow> (Panic, False))"

section \<open>The expansion is the stream of RFC 7296, section 2.13\<close>

primrec prf_T :: "prims \<Rightarrow> bytes \<Rightarrow> bytes \<Rightarrow> nat \<Rightarrow> bytes" where
  "prf_T P K S 0 = []"
| "prf_T P K S (Suc n) = prf_HMAC P K (prf_T P K S n @ S @ [word_of_nat (Suc n)])"

primrec prf_stream :: "prims \<Rightarrow> bytes \<Rightarrow> bytes \<Rightarrow> nat \<Rightarrow> bytes" where
  "prf_stream P K S 0 = []"
| "prf_stream P K S (Suc n) = prf_stream P K S n @ prf_T P K S (Suc n)"

lemma length_prf_T: "prims_ok P \<Longrightarrow> 0 < n \<Longrightarrow> length (prf_T P K S n) = 32"
  by (cases n) (simp_all add: prf_HMAC_def length_hmac)

lemma length_prf_stream: "prims_ok P \<Longrightarrow> length (prf_stream P K S n) = 32 * n"
  by (induction n) (simp_all add: prf_HMAC_def length_hmac)

lemma prfPlus_loop_blocks:
  assumes "prims_ok P" "keyLen \<le> 255 * 32" "n \<le> 255"
  shows "\<exists>m. n \<le> m \<and> m \<le> 255 \<and> keyLen \<le> 32 * m \<and>
     prfPlus_loop P K S keyLen (n + 1) (prf_T P K S n) (prf_stream P K S n) = Ok (prf_stream P K S m)"
  using assms(3)
proof (induction "255 - n" arbitrary: n)
  case 0
  then have "prfPlus_loop P K S keyLen (n + 1) (prf_T P K S n) (prf_stream P K S n) = Ok (prf_stream P K S n)"
    using assms(1,2) by (subst prfPlus_loop.simps) (simp add: length_prf_stream)
  then show ?case using 0 assms(2) by (intro exI [of _ n]) simp
next
  case (Suc d)
  show ?case
  proof (cases "32 * n < keyLen")
    case False
    then have "prfPlus_loop P K S keyLen (n + 1) (prf_T P K S n) (prf_stream P K S n) = Ok (prf_stream P K S n)"
      using assms(1) by (subst prfPlus_loop.simps) (simp add: length_prf_stream)
    then show ?thesis using False Suc.prems by (intro exI [of _ n]) simp
  next
    case True
    have "n < 255" using Suc.hyps(2) by simp
    then have "prfPlus_loop P K S keyLen (n + 1) (prf_T P K S n) (prf_stream P K S n) =
       prfPlus_loop P K S keyLen (Suc n + 1) (prf_T P K S (Suc n)) (prf_stream P K S (Suc n))"
      using True assms(1)
      by (subst prfPlus_loop.simps) (simp add: length_prf_stream prf_HMAC_def Let_def)
    moreover obtain m where "Suc n \<le> m" "m \<le> 255" "keyLen \<le> 32 * m"
      "prfPlus_loop P K S keyLen (Suc n + 1) (prf_T P K S (Suc n)) (prf_stream P K S (Suc n)) =
         Ok (prf_stream P K S m)"
    proof -
      have "d = 255 - Suc n" "Suc n \<le> 255" using Suc.hyps(2) \<open>n < 255\<close> by simp_all
      from Suc.hyps(1) [OF this] show ?thesis using that by blast
    qed
    ultimately show ?thesis by (intro exI [of _ m]) simp
  qed
qed

lemma prf_stream_prefix: "m \<le> n \<Longrightarrow> \<exists>t. prf_stream P K S n = prf_stream P K S m @ t"
proof (induction n)
  case (Suc n)
  then show ?case by (cases "m = Suc n") auto
qed simp

lemma prfPlus_stream:
  assumes "prims_ok P" "keyLen \<le> 255 * 32"
  shows "prfPlus P K S keyLen = Ok (take keyLen (prf_stream P K S 255))"
proof -
  obtain m where m: "m \<le> 255" "keyLen \<le> 32 * m"
    "prfPlus_loop P K S keyLen (0 + 1) (prf_T P K S 0) (prf_stream P K S 0) = Ok (prf_stream P K S m)"
    using prfPlus_loop_blocks [OF assms, of 0] by auto
  obtain t where "prf_stream P K S 255 = prf_stream P K S m @ t"
    using prf_stream_prefix [OF m(1)] by blast
  moreover have "length (prf_stream P K S m) = 32 * m" using assms(1) by (rule length_prf_stream)
  ultimately show ?thesis using m by (simp add: prfPlus_def)
qed

lemma length_prfPlus:
  assumes "prims_ok P" "keyLen \<le> 255 * 32"
  obtains ks where "prfPlus P K S keyLen = Ok ks" "length ks = keyLen"
proof
  show "prfPlus P K S keyLen = Ok (take keyLen (prf_stream P K S 255))"
    using assms by (rule prfPlus_stream)
  show "length (take keyLen (prf_stream P K S 255)) = keyLen"
    using assms(2) length_prf_stream [OF assms(1), of K S 255] by simp
qed

section \<open>What the key schedule derives\<close>

lemma take_drop_chain: "take n (drop m ks) @ drop (m + n) ks = drop m ks"
  by (metis append_take_drop_id drop_drop add.commute)

lemma takeKey_Ok:
  "off + n \<le> length ks \<Longrightarrow> takeKey ks off n = Ok (take n (drop off ks), off + n)"
  by (simp add: takeKey_def)

text \<open>
  The keys of an IKE SA have the lengths of its suite, and the AEAD state is the one built
  from the directional encryption keys.
\<close>

definition mkAEAD :: "ike_Suite \<Rightarrow> bytes \<Rightarrow> aead" where
  "mkAEAD suite key = (if suite = ike_SuiteAESGCM256 then GCM key else ChaCha key)"

definition ike_ok :: "IKESA \<Rightarrow> bool" where
  "ike_ok s \<longleftrightarrow>
     length (SKd s) = 32 \<and> length (SKpi s) = 32 \<and> length (SKpr s) = 32 \<and>
     length (SKei s) = fst (keyLens (ik_Suite s)) \<and> length (SKer s) = fst (keyLens (ik_Suite s)) \<and>
     length (SKai s) = snd (keyLens (ik_Suite s)) \<and> length (SKar s) = snd (keyLens (ik_Suite s)) \<and>
     (\<not> ike_aead (ik_Suite s) \<longrightarrow>
        ik_outAEAD s = None \<and> ik_inAEAD s = None \<and> ik_outSalt s = [] \<and> ik_inSalt s = []) \<and>
     (ike_aead (ik_Suite s) \<longrightarrow>
        ik_outAEAD s = Some (mkAEAD (ik_Suite s) (take 32 (outboundEncrKey s))) \<and>
        ik_inAEAD s = Some (mkAEAD (ik_Suite s) (take 32 (inboundEncrKey s))) \<and>
        ik_outSalt s = drop 32 (outboundEncrKey s) \<and> ik_inSalt s = drop 32 (inboundEncrKey s))"

lemma deriveFromSKEYSEED_Ok:
  assumes "prims_ok P"
  obtains s where "deriveFromSKEYSEED P suite role spii spir ni nr K = Ok s" "ike_ok s"
    "ik_Role s = role" "ik_Suite s = suite" "ik_InitiatorSPI s = spii" "ik_ResponderSPI s = spir" "skSeq s = 0"
    "SKd s @ SKai s @ SKar s @ SKei s @ SKer s @ SKpi s @ SKpr s =
       take (96 + 2 * snd (keyLens suite) + 2 * fst (keyLens suite))
         (prf_stream P K (ni @ nr @ PutUint64 spii @ PutUint64 spir) 255)"
proof -
  define e g where "e = fst (keyLens suite)" and "g = snd (keyLens suite)"
  define ks where "ks = take (96 + 2 * g + 2 * e) (prf_stream P K (ni @ nr @ PutUint64 spii @ PutUint64 spir) 255)"
  have eg: "e \<le> 36" "g \<le> 32" "ike_aead suite \<Longrightarrow> e = 36" by (auto simp: e_def g_def keyLens_def)
  have "prfPlus P K (ni @ nr @ PutUint64 spii @ PutUint64 spir) (96 + 2 * g + 2 * e) = Ok ks"
    unfolding ks_def using eg by (intro prfPlus_stream assms) simp
  then have pp: "prfPlus P K (ni @ nr @ PutUint64 spii @ PutUint64 spir) (32 + 2 * g + 2 * e + 64) = Ok ks"
    by (simp add: add.commute add.left_commute)
  have len: "length ks = 96 + 2 * g + 2 * e"
    using eg length_prf_stream [OF assms, of K "ni @ nr @ PutUint64 spii @ PutUint64 spir" 255]
    by (simp add: ks_def)
  define s where "s = \<lparr>ik_Role = role, ik_Suite = suite, ik_InitiatorSPI = spii, ik_ResponderSPI = spir,
     SKd = take 32 ks, SKai = take g (drop 32 ks), SKar = take g (drop (32 + g) ks),
     SKei = take e (drop (32 + g + g) ks), SKer = take e (drop (32 + g + g + e) ks),
     SKpi = take 32 (drop (32 + g + g + e + e) ks), SKpr = take 32 (drop (32 + g + g + e + e + 32) ks),
     ik_outAEAD = None, ik_inAEAD = None, ik_outSalt = [], ik_inSalt = [], skSeq = 0\<rparr>"
  define s' where "s' = (if ike_aead suite then
     s\<lparr>ik_outAEAD := Some (mkAEAD suite (take 32 (outboundEncrKey s))), ik_inAEAD := Some (mkAEAD suite (take 32 (inboundEncrKey s))),
       ik_outSalt := drop 32 (outboundEncrKey s), ik_inSalt := drop 32 (inboundEncrKey s)\<rparr> else s)"
  have keys: "length (outboundEncrKey s) = e" "length (inboundEncrKey s) = e"
    using len by (simp_all add: s_def outboundEncrKey_def inboundEncrKey_def)
  have "deriveFromSKEYSEED P suite role spii spir ni nr K = (if \<not> ike_aead suite then Ok s
      else
        bindR (slice (outboundEncrKey s) 0 (e - ike_aeadSaltLen)) (\<lambda>okey.
        bindR (ike_newAEAD suite okey) (\<lambda>oa.
        bindR (slice (inboundEncrKey s) 0 (e - ike_aeadSaltLen)) (\<lambda>ikey.
        bindR (ike_newAEAD suite ikey) (\<lambda>ia.
        bindR (slice (outboundEncrKey s) (e - ike_aeadSaltLen) (length (outboundEncrKey s))) (\<lambda>osalt.
        bindR (slice (inboundEncrKey s) (e - ike_aeadSaltLen) (length (inboundEncrKey s))) (\<lambda>isalt.
        Ok (s\<lparr>ik_outAEAD := Some oa, ik_inAEAD := Some ia, ik_outSalt := osalt, ik_inSalt := isalt\<rparr>))))))))"
    using len pp
    by (simp add: deriveFromSKEYSEED_def takeKey_Ok Let_def s_def flip: e_def g_def)
  also have "\<dots> = Ok s'"
    using keys eg(3)
    by (auto simp: s'_def ike_newAEAD_def ike_aes_NewCipher_def mkAEAD_def ike_aead_def)
  finally have "deriveFromSKEYSEED P suite role spii spir ni nr K = Ok s'" .
  moreover have sel: "SKd s' = SKd s" "SKai s' = SKai s" "SKar s' = SKar s" "SKei s' = SKei s" "SKer s' = SKer s"
    "SKpi s' = SKpi s" "SKpr s' = SKpr s" "ik_Role s' = role" "ik_Suite s' = suite"
    "ik_InitiatorSPI s' = spii" "ik_ResponderSPI s' = spir" "skSeq s' = 0" "ik_Role s = role"
    by (simp_all add: s'_def s_def)
  moreover have "ike_ok s'"
  proof -
    have "outboundEncrKey s' = outboundEncrKey s" "inboundEncrKey s' = inboundEncrKey s"
      by (simp_all add: outboundEncrKey_def inboundEncrKey_def sel)
    moreover have "length (SKd s) = 32" "length (SKai s) = g" "length (SKar s) = g" "length (SKei s) = e"
      "length (SKer s) = e" "length (SKpi s) = 32" "length (SKpr s) = 32"
      using len by (simp_all add: s_def)
    moreover have "ike_aead suite \<Longrightarrow> ik_outAEAD s' = Some (mkAEAD suite (take 32 (outboundEncrKey s))) \<and>
        ik_inAEAD s' = Some (mkAEAD suite (take 32 (inboundEncrKey s))) \<and>
        ik_outSalt s' = drop 32 (outboundEncrKey s) \<and> ik_inSalt s' = drop 32 (inboundEncrKey s)"
      "\<not> ike_aead suite \<Longrightarrow> ik_outAEAD s' = None \<and> ik_inAEAD s' = None \<and> ik_outSalt s' = [] \<and> ik_inSalt s' = []"
      by (simp_all add: s'_def s_def)
    ultimately show ?thesis unfolding ike_ok_def sel e_def [symmetric] g_def [symmetric] by simp
  qed
  moreover have "SKd s' @ SKai s' @ SKar s' @ SKei s' @ SKer s' @ SKpi s' @ SKpr s' = ks"
  proof -
    have eqs: "SKd s = take 32 ks" "SKai s = take g (drop 32 ks)" "SKar s = take g (drop (32 + g) ks)"
      "SKei s = take e (drop (32 + g + g) ks)" "SKer s = take e (drop (32 + g + g + e) ks)"
      "SKpi s = take 32 (drop (32 + g + g + e + e) ks)"
      by (simp_all add: s_def)
    have "SKpr s = drop (32 + g + g + e + e + 32) ks" using len by (simp add: s_def)
    then show ?thesis by (simp only: sel eqs take_drop_chain append_take_drop_id)
  qed
  ultimately show ?thesis using that unfolding ks_def e_def g_def by blast
qed

definition ike_mirrors :: "IKESA \<Rightarrow> IKESA \<Rightarrow> bool" where
  "ike_mirrors a b \<longleftrightarrow>
     ik_Suite a = ik_Suite b \<and> outboundIntegKey a = inboundIntegKey b \<and>
     outboundEncrKey a = inboundEncrKey b \<and> ik_outAEAD a = ik_inAEAD b \<and> ik_outSalt a = ik_inSalt b"

lemma ike_mirrors_roles:
  assumes "ike_ok a" "ike_ok b" "ik_Suite a = ik_Suite b" "ik_Role a \<noteq> ik_Role b"
    "SKai a = SKai b" "SKar a = SKar b" "SKei a = SKei b" "SKer a = SKer b"
  shows "ike_mirrors a b"
proof -
  have "outboundEncrKey a = inboundEncrKey b" "outboundIntegKey a = inboundIntegKey b"
    using assms(4-8)
    by (cases "ik_Role a"; cases "ik_Role b";
        simp add: outboundEncrKey_def inboundEncrKey_def outboundIntegKey_def inboundIntegKey_def)+
  then show ?thesis using assms(1-3) by (cases "ike_aead (ik_Suite a)") (simp_all add: ike_mirrors_def ike_ok_def)
qed

section \<open>Opening inverts sealing\<close>

lemma stripPad_pad: "length pad = padLen \<Longrightarrow> padLen \<le> 255 \<Longrightarrow> stripPad (pt @ pad @ [word_of_nat padLen]) = Ok pt"
  by (simp add: stripPad_def unat_of_nat_byte nth_append)

lemma integ_Ok: "prims_ok P \<Longrightarrow> integ P k d = Ok (take 16 (hmac_sha256 P k d))"
  by (simp add: integ_def length_hmac)

lemma sk_roundtrip_cbc:
  assumes "prims_ok P" "ike_mirrors a b" "\<not> ike_aead (ik_Suite a)" "length (outboundEncrKey a) = 32" "16 \<le> length rnd"
  shows "\<exists>sk sk'. EncryptToSK P a rnd pt = (Ok sk, a) \<and> length sk' = length sk \<and>
     FinalizeSK P a (pre @ sk) (length sk) = Ok (pre @ sk') \<and> OpenSK P b (pre @ sk') sk' = (Ok pt, True)"
proof -
  define padLen where "padLen = (16 - (length pt + 1) mod 16) mod 16"
  define padded where "padded = pt @ map word_of_nat [1..<padLen + 1] @ [word_of_nat padLen :: byte]"
  define iv where "iv = take 16 rnd"
  define ct where "ct = cbc_enc P (outboundEncrKey a) iv padded"
  define sk where "sk = iv @ ct @ zeros 16"
  define mac where "mac = take 16 (hmac_sha256 P (outboundIntegKey a) (pre @ iv @ ct))"
  define sk' where "sk' = iv @ ct @ mac"
  have "(length pt + padLen + 1) mod 16 = 0"
  proof -
    have "(length pt + padLen + 1) mod 16 = ((length pt + 1) mod 16 + (16 - (length pt + 1) mod 16)) mod 16"
      unfolding padLen_def add.assoc [of "length pt"] add.commute [of _ "1::nat"]
      by (simp only: add.assoc [symmetric] mod_add_right_eq mod_add_left_eq)
    also have "(length pt + 1) mod 16 + (16 - (length pt + 1) mod 16) = 16" by (simp add: less_imp_le)
    finally show ?thesis by simp
  qed
  then have al: "length padded mod 16 = 0" by (simp add: padded_def del: upt_Suc)
  have pl: "padLen \<le> 255" using mod_less_divisor [of 16 "16 - (length pt + 1) mod 16"] by (simp add: padLen_def)
  have iv: "length iv = 16" using assms(5) by (simp add: iv_def)
  have ct: "length ct = length padded" "cbc_dec P (outboundEncrKey a) iv ct = padded"
    using assms(1) al by (simp_all add: ct_def cbc_roundtrip)
  have ne: "0 < length padded" by (simp add: padded_def)
  have mac: "length mac = 16" using length_hmac [OF assms(1)] by (simp add: mac_def)
  have enc: "EncryptToSK P a rnd pt = (Ok sk, a)"
    using assms(3,4,5) al
    by (simp add: EncryptToSK_def aesCBCEncrypt_def ike_aes_NewCipher_def ReadFull_def cbc_encrypt_def Let_def
        sk_def iv_def ct_def padded_def padLen_def del: upt_Suc)
  have len: "length sk = 32 + length padded" "length sk' = 32 + length padded"
    using iv ct mac by (simp_all add: sk_def sk'_def)
  have fin: "FinalizeSK P a (pre @ sk) (length sk) = Ok (pre @ sk')"
    using assms(3) iv ct mac
    by (simp add: FinalizeSK_def checksum_def integ_Ok [OF assms(1)] sk_def sk'_def copyAt_def flip: mac_def)
  have b: "ik_Suite b = ik_Suite a" "inboundIntegKey b = outboundIntegKey a" "inboundEncrKey b = outboundEncrKey a"
    using assms(2) by (simp_all add: ike_mirrors_def)
  have dec: "decryptSK P b sk' = Ok pt"
  proof -
    have "take (length sk' - 16) sk' = iv @ ct" using mac by (simp add: sk'_def)
    moreover have "stripPad padded = Ok pt" unfolding padded_def using pl by (intro stripPad_pad) (simp_all del: upt_Suc)
    moreover have "ct \<noteq> []" using ct(1) ne by auto
    ultimately show ?thesis using len iv ct al assms(4) b
      by (simp add: decryptSK_def aesCBCDecrypt_def ike_aes_NewCipher_def cbc_decrypt_def)
  qed
  have "verifyChecksum P b (pre @ sk') = Ok True"
    using mac iv ct b by (simp add: verifyChecksum_def integ_Ok [OF assms(1)] sk'_def mac_def)
  then have "OpenSK P b (pre @ sk') sk' = (Ok pt, True)"
    using assms(3) b dec by (simp add: OpenSK_def)
  then show ?thesis using enc fin len by auto
qed

lemma sk_roundtrip_aead:
  assumes "prims_ok P" "ike_ok a" "ike_mirrors a b" "ike_aead (ik_Suite a)" "32 \<le> length pre"
  shows "\<exists>sk sk'. EncryptToSK P a rnd pt = (Ok sk, a\<lparr>skSeq := skSeq a + 1\<rparr>) \<and> length sk' = length sk \<and>
     FinalizeSK P (a\<lparr>skSeq := skSeq a + 1\<rparr>) (pre @ sk) (length sk) = Ok (pre @ sk') \<and>
     OpenSK P b (pre @ sk') sk' = (Ok pt, True)"
proof -
  define iv where "iv = PutUint64 (skSeq a + 1)"
  define sk where "sk = iv @ pt @ zeros 17"
  define A where "A = mkAEAD (ik_Suite a) (take 32 (outboundEncrKey a))"
  have A: "ik_outAEAD a = Some A" "length (ik_outSalt a) = 4"
    using assms(2,4) by (simp_all add: ike_ok_def A_def outboundEncrKey_def keyLens_def)
  have iv: "length iv = 8" by (simp add: iv_def)
  then have n: "length (ik_outSalt a @ iv) = 12" using A(2) by simp
  then obtain ct where seal: "Seal P A (ik_outSalt a @ iv) (pt @ [0]) pre = (Ok ct :: (ike_err, bytes) res)"
    by (cases A) (auto simp: Seal_def)
  have ct: "length ct = length pt + 17"
    "Open P A (ik_outSalt a @ iv) ct pre = (Ok (Some (pt @ [0])) :: (ike_err, bytes option) res)"
    using Seal_Ok [OF assms(1) n seal] by simp_all
  define sk' where "sk' = iv @ ct"
  have len: "length sk = 25 + length pt" "length sk' = 25 + length pt"
    using iv ct by (simp_all add: sk_def sk'_def)
  have enc: "EncryptToSK P a rnd pt = (Ok sk, a\<lparr>skSeq := skSeq a + 1\<rparr>)"
    using assms(4) by (simp add: EncryptToSK_def Let_def sk_def iv_def)
  have raw: "pre @ sk = (pre @ iv) @ (pt @ [0]) @ zeros 16" by (simp add: sk_def numeral_eq_Suc)
  have parts: "take 8 (drop (length pre) (pre @ sk)) = iv"
    "take (length (pre @ sk) - 16 - (length pre + 8)) (drop (length pre + 8) (pre @ sk)) = pt @ [0]"
    "take (length pre) (pre @ sk) = pre" "take (length pre + 8) (pre @ sk) = pre @ iv"
    "length (pre @ sk) = length pre + 8 + (length pt + 17)"
    using iv by (simp_all add: sk_def numeral_eq_Suc)
  have fin: "FinalizeSK P (a\<lparr>skSeq := skSeq a + 1\<rparr>) (pre @ sk) (length sk) = Ok (pre @ sk')"
  proof -
    have "copyAt (pre @ sk) (length pre + 8) ct = pre @ sk'"
      using parts(4,5) ct(1) iv by (simp add: copyAt_def sk'_def)
    moreover have "nat (int (length (pre @ sk)) - int (length sk)) = length pre" by simp
    ultimately show ?thesis
      using assms(4,5) A parts len seal
      by (simp add: FinalizeSK_def Let_def)
  qed
  have b: "ik_Suite b = ik_Suite a" "ik_inAEAD b = Some A" "ik_inSalt b = ik_outSalt a"
    using assms(3) A(1) by (simp_all add: ike_mirrors_def)
  have "stripPad (pt @ [0]) = Ok pt" using stripPad_pad [of "[]" 0 pt] by simp
  moreover have "take 8 sk' = iv" "drop 8 sk' = ct" using iv by (simp_all add: sk'_def)
  ultimately have "OpenSK P b (pre @ sk') sk' = (Ok pt, True)"
    using assms(4,5) b len ct by (simp add: OpenSK_def Let_def)
  then show ?thesis using enc fin len by auto
qed

lemma sk_roundtrip:
  assumes "prims_ok P" "ike_ok a" "ike_mirrors a b" "32 \<le> length pre" "16 \<le> length rnd"
  obtains sk a' sk' where "EncryptToSK P a rnd pt = (Ok sk, a')" "length sk' = length sk"
    "FinalizeSK P a' (pre @ sk) (length sk) = Ok (pre @ sk')" "OpenSK P b (pre @ sk') sk' = (Ok pt, True)"
    "a' = (if ike_aead (ik_Suite a) then a\<lparr>skSeq := skSeq a + 1\<rparr> else a)"
proof (cases "ike_aead (ik_Suite a)")
  case True
  then show ?thesis using sk_roundtrip_aead [OF assms(1-3) True assms(4), of rnd pt] that by auto
next
  case False
  then have "length (outboundEncrKey a) = 32"
    using assms(2) by (simp add: ike_ok_def keyLens_def outboundEncrKey_def)
  then show ?thesis using sk_roundtrip_cbc [OF assms(1,3) False _ assms(5), of pt pre] that False by auto
qed

section \<open>Opening never panics\<close>

lemma stripPad_panic_free [no_panic]: "padded \<noteq> [] \<Longrightarrow> panic_free (stripPad padded)"
  unfolding stripPad_def by (auto intro!: no_panic)

lemma cbc_decrypt_length:
  "prims_ok P \<Longrightarrow> cbc_decrypt P k iv x = Ok y \<Longrightarrow> length y = length x"
  by (auto simp: cbc_decrypt_def cbc_roundtrip split: if_splits)

lemma decryptSK_panic_free: "prims_ok P \<Longrightarrow> panic_free (decryptSK P s skData)"
  unfolding decryptSK_def aesCBCDecrypt_def ike_aes_NewCipher_def
  by (auto intro!: no_panic simp: slice_eq_Ok dest!: cbc_decrypt_length)

lemma OpenSK_total:
  assumes "prims_ok P" "ike_ok s"
  shows "panic_free (fst (OpenSK P s raw skData))"
    and "\<not> snd (OpenSK P s raw skData) \<Longrightarrow> \<exists>e. fst (OpenSK P s raw skData) = Err e"
proof -
  have "panic_free (fst (OpenSK P s raw skData)) \<and>
     (\<not> snd (OpenSK P s raw skData) \<longrightarrow> (\<exists>e. fst (OpenSK P s raw skData) = Err e))"
  proof (cases "ike_aead (ik_Suite s)")
    case True
    define n where "n = length raw - length skData"
    show ?thesis
    proof (cases "int (length raw) - int (length skData) < 32 \<or> length skData < 25")
      case True
      then show ?thesis using \<open>ike_aead (ik_Suite s)\<close> by (auto simp: OpenSK_def Let_def panic_free_def)
    next
      case False
      define A where "A = mkAEAD (ik_Suite s) (take 32 (inboundEncrKey s))"
      have A: "ik_inAEAD s = Some A" "length (ik_inSalt s) = 4"
        using assms(2) True by (simp_all add: ike_ok_def A_def inboundEncrKey_def keyLens_def)
      have n: "length (ik_inSalt s @ take 8 skData) = 12" using A(2) False by auto
      then obtain po where po: "Open P A (ik_inSalt s @ take 8 skData) (drop 8 skData)
          (take (nat (int (length raw) - int (length skData))) raw) = (Ok po :: (ike_err, bytes option) res)"
        by (cases A) (auto simp: Open_def)
      have eq: "OpenSK P s raw skData =
         (case po of None \<Rightarrow> (Err ErrSKAuth, False) | Some padded \<Rightarrow> (stripPad padded, True))"
        using True False A(1) po by (simp add: OpenSK_def Let_def split: option.split)
      show ?thesis
      proof (cases po)
        case None
        then show ?thesis by (simp add: eq panic_free_def)
      next
        case (Some padded)
        then have "length (drop 8 skData) = length padded + 16" using Open_length [OF assms(1)] po by blast
        then have "padded \<noteq> []" using False by auto
        then show ?thesis using Some stripPad_panic_free by (simp add: eq)
      qed
    qed
  next
    case False
    then show ?thesis using decryptSK_panic_free [OF assms(1)]
      by (auto simp: OpenSK_def verifyChecksum_def integ_Ok [OF assms(1)] panic_free_def)
  qed
  then show "panic_free (fst (OpenSK P s raw skData))"
    and "\<not> snd (OpenSK P s raw skData) \<Longrightarrow> \<exists>e. fst (OpenSK P s raw skData) = Err e"
    by simp_all
qed

lemma concat_keys_inject:
  "length a1 = length b1 \<Longrightarrow> a1 @ a2 = b1 @ b2 \<Longrightarrow> a1 = b1 \<and> a2 = b2"
  by simp

lemma deriveFromSKEYSEED_mirrors:
  assumes "prims_ok P"
    and a: "deriveFromSKEYSEED P suite Initiator spii spir ni nr K = Ok a"
    and b: "deriveFromSKEYSEED P suite Responder spii spir ni nr K = Ok b"
  shows "ike_ok a" "ike_ok b" "ike_mirrors a b" "ike_mirrors b a" "SKd a = SKd b" "SKpi a = SKpi b" "SKpr a = SKpr b"
proof -
  let ?ks = "take (96 + 2 * snd (keyLens suite) + 2 * fst (keyLens suite))
         (prf_stream P K (ni @ nr @ PutUint64 spii @ PutUint64 spir) 255)"
  have A: "ike_ok a" "ik_Role a = Initiator" "ik_Suite a = suite"
    "SKd a @ SKai a @ SKar a @ SKei a @ SKer a @ SKpi a @ SKpr a = ?ks"
    by (rule deriveFromSKEYSEED_Ok [OF assms(1), of suite Initiator spii spir ni nr K]; use a in auto)+
  have B: "ike_ok b" "ik_Role b = Responder" "ik_Suite b = suite"
    "SKd b @ SKai b @ SKar b @ SKei b @ SKer b @ SKpi b @ SKpr b = ?ks"
    by (rule deriveFromSKEYSEED_Ok [OF assms(1), of suite Responder spii spir ni nr K]; use b in auto)+
  have eq: "SKd a = SKd b \<and> SKai a = SKai b \<and> SKar a = SKar b \<and> SKei a = SKei b \<and> SKer a = SKer b \<and>
      SKpi a = SKpi b \<and> SKpr a = SKpr b"
    using A(4) B(4) A(1,3) B(1,3) unfolding ike_ok_def
    by (metis concat_keys_inject)
  show "ike_ok a" "ike_ok b" by fact+
  show "SKd a = SKd b" "SKpi a = SKpi b" "SKpr a = SKpr b" using eq by simp_all
  show "ike_mirrors a b" "ike_mirrors b a" using A B eq by (auto intro!: ike_mirrors_roles)
qed

text \<open>Both derivations end in \<open>deriveFromSKEYSEED\<close>, so what it builds is what they return.\<close>

lemma Derive_unfold:
  assumes "16 \<le> length nonceI" "16 \<le> length nonceR" "dhShared \<noteq> []"
  shows "Derive P suite role spii spir nonceI nonceR dhShared =
      deriveFromSKEYSEED P suite role spii spir nonceI nonceR (prf_HMAC P (nonceI @ nonceR) dhShared)"
    and "oldSKd \<noteq> [] \<Longrightarrow> DeriveRekeyIKE P suite oldSKd role spii spir nonceI nonceR dhShared =
      deriveFromSKEYSEED P suite role spii spir nonceI nonceR (prf_HMAC P oldSKd (dhShared @ nonceI @ nonceR))"
  using assms by (simp_all add: Derive_def DeriveRekeyIKE_def)

lemma deriveChildKeys_Ok:
  assumes "prims_ok P" "2 * (encrLen + integLen) \<le> 255 * 32"
  obtains ck where "deriveChildKeys P s dh ni nr encrLen integLen = Ok ck"
    "length (EncrIR ck) = encrLen" "length (IntegIR ck) = integLen"
    "length (EncrRI ck) = encrLen" "length (IntegRI ck) = integLen"
    "EncrIR ck @ IntegIR ck @ EncrRI ck @ IntegRI ck =
       take (2 * (encrLen + integLen)) (prf_stream P (SKd s) (dh @ ni @ nr) 255)"
proof -
  let ?e = encrLen and ?g = integLen
  define ks where "ks = take (2 * (?e + ?g)) (prf_stream P (SKd s) (dh @ ni @ nr) 255)"
  have pp: "prfPlus P (SKd s) (dh @ ni @ nr) (2 * (?e + ?g)) = Ok ks"
    unfolding ks_def using assms by (rule prfPlus_stream)
  have len: "length ks = 2 * ?e + 2 * ?g"
    using assms(2) length_prf_stream [OF assms(1), of "SKd s" "dh @ ni @ nr" 255] by (simp add: ks_def)
  define ck where "ck = \<lparr>EncrIR = take ?e ks, IntegIR = take ?g (drop ?e ks), EncrRI = take ?e (drop (?e + ?g) ks),
     IntegRI = take ?g (drop (?e + ?g + ?e) ks)\<rparr>"
  have "deriveChildKeys P s dh ni nr ?e ?g = Ok ck"
    using pp len by (simp add: deriveChildKeys_def takeKey_Ok ck_def)
  moreover have "EncrIR ck @ IntegIR ck @ EncrRI ck @ IntegRI ck = ks"
  proof -
    have "IntegRI ck = drop (?e + ?g + ?e) ks" using len by (simp add: ck_def)
    moreover have "EncrIR ck = take ?e ks" "IntegIR ck = take ?g (drop ?e ks)" "EncrRI ck = take ?e (drop (?e + ?g) ks)"
      by (simp_all add: ck_def)
    ultimately show ?thesis by (simp only: take_drop_chain append_take_drop_id)
  qed
  moreover have "length (EncrIR ck) = ?e" "length (IntegIR ck) = ?g" "length (EncrRI ck) = ?e" "length (IntegRI ck) = ?g"
    using len by (simp_all add: ck_def)
  ultimately show ?thesis using that unfolding ks_def by blast
qed

section \<open>Runs of envelopes\<close>

text \<open>\<open>sealAll\<close> prepares the bodies of a list of messages on one IKE SA.\<close>

primrec sealAll :: "prims \<Rightarrow> IKESA \<Rightarrow> (bytes \<times> bytes) list \<Rightarrow> (ike_err, bytes) res list" where
  "sealAll P s [] = []"
| "sealAll P s (x # xs) =
     (let (r, s') = EncryptToSK P s (fst x) (snd x) in r # sealAll P s' xs)"

lemma sealAll_ivs:
  assumes "ike_aead (ik_Suite s)"
  shows "\<exists>bs. sealAll P s xs = map Ok bs \<and>
     map (take 8) bs = map (\<lambda>i. PutUint64 (skSeq s + 1 + word_of_nat i)) [0..<length xs]"
  using assms
proof (induction xs arbitrary: s)
  case Nil
  then show ?case by simp
next
  case (Cons x xs)
  let ?s = "s\<lparr>skSeq := skSeq s + 1\<rparr>"
  obtain bs where bs: "sealAll P ?s xs = map Ok bs"
    "map (take 8) bs = map (\<lambda>i. PutUint64 (skSeq ?s + 1 + word_of_nat i)) [0..<length xs]"
    using Cons.IH [of ?s] Cons.prems by auto
  have "[0..<length (x # xs)] = 0 # map Suc [0..<length xs]" by (simp add: upt_conv_Cons map_Suc_upt del: upt_Suc)
  then have "map (\<lambda>i. PutUint64 (skSeq s + 1 + word_of_nat i)) [0..<length (x # xs)] =
     PutUint64 (skSeq s + 1) # map (\<lambda>i. PutUint64 (skSeq ?s + 1 + word_of_nat i)) [0..<length xs]"
    by (simp add: add.assoc comp_def del: upt_Suc)
  then show ?case using bs Cons.prems
    by (intro exI [of _ "(PutUint64 (skSeq s + 1) @ snd x @ zeros 17) # bs"])
      (simp add: EncryptToSK_def Let_def del: upt_Suc)
qed

section \<open>Properties\<close>

text \<open>
  C31 (equivalence).  \<open>prfPlus\<close> returns, without panicking, the first \<open>keyLen\<close> octets of the
  stream \<open>T1 | T2 | T3 | ...\<close> with \<open>Tn = prf(K, T(n-1) | S | n)\<close>, for every length up to the 255
  blocks a one-octet block index can number.
\<close>

theorem ikesa_prfplus_stream:
  assumes "prims_ok P" "keyLen \<le> 255 * 32"
  shows "prfPlus P K S keyLen = Ok (take keyLen (prf_stream P K S 255)) \<and>
     length (take keyLen (prf_stream P K S 255)) = keyLen"
  using prfPlus_stream [OF assms] assms(2) length_prf_stream [OF assms(1), of K S 255] by simp

theorem ikesa_prfplus_stream_witness:
  "prfPlus plain_prims [1] [2] 40 = Ok (take 40 (prf_stream plain_prims [1] [2] 255)) \<and>
   length (take 40 (prf_stream plain_prims [1] [2] 255)) = 40"
  by (rule ikesa_prfplus_stream [OF plain_prims_ok]) simp

text \<open>
  C27 (invariant).  The initiator and the responder that run the key schedule on the same
  nonces, SPIs and shared secret obtain mirrored IKE SAs for every suite: each end's outbound
  keys, AEAD state and salt are the other end's inbound ones, and the keys that feed the AUTH
  computation and the Child SA derivation agree.  The derivation succeeds on all inputs that
  pass its length checks.
\<close>

theorem ikesa_ends_agree:
  assumes "prims_ok P" "16 \<le> length nonceI" "16 \<le> length nonceR" "dhShared \<noteq> []"
  shows "\<exists>a b. Derive P suite Initiator spii spir nonceI nonceR dhShared = Ok a \<and>
     Derive P suite Responder spii spir nonceI nonceR dhShared = Ok b \<and>
     ike_ok a \<and> ike_ok b \<and> ike_mirrors a b \<and> ike_mirrors b a \<and>
     SKd a = SKd b \<and> SKpi a = SKpi b \<and> SKpr a = SKpr b"
proof -
  let ?K = "prf_HMAC P (nonceI @ nonceR) dhShared"
  obtain a where a: "deriveFromSKEYSEED P suite Initiator spii spir nonceI nonceR ?K = Ok a"
    using deriveFromSKEYSEED_Ok [OF assms(1)] by blast
  obtain b where b: "deriveFromSKEYSEED P suite Responder spii spir nonceI nonceR ?K = Ok b"
    using deriveFromSKEYSEED_Ok [OF assms(1)] by blast
  show ?thesis
    using a b deriveFromSKEYSEED_mirrors [OF assms(1) a b] Derive_unfold(1) [OF assms(2-4)] by auto
qed

theorem ikesa_ends_agree_witness:
  "\<exists>a b. Derive plain_prims 1 Initiator 5 6 (zeros 16) (zeros 16) [1] = Ok a \<and>
     Derive plain_prims 1 Responder 5 6 (zeros 16) (zeros 16) [1] = Ok b \<and>
     ike_ok a \<and> ike_ok b \<and> ike_mirrors a b \<and> ike_mirrors b a \<and>
     SKd a = SKd b \<and> SKpi a = SKpi b \<and> SKpr a = SKpr b"
  by (rule ikesa_ends_agree [OF plain_prims_ok]) simp_all

text \<open>
  \<open>OpenSK\<close> does not panic on any datagram and payload body, and whenever it
  reports \<open>icvOK = false\<close>, it returns an error and no plaintext.
\<close>

lemma ikesa_open_total:
  assumes "prims_ok P" "ike_ok s"
  shows "fst (OpenSK P s raw skData) \<noteq> Panic \<and>
     (snd (OpenSK P s raw skData) \<or> (\<exists>e. fst (OpenSK P s raw skData) = Err e))"
  using OpenSK_total [OF assms, of raw skData] by (auto simp: panic_free_def)

text \<open>
  The IVs of the AEAD envelopes sealed on one IKE SA are pairwise different for
  up to \<open>2^64\<close> messages: no nonce repeats under one key.
\<close>

lemma ikesa_iv_unique:
  assumes "ike_aead (ik_Suite s)" "length xs \<le> 2 ^ 64"
  shows "\<exists>bodies. sealAll P s xs = map Ok bodies \<and> distinct (map (take 8) bodies)"
proof -
  obtain bs where bs: "sealAll P s xs = map Ok bs"
    "map (take 8) bs = map (\<lambda>i. PutUint64 (skSeq s + 1 + word_of_nat i)) [0..<length xs]"
    using sealAll_ivs [OF assms(1)] by blast
  have "inj_on (\<lambda>i. PutUint64 (skSeq s + 1 + word_of_nat i)) {0..<length xs}"
  proof (rule inj_onI)
    fix i j assume ij: "i \<in> {0..<length xs}" "j \<in> {0..<length xs}"
      and "PutUint64 (skSeq s + 1 + word_of_nat i) = PutUint64 (skSeq s + 1 + word_of_nat j)"
    then have "unat (word_of_nat i :: u64) = unat (word_of_nat j :: u64)" by simp
    moreover have "i < 2 ^ 64" "j < 2 ^ 64" using ij assms(2) by auto
    ultimately show "i = j" by (simp add: unat_of_nat)
  qed
  then have "distinct (map (take 8) bs)" unfolding bs(2) by (simp add: distinct_map)
  with bs(1) show ?thesis by blast
qed

end
