(* ===== verification/Dh.thy ===== *)
theory Dh
  imports Ikesa
begin

text \<open>
  The ephemeral Diffie-Hellman exchange of \<open>internal/ikesa/dh.go\<close>.  Group 14 is computed here:
  \<open>big.Int\<close> is a natural number, \<open>Exp\<close> is modular exponentiation.  Curve25519 of
  \<open>crypto/ecdh\<close> is a parameter \<open>C\<close>.
\<close>

definition DHGroup14 :: u16 where [simp]: "DHGroup14 = 14"
definition DHGroup31 :: u16 where [simp]: "DHGroup31 = 31"
definition modp2048Len :: nat where [simp]: "modp2048Len = 256"
definition modp2048G :: nat where [simp]: "modp2048G = 2"

definition modp2048P :: nat where
  "modp2048P =
     0xFFFFFFFFFFFFFFFFC90FDAA22168C234C4C6628B80DC1CD129024E088A67CC74020BBEA63B139B22514A08798E3404DDEF9519B3CD3A431B302B0A6DF25F14374FE1356D6D51C245E485B576625E7EC6F44C42E9A637ED6B0BFF5CB6F406B7EDEE386BFB5A899FA5AE9F24117C4B1FE649286651ECE45B3DC2007CB8A163BF0598DA48361C55D39A69163FA8FD24CF5F83655D23DCA3AD961C62F356208552BB9ED529077096966D670C354E4ABC9804F1746C08CA18217C32905E462E36CE3BE39E772C180E86039B2783A2EC07A28FB5C55DF06F4C52C9DE2BCBF6955817183995497CEA956AE515D2261898FA051015728E5A8AACAA68FFFFFFFFFFFFFFFF"

definition modp2048PMinus2 :: nat where "modp2048PMinus2 = modp2048P - 2"

text \<open>
  \<open>crypto/ecdh\<close>'s X25519: the public key of a private key, the check of a peer's public key
  (its length), and the exchange, which fails on low-order points.
\<close>

record curve =
  x_Public :: "bytes \<Rightarrow> bytes"
  x_NewPublicKey :: "bytes \<Rightarrow> bytes option"
  x_ECDH :: "bytes \<Rightarrow> bytes \<Rightarrow> bytes option"

record DH =
  dh_Group :: u16
  dh_Public :: bytes
  privModp :: "nat option"
  privX25519 :: "bytes option"

fun big_Bytes :: "nat \<Rightarrow> bytes" where
  "big_Bytes n = (if n = 0 then [] else big_Bytes (n div 256) @ [word_of_nat n])"

declare big_Bytes.simps [simp del]

definition leftPad :: "bytes \<Rightarrow> nat \<Rightarrow> bytes" where
  "leftPad b n = (if length b \<ge> n then b else copyAt (zeros n) (n - length b) b)"

text \<open>
  \<open>rint\<close> is what \<open>rand.Int(rand.Reader, max)\<close> returns, a number below \<open>max\<close>; \<open>xkey\<close> what
  \<open>ecdh.X25519().GenerateKey(rand.Reader)\<close> returns.
\<close>

definition NewDH :: "curve \<Rightarrow> nat option \<Rightarrow> bytes option \<Rightarrow> u16 \<Rightarrow> (ike_err, DH) res" where
  "NewDH C rint xkey grp =
     (if grp = DHGroup14 then
        (case rint of
           None \<Rightarrow> Err ErrIKERand
         | Some n \<Rightarrow>
             let priv = n + 2; pub = modp2048G ^ priv mod modp2048P in
             Ok \<lparr>dh_Group = grp, dh_Public = leftPad (big_Bytes pub) modp2048Len,
                 privModp = Some priv, privX25519 = None\<rparr>)
      else if grp = DHGroup31 then
        (case xkey of
           None \<Rightarrow> Err ErrIKERand
         | Some priv \<Rightarrow>
             Ok \<lparr>dh_Group = grp, dh_Public = x_Public C priv, privModp = None, privX25519 = Some priv\<rparr>)
      else Err (ErrDHGroup (unat grp)))"

definition Shared :: "curve \<Rightarrow> DH \<Rightarrow> bytes \<Rightarrow> (ike_err, bytes) res" where
  "Shared C d peerPublic =
     (if dh_Group d = DHGroup14 then
        guardR (length peerPublic \<noteq> modp2048Len) ErrDHPeerLength
        (let peer = get_be peerPublic in
         guardR (peer \<le> 1 \<or> peer > modp2048PMinus2) ErrDHPeerRange
         (case privModp d of
            None \<Rightarrow> Panic
          | Some priv \<Rightarrow> Ok (leftPad (big_Bytes (peer ^ priv mod modp2048P)) modp2048Len)))
      else if dh_Group d = DHGroup31 then
        (case x_NewPublicKey C peerPublic of
           None \<Rightarrow> Err ErrX25519
         | Some pub \<Rightarrow>
             (case privX25519 d of
                None \<Rightarrow> Panic
              | Some priv \<Rightarrow>
                  (case x_ECDH C priv pub of None \<Rightarrow> Err ErrX25519 | Some shared \<Rightarrow> Ok shared)))
      else Err (ErrDHGroup (unat (dh_Group d))))"

section \<open>Fixed-width encodings\<close>

lemma get_be_big_Bytes [simp]: "get_be (big_Bytes n) = n"
proof (induction n rule: big_Bytes.induct)
  case (1 n)
  then show ?case
    by (cases "n = 0") (simp_all add: big_Bytes.simps [of n] big_Bytes.simps [of 0] unat_of_nat_byte)
qed

lemma length_big_Bytes: "n < 256 ^ k \<Longrightarrow> length (big_Bytes n) \<le> k"
proof (induction k arbitrary: n)
  case 0
  then show ?case by (simp add: big_Bytes.simps)
next
  case (Suc k)
  show ?case
  proof (cases "n = 0")
    case True
    then show ?thesis by (simp add: big_Bytes.simps)
  next
    case False
    have "n div 256 < 256 ^ k" using Suc.prems by (simp add: less_mult_imp_div_less mult.commute)
    then show ?thesis using Suc.IH [of "n div 256"] False by (simp add: big_Bytes.simps [of n])
  qed
qed

lemma get_be_zeros: "get_be (zeros k @ b) = get_be b"
proof -
  have "foldl (\<lambda>a x. a * 256 + unat x) 0 (zeros k) = 0" by (induction k) simp_all
  then show ?thesis by (simp add: get_be_def)
qed

lemma leftPad_zeros: "length b \<le> n \<Longrightarrow> leftPad b n = zeros (n - length b) @ b"
  by (simp add: leftPad_def copyAt_def)

lemma leftPad_big_Bytes:
  assumes "v < 256 ^ n"
  shows "length (leftPad (big_Bytes v) n) = n" "get_be (leftPad (big_Bytes v) n) = v"
  using length_big_Bytes [OF assms] by (simp_all add: leftPad_zeros get_be_zeros)

lemma modp2048P_bound: "modp2048P < 256 ^ 256" "2 < modp2048P"
  by (simp_all add: modp2048P_def)

lemma modp2048_reduced: "v mod modp2048P < 256 ^ modp2048Len"
proof -
  have "v mod modp2048P < modp2048P" using modp2048P_bound(2) by simp
  also have "\<dots> < 256 ^ 256" by (rule modp2048P_bound(1))
  finally show ?thesis by simp
qed

section \<open>Agreement\<close>

text \<open>What the program relies on of the curve: both ends compute the same point.\<close>

definition curve_ok :: "curve \<Rightarrow> bool" where
  "curve_ok C \<longleftrightarrow>
     (\<forall>a pub. x_NewPublicKey C (x_Public C a) = Some pub \<longrightarrow> pub = x_Public C a) \<and>
     (\<forall>a b. x_ECDH C a (x_Public C b) = x_ECDH C b (x_Public C a))"

lemma modp_commutes:
  "(modp2048G ^ a mod modp2048P) ^ b mod modp2048P = (modp2048G ^ b mod modp2048P) ^ a mod modp2048P"
  by (simp only: power_mod power_mult [symmetric] mult.commute [of a b])

lemma NewDH_modp:
  assumes "NewDH C rint xkey 14 = Ok d"
  obtains n where "d = \<lparr>dh_Group = 14, dh_Public = leftPad (big_Bytes (modp2048G ^ n mod modp2048P)) modp2048Len,
     privModp = Some n, privX25519 = None\<rparr>"
  using assms by (auto simp: NewDH_def Let_def split: option.splits)

lemma NewDH_x25519:
  assumes "NewDH C rint xkey 31 = Ok d"
  obtains k where "d = \<lparr>dh_Group = 31, dh_Public = x_Public C k, privModp = None, privX25519 = Some k\<rparr>"
  using assms by (auto simp: NewDH_def split: option.splits)

lemma NewDH_group: "NewDH C rint xkey g = Ok d \<Longrightarrow> g = 14 \<or> g = 31"
  by (auto simp: NewDH_def split: if_splits)

lemma Shared_modp:
  assumes "Shared C \<lparr>dh_Group = 14, dh_Public = pub, privModp = Some n, privX25519 = None\<rparr> peer = Ok k"
  shows "length peer = modp2048Len" "1 < get_be peer" "get_be peer \<le> modp2048PMinus2"
    "k = leftPad (big_Bytes (get_be peer ^ n mod modp2048P)) modp2048Len"
  using assms by (auto simp: Shared_def Let_def)

section \<open>Properties\<close>

lemma dh_agree:
  assumes "curve_ok C"
    and "NewDH C r1 x1 g = Ok a" "NewDH C r2 x2 g = Ok b"
    and "Shared C a (dh_Public b) = Ok k1" "Shared C b (dh_Public a) = Ok k2"
  shows "k1 = k2 \<and> (g = DHGroup14 \<longrightarrow> length k1 = 256 \<and> length (dh_Public a) = 256)"
proof (cases "g = 14")
  case True
  obtain n where a: "a = \<lparr>dh_Group = 14, dh_Public = leftPad (big_Bytes (modp2048G ^ n mod modp2048P)) modp2048Len,
     privModp = Some n, privX25519 = None\<rparr>"
    using assms(2) True by (auto elim: NewDH_modp)
  obtain m where b: "b = \<lparr>dh_Group = 14, dh_Public = leftPad (big_Bytes (modp2048G ^ m mod modp2048P)) modp2048Len,
     privModp = Some m, privX25519 = None\<rparr>"
    using assms(3) True by (auto elim: NewDH_modp)
  have pub: "get_be (dh_Public a) = modp2048G ^ n mod modp2048P" "get_be (dh_Public b) = modp2048G ^ m mod modp2048P"
    "length (dh_Public a) = 256"
    using leftPad_big_Bytes [OF modp2048_reduced] by (simp_all only: a b DH.simps modp2048Len_def)
  have k1: "k1 = leftPad (big_Bytes (get_be (dh_Public b) ^ n mod modp2048P)) modp2048Len"
    using Shared_modp(4) assms(4) unfolding a by blast
  have k2: "k2 = leftPad (big_Bytes (get_be (dh_Public a) ^ m mod modp2048P)) modp2048Len"
    using Shared_modp(4) assms(5) unfolding b by blast
  have "k1 = k2" unfolding k1 k2 pub modp_commutes [of m n] ..
  moreover have "length k1 = 256"
    unfolding k1 using leftPad_big_Bytes(1) [OF modp2048_reduced] by (simp only: modp2048Len_def)
  ultimately show ?thesis using pub(3) by blast
next
  case False
  then have g: "g = 31" using NewDH_group [OF assms(2)] by simp
  obtain p where a: "a = \<lparr>dh_Group = 31, dh_Public = x_Public C p, privModp = None, privX25519 = Some p\<rparr>"
    using assms(2) g by (auto elim: NewDH_x25519)
  obtain q where b: "b = \<lparr>dh_Group = 31, dh_Public = x_Public C q, privModp = None, privX25519 = Some q\<rparr>"
    using assms(3) g by (auto elim: NewDH_x25519)
  obtain u v where "x_NewPublicKey C (x_Public C q) = Some u" "x_ECDH C p u = Some k1"
    "x_NewPublicKey C (x_Public C p) = Some v" "x_ECDH C q v = Some k2"
    using assms(4,5) by (auto simp: a b Shared_def split: option.splits)
  moreover have "u = x_Public C q" "v = x_Public C p" using calculation assms(1) by (auto simp: curve_ok_def)
  ultimately have "x_ECDH C p (x_Public C q) = Some k1" "x_ECDH C q (x_Public C p) = Some k2" by simp_all
  then show ?thesis using assms(1) g by (simp add: curve_ok_def)
qed

text \<open>
  C32 (functional).  The two ends of an exchange in either group that accept each other's
  public value obtain the same shared secret; in group 14 it has the full width of the
  modulus, leading zeros included, and so have the public values.
\<close>

theorem dh_ends_agree:
  assumes "curve_ok C"
    and "NewDH C r1 x1 g = Ok a" "NewDH C r2 x2 g = Ok b"
    and "Shared C a (dh_Public b) = Ok k1" "Shared C b (dh_Public a) = Ok k2"
  shows "k1 = k2 \<and> (g = DHGroup14 \<longrightarrow> length k1 = 256 \<and> length (dh_Public a) = 256)"
  using dh_agree [OF assms] .

theorem dh_ends_agree_witness:
  "\<exists>C a b k. curve_ok C \<and> NewDH C None (Some [3]) DHGroup31 = Ok a \<and> NewDH C None (Some [5]) DHGroup31 = Ok b \<and>
     Shared C a (dh_Public b) = Ok k \<and> Shared C b (dh_Public a) = Ok k"
proof -
  define C where "C = \<lparr>x_Public = (\<lambda>k. k), x_NewPublicKey = Some, x_ECDH = (\<lambda>a b. Some (map2 (+) a b))\<rparr>"
  have zip: "map2 (+) a b = map2 (+) b (a :: bytes)" for a b
    by (rule nth_equalityI) (auto simp: add.commute)
  have C: "curve_ok C" by (simp add: curve_ok_def C_def zip)
  obtain a b where ab: "NewDH C None (Some [3]) 31 = Ok a" "NewDH C None (Some [5]) 31 = Ok b"
    by (simp add: NewDH_def)
  obtain k1 k2 where k: "Shared C a (dh_Public b) = Ok k1" "Shared C b (dh_Public a) = Ok k2"
    using ab by (auto simp: NewDH_def Shared_def C_def)
  with dh_ends_agree [OF C ab k] C ab show ?thesis by auto
qed

text \<open>
  In group 14 a peer value of the wrong length, a degenerate one (0, 1 or p-1)
  and one at or above the modulus is refused: a shared secret comes only from a value in
  \<open>[2, p-2]\<close> encoded in exactly 256 octets.
\<close>

lemma dh_refuses_degenerate:
  assumes "NewDH C r x DHGroup14 = Ok d"
  shows "(\<exists>k. Shared C d peer = Ok k) \<longleftrightarrow>
      length peer = 256 \<and> 2 \<le> get_be peer \<and> get_be peer \<le> modp2048P - 2"
proof -
  obtain n where d: "d = \<lparr>dh_Group = 14, dh_Public = leftPad (big_Bytes (modp2048G ^ n mod modp2048P)) modp2048Len,
     privModp = Some n, privX25519 = None\<rparr>"
    using assms by (auto elim: NewDH_modp)
  show ?thesis unfolding d by (auto simp: Shared_def Let_def modp2048PMinus2_def)
qed

end
