(* ===== verification/Go_State.thy ===== *)
theory Go_State
  imports Go_Prelude
begin

text \<open>
  Go code that updates a state and may return an error.  A computation maps the state to an
  outcome and the state it leaves behind; as in Go the state survives an error, so every
  assignment made before a \<open>return err\<close> is kept.  \<open>wp\<close> is the weakest precondition of such a
  computation: its equations reduce a claim about a method to claims about the methods it
  calls.
\<close>

named_theorems wp_simps \<open>weakest preconditions of the combinators\<close>

type_synonym ('s, 'e, 'a) go = "'s \<Rightarrow> ('e, 'a) res \<times> 's"

section \<open>Combinators\<close>

definition retS :: "'a \<Rightarrow> ('s, 'e, 'a) go" where
  "retS x = (\<lambda>s. (Ok x, s))"

definition failS :: "'e \<Rightarrow> ('s, 'e, 'a) go" where
  "failS e = (\<lambda>s. (Err e, s))"

definition liftS :: "('e, 'a) res \<Rightarrow> ('s, 'e, 'a) go" where
  "liftS r = (\<lambda>s. (r, s))"

definition bindS :: "('s, 'e, 'a) go \<Rightarrow> ('a \<Rightarrow> ('s, 'e, 'b) go) \<Rightarrow> ('s, 'e, 'b) go" where
  "bindS m f = (\<lambda>s.
     case m s of
       (Ok x, s') \<Rightarrow> f x s'
     | (Err e, s') \<Rightarrow> (Err e, s')
     | (Panic, s') \<Rightarrow> (Panic, s'))"

abbreviation thenS :: "('s, 'e, unit) go \<Rightarrow> ('s, 'e, 'b) go \<Rightarrow> ('s, 'e, 'b) go" where
  "thenS m k \<equiv> bindS m (\<lambda>_. k)"

text \<open>Reading the state, and assigning to it.\<close>

definition readS :: "('s \<Rightarrow> 'a) \<Rightarrow> ('a \<Rightarrow> ('s, 'e, 'b) go) \<Rightarrow> ('s, 'e, 'b) go" where
  "readS f k = (\<lambda>s. k (f s) s)"

definition modS :: "('s \<Rightarrow> 's) \<Rightarrow> ('s, 'e, unit) go" where
  "modS f = (\<lambda>s. (Ok (), f s))"

text \<open>\<open>if cond { return err }\<close>, and dereferencing a pointer.\<close>

definition guardS :: "bool \<Rightarrow> 'e \<Rightarrow> ('s, 'e, 'a) go \<Rightarrow> ('s, 'e, 'a) go" where
  "guardS c e k = (if c then failS e else k)"

definition derefS :: "'a option \<Rightarrow> ('a \<Rightarrow> ('s, 'e, 'b) go) \<Rightarrow> ('s, 'e, 'b) go" where
  "derefS x k = (case x of None \<Rightarrow> liftS Panic | Some y \<Rightarrow> k y)"

text \<open>
  \<open>tryS m\<close> hands the error of \<open>m\<close> to the code that follows, as in
  \<open>if err := m(); err != nil { ... }\<close>.
\<close>

definition tryS :: "('s, 'e, 'a) go \<Rightarrow> ('s, 'f, 'e + 'a) go" where
  "tryS m = (\<lambda>s.
     case m s of
       (Ok x, s') \<Rightarrow> (Ok (Inr x), s')
     | (Err e, s') \<Rightarrow> (Ok (Inl e), s')
     | (Panic, s') \<Rightarrow> (Panic, s'))"

text \<open>\<open>_ = m()\<close>: the error is dropped.\<close>

definition ignoreS :: "('s, 'e, 'a) go \<Rightarrow> ('s, 'f, unit) go" where
  "ignoreS m = bindS (tryS m) (\<lambda>_. retS ())"

text \<open>\<open>if err != nil { h(); return err }\<close> after \<open>m\<close>.\<close>

definition onErrS :: "('s, 'e, 'a) go \<Rightarrow> ('s, 'e, unit) go \<Rightarrow> ('s, 'e, 'a) go" where
  "onErrS m h = bindS (tryS m) (\<lambda>r. case r of Inl e \<Rightarrow> thenS h (failS e) | Inr x \<Rightarrow> retS x)"

definition wrapS :: "('e \<Rightarrow> 'f) \<Rightarrow> ('s, 'e, 'a) go \<Rightarrow> ('s, 'f, 'a) go" where
  "wrapS g m = (\<lambda>s. map_prod (wrapR g) id (m s))"

section \<open>Weakest preconditions\<close>

definition wp :: "('s, 'e, 'a) go \<Rightarrow> (('e, 'a) res \<Rightarrow> 's \<Rightarrow> bool) \<Rightarrow> 's \<Rightarrow> bool" where
  "wp m Q s \<longleftrightarrow> Q (fst (m s)) (snd (m s))"

lemma wp_retS [wp_simps]: "wp (retS x) Q s \<longleftrightarrow> Q (Ok x) s"
  by (simp add: wp_def retS_def)

lemma wp_failS [wp_simps]: "wp (failS e) Q s \<longleftrightarrow> Q (Err e) s"
  by (simp add: wp_def failS_def)

lemma wp_liftS [wp_simps]: "wp (liftS r) Q s \<longleftrightarrow> Q r s"
  by (simp add: wp_def liftS_def)

lemma wp_readS [wp_simps]: "wp (readS f k) Q s \<longleftrightarrow> wp (k (f s)) Q s"
  by (simp add: wp_def readS_def)

lemma wp_modS [wp_simps]: "wp (modS f) Q s \<longleftrightarrow> Q (Ok ()) (f s)"
  by (simp add: wp_def modS_def)

lemma wp_guardS [wp_simps]: "wp (guardS c e k) Q s \<longleftrightarrow> (if c then Q (Err e) s else wp k Q s)"
  by (simp add: wp_def guardS_def failS_def)

lemma wp_if [wp_simps]: "wp (if c then m else n) Q s \<longleftrightarrow> (if c then wp m Q s else wp n Q s)"
  by simp

lemma wp_bindS [wp_simps]:
  "wp (bindS m f) Q s \<longleftrightarrow>
     wp m (\<lambda>r s'. case r of Ok x \<Rightarrow> wp (f x) Q s' | Err e \<Rightarrow> Q (Err e) s' | Panic \<Rightarrow> Q Panic s') s"
  by (auto simp: wp_def bindS_def split: res.splits prod.splits)

lemma wp_derefS [wp_simps]:
  "wp (derefS x k) Q s \<longleftrightarrow> (case x of None \<Rightarrow> Q Panic s | Some y \<Rightarrow> wp (k y) Q s)"
  by (simp add: derefS_def wp_liftS split: option.splits)

lemma wp_tryS [wp_simps]:
  "wp (tryS m) Q s \<longleftrightarrow>
     wp m (\<lambda>r s'. case r of Ok x \<Rightarrow> Q (Ok (Inr x)) s' | Err e \<Rightarrow> Q (Ok (Inl e)) s' | Panic \<Rightarrow> Q Panic s') s"
  by (auto simp: wp_def tryS_def split: res.splits prod.splits)

lemma wp_ignoreS [wp_simps]:
  "wp (ignoreS m) Q s \<longleftrightarrow> wp m (\<lambda>r s'. if r = Panic then Q Panic s' else Q (Ok ()) s') s"
  by (auto simp: wp_def ignoreS_def tryS_def bindS_def retS_def split: res.splits prod.splits)

lemma wp_onErrS [wp_simps]:
  "wp (onErrS m h) Q s \<longleftrightarrow>
     wp m (\<lambda>r s'. case r of Ok x \<Rightarrow> Q (Ok x) s'
       | Err e \<Rightarrow> wp h (\<lambda>r' s''. case r' of Ok _ \<Rightarrow> Q (Err e) s'' | Err e' \<Rightarrow> Q (Err e') s'' | Panic \<Rightarrow> Q Panic s'') s'
       | Panic \<Rightarrow> Q Panic s') s"
  by (auto simp: onErrS_def wp_bindS wp_tryS wp_retS wp_failS cong: res.case_cong)

lemma wp_wrapS [wp_simps]: "wp (wrapS g m) Q s \<longleftrightarrow> wp m (\<lambda>r s'. Q (wrapR g r) s') s"
  by (simp add: wp_def wrapS_def)

lemma wp_mono: "wp m Q s \<Longrightarrow> (\<And>r s'. Q r s' \<Longrightarrow> R r s') \<Longrightarrow> wp m R s"
  by (simp add: wp_def)

lemma wp_conj: "wp m (\<lambda>r s'. Q r s' \<and> R r s') s \<longleftrightarrow> wp m Q s \<and> wp m R s"
  by (simp add: wp_def)

lemma wpD: "wp m Q s \<Longrightarrow> m s = (r, s') \<Longrightarrow> Q r s'"
  by (simp add: wp_def)

section \<open>Pre- and postconditions\<close>

text \<open>
  \<open>holds P m Q\<close>: from a state with \<open>P\<close> the computation \<open>m\<close> ends, with or without an error, in a
  state with \<open>Q\<close>, and it does not panic; \<open>keeps I m\<close> when both are the invariant \<open>I\<close>.  The rules
  of \<open>holds_intros\<close> follow the text of \<open>m\<close> as long as it stays within \<open>P\<close>; \<open>holds_step\<close> is for
  the statement that leads from \<open>P\<close> to \<open>Q\<close>.
\<close>

named_theorems holds_intros \<open>rules for pre- and postconditions\<close>

definition holds :: "('s \<Rightarrow> bool) \<Rightarrow> ('s, 'e, 'a) go \<Rightarrow> ('s \<Rightarrow> bool) \<Rightarrow> bool" where
  "holds P m Q \<longleftrightarrow> (\<forall>s. P s \<longrightarrow> wp m (\<lambda>r s'. r \<noteq> Panic \<and> Q s') s)"

abbreviation keeps :: "('s \<Rightarrow> bool) \<Rightarrow> ('s, 'e, 'a) go \<Rightarrow> bool" where
  "keeps I m \<equiv> holds I m I"

lemma holds_retS [holds_intros]: "(\<And>s. P s \<Longrightarrow> Q s) \<Longrightarrow> holds P (retS x) Q"
  by (simp add: holds_def wp_simps)

lemma holds_failS [holds_intros]: "(\<And>s. P s \<Longrightarrow> Q s) \<Longrightarrow> holds P (failS e) Q"
  by (simp add: holds_def wp_simps)

lemma holds_liftS [holds_intros]: "panic_free r \<Longrightarrow> (\<And>s. P s \<Longrightarrow> Q s) \<Longrightarrow> holds P (liftS r) Q"
  by (simp add: holds_def wp_simps panic_free_def)

lemma holds_modS [holds_intros]: "(\<And>s. P s \<Longrightarrow> Q (f s)) \<Longrightarrow> holds P (modS f) Q"
  by (simp add: holds_def wp_simps)

lemma holds_bindS [holds_intros]:
  "keeps P m \<Longrightarrow> (\<And>x. holds P (f x) Q) \<Longrightarrow> (\<And>s. P s \<Longrightarrow> Q s) \<Longrightarrow> holds P (bindS m f) Q"
  unfolding holds_def wp_bindS by (fastforce elim!: wp_mono split: res.splits)

lemma holds_step:
  "holds P m Q \<Longrightarrow> (\<And>x. keeps Q (f x)) \<Longrightarrow> holds P (bindS m f) Q"
  unfolding holds_def wp_bindS by (fastforce elim!: wp_mono split: res.splits)

text \<open>The value a computation returns comes with what is known of it.\<close>

lemma holds_bindS_Ok:
  assumes "\<And>s. P s \<Longrightarrow> wp m (\<lambda>r s'. r \<noteq> Panic \<and> P s' \<and> (\<forall>x. r = Ok x \<longrightarrow> R x)) s"
    and "\<And>x. R x \<Longrightarrow> holds P (f x) Q" "\<And>s. P s \<Longrightarrow> Q s"
  shows "holds P (bindS m f) Q"
  using assms unfolding holds_def wp_bindS by (fastforce elim!: wp_mono split: res.splits)

text \<open>What is read comes from a state with the precondition, and stays what it was read as.\<close>

lemma holds_readS [holds_intros]: "(\<And>t. P t \<Longrightarrow> holds P (k (f t)) Q) \<Longrightarrow> holds P (readS f k) Q"
  by (simp add: holds_def wp_simps)

lemma holds_readS_eq: "(\<And>t. P t \<Longrightarrow> holds (\<lambda>s. P s \<and> g s = g t) (k (f t)) Q) \<Longrightarrow> holds P (readS f k) Q"
  by (simp add: holds_def wp_simps)

lemma holds_guardS [holds_intros]:
  "(\<not> c \<Longrightarrow> holds P k Q) \<Longrightarrow> (\<And>s. P s \<Longrightarrow> Q s) \<Longrightarrow> holds P (guardS c e k) Q"
  by (simp add: guardS_def holds_failS)

lemma holds_derefS [holds_intros]:
  "x \<noteq> None \<Longrightarrow> (\<And>y. x = Some y \<Longrightarrow> holds P (k y) Q) \<Longrightarrow> holds P (derefS x k) Q"
  by (auto simp: derefS_def)

lemma holds_if [holds_intros]:
  "(c \<Longrightarrow> holds P m Q) \<Longrightarrow> (\<not> c \<Longrightarrow> holds P n Q) \<Longrightarrow> holds P (if c then m else n) Q"
  by simp

lemma holds_Let [holds_intros]: "(\<And>x. x = a \<Longrightarrow> holds P (f x) Q) \<Longrightarrow> holds P (Let a f) Q"
  by simp

lemma holds_tryS [holds_intros]: "holds P m Q \<Longrightarrow> holds P (tryS m) Q"
  unfolding holds_def wp_tryS by (fastforce elim!: wp_mono split: res.splits)

lemma holds_ignoreS [holds_intros]: "holds P m Q \<Longrightarrow> holds P (ignoreS m) Q"
  unfolding ignoreS_def by (intro holds_step holds_tryS holds_retS)

lemma holds_onErrS [holds_intros]:
  "keeps P m \<Longrightarrow> keeps P h \<Longrightarrow> keeps P (onErrS m h)"
  unfolding holds_def wp_onErrS by (fastforce elim!: wp_mono split: res.splits)

lemma wrapR_eq_Panic [simp]: "wrapR g r = Panic \<longleftrightarrow> r = Panic"
  by (cases r) simp_all

lemma holds_wrapS [holds_intros]: "holds P m Q \<Longrightarrow> holds P (wrapS g m) Q"
  by (simp add: holds_def wp_wrapS)

lemma holds_case_option [holds_intros]:
  "(x = None \<Longrightarrow> holds P m Q) \<Longrightarrow> (\<And>y. x = Some y \<Longrightarrow> holds P (f y) Q) \<Longrightarrow>
   holds P (case x of None \<Rightarrow> m | Some y \<Rightarrow> f y) Q"
  by (cases x) simp_all

lemma holds_case_sum [holds_intros]:
  "(\<And>e. x = Inl e \<Longrightarrow> holds P (f e) Q) \<Longrightarrow> (\<And>y. x = Inr y \<Longrightarrow> holds P (g y) Q) \<Longrightarrow>
   holds P (case x of Inl e \<Rightarrow> f e | Inr y \<Rightarrow> g y) Q"
  by (cases x) simp_all

lemma holds_case_prod [holds_intros]:
  "(\<And>a b. p = (a, b) \<Longrightarrow> holds P (f a b) Q) \<Longrightarrow> holds P (case p of (a, b) \<Rightarrow> f a b) Q"
  by (cases p) simp

lemma holds_case_list [holds_intros]:
  "(xs = [] \<Longrightarrow> holds P m Q) \<Longrightarrow> (\<And>y ys. xs = y # ys \<Longrightarrow> holds P (f y ys) Q) \<Longrightarrow>
   holds P (case xs of [] \<Rightarrow> m | y # ys \<Rightarrow> f y ys) Q"
  by (cases xs) simp_all

lemma holds_weaken: "holds P m Q \<Longrightarrow> (\<And>s. P' s \<Longrightarrow> P s) \<Longrightarrow> (\<And>s. Q s \<Longrightarrow> Q' s) \<Longrightarrow> holds P' m Q'"
  unfolding holds_def by (blast intro: wp_mono)

lemma holdsD: "holds P m Q \<Longrightarrow> P s \<Longrightarrow> m s = (r, s') \<Longrightarrow> r \<noteq> Panic \<and> Q s'"
  by (auto simp: holds_def wp_def)

end
