(* ===== verification/Suites.thy ===== *)
theory Suites
  imports Ikemsg Esp Ikesa
begin

text \<open>
  The suite negotiation of \<open>internal/session/suite.go\<close>: the two suite tables, the proposals
  offered from them, and the two ways a proposal is matched (the responder's selection from
  our offer, our selection from a peer's offer).
\<close>

section \<open>Tables\<close>

definition keyLenAES256 :: u16 where [simp]: "keyLenAES256 = 256"

text \<open>The type parameter of \<open>transformSuite[ID]\<close>, which fixes the layer, is the field \<open>su_layer\<close>.\<close>

datatype layer = LayerESP | LayerIKE

record transformSuite =
  su_layer :: layer
  su_id :: byte
  su_encrID :: u16
  su_keyBits :: u16
  su_encrKeyLen :: nat
  su_integID :: u16
  su_integKeyLen :: nat

definition protocol :: "transformSuite \<Rightarrow> ProtocolID" where
  "protocol s = (case su_layer s of LayerESP \<Rightarrow> ProtocolESP | LayerIKE \<Rightarrow> ProtocolIKE)"

definition aead_suite :: "transformSuite \<Rightarrow> bool" where
  "aead_suite s \<longleftrightarrow> su_integID s = 0"

definition spiLen :: "transformSuite \<Rightarrow> nat" where
  "spiLen s = (if protocol s = ProtocolIKE then 8 else 4)"

definition espSuites :: "transformSuite list" where
  "espSuites =
     [\<lparr>su_layer = LayerESP, su_id = SuiteAESGCM256, su_encrID = ENCR_AES_GCM_16, su_keyBits = keyLenAES256,
       su_encrKeyLen = 36, su_integID = 0, su_integKeyLen = 0\<rparr>,
      \<lparr>su_layer = LayerESP, su_id = SuiteChaCha20Poly1305, su_encrID = ENCR_CHACHA20_POLY1305, su_keyBits = 0,
       su_encrKeyLen = 36, su_integID = 0, su_integKeyLen = 0\<rparr>,
      \<lparr>su_layer = LayerESP, su_id = SuiteAESCBC256SHA256, su_encrID = ENCR_AES_CBC, su_keyBits = keyLenAES256,
       su_encrKeyLen = 32, su_integID = AUTH_HMAC_SHA2_256_128, su_integKeyLen = 32\<rparr>]"

definition ikeSuites :: "transformSuite list" where
  "ikeSuites =
     [\<lparr>su_layer = LayerIKE, su_id = ike_SuiteAESGCM256, su_encrID = ENCR_AES_GCM_16, su_keyBits = keyLenAES256,
       su_encrKeyLen = 36, su_integID = 0, su_integKeyLen = 0\<rparr>,
      \<lparr>su_layer = LayerIKE, su_id = ike_SuiteChaCha20Poly1305, su_encrID = ENCR_CHACHA20_POLY1305, su_keyBits = 0,
       su_encrKeyLen = 36, su_integID = 0, su_integKeyLen = 0\<rparr>,
      \<lparr>su_layer = LayerIKE, su_id = ike_SuiteAESCBC256SHA256, su_encrID = ENCR_AES_CBC, su_keyBits = keyLenAES256,
       su_encrKeyLen = 32, su_integID = AUTH_HMAC_SHA2_256_128, su_integKeyLen = 32\<rparr>]"

fun suiteByID :: "byte \<Rightarrow> transformSuite list \<Rightarrow> transformSuite option" where
  "suiteByID i [] = None"
| "suiteByID i (s # table) = (if su_id s = i then Some s else suiteByID i table)"

text \<open>\<open>enabled_loop\<close> is the loop of \<open>enabledSuites\<close>.\<close>

fun enabled_loop :: "byte list \<Rightarrow> transformSuite list \<Rightarrow> transformSuite list" where
  "enabled_loop [] table = []"
| "enabled_loop (i # is) table =
     (case suiteByID i table of Some s \<Rightarrow> s # enabled_loop is table | None \<Rightarrow> enabled_loop is table)"

definition enabledSuites :: "byte list \<Rightarrow> transformSuite list \<Rightarrow> transformSuite list" where
  "enabledSuites configured table =
     (if length configured = 0 then table else enabled_loop configured table)"

text \<open>\<open>Inl i\<close> is the error that the configured identifier \<open>i\<close> has no table entry.\<close>

fun checkSuites :: "byte list \<Rightarrow> transformSuite list \<Rightarrow> byte + unit" where
  "checkSuites [] table = Inr ()"
| "checkSuites (i # is) table =
     (case suiteByID i table of None \<Rightarrow> Inl i | Some _ \<Rightarrow> checkSuites is table)"

definition checkConfiguredSuites :: "byte list \<Rightarrow> byte list \<Rightarrow> byte + unit" where
  "checkConfiguredSuites ESPSuites IKESuites =
     (case checkSuites ESPSuites espSuites of Inl i \<Rightarrow> Inl i | Inr _ \<Rightarrow> checkSuites IKESuites ikeSuites)"

section \<open>Offers\<close>

definition buildProposalForSuite :: "byte \<Rightarrow> transformSuite \<Rightarrow> bytes \<Rightarrow> u16 list \<Rightarrow> Proposal" where
  "buildProposalForSuite number s spi groups =
     \<lparr>pr_Number = number, pr_Protocol = protocol s, pr_SPI = spi,
      pr_Transforms =
        [\<lparr>tr_Type = TransformEncr, tr_ID = su_encrID s, tr_KeyLength = su_keyBits s, tr_HasKeyLength = (su_keyBits s \<noteq> 0)\<rparr>] @
        (if protocol s = ProtocolIKE
         then [\<lparr>tr_Type = TransformPRF, tr_ID = PRF_HMAC_SHA2_256, tr_KeyLength = 0, tr_HasKeyLength = False\<rparr>] else []) @
        (if \<not> aead_suite s
         then [\<lparr>tr_Type = TransformInteg, tr_ID = su_integID s, tr_KeyLength = 0, tr_HasKeyLength = False\<rparr>] else []) @
        map (\<lambda>g. \<lparr>tr_Type = TransformDH, tr_ID = g, tr_KeyLength = 0, tr_HasKeyLength = False\<rparr>) groups @
        (if protocol s = ProtocolESP
         then [\<lparr>tr_Type = TransformESN, tr_ID = ESN_NONE, tr_KeyLength = 0, tr_HasKeyLength = False\<rparr>] else [])\<rparr>"

text \<open>\<open>build_from i\<close> is the loop of \<open>buildProposals\<close> from index \<open>i\<close>.\<close>

fun build_from :: "nat \<Rightarrow> bytes \<Rightarrow> transformSuite list \<Rightarrow> u16 list \<Rightarrow> Proposal list" where
  "build_from i spi [] groups = []"
| "build_from i spi (s # suites) groups =
     buildProposalForSuite (word_of_nat (i + 1)) s spi groups # build_from (i + 1) spi suites groups"

definition buildProposals :: "bytes \<Rightarrow> transformSuite list \<Rightarrow> u16 list \<Rightarrow> Proposal list" where
  "buildProposals spi suites groups = build_from 0 spi suites groups"

section \<open>Matching\<close>

text \<open>\<open>keyLen\<close> is the pointer argument: \<open>Some 0\<close> asks for the attribute to be absent.\<close>

fun hasTransform :: "Transform list \<Rightarrow> u16 \<Rightarrow> u16 option \<Rightarrow> bool" where
  "hasTransform [] i keyLen = False"
| "hasTransform (t # ts) i keyLen =
     (if tr_ID t \<noteq> i then hasTransform ts i keyLen
      else
        case keyLen of
          None \<Rightarrow> True
        | Some k \<Rightarrow>
            if k = 0 \<and> tr_HasKeyLength t then hasTransform ts i keyLen
            else if k \<noteq> 0 \<and> (\<not> tr_HasKeyLength t \<or> tr_KeyLength t \<noteq> k) then hasTransform ts i keyLen
            else True)"

definition suiteMatches :: "transformSuite \<Rightarrow> Proposal \<Rightarrow> bool" where
  "suiteMatches s p =
     (if pr_Protocol p \<noteq> protocol s then False
      else if \<not> hasTransform (ByType p TransformEncr) (su_encrID s) (Some (su_keyBits s)) then False
      else if protocol s = ProtocolIKE \<and> \<not> hasTransform (ByType p TransformPRF) PRF_HMAC_SHA2_256 None then False
      else
        let integs = ByType p TransformInteg in
        if (if aead_suite s then 0 < length integs \<and> \<not> hasTransform integs AUTH_NONE None
            else \<not> hasTransform integs (su_integID s) None) then False
        else if protocol s = ProtocolESP \<and> \<not> hasTransform (ByType p TransformESN) ESN_NONE None then False
        else True)"

definition isSelectionFor :: "transformSuite \<Rightarrow> Proposal \<Rightarrow> bool" where
  "isSelectionFor s p =
     (if \<not> suiteMatches s p \<or> length (ByType p TransformEncr) \<noteq> 1 then False
      else if length (ByType p TransformDH) > 1 then False
      else if protocol s = ProtocolIKE \<and> length (ByType p TransformPRF) \<noteq> 1 then False
      else if protocol s = ProtocolESP \<and> length (ByType p TransformESN) \<noteq> 1 then False
      else
        let integs = ByType p TransformInteg in
        if aead_suite s then length integs = 0 \<or> length integs = 1 \<and> tr_ID (integs ! 0) = AUTH_NONE
        else length integs = 1)"

fun selectedSuite :: "Proposal \<Rightarrow> transformSuite list \<Rightarrow> transformSuite option" where
  "selectedSuite p [] = None"
| "selectedSuite p (s # enabled) = (if isSelectionFor s p then Some s else selectedSuite p enabled)"

definition preferredDHGroups :: "u16 list" where
  "preferredDHGroups = [DH_X25519, DH_MODP2048]"

definition supportedDHGroup :: "u16 \<Rightarrow> bool" where
  "supportedDHGroup g \<longleftrightarrow> g \<in> set preferredDHGroups"

definition proposalHasDHGroup :: "Proposal \<Rightarrow> u16 \<Rightarrow> bool" where
  "proposalHasDHGroup p g = hasTransform (ByType p TransformDH) g None"

definition selectedDHGroup :: "Proposal \<Rightarrow> u16" where
  "selectedDHGroup p = (case ByType p TransformDH of [] \<Rightarrow> 0 | t # _ \<Rightarrow> tr_ID t)"

text \<open>The inner and the outer loop of \<open>selectProposal\<close>.\<close>

fun select_inner :: "transformSuite \<Rightarrow> Proposal list \<Rightarrow> u16 \<Rightarrow> Proposal option" where
  "select_inner s [] requireGroup = None"
| "select_inner s (p # ps) requireGroup =
     (if \<not> suiteMatches s p \<or> length (pr_SPI p) \<noteq> spiLen s then select_inner s ps requireGroup
      else if requireGroup \<noteq> 0 \<and> \<not> proposalHasDHGroup p requireGroup then select_inner s ps requireGroup
      else Some p)"

fun selectProposal ::
  "Proposal list \<Rightarrow> transformSuite list \<Rightarrow> u16 \<Rightarrow> (Proposal \<times> transformSuite) option" where
  "selectProposal props [] requireGroup = None"
| "selectProposal props (s # enabled) requireGroup =
     (case select_inner s props requireGroup of
        Some p \<Rightarrow> Some (p, s)
      | None \<Rightarrow> selectProposal props enabled requireGroup)"

section \<open>What matching means\<close>

lemma hasTransform_None: "hasTransform ts i None \<longleftrightarrow> (\<exists>t\<in>set ts. tr_ID t = i)"
  by (induction ts) auto

lemma hasTransform_Some:
  "hasTransform ts i (Some k) \<longleftrightarrow>
     (\<exists>t\<in>set ts. tr_ID t = i \<and> (if k = 0 then \<not> tr_HasKeyLength t else tr_HasKeyLength t \<and> tr_KeyLength t = k))"
  by (induction ts) auto

text \<open>A proposal offers a suite for a required group (0: none required).\<close>

definition offers :: "u16 \<Rightarrow> transformSuite \<Rightarrow> Proposal \<Rightarrow> bool" where
  "offers g s p \<longleftrightarrow> suiteMatches s p \<and> length (pr_SPI p) = spiLen s \<and> (g = 0 \<or> proposalHasDHGroup p g)"

lemma select_inner_find: "select_inner s ps g = find (offers g s) ps"
  by (induction ps) (auto simp: offers_def)

lemma selectProposal_find:
  "selectProposal props enabled g =
     (case find (\<lambda>s. \<exists>p\<in>set props. offers g s p) enabled of
        None \<Rightarrow> None | Some s \<Rightarrow> Some (the (find (offers g s) props), s))"
proof (induction enabled)
  case (Cons s enabled)
  show ?case
  proof (cases "find (offers g s) props")
    case None
    then have "\<not> (\<exists>p\<in>set props. offers g s p)" by (simp add: find_None_iff)
    then show ?thesis using Cons None by (simp add: select_inner_find)
  next
    case (Some p)
    then have "\<exists>p\<in>set props. offers g s p" by (auto simp: find_Some_iff)
    then show ?thesis using Some by (simp add: select_inner_find)
  qed
qed simp

text \<open>
  What the negotiation relies on of a suite table: the ENCR transform identifies the row.
\<close>

locale suite_table =
  fixes table :: "transformSuite list"
  assumes encr_pins: "s \<in> set table \<Longrightarrow> t \<in> set table \<Longrightarrow> su_encrID s = su_encrID t \<Longrightarrow> s = t"
begin

lemma selection_unique:
  assumes "s \<in> set table" "t \<in> set table" "isSelectionFor s p" "isSelectionFor t p"
  shows "s = t"
proof -
  have "length (ByType p TransformEncr) = 1" using assms(3) by (auto simp: isSelectionFor_def split: if_splits)
  then obtain e where e: "ByType p TransformEncr = [e]" by (auto simp: length_Suc_conv)
  have "tr_ID e = su_encrID s" "tr_ID e = su_encrID t"
    using assms(3,4) e
    by (auto simp: isSelectionFor_def suiteMatches_def hasTransform_Some Let_def split: if_splits)
  then show ?thesis using encr_pins assms(1,2) by simp
qed

lemma selectedSuite_iff:
  assumes "set enabled \<subseteq> set table"
  shows "selectedSuite p enabled = Some s \<longleftrightarrow> s \<in> set enabled \<and> isSelectionFor s p"
  using assms
proof (induction enabled)
  case (Cons t enabled)
  then show ?case using selection_unique [of s t p] by auto
qed simp

lemma enabled_loop_ids:
  "checkSuites conf table = Inr () \<Longrightarrow>
   map su_id (enabled_loop conf table) = conf \<and> set (enabled_loop conf table) \<subseteq> set table"
proof (induction conf)
  case (Cons i conf)
  then obtain s where "suiteByID i table = Some s" "checkSuites conf table = Inr ()"
    by (auto split: option.splits)
  moreover have "suiteByID i t = Some s \<Longrightarrow> su_id s = i \<and> s \<in> set t" for t
    by (induction t) (auto split: if_splits)
  ultimately show ?case using Cons.IH by auto
qed simp

end

lemma isSelectionFor_built:
  assumes "length groups \<le> 1"
  shows "isSelectionFor s (buildProposalForSuite n s spi groups)"
  using assms
  by (cases "su_layer s"; cases "aead_suite s")
     (auto simp: isSelectionFor_def suiteMatches_def buildProposalForSuite_def ByType_def protocol_def
        hasTransform_None hasTransform_Some Let_def comp_def)

interpretation esp_table: suite_table espSuites
  by unfold_locales (auto simp: espSuites_def)

interpretation ike_table: suite_table ikeSuites
  by unfold_locales (auto simp: ikeSuites_def)


section \<open>Properties\<close>

text \<open>
  C29 (safety).  A responder's selection is decoded unambiguously: whatever subset of a
  table is enabled, and in whatever order, \<open>selectedSuite\<close> returns a suite exactly if it is
  enabled and the proposal is a selection of it, so at most one suite, and with it one set of
  key lengths, can come out of a proposal.
\<close>

theorem suites_selection_unambiguous:
  assumes "table = espSuites \<or> table = ikeSuites" "set enabled \<subseteq> set table"
  shows "selectedSuite p enabled = Some s \<longleftrightarrow> s \<in> set enabled \<and> isSelectionFor s p"
  using assms esp_table.selectedSuite_iff ike_table.selectedSuite_iff by blast

theorem suites_selection_unambiguous_witness:
  "selectedSuite (buildProposalForSuite 1 (ikeSuites ! 0) [] [31]) (rev ikeSuites) = Some (ikeSuites ! 0)"
  using suites_selection_unambiguous [of ikeSuites "rev ikeSuites"
      "buildProposalForSuite 1 (ikeSuites ! 0) [] [31]" "ikeSuites ! 0"]
    isSelectionFor_built [of "[31]" "ikeSuites ! 0" 1 "[]"]
  by (simp add: ikeSuites_def)

text \<open>
  A responder that answers with one of our proposals narrowed to one
  Diffie-Hellman group (or to none) is understood: the selection decodes to the suite and the
  group the proposal was built for, on both layers.
\<close>

lemma suites_offer_roundtrip:
  assumes "table = espSuites \<or> table = ikeSuites" "set enabled \<subseteq> set table" "s \<in> set enabled"
    and "length groups \<le> 1"
  shows "selectedSuite (buildProposalForSuite n s spi groups) enabled = Some s \<and>
     selectedDHGroup (buildProposalForSuite n s spi groups) = (case groups of [] \<Rightarrow> 0 | g # _ \<Rightarrow> g)"
proof
  show "selectedSuite (buildProposalForSuite n s spi groups) enabled = Some s"
    using assms isSelectionFor_built [OF assms(4)] esp_table.selectedSuite_iff ike_table.selectedSuite_iff
    by blast
  show "selectedDHGroup (buildProposalForSuite n s spi groups) = (case groups of [] \<Rightarrow> 0 | g # _ \<Rightarrow> g)"
    by (cases groups) (simp_all add: selectedDHGroup_def buildProposalForSuite_def ByType_def comp_def)
qed

text \<open>
  From a peer's offer \<open>selectProposal\<close> takes the first suite, in our order
  of preference, that any offered proposal supports with the right SPI size and the required
  group, and for it the first such proposal; it fails only if there is none.
\<close>

lemma suites_select_preference:
  "selectProposal props enabled g =
     map_option (\<lambda>s. (the (find (offers g s) props), s))
       (find (\<lambda>s. \<exists>p\<in>set props. offers g s p) enabled)"
  by (simp add: selectProposal_find map_option_case)

end
