(* ===== verification/Protected.thy ===== *)
theory Protected
  imports Suites
begin

text \<open>
  The encrypted messages of \<open>internal/session/protected.go\<close>: an inner payload chain is
  marshalled, protected by the IKE SA and framed as the only payload of a message; decoding
  tries the current IKE SA and, within the grace period of a rekey, the superseded one.
\<close>

section \<open>Encoding\<close>

datatype prot_err =
    ErrInner ikemsg_err
  | ErrSKMessage ikemsg_err
  | ErrIKE ike_err
  | ErrNoSKPayload

definition ikeRoleBit :: "Role \<Rightarrow> Flags" where
  "ikeRoleBit role = (if role = Initiator then FlagInitiator else 0)"

definition encodeSKWith ::
  "prims \<Rightarrow> IKESA \<Rightarrow> bytes \<Rightarrow> u64 \<Rightarrow> u64 \<Rightarrow> ExchangeType \<Rightarrow> Flags \<Rightarrow> u32 \<Rightarrow> Payloads \<Rightarrow>
   (prot_err, bytes) res \<times> IKESA" where
  "encodeSKWith P ike rnd spii spir exchangeType flags msgID inner =
     (case wrapR ErrInner (MarshalPayloads inner) of
        Err e \<Rightarrow> (Err e, ike)
      | Panic \<Rightarrow> (Panic, ike)
      | Ok (firstType, plaintext) \<Rightarrow>
          let (r, ike') = EncryptToSK P ike rnd plaintext in
          (bindR (wrapR ErrIKE r) (\<lambda>skData.
           bindR (wrapR ErrSKMessage (Marshal
             \<lparr>InitiatorSPI = spii, ResponderSPI = spir, Exchange = exchangeType, MFlags = flags,
              MessageID = msgID, MPayloads = [EncryptedPayload firstType skData]\<rparr>)) (\<lambda>raw.
           wrapR ErrIKE (FinalizeSK P ike' raw (length skData)))), ike'))"

section \<open>Decoding\<close>

text \<open>The first SK payload of a chain.\<close>

fun firstSK :: "Payloads \<Rightarrow> (PayloadType \<times> bytes) option" where
  "firstSK [] = None"
| "firstSK (EncryptedPayload f d # ps) = Some (f, d)"
| "firstSK (_ # ps) = firstSK ps"

text \<open>\<open>decodeSKWith\<close> returns the message with its inner chain or an error, and \<open>icvOK\<close>.\<close>

definition decodeSKWith :: "prims \<Rightarrow> IKESA \<Rightarrow> bytes \<Rightarrow> (prot_err, Message \<times> Payloads) res \<times> bool" where
  "decodeSKWith P ike raw =
     (case wrapR ErrSKMessage (Parse raw) of
        Err e \<Rightarrow> (Err e, False)
      | Panic \<Rightarrow> (Panic, False)
      | Ok m \<Rightarrow>
          (case firstSK (MPayloads m) of
             None \<Rightarrow> (Err ErrNoSKPayload, False)
           | Some (innerFirst, skData) \<Rightarrow>
               let (r, icvOK) = OpenSK P ike raw skData in
               (case wrapR ErrIKE r of
                  Err e \<Rightarrow> (Err e, icvOK)
                | Panic \<Rightarrow> (Panic, icvOK)
                | Ok plaintext \<Rightarrow>
                    (bindR (wrapR ErrInner (ParsePayloads innerFirst plaintext)) (\<lambda>inner. Ok (m, inner)), True))))"

text \<open>
  The IKE contexts of a session, \<open>ikeCtx\<close>: the current one, and the superseded one with the
  instant until which it is kept.  The pointer that \<open>decodeIKE\<close> returns is the reference
  \<open>Cur\<close> or \<open>Old\<close>.  Instants are nanoseconds.
\<close>

type_synonym time = int

record ikeCtx =
  cx_sa :: IKESA
  cx_spii :: u64
  cx_spir :: u64

datatype ctxRef = Cur | Old

definition decodeIKE ::
  "prims \<Rightarrow> ikeCtx \<Rightarrow> ikeCtx option \<Rightarrow> time \<Rightarrow> time \<Rightarrow> bytes \<Rightarrow>
   (prot_err, Message \<times> Payloads \<times> ctxRef) res" where
  "decodeIKE P cur oldIKE oldIKEUntil now raw =
     (let (r, icvOK) = decodeSKWith P (cx_sa cur) raw in
      case r of
        Ok (m, inner) \<Rightarrow> Ok (m, inner, Cur)
      | Panic \<Rightarrow> Panic
      | Err e \<Rightarrow>
          (case oldIKE of
             Some old \<Rightarrow>
               if \<not> icvOK \<and> now < oldIKEUntil then
                 (case fst (decodeSKWith P (cx_sa old) raw) of
                    Ok (m2, inner2) \<Rightarrow> Ok (m2, inner2, Old)
                  | Err _ \<Rightarrow> Err e
                  | Panic \<Rightarrow> Panic)
               else Err e
           | None \<Rightarrow> Err e))"

section \<open>Decoding inverts encoding\<close>

lemma Marshal_SK:
  assumes "length sk \<le> 65531"
  shows "Marshal \<lparr>InitiatorSPI = spii, ResponderSPI = spir, Exchange = ex, MFlags = fl,
              MessageID = mid, MPayloads = [EncryptedPayload f sk]\<rparr> =
     Ok ((PutUint64 spii @ PutUint64 spir @ [PayloadSK, version, ex, fl] @ PutUint32 mid @
         PutUint32 (word_of_nat (32 + length sk)) @
         [f, 0] @ PutUint16 (word_of_nat (4 + length sk))) @ sk)"
  using assms by (simp add: Marshal_def MarshalPayloads_def nextType_def del: of_nat_add)

lemma Parse_SK:
  assumes "length sk \<le> 65531"
  shows "Parse ((PutUint64 spii @ PutUint64 spir @ [PayloadSK, version, ex, fl] @ PutUint32 mid @
         PutUint32 (word_of_nat (32 + length sk)) @
         [f, 0] @ PutUint16 (word_of_nat (4 + length sk))) @ sk) =
     Ok \<lparr>InitiatorSPI = spii, ResponderSPI = spir, Exchange = ex, MFlags = fl,
              MessageID = mid, MPayloads = [EncryptedPayload f sk]\<rparr>"
  by (rule Parse_Marshal [OF Marshal_SK [OF assms]]) (use assms in simp_all)

lemma ParsePayloads_MarshalPayloads:
  "MarshalPayloads ps = Ok (first, body) \<Longrightarrow> chain_ok ps \<Longrightarrow> ParsePayloads first body = Ok ps"
  using chain_roundtrip [of ps body]
  by (auto simp: MarshalPayloads_def ParsePayloads_def parseChain.simps [of _ "[]"] split: list.splits)

lemma EncryptToSK_length:
  "prims_ok P \<Longrightarrow> EncryptToSK P s rnd pt = (Ok sk, s') \<Longrightarrow> length sk \<le> length pt + 48"
  by (auto simp: EncryptToSK_def Let_def aesCBCEncrypt_def cbc_encrypt_def ReadFull_def ike_aes_NewCipher_def
      cbc_roundtrip simp del: upt_Suc split: if_splits)

lemma protected_roundtrip:
  assumes "prims_ok P" "ike_ok a" "ike_mirrors a b" "16 \<le> length rnd"
    and "MarshalPayloads inner = Ok (first, pt)" "length pt \<le> 65483" "chain_ok inner"
  shows "\<exists>raw. encodeSKWith P a rnd spii spir ex fl mid inner =
        (Ok raw, if ike_aead (ik_Suite a) then a\<lparr>skSeq := skSeq a + 1\<rparr> else a) \<and>
     (\<exists>m. decodeSKWith P b raw = (Ok (m, inner), True) \<and> InitiatorSPI m = spii \<and> ResponderSPI m = spir \<and>
        Exchange m = ex \<and> MFlags m = fl \<and> MessageID m = mid)"
proof -
  define hdr where "hdr n = PutUint64 spii @ PutUint64 spir @ [PayloadSK, version, ex, fl] @ PutUint32 mid @
         PutUint32 (word_of_nat (32 + n)) @ [first, 0] @ PutUint16 (word_of_nat (4 + n))" for n :: nat
  obtain sk0 a0 where sk0: "EncryptToSK P a rnd pt = (Ok sk0, a0)"
    by (rule sk_roundtrip [OF assms(1-3) _ assms(4), of "zeros 32" pt]) (simp, blast)
  have len0: "length sk0 \<le> 65531" using EncryptToSK_length [OF assms(1) sk0] assms(6) by simp
  have pre: "length (hdr (length sk0)) = 32" by (simp add: hdr_def del: of_nat_add)
  obtain sk a' sk' where sk: "EncryptToSK P a rnd pt = (Ok sk, a')" "length sk' = length sk"
    "FinalizeSK P a' (hdr (length sk0) @ sk) (length sk) = Ok (hdr (length sk0) @ sk')"
    "OpenSK P b (hdr (length sk0) @ sk') sk' = (Ok pt, True)"
    "a' = (if ike_aead (ik_Suite a) then a\<lparr>skSeq := skSeq a + 1\<rparr> else a)"
    by (rule sk_roundtrip [OF assms(1-3) _ assms(4), of "hdr (length sk0)" pt]) (simp add: pre, blast)
  then have eq: "sk = sk0" using sk0 by simp
  have len: "length sk \<le> 65531" "length sk' \<le> 65531" using len0 eq sk(2) by simp_all
  let ?m = "\<lambda>d. \<lparr>InitiatorSPI = spii, ResponderSPI = spir, Exchange = ex, MFlags = fl,
              MessageID = mid, MPayloads = [EncryptedPayload first d]\<rparr>"
  have mar: "Marshal (?m sk) = Ok (hdr (length sk) @ sk)"
    unfolding hdr_def by (rule Marshal_SK [OF len(1)])
  have par: "Parse (hdr (length sk) @ sk') = Ok (?m sk')"
    unfolding hdr_def sk(2) [symmetric] by (rule Parse_SK [OF len(2)])
  have enc: "encodeSKWith P a rnd spii spir ex fl mid inner = (Ok (hdr (length sk) @ sk'), a')"
    using sk(1,3) mar eq by (simp add: encodeSKWith_def assms(5))
  have "decodeSKWith P b (hdr (length sk) @ sk') = (Ok (?m sk', inner), True)"
    using par sk(4) eq ParsePayloads_MarshalPayloads [OF assms(5,7)] by (simp add: decodeSKWith_def)
  then show ?thesis using enc sk(5) by auto
qed

lemma decodeSKWith_total:
  assumes "prims_ok P" "ike_ok s"
  shows "panic_free (fst (decodeSKWith P s raw))"
proof -
  have w: "panic_free m \<Longrightarrow> wrapR f m \<noteq> Panic" for m :: "('e, 'a) res" and f
    by (cases m) (simp_all add: panic_free_def)
  have p: "wrapR ErrSKMessage (Parse raw) \<noteq> Panic" using Parse_panic_free by (rule w)
  have o: "wrapR ErrIKE (fst (OpenSK P s raw d)) \<noteq> Panic" for d using OpenSK_total(1) [OF assms] by (rule w)
  show ?thesis using p o
    by (auto simp: decodeSKWith_def Let_def panic_free_Err ParsePayloads_def split: res.splits option.splits prod.splits
        intro!: no_panic) (metis fst_conv)
qed

section \<open>Neither direction panics\<close>

lemma put_all_panic_free:
  "(\<And>f x. panic_free (put f x)) \<Longrightarrow> panic_free (put_all put xs)"
  by (induction xs) (auto intro!: no_panic)

lemma marshalBody_panic_free: "panic_free (marshalBody p)"
  by (cases p)
     (auto simp: marshalProposal_def marshalTransform_def marshalTSBody_def marshalSelector_def Let_def
       intro!: no_panic put_all_panic_free)

lemma MarshalPayloads_panic_free: "panic_free (MarshalPayloads ps)"
proof -
  have "panic_free (marshalChain qs)" for qs
    by (induction qs) (auto simp: Let_def intro!: no_panic marshalBody_panic_free)
  then show ?thesis by (auto simp: MarshalPayloads_def Let_def intro!: no_panic marshalBody_panic_free split: list.split)
qed

lemma Marshal_panic_free: "panic_free (Marshal m)"
  using MarshalPayloads_panic_free by (auto simp: Marshal_def Let_def intro!: no_panic)

lemma EncryptToSK_total:
  assumes "prims_ok P" "ike_ok s"
  shows "panic_free (fst (EncryptToSK P s rnd pt))" "\<exists>q. snd (EncryptToSK P s rnd pt) = s\<lparr>skSeq := q\<rparr>"
proof -
  define padLen where "padLen = (16 - (length pt + 1) mod 16) mod 16"
  have "(length pt + padLen + 1) mod 16 = 0"
  proof -
    have "(length pt + padLen + 1) mod 16 = ((length pt + 1) mod 16 + (16 - (length pt + 1) mod 16)) mod 16"
      unfolding padLen_def add.assoc [of "length pt"] add.commute [of _ "1::nat"]
      by (simp only: add.assoc [symmetric] mod_add_right_eq mod_add_left_eq)
    also have "(length pt + 1) mod 16 + (16 - (length pt + 1) mod 16) = 16" by (simp add: less_imp_le)
    finally show ?thesis by simp
  qed
  then have al: "length (pt @ map word_of_nat [1..<padLen + 1] @ [word_of_nat padLen :: byte]) mod 16 = 0"
    by (simp del: upt_Suc)
  show "panic_free (fst (EncryptToSK P s rnd pt))"
    using al
    by (auto simp: EncryptToSK_def aesCBCEncrypt_def Let_def cbc_encrypt_def ike_aes_NewCipher_def ReadFull_def
        padLen_def [symmetric] simp del: upt_Suc intro!: no_panic)
  show "\<exists>q. snd (EncryptToSK P s rnd pt) = s\<lparr>skSeq := q\<rparr>"
    by (auto simp: EncryptToSK_def Let_def intro: exI [of _ "skSeq s"])
qed


lemma FinalizeSK_total:
  assumes "prims_ok P" "ike_ok s"
  shows "panic_free (FinalizeSK P s raw n)"
proof (cases "ike_aead (ik_Suite s)")
  case True
  define A where "A = mkAEAD (ik_Suite s) (take 32 (outboundEncrKey s))"
  have A: "ik_outAEAD s = Some A" "length (ik_outSalt s) = 4"
    using assms(2) True by (simp_all add: ike_ok_def A_def outboundEncrKey_def keyLens_def)
  have "length (ik_outSalt s @ iv) = 12 \<Longrightarrow> panic_free (Seal P A (ik_outSalt s @ iv) pt ad :: (ike_err, bytes) res)" for iv pt ad
    by (cases A) (auto simp: Seal_def panic_free_def)
  then show ?thesis using True A
    by (auto simp: FinalizeSK_def Let_def slice_eq_Ok intro!: no_panic)
next
  case False
  then show ?thesis
    by (auto simp: FinalizeSK_def checksum_def integ_Ok [OF assms(1)] intro!: no_panic)
qed

lemma ike_ok_skSeq [simp]: "ike_ok (s\<lparr>skSeq := q\<rparr>) \<longleftrightarrow> ike_ok s"
  by (simp add: ike_ok_def outboundEncrKey_def inboundEncrKey_def)

lemma encodeSKWith_total:
  assumes "prims_ok P" "ike_ok s"
  shows "panic_free (fst (encodeSKWith P s rnd spii spir ex fl mid inner))"
    and "\<exists>q. snd (encodeSKWith P s rnd spii spir ex fl mid inner) = s\<lparr>skSeq := q\<rparr>"
proof -
  define r s' where "r pt = fst (EncryptToSK P s rnd pt)" and "s' pt = snd (EncryptToSK P s rnd pt)" for pt
  then have e: "EncryptToSK P s rnd pt = (r pt, s' pt)" for pt by simp
  have r: "panic_free (r pt)" "\<exists>q. s' pt = s\<lparr>skSeq := q\<rparr>" for pt
    using EncryptToSK_total [OF assms, of rnd pt] e by simp_all
  have f: "panic_free (FinalizeSK P (s' pt) raw n)" for pt raw n
    using FinalizeSK_total [OF assms(1), of "s' pt"] r(2) [of pt] assms(2) by auto
  show "panic_free (fst (encodeSKWith P s rnd spii spir ex fl mid inner))"
    using MarshalPayloads_panic_free [of inner] r(1) f Marshal_panic_free
    by (cases "MarshalPayloads inner")
       (auto simp: encodeSKWith_def e panic_free_Err intro!: no_panic, simp add: panic_free_def)
  show "\<exists>q. snd (encodeSKWith P s rnd spii spir ex fl mid inner) = s\<lparr>skSeq := q\<rparr>"
    using r(2) by (cases "MarshalPayloads inner") (auto simp: encodeSKWith_def e intro: exI [of _ "skSeq s"])
qed

lemma decodeIKE_total:
  assumes "prims_ok P" "ike_ok (cx_sa cur)" "\<And>c. old = Some c \<Longrightarrow> ike_ok (cx_sa c)"
  shows "panic_free (decodeIKE P cur old until now raw)"
  using decodeSKWith_total [OF assms(1,2), of raw] decodeSKWith_total [OF assms(1,3), of _ raw]
  by (auto simp: decodeIKE_def panic_free_def Let_def split: prod.splits res.splits if_splits option.splits)

section \<open>Properties\<close>

text \<open>
  C22 (roundtrip).  Under mirrored IKE SAs of any suite, every inner chain that fits a
  datagram is protected without an error and decoded by the other end to exactly that chain,
  in a message with the given header, with the integrity check reported as passed.
\<close>

theorem protected_message_roundtrip:
  assumes "prims_ok P" "ike_ok a" "ike_mirrors a b" "16 \<le> length rnd"
    and "MarshalPayloads inner = Ok (first, pt)" "length pt \<le> 65483" "chain_ok inner"
  shows "\<exists>raw a' m. encodeSKWith P a rnd spii spir ex fl mid inner = (Ok raw, a') \<and>
     decodeSKWith P b raw = (Ok (m, inner), True) \<and>
     InitiatorSPI m = spii \<and> ResponderSPI m = spir \<and> Exchange m = ex \<and> MFlags m = fl \<and> MessageID m = mid"
  using protected_roundtrip [OF assms] by blast

theorem protected_message_roundtrip_witness:
  "\<exists>a b raw a' m. ike_mirrors a b \<and>
     encodeSKWith plain_prims a (zeros 16) 1 2 ExchangeInformational FlagInitiator 3 [VendorIDPayload [1, 2]] = (Ok raw, a') \<and>
     decodeSKWith plain_prims b raw = (Ok (m, [VendorIDPayload [1, 2]]), True)"
proof -
  obtain a where a: "deriveFromSKEYSEED plain_prims 1 Initiator 1 2 [] [] [] = Ok a"
    using deriveFromSKEYSEED_Ok [OF plain_prims_ok] by blast
  obtain b where b: "deriveFromSKEYSEED plain_prims 1 Responder 1 2 [] [] [] = Ok b"
    using deriveFromSKEYSEED_Ok [OF plain_prims_ok] by blast
  note ab = deriveFromSKEYSEED_mirrors [OF plain_prims_ok a b]
  obtain pt where "MarshalPayloads [VendorIDPayload [1, 2]] = Ok (43, pt)" "length pt \<le> 65483"
    by (simp add: MarshalPayloads_def)
  with protected_message_roundtrip [OF plain_prims_ok ab(1,3), of "zeros 16" "[VendorIDPayload [1, 2]]" 43 pt
      1 2 ExchangeInformational FlagInitiator 3] ab(3)
  show ?thesis by auto
qed

text \<open>
  C30 (safety).  No datagram makes the decoder of encrypted messages panic, with or without a
  superseded IKE SA; a message is attributed to the superseded SA only within its grace
  period and only if it does not authenticate under the current one.
\<close>

theorem protected_decode_total:
  assumes "prims_ok P" "ike_ok (cx_sa cur)" "ike_ok (cx_sa old)"
  shows "decodeIKE P cur (Some old) until now raw \<noteq> Panic \<and> decodeIKE P cur None until now raw \<noteq> Panic \<and>
     (\<forall>m inner. decodeIKE P cur (Some old) until now raw = Ok (m, inner, Old) \<longrightarrow>
        now < until \<and> \<not> snd (decodeSKWith P (cx_sa cur) raw) \<and>
        fst (decodeSKWith P (cx_sa old) raw) = Ok (m, inner))"
  using decodeSKWith_total [OF assms(1,2), of raw] decodeSKWith_total [OF assms(1,3), of raw]
  by (auto simp: decodeIKE_def panic_free_def Let_def split: prod.splits res.splits if_splits)

theorem protected_decode_total_witness:
  "\<exists>cur old. ike_ok (cx_sa cur) \<and> ike_ok (cx_sa old) \<and>
     decodeIKE plain_prims cur (Some old) 5 4 [1, 2, 3] \<noteq> Panic"
proof -
  obtain a where a: "ike_ok a" using deriveFromSKEYSEED_Ok [OF plain_prims_ok] by blast
  let ?c = "\<lambda>n. \<lparr>cx_sa = a, cx_spii = n, cx_spir = 2\<rparr>"
  have "ike_ok (cx_sa (?c 1))" "ike_ok (cx_sa (?c 2))" using a by simp_all
  with protected_decode_total [OF plain_prims_ok this, of 5 4 "[1, 2, 3]"] show ?thesis by blast
qed

end
