(* ===== verification/Eap.thy ===== *)
theory Eap
  imports Go_State
begin

text \<open>
  The EAP-MSCHAPv2 conversation (\<open>internal/eap\<close>): the framing of EAP packets, the client's side
  of the challenge and of the server's proof, the derivation of the master session key, and
  the dispatch of \<open>buildEAPResponse\<close> (\<open>internal/session/ikeauth.go\<close>).

  The functions of \<open>layeh.com/radius\<close> (RFC 2759, RFC 3079) are parameters, a record \<open>radius\<close>;
  nothing is assumed of them but that they are functions.  Passwords, user names and messages
  are byte slices.
\<close>

section \<open>Packets\<close>

definition CodeRequest :: byte where [simp]: "CodeRequest = 1"
definition CodeResponse :: byte where [simp]: "CodeResponse = 2"
definition CodeSuccess :: byte where [simp]: "CodeSuccess = 3"
definition CodeFailure :: byte where [simp]: "CodeFailure = 4"
definition TypeIdentity :: byte where [simp]: "TypeIdentity = 1"
definition TypeNotification :: byte where [simp]: "TypeNotification = 2"
definition TypeNak :: byte where [simp]: "TypeNak = 3"
definition TypeMSCHAPv2 :: byte where [simp]: "TypeMSCHAPv2 = 26"

record Packet =
  pk_Code :: byte
  pk_Identifier :: byte
  pk_Type :: byte
  pk_Data :: bytes

datatype eap_err =
    ErrEAPShort
  | ErrEAPLength nat
  | ErrEAPType byte
  | ErrEAPChallenge
  | ErrEAPValueSize nat
  | ErrEAPRand
  | ErrEAPNTResponse
  | ErrEAPUTF16
  | ErrEAPAuthResponse
  | ErrEAPEmptySuccess
  | ErrEAPServerFailure
  | ErrEAPOpcode byte
  | ErrEAPUnexpectedSuccess
  | ErrEAPMismatch
  | ErrEAPEmptyRequest
  | ErrEAPMSKInputs
  | ErrEAPStartKey

definition eap_Parse :: "bytes \<Rightarrow> (eap_err, Packet) res" where
  "eap_Parse raw =
     guardR (length raw < 4) ErrEAPShort
     (bindR (slice raw 2 4) (\<lambda>l.
      let len = unat (Uint16 l) in
      guardR (len < 4 \<or> len > length raw) (ErrEAPLength len)
      (bindR (index raw 0) (\<lambda>c.
       bindR (index raw 1) (\<lambda>i.
       if len = 4 then Ok \<lparr>pk_Code = c, pk_Identifier = i, pk_Type = 0, pk_Data = []\<rparr>
       else
         bindR (index raw 4) (\<lambda>t.
         bindR (slice raw 5 len) (\<lambda>d.
         Ok \<lparr>pk_Code = c, pk_Identifier = i, pk_Type = t, pk_Data = d\<rparr>)))))))"

definition eap_Marshal :: "Packet \<Rightarrow> bytes" where
  "eap_Marshal p =
     (if pk_Code p = CodeSuccess \<or> pk_Code p = CodeFailure
      then [pk_Code p, pk_Identifier p] @ PutUint16 4
      else [pk_Code p, pk_Identifier p] @ PutUint16 (word_of_nat (5 + length (pk_Data p))) @
           [pk_Type p] @ pk_Data p)"

section \<open>The MSCHAPv2 conversation\<close>

definition opChallenge :: byte where [simp]: "opChallenge = 1"
definition opResponse :: byte where [simp]: "opResponse = 2"
definition opSuccess :: byte where [simp]: "opSuccess = 3"
definition opFailure :: byte where [simp]: "opFailure = 4"
definition authChallengeLen :: nat where [simp]: "authChallengeLen = 16"
definition peerChallengeLen :: nat where [simp]: "peerChallengeLen = 16"
definition responseValueLen :: nat where [simp]: "responseValueLen = 49"

record radius =
  r_GenerateNTResponse :: "bytes \<Rightarrow> bytes \<Rightarrow> bytes \<Rightarrow> bytes \<Rightarrow> bytes option"
  r_ToUTF16 :: "bytes \<Rightarrow> bytes option"
  r_NTPasswordHash :: "bytes \<Rightarrow> bytes"
  r_GenerateAuthenticatorResponse :: "bytes \<Rightarrow> bytes \<Rightarrow> bytes \<Rightarrow> bytes \<Rightarrow> bytes \<Rightarrow> bytes option"
  r_GetMasterKey :: "bytes \<Rightarrow> bytes \<Rightarrow> bytes"
  r_GetAsymmetricStartKey :: "bytes \<Rightarrow> nat \<Rightarrow> bool \<Rightarrow> bytes option"

record MSCHAPv2 =
  ms_Username :: bytes
  ms_Password :: bytes
  ms_peerChallenge :: bytes
  ms_ntResponse :: bytes
  ms_authChallenge :: bytes
  ms_passwordHashHash :: bytes
  ms_authResponse :: bytes
  ms_authChecked :: bool

definition NewMSCHAPv2 :: "bytes \<Rightarrow> bytes \<Rightarrow> MSCHAPv2" where
  "NewMSCHAPv2 username password =
     \<lparr>ms_Username = username, ms_Password = password, ms_peerChallenge = [], ms_ntResponse = [],
      ms_authChallenge = [], ms_passwordHashHash = [], ms_authResponse = [], ms_authChecked = False\<rparr>"

text \<open>Zeroing the buffers is not observable once the pointers to them are dropped.\<close>

definition Wipe_mschap :: "MSCHAPv2 \<Rightarrow> MSCHAPv2" where
  "Wipe_mschap m = m\<lparr>ms_Password := [], ms_peerChallenge := [], ms_ntResponse := [],
     ms_authChallenge := [], ms_passwordHashHash := [], ms_authResponse := []\<rparr>"

definition putUint16 :: "u16 \<Rightarrow> bytes" where
  "putUint16 v = [ucast (drop_bit 8 v), ucast v]"

text \<open>The type-data of the Response, \<open>OpCode | ID | MS-Length | Value-Size | Value | Name\<close>.\<close>

definition response_data :: "byte \<Rightarrow> bytes \<Rightarrow> bytes \<Rightarrow> bytes \<Rightarrow> bytes" where
  "response_data msChapID peerChal ntResponse name =
     (let val = copy (zeros 16) peerChal @ zeros 8 @ copy (zeros 24) ntResponse @ zeros 1 in
      [opResponse, msChapID] @ putUint16 (word_of_nat (5 + responseValueLen + length name)) @
      [word_of_nat responseValueLen] @ val @ name)"

text \<open>\<open>rnd\<close> is what the random source has to offer.\<close>

definition HandleChallenge :: "radius \<Rightarrow> bytes \<Rightarrow> Packet \<Rightarrow> (MSCHAPv2, eap_err, Packet) go" where
  "HandleChallenge R rnd req =
     guardS (pk_Type req \<noteq> TypeMSCHAPv2) (ErrEAPType (pk_Type req))
     (let d = pk_Data req in
      guardS (length d < 5 \<or> d ! 0 \<noteq> opChallenge) ErrEAPChallenge
      (bindS (liftS (index d 1)) (\<lambda>msChapID.
       bindS (liftS (index d 4)) (\<lambda>sz.
       let valueSize = unat sz in
       guardS (valueSize \<noteq> authChallengeLen \<or> length d < 5 + authChallengeLen) (ErrEAPValueSize valueSize)
       (bindS (liftS (slice d 5 (5 + authChallengeLen))) (\<lambda>challenge.
        thenS (modS (\<lambda>m. m\<lparr>ms_authChallenge := challenge\<rparr>))
       (bindS (liftS (ReadFull ErrEAPRand peerChallengeLen rnd)) (\<lambda>peerChal.
        thenS (modS (\<lambda>m. m\<lparr>ms_peerChallenge := peerChal\<rparr>))
        (readS (\<lambda>m. m) (\<lambda>m.
         let username = ms_Username m in
         case r_GenerateNTResponse R (ms_authChallenge m) peerChal username (ms_Password m) of
           None \<Rightarrow> failS ErrEAPNTResponse
         | Some ntResp \<Rightarrow>
             thenS (modS (\<lambda>m. m\<lparr>ms_ntResponse := ntResp\<rparr>))
             (case r_ToUTF16 R (ms_Password m) of
                None \<Rightarrow> failS ErrEAPUTF16
              | Some ucs2 \<Rightarrow>
                  thenS (modS (\<lambda>m. m\<lparr>ms_passwordHashHash := r_NTPasswordHash R (r_NTPasswordHash R ucs2)\<rparr>))
                  (case r_GenerateAuthenticatorResponse R (ms_authChallenge m) peerChal ntResp username (ms_Password m) of
                     None \<Rightarrow> failS ErrEAPAuthResponse
                   | Some authResp \<Rightarrow>
                       thenS (modS (\<lambda>m. m\<lparr>ms_authResponse := authResp\<rparr>))
                       (retS \<lparr>pk_Code = CodeResponse, pk_Identifier = pk_Identifier req, pk_Type = TypeMSCHAPv2,
                          pk_Data = response_data msChapID peerChal ntResp username\<rparr>)))))))))))))"

definition messageBody :: "bytes \<Rightarrow> ('e, bytes) res" where
  "messageBody d = (if length d \<ge> 4 then slice d 4 (length d) else slice d 1 (length d))"

definition HandleSuccess :: "Packet \<Rightarrow> (MSCHAPv2, eap_err, Packet) go" where
  "HandleSuccess req =
     guardS (pk_Type req \<noteq> TypeMSCHAPv2) (ErrEAPType (pk_Type req))
     (let d = pk_Data req in
      guardS (length d < 1) ErrEAPEmptySuccess
      (guardS (d ! 0 = opFailure) ErrEAPServerFailure
      (guardS (d ! 0 \<noteq> opSuccess) (ErrEAPOpcode (d ! 0))
      (bindS (liftS (messageBody d)) (\<lambda>msg.
       readS ms_authResponse (\<lambda>e.
       guardS (length e = 0) ErrEAPUnexpectedSuccess
       (guardS (length msg < length e \<or> take (length e) msg \<noteq> e) ErrEAPMismatch
       (thenS (modS (\<lambda>m. m\<lparr>ms_authChecked := True\<rparr>))
       (retS \<lparr>pk_Code = CodeResponse, pk_Identifier = pk_Identifier req, pk_Type = TypeMSCHAPv2,
          pk_Data = [opSuccess]\<rparr>)))))))))"

definition IdentityResponse :: "MSCHAPv2 \<Rightarrow> Packet \<Rightarrow> Packet" where
  "IdentityResponse m req =
     \<lparr>pk_Code = CodeResponse, pk_Identifier = pk_Identifier req, pk_Type = TypeIdentity, pk_Data = ms_Username m\<rparr>"

definition MSKInputs :: "MSCHAPv2 \<Rightarrow> bytes \<times> bytes" where
  "MSKInputs m = (ms_passwordHashHash m, ms_ntResponse m)"

definition Verified :: "MSCHAPv2 \<Rightarrow> bool" where
  "Verified m = ms_authChecked m"

definition buildEAPResponse :: "radius \<Rightarrow> bytes \<Rightarrow> Packet \<Rightarrow> (MSCHAPv2, eap_err, Packet) go" where
  "buildEAPResponse R rnd req =
     (if pk_Type req = TypeIdentity then readS (\<lambda>m. m) (\<lambda>m. retS (IdentityResponse m req))
      else if pk_Type req = TypeMSCHAPv2 then
        guardS (length (pk_Data req) = 0) ErrEAPEmptyRequest
        (let op = pk_Data req ! 0 in
         if op = 1 then HandleChallenge R rnd req
         else if op = 3 then HandleSuccess req
         else if op = 4 then failS ErrEAPServerFailure
         else failS (ErrEAPOpcode op))
      else if pk_Type req = TypeNotification then
        retS \<lparr>pk_Code = CodeResponse, pk_Identifier = pk_Identifier req, pk_Type = TypeNotification, pk_Data = []\<rparr>
      else failS (ErrEAPType (pk_Type req)))"

section \<open>The master session key\<close>

definition MSKLen :: nat where [simp]: "MSKLen = 64"

definition DeriveMSK :: "radius \<Rightarrow> bytes \<Rightarrow> bytes \<Rightarrow> (eap_err, bytes) res" where
  "DeriveMSK R passwordHashHash ntResponse =
     guardR (length passwordHashHash = 0 \<or> length ntResponse = 0) ErrEAPMSKInputs
     (let master = r_GetMasterKey R passwordHashHash ntResponse in
      case r_GetAsymmetricStartKey R master 16 False of
        None \<Rightarrow> Err ErrEAPStartKey
      | Some recvKey \<Rightarrow>
          (case r_GetAsymmetricStartKey R master 16 True of
             None \<Rightarrow> Err ErrEAPStartKey
           | Some sendKey \<Rightarrow>
               Ok (copy (zeros 16) recvKey @ copy (zeros 16) sendKey @ zeros (MSKLen - 32))))"

section \<open>Lemmas\<close>

lemma eap_Parse_total [no_panic]: "panic_free (eap_Parse raw)"
  unfolding eap_Parse_def Let_def by (intro no_panic) auto

lemma messageBody_total [no_panic]: "1 \<le> length d \<Longrightarrow> panic_free (messageBody d)"
  unfolding messageBody_def by (intro no_panic) auto

lemma DeriveMSK_total [no_panic]: "panic_free (DeriveMSK R a b)"
  unfolding DeriveMSK_def Let_def by (intro no_panic)

lemma DeriveMSK_length: "DeriveMSK R a b = Ok k \<Longrightarrow> length k = MSKLen"
  by (auto simp: DeriveMSK_def Let_def split: option.splits)

lemma keeps_buildEAPResponse: "keeps (\<lambda>_. True) (buildEAPResponse R rnd req)"
  unfolding buildEAPResponse_def HandleChallenge_def HandleSuccess_def Let_def
  by (intro holds_intros no_panic) (auto simp: Suc_le_eq)

text \<open>
  \<open>eap_canonical\<close>: the packets a sender may build; the length field then holds the length.
\<close>

definition eap_canonical :: "Packet \<Rightarrow> bool" where
  "eap_canonical p \<longleftrightarrow>
     (if pk_Code p = CodeSuccess \<or> pk_Code p = CodeFailure then pk_Type p = 0 \<and> pk_Data p = []
      else length (pk_Data p) \<le> 65530)"

lemma slice_PutUint16: "slice (c # i # PutUint16 v @ r) 2 4 = Ok (PutUint16 v)"
  by (simp add: slice_def)

lemma eap_Parse_Marshal:
  assumes "eap_canonical p"
  shows "eap_Parse (eap_Marshal p) = Ok p"
proof (cases "pk_Code p = CodeSuccess \<or> pk_Code p = CodeFailure")
  case True
  with assms have "pk_Type p = 0" "pk_Data p = []" by (auto simp: eap_canonical_def)
  with True show ?thesis
    using slice_PutUint16 [of "pk_Code p" "pk_Identifier p" 4 "[]"]
    by (cases p) (auto simp: eap_Parse_def eap_Marshal_def Let_def)
next
  case False
  then have len: "length (pk_Data p) \<le> 65530" using assms by (simp add: eap_canonical_def)
  define v :: u16 where "v = word_of_nat (5 + length (pk_Data p))"
  have v: "unat v = 5 + length (pk_Data p)" using len by (simp only: v_def unat_of_nat) simp
  have raw: "eap_Marshal p = pk_Code p # pk_Identifier p # PutUint16 v @ pk_Type p # pk_Data p"
    using False by (simp add: eap_Marshal_def v_def)
  have "index (eap_Marshal p) 4 = Ok (pk_Type p)"
    by (simp add: raw index_def nth_Cons' nth_append)
  moreover have "slice (eap_Marshal p) 5 (5 + length (pk_Data p)) = Ok (pk_Data p)"
    by (simp add: raw slice_def)
  ultimately show ?thesis
    by (simp add: eap_Parse_def raw slice_PutUint16 v Let_def)
qed

end
