(* ===== verification/Auth.thy ===== *)
theory Auth
  imports Natt Protected
begin

text \<open>
  The AUTH machinery (\<open>internal/auth\<close>): the signed octets and the shared-secret value of RFC
  7296 section 2.15, the signature formats of RFC 7427, and the checks on the responder's
  certificate chain.

  \<open>crypto/x509\<close> and \<open>encoding/asn1\<close> are parameters, a record \<open>x509\<close>: parsing a certificate,
  building a chain to the roots, checking a signature, matching a host name, decoding DER.  A
  certificate is the record of the fields this code reads.
\<close>

section \<open>Shared-secret AUTH\<close>

text \<open>The octets of \<open>Key Pad for IKEv2\<close>.\<close>

definition keyPad :: bytes where
  "keyPad = [75, 101, 121, 32, 80, 97, 100, 32, 102, 111, 114, 32, 73, 75, 69, 118, 50]"

definition MethodRSADigitalSignature :: byte where [simp]: "MethodRSADigitalSignature = 1"
definition MethodSharedKeyMIC :: byte where [simp]: "MethodSharedKeyMIC = 2"
definition MethodDSSDigitalSignature :: byte where [simp]: "MethodDSSDigitalSignature = 3"
definition MethodDigitalSignature :: byte where [simp]: "MethodDigitalSignature = 14"

type_synonym PRF = "bytes \<Rightarrow> bytes \<Rightarrow> bytes"

definition SignedOctets :: "PRF \<Rightarrow> bytes \<Rightarrow> bytes \<Rightarrow> bytes \<Rightarrow> bytes \<Rightarrow> bytes" where
  "SignedOctets f realMessage peerNonce idPrime macKey = realMessage @ peerNonce @ f macKey idPrime"

definition SharedSecretAuth :: "PRF \<Rightarrow> bytes \<Rightarrow> bytes \<Rightarrow> bytes" where
  "SharedSecretAuth f secret signedOctets = (let inner = f secret keyPad in f inner signedOctets)"

section \<open>Certificates\<close>

datatype SignatureAlgorithm =
    UnknownSignatureAlgorithm
  | SHA1WithRSA | SHA256WithRSA | SHA384WithRSA | SHA512WithRSA
  | ECDSAWithSHA256 | ECDSAWithSHA384 | ECDSAWithSHA512
  | SHA256WithRSAPSS | SHA384WithRSAPSS | SHA512WithRSAPSS

datatype ExtKeyUsage =
    ExtKeyUsageAny | ExtKeyUsageServerAuth
  | ExtKeyUsageIPSECEndSystem | ExtKeyUsageIPSECTunnel | ExtKeyUsageIPSECUser
  | ExtKeyUsageOther nat

type_synonym oid = "nat list"

record Certificate =
  ce_Raw :: bytes
  ce_RawSubject :: bytes
  ce_EmailAddresses :: "bytes list"
  ce_ExtKeyUsage :: "ExtKeyUsage list"
  ce_UnknownExtKeyUsage :: "oid list"

text \<open>\<open>ai_Parameters\<close> are the \<open>FullBytes\<close> of the raw value, empty when it is absent.\<close>

record algorithmIdentifier =
  ai_Algorithm :: oid
  ai_Parameters :: bytes

record pssParameters =
  ps_Hash :: algorithmIdentifier
  ps_MGF :: algorithmIdentifier
  ps_SaltLength :: int
  ps_TrailerField :: int

text \<open>
  \<open>x_Verify leaf roots intermediates now\<close> is \<open>leaf.Verify\<close> with any key usage; a nil root pool
  stands for the system roots.
\<close>

record x509 =
  x_ParseCertificate :: "bytes \<Rightarrow> Certificate option"
  x_Verify :: "Certificate \<Rightarrow> bytes list option \<Rightarrow> Certificate list \<Rightarrow> time \<Rightarrow> bool"
  x_VerifyHostname :: "Certificate \<Rightarrow> bytes \<Rightarrow> bool"
  x_CheckSignature :: "Certificate \<Rightarrow> SignatureAlgorithm \<Rightarrow> bytes \<Rightarrow> bytes \<Rightarrow> bool"
  x_AddrString :: "Addr \<Rightarrow> bytes"
  x_UnmarshalAI :: "bytes \<Rightarrow> algorithmIdentifier option"
  x_UnmarshalPSS :: "bytes \<Rightarrow> pssParameters option"

datatype auth_err =
    ErrAuthMethod byte
  | ErrAuthSignature
  | ErrAuthEmpty
  | ErrAuthAlgoLen
  | ErrAuthEmptySignature
  | ErrAuthAlgoDER
  | ErrAuthOID oid
  | ErrAuthNoCert
  | ErrAuthParseLeaf
  | ErrAuthParseIntermediate
  | ErrAuthChain
  | ErrAuthKeyUsage
  | ErrAuthNameType
  | ErrAuthName

section \<open>Signatures\<close>

definition oidSHA1WithRSA :: oid where "oidSHA1WithRSA = [1, 2, 840, 113549, 1, 1, 5]"
definition oidSHA256WithRSA :: oid where "oidSHA256WithRSA = [1, 2, 840, 113549, 1, 1, 11]"
definition oidSHA384WithRSA :: oid where "oidSHA384WithRSA = [1, 2, 840, 113549, 1, 1, 12]"
definition oidSHA512WithRSA :: oid where "oidSHA512WithRSA = [1, 2, 840, 113549, 1, 1, 13]"
definition oidRSAPSS :: oid where "oidRSAPSS = [1, 2, 840, 113549, 1, 1, 10]"
definition oidECDSAWithSHA256 :: oid where "oidECDSAWithSHA256 = [1, 2, 840, 10045, 4, 3, 2]"
definition oidECDSAWithSHA384 :: oid where "oidECDSAWithSHA384 = [1, 2, 840, 10045, 4, 3, 3]"
definition oidECDSAWithSHA512 :: oid where "oidECDSAWithSHA512 = [1, 2, 840, 10045, 4, 3, 4]"
definition oidSHA256 :: oid where "oidSHA256 = [2, 16, 840, 1, 101, 3, 4, 2, 1]"
definition oidSHA384 :: oid where "oidSHA384 = [2, 16, 840, 1, 101, 3, 4, 2, 2]"
definition oidSHA512 :: oid where "oidSHA512 = [2, 16, 840, 1, 101, 3, 4, 2, 3]"

definition rsaPSSHash :: "x509 \<Rightarrow> bytes \<Rightarrow> SignatureAlgorithm" where
  "rsaPSSHash X params =
     (if length params = 0 then SHA256WithRSAPSS
      else
        case x_UnmarshalPSS X params of
          None \<Rightarrow> UnknownSignatureAlgorithm
        | Some p \<Rightarrow>
            let h = ai_Algorithm (ps_Hash p) in
            if h = oidSHA256 then SHA256WithRSAPSS
            else if h = oidSHA384 then SHA384WithRSAPSS
            else if h = oidSHA512 then SHA512WithRSAPSS
            else UnknownSignatureAlgorithm)"

definition oidToSignatureAlgorithm :: "x509 \<Rightarrow> algorithmIdentifier \<Rightarrow> SignatureAlgorithm" where
  "oidToSignatureAlgorithm X ai =
     (let a = ai_Algorithm ai in
      if a = oidSHA1WithRSA then SHA1WithRSA
      else if a = oidSHA256WithRSA then SHA256WithRSA
      else if a = oidSHA384WithRSA then SHA384WithRSA
      else if a = oidSHA512WithRSA then SHA512WithRSA
      else if a = oidECDSAWithSHA256 then ECDSAWithSHA256
      else if a = oidECDSAWithSHA384 then ECDSAWithSHA384
      else if a = oidECDSAWithSHA512 then ECDSAWithSHA512
      else if a = oidRSAPSS then rsaPSSHash X (ai_Parameters ai)
      else UnknownSignatureAlgorithm)"

definition parseRFC7427 :: "x509 \<Rightarrow> bytes \<Rightarrow> (auth_err, SignatureAlgorithm \<times> bytes) res" where
  "parseRFC7427 X authData =
     guardR (length authData < 1) ErrAuthEmpty
     (bindR (index authData 0) (\<lambda>l.
      let algoLen = unat l in
      guardR (1 + algoLen > length authData) ErrAuthAlgoLen
      (bindR (slice authData 1 (1 + algoLen)) (\<lambda>algoDER.
       bindR (slice authData (1 + algoLen) (length authData)) (\<lambda>sig.
       guardR (length sig = 0) ErrAuthEmptySignature
       (case x_UnmarshalAI X algoDER of
          None \<Rightarrow> Err ErrAuthAlgoDER
        | Some ai \<Rightarrow>
            let algo = oidToSignatureAlgorithm X ai in
            guardR (algo = UnknownSignatureAlgorithm) (ErrAuthOID (ai_Algorithm ai)) (Ok (algo, sig))))))))"

definition CheckSignature :: "x509 \<Rightarrow> Certificate \<Rightarrow> SignatureAlgorithm \<Rightarrow> bytes \<Rightarrow> bytes \<Rightarrow> (auth_err, unit) res" where
  "CheckSignature X leaf algo msg sig = (if x_CheckSignature X leaf algo msg sig then Ok () else Err ErrAuthSignature)"

definition VerifyCertAuth :: "x509 \<Rightarrow> byte \<Rightarrow> bytes \<Rightarrow> bytes \<Rightarrow> Certificate \<Rightarrow> (auth_err, unit) res" where
  "VerifyCertAuth X meth authData signedOctets leaf =
     (if meth = MethodRSADigitalSignature then CheckSignature X leaf SHA1WithRSA signedOctets authData
      else if meth = MethodDigitalSignature then
        bindR (parseRFC7427 X authData) (\<lambda>(algo, sig). CheckSignature X leaf algo signedOctets sig)
      else Err (ErrAuthMethod meth))"

section \<open>The certificate chain\<close>

record PeerName =
  pn_DNS :: bytes
  pn_IP :: "Addr option"
  pn_Email :: bytes
  pn_DN :: bytes
  pn_Unverifiable :: bool

definition noName :: PeerName where
  "noName = \<lparr>pn_DNS = [], pn_IP = None, pn_Email = [], pn_DN = [], pn_Unverifiable = False\<rparr>"

definition oidExtKeyUsageIPSECIKE :: oid where "oidExtKeyUsageIPSECIKE = [1, 3, 6, 1, 5, 5, 7, 3, 17]"

definition serverUsage :: "ExtKeyUsage \<Rightarrow> bool" where
  "serverUsage u \<longleftrightarrow> (case u of ExtKeyUsageOther _ \<Rightarrow> False | _ \<Rightarrow> True)"

definition leafUsableForServerAuth :: "Certificate \<Rightarrow> bool" where
  "leafUsableForServerAuth leaf =
     (if length (ce_ExtKeyUsage leaf) = 0 \<and> length (ce_UnknownExtKeyUsage leaf) = 0 then True
      else if list_ex serverUsage (ce_ExtKeyUsage leaf) then True
      else list_ex (\<lambda>i. i = oidExtKeyUsageIPSECIKE) (ce_UnknownExtKeyUsage leaf))"

definition matchName :: "x509 \<Rightarrow> Certificate \<Rightarrow> PeerName \<Rightarrow> (auth_err, unit) res" where
  "matchName X leaf name =
     (if pn_Unverifiable name then Err ErrAuthNameType
      else if pn_DNS name \<noteq> [] then
        (if x_VerifyHostname X leaf (pn_DNS name) then Ok () else Err ErrAuthName)
      else
        case pn_IP name of
          Some ip \<Rightarrow> (if x_VerifyHostname X leaf (x_AddrString X ip) then Ok () else Err ErrAuthName)
        | None \<Rightarrow>
            if pn_Email name \<noteq> [] then
              (if pn_Email name \<in> set (ce_EmailAddresses leaf) then Ok () else Err ErrAuthName)
            else if length (pn_DN name) \<noteq> 0 then
              (if ce_RawSubject leaf = pn_DN name then Ok () else Err ErrAuthName)
            else Ok ())"

fun parse_intermediates :: "x509 \<Rightarrow> bytes list \<Rightarrow> (auth_err, Certificate list) res" where
  "parse_intermediates X [] = Ok []"
| "parse_intermediates X (der # ders) =
     (case x_ParseCertificate X der of
        None \<Rightarrow> Err ErrAuthParseIntermediate
      | Some c \<Rightarrow> bindR (parse_intermediates X ders) (\<lambda>cs. Ok (c # cs)))"

definition VerifyServerChain ::
  "x509 \<Rightarrow> bytes list \<Rightarrow> bytes list option \<Rightarrow> PeerName \<Rightarrow> time \<Rightarrow> (auth_err, Certificate) res" where
  "VerifyServerChain X certsDER roots name now =
     guardR (length certsDER = 0) ErrAuthNoCert
     (bindR (index certsDER 0) (\<lambda>leafDER.
      case x_ParseCertificate X leafDER of
        None \<Rightarrow> Err ErrAuthParseLeaf
      | Some leaf \<Rightarrow>
          bindR (slice certsDER 1 (length certsDER)) (\<lambda>rest.
          bindR (parse_intermediates X rest) (\<lambda>inter.
          guardR (\<not> x_Verify X leaf roots inter now) ErrAuthChain
          (guardR (\<not> leafUsableForServerAuth leaf) ErrAuthKeyUsage
          (bindR (matchName X leaf name) (\<lambda>_. Ok leaf)))))))"

section \<open>Lemmas\<close>

lemma parse_intermediates_total [no_panic]: "panic_free (parse_intermediates X ders)"
  by (induction ders) (auto intro!: no_panic split: option.split)

lemma matchName_total [no_panic]: "panic_free (matchName X leaf name)"
  unfolding matchName_def by (intro no_panic)

lemma VerifyServerChain_total [no_panic]: "panic_free (VerifyServerChain X certs roots name now)"
  unfolding VerifyServerChain_def by (intro no_panic) (auto simp: Suc_le_eq)

lemma VerifyCertAuth_total [no_panic]: "panic_free (VerifyCertAuth X meth a s leaf)"
  unfolding VerifyCertAuth_def parseRFC7427_def CheckSignature_def Let_def by (intro no_panic) auto

text \<open>What the accepted leaf certificate has been checked for.\<close>

definition trusted :: "x509 \<Rightarrow> bytes list option \<Rightarrow> PeerName \<Rightarrow> time \<Rightarrow> bytes list \<Rightarrow> Certificate \<Rightarrow> bool" where
  "trusted X roots name now certsDER leaf \<longleftrightarrow>
     (\<exists>leafDER rest inter. certsDER = leafDER # rest \<and> x_ParseCertificate X leafDER = Some leaf \<and>
        parse_intermediates X rest = Ok inter \<and> x_Verify X leaf roots inter now) \<and>
     leafUsableForServerAuth leaf \<and> matchName X leaf name = Ok ()"

lemma VerifyServerChain_iff:
  "VerifyServerChain X certsDER roots name now = Ok leaf \<longleftrightarrow> trusted X roots name now certsDER leaf"
  by (cases certsDER) (auto simp: VerifyServerChain_def trusted_def split: option.splits)

text \<open>A signature the code accepts is one the leaf's key verifies, by a known algorithm.\<close>

lemma VerifyCertAuth_Ok:
  assumes "VerifyCertAuth X meth a msg leaf = Ok ()"
  shows "\<exists>algo sig. algo \<noteq> UnknownSignatureAlgorithm \<and> x_CheckSignature X leaf algo msg sig"
  using assms by (auto simp: VerifyCertAuth_def CheckSignature_def parseRFC7427_def Let_def split: if_splits option.splits)

end
