(* ===== verification/Session_State.thy ===== *)
theory Session_State
  imports Go_State Natt Protected Dh Eap Auth
begin

text \<open>
  The state of one IKE session (\<open>internal/session\<close>): the structs \<open>Config\<close>, \<open>Session\<close>,
  \<open>ChildSA\<close>, \<open>pendingExchange\<close> and their parts, and the session's contact with the outside.

  What is outside is the record \<open>world\<close>: the cryptographic primitives, the random source, the
  clock, the results of \<open>Conn.Send\<close> and \<open>Conn.Recv\<close>, the answers of the data plane.  Each of
  them may answer differently every time it is asked, so the session counts its questions in
  \<open>s_n\<close> and the \<open>n\<close>-th answer is the value at \<open>n\<close>.  What the session does to the outside is
  the list \<open>s_out\<close>, in order.
\<close>

section \<open>Outside the session\<close>

type_synonym duration = int

definition Second :: duration where [simp]: "Second = 1000000000"
definition Minute :: duration where [simp]: "Minute = 60 * Second"

text \<open>The zero \<open>time.Time\<close>, on which \<open>IsZero\<close> holds.\<close>

definition zeroTime :: time where [simp]: "zeroTime = 0"

text \<open>
  A \<open>time.Time\<close> from \<open>time.Now()\<close> carries the monotonic clock \<open>w_now\<close>, which is what instants of
  the program are compared by, and the wall clock \<open>w_wall\<close>, which is what is left after
  \<open>Round(0)\<close> and what a comparison with an instant without a monotonic reading uses.
  \<open>w_jitter d f\<close> is the floating-point expression \<open>time.Duration(float64(d) * (0.85 + 0.15*x))\<close>
  with \<open>x = f/65536\<close>.  \<open>w_recv n\<close> is what the transport delivers, in order, from the \<open>n\<close>-th
  question until the deadline of that receive: datagrams, or an error.
\<close>

record world =
  w_prims :: prims
  w_curve :: curve
  w_sha1 :: "bytes \<Rightarrow> bytes"
  w_rand :: "nat \<Rightarrow> bytes"
  w_rint :: "nat \<Rightarrow> nat option"
  w_xkey :: "nat \<Rightarrow> bytes option"
  w_now :: "nat \<Rightarrow> time"
  w_wall :: "nat \<Rightarrow> time"
  w_send :: "nat \<Rightarrow> bool"
  w_recv :: "nat \<Rightarrow> bytes list"
  w_cancelled :: "nat \<Rightarrow> bool"
  w_jitter :: "duration \<Rightarrow> u16 \<Rightarrow> duration"
  w_volume :: "nat \<Rightarrow> u32"
  w_lastData :: "nat \<Rightarrow> time"

section \<open>Configuration\<close>

record WireID =
  wi_Type :: byte
  wi_Data :: bytes

text \<open>A certificate pool is the list of its certificates; a nil pool stands for the system roots.\<close>

record SessionConfig =
  cf_Server :: string
  cf_LocalID :: WireID
  cf_RemoteID :: WireID
  cf_EAPUser :: bytes
  cf_EAPPass :: bytes
  cf_PSK :: bytes
  cf_RootCAs :: "bytes list option"
  cf_MTU :: u32
  cf_KeepAlive :: duration
  cf_DPDTimeout :: duration
  cf_RekeyLifetime :: duration
  cf_IKERekeyLifetime :: duration
  cf_ReplayWindow :: u32
  cf_RekeyMaxPackets :: u32
  cf_ChildSAPFS :: bool
  cf_ESPSuites :: "byte list"
  cf_IKESuites :: "byte list"
  cf_RequestIPv6 :: bool
  cf_RetransmitBase :: duration
  cf_RetransmitMax :: duration
  cf_RetransmitTries :: int

section \<open>Session state\<close>

record ChildSA =
  ch_InitiatorSPI :: u32
  ch_ResponderSPI :: u32
  ch_Suite :: byte
  ch_Keys :: ChildKeys

record Assigned =
  as_IP :: "Addr option"
  as_Netmask :: "Addr option"
  as_Gateway :: "Addr option"
  as_DNS :: "Addr list"
  as_IP6 :: "(Addr \<times> nat) option"
  as_DNS6 :: "Addr list"

datatype exchangeKind = exDPD | exChildRekey | exIKERekey | exDelete

record childRekeyCtx =
  cr_newInSPI :: u32
  cr_oldInSPI :: u32
  cr_ni :: bytes
  cr_reestablish :: bool
  cr_dh :: "DH option"

record ikeRekeyCtx =
  ir_newSPIi :: u64
  ir_ni :: bytes
  ir_dh :: DH

record pendingExchange =
  pe_kind :: exchangeKind
  pe_msgID :: u32
  pe_raw :: bytes
  pe_attempts :: int
  pe_nextRetransmit :: time
  pe_child :: "childRekeyCtx option"
  pe_ike :: "ikeRekeyCtx option"
  pe_fast :: bool

record peerDedup =
  dd_msgID :: u32
  dd_set :: bool
  dd_resp :: "bytes option"

record ChildSAUpdate =
  cu_NewInSPI :: u32
  cu_NewOutSPI :: u32
  cu_OldInSPI :: u32
  cu_Suite :: byte
  cu_OutEncr :: bytes
  cu_OutInteg :: bytes
  cu_InEncr :: bytes
  cu_InInteg :: bytes

text \<open>
  What a session does to the outside: hands a datagram to the transport, installs a Child SA
  in the data plane, calls \<open>onDead\<close>.
\<close>

datatype effect = Sent bytes | Install ChildSAUpdate | Dead

text \<open>The nil pointer is \<open>None\<close>; \<open>s_conn\<close> and \<open>s_dataPlane\<close> say whether the interface value is set.\<close>

record Session =
  s_n :: nat
  s_out :: "effect list"
  s_cfg :: SessionConfig
  s_conn :: bool
  s_localAddr :: net_Addr
  s_remoteAddr :: net_Addr
  s_canMigrate :: bool
  s_initiatorSPI :: u64
  s_responderSPI :: u64
  s_ikeSA :: "IKESA option"
  s_dh :: "DH option"
  s_nonceI :: bytes
  s_nonceR :: bytes
  s_peerDHPub :: bytes
  s_initSAInitReq :: bytes
  s_initSAInitRsp :: bytes
  s_messageID :: u32
  s_childInitiatorSPI :: u32
  s_remoteIDr :: WireID
  s_child :: "ChildSA option"
  s_assigned :: Assigned
  s_established :: bool
  s_nattMode :: bool
  s_natDetected :: bool
  s_dataPlane :: bool
  s_pending :: "pendingExchange option"
  s_lastInbound :: time
  s_lastTickWall :: time
  s_fastDPDDue :: bool
  s_childInstalledAt :: time
  s_ikeInstalledAt :: time
  s_nextChildRekey :: time
  s_nextIKERekey :: time
  s_nextVolumeRekey :: time
  s_oldIKE :: "ikeCtx option"
  s_oldIKEUntil :: time
  s_childReestablish :: bool
  s_nextChildReestablish :: time
  s_childPFS :: bool
  s_ikeDHGroup :: u16
  s_childPFSGroup :: u16
  s_peer :: peerDedup
  s_oldPeer :: peerDedup
  s_oldIKEDelete :: "pendingExchange option"

definition emptyDedup :: peerDedup where
  "emptyDedup = \<lparr>dd_msgID = 0, dd_set = False, dd_resp = None\<rparr>"

section \<open>Errors\<close>

datatype sess_err =
    ErrProt prot_err
  | ErrSARand
  | ErrSendFailed
  | ErrRecv
  | ErrCancelled
  | ErrNoResponse int
  | ErrIKESA ike_err
  | ErrNotify NotifyType
  | ErrNoChildSA
  | ErrMissingSA
  | ErrNoProposals
  | ErrBadProposal
  | ErrBadSPILength nat
  | ErrMissingNonce
  | ErrMissingNonceKE
  | ErrKEGroupMismatch u16 u16
  | ErrUnsolicitedKE
  | ErrKEOmitted
  | ErrNoMatchingProposal
  | ErrSuiteUnknown byte
  | ErrDial
  | ErrUnsupportedGroup u16
  | ErrParseResponse ikemsg_err
  | ErrEncodeRequest ikemsg_err
  | ErrExchangeType ExchangeType
  | ErrNotResponse
  | ErrInitiatorSPI
  | ErrMessageID u32
  | ErrZeroResponderSPI
  | ErrDHGroupSelected u16 u16
  | ErrMissingPayloads
  | ErrBeforeSAInit
  | ErrMissingIDr
  | ErrMissingAuth
  | ErrAuthFailed
  | ErrServerChain auth_err
  | ErrCertAuth auth_err
  | ErrMissingEAP
  | ErrEAPFailure
  | ErrEAPUnverified
  | ErrEAPRounds
  | ErrEAP eap_err

section \<open>Asking the outside\<close>

definition tickS :: "(Session, 'e, nat) go" where
  "tickS = (\<lambda>s. (Ok (s_n s), s\<lparr>s_n := Suc (s_n s)\<rparr>))"

definition nowS :: "world \<Rightarrow> (Session, 'e, time) go" where
  "nowS W = bindS tickS (\<lambda>n. retS (w_now W n))"

definition clockS :: "world \<Rightarrow> (Session, 'e, time \<times> time) go" where
  "clockS W = bindS tickS (\<lambda>n. retS (w_now W n, w_wall W n))"

definition randBytes :: "world \<Rightarrow> nat \<Rightarrow> (Session, sess_err, bytes) go" where
  "randBytes W k = bindS tickS (\<lambda>n. liftS (ReadFull ErrSARand k (w_rand W n)))"

definition randUint64 :: "world \<Rightarrow> (Session, sess_err, u64) go" where
  "randUint64 W = bindS (randBytes W 8) (\<lambda>b. retS (Uint64 b))"

definition newDHS :: "world \<Rightarrow> u16 \<Rightarrow> (Session, sess_err, DH) go" where
  "newDHS W g = bindS tickS (\<lambda>n. liftS (wrapR ErrIKESA (NewDH (w_curve W) (w_rint W n) (w_xkey W n) g)))"

definition emitS :: "effect \<Rightarrow> (Session, 'e, unit) go" where
  "emitS x = modS (\<lambda>s. s\<lparr>s_out := s_out s @ [x]\<rparr>)"

text \<open>\<open>sendDatagram\<close> frames the message for the mode the session is in and hands it to the transport.\<close>

definition sendIKE :: "world \<Rightarrow> bytes \<Rightarrow> (Session, sess_err, unit) go" where
  "sendIKE W ike =
     readS s_nattMode (\<lambda>nattMode.
     thenS (emitS (Sent (sendDatagram nattMode ike)))
     (bindS tickS (\<lambda>n. guardS (\<not> w_send W n) ErrSendFailed (retS ()))))"

text \<open>\<open>s.dataPlane.InstallChildSA(u)\<close>, on a data plane that is set.\<close>

definition InstallChildSA_call :: "ChildSAUpdate \<Rightarrow> (Session, 'e, unit) go" where
  "InstallChildSA_call u = readS s_dataPlane (\<lambda>dp. if dp then emitS (Install u) else liftS Panic)"

section \<open>The IKE contexts\<close>

definition curCtx :: "Session \<Rightarrow> ikeCtx option" where
  "curCtx s =
     map_option (\<lambda>sa. \<lparr>cx_sa = sa, cx_spii = s_initiatorSPI s, cx_spir = s_responderSPI s\<rparr>) (s_ikeSA s)"

definition ctxOf :: "ctxRef \<Rightarrow> Session \<Rightarrow> ikeCtx option" where
  "ctxOf dec s = (case dec of Cur \<Rightarrow> curCtx s | Old \<Rightarrow> s_oldIKE s)"

text \<open>The sequence number of an IKE SA is advanced in place, through whichever pointer.\<close>

definition putSA :: "ctxRef \<Rightarrow> IKESA \<Rightarrow> Session \<Rightarrow> Session" where
  "putSA dec sa s =
     (case dec of
        Cur \<Rightarrow> s\<lparr>s_ikeSA := Some sa\<rparr>
      | Old \<Rightarrow> s\<lparr>s_oldIKE := map_option (\<lambda>c. c\<lparr>cx_sa := sa\<rparr>) (s_oldIKE s)\<rparr>)"

definition encodeWith ::
  "world \<Rightarrow> ctxRef \<Rightarrow> ExchangeType \<Rightarrow> (IKESA \<Rightarrow> Flags) \<Rightarrow> u32 \<Rightarrow> Payloads \<Rightarrow> (Session, sess_err, bytes) go" where
  "encodeWith W dec exchangeType flags msgID inner =
     readS (ctxOf dec) (\<lambda>c.
     derefS c (\<lambda>c.
     bindS tickS (\<lambda>n.
     let (r, sa') = encodeSKWith (w_prims W) (cx_sa c) (w_rand W n) (cx_spii c) (cx_spir c)
                      exchangeType (flags (cx_sa c)) msgID inner in
     thenS (modS (putSA dec sa')) (liftS (wrapR ErrProt r)))))"

text \<open>
  The flags every caller computes from the role of the SA it encodes under: of a request, and
  of a response.
\<close>

definition requestFlags :: "IKESA \<Rightarrow> Flags" where
  "requestFlags sa = ikeRoleBit (ik_Role sa)"

definition responseFlags :: "IKESA \<Rightarrow> Flags" where
  "responseFlags sa = ikeRoleBit (ik_Role sa) OR FlagResponse"

definition encodeSK ::
  "world \<Rightarrow> ExchangeType \<Rightarrow> (IKESA \<Rightarrow> Flags) \<Rightarrow> u32 \<Rightarrow> Payloads \<Rightarrow> (Session, sess_err, bytes) go" where
  "encodeSK W exchangeType flags msgID inner = encodeWith W Cur exchangeType flags msgID inner"

definition decodeS :: "world \<Rightarrow> bytes \<Rightarrow> (Session, sess_err, Message \<times> Payloads \<times> ctxRef) go" where
  "decodeS W raw =
     readS (\<lambda>s. (curCtx s, s_oldIKE s, s_oldIKEUntil s)) (\<lambda>(cur, oldIKE, oldIKEUntil).
     derefS cur (\<lambda>cur.
     bindS (nowS W) (\<lambda>now.
     liftS (wrapR ErrProt (decodeIKE (w_prims W) cur oldIKE oldIKEUntil now raw)))))"

section \<open>Timing helpers\<close>

definition retransmitBase :: "SessionConfig \<Rightarrow> duration" where
  "retransmitBase c = (if cf_RetransmitBase c > 0 then cf_RetransmitBase c else 2 * Second)"

definition retransmitMax :: "SessionConfig \<Rightarrow> duration" where
  "retransmitMax c = (if cf_RetransmitMax c > 0 then cf_RetransmitMax c else 30 * Second)"

definition retransmitTries :: "SessionConfig \<Rightarrow> int" where
  "retransmitTries c = (if cf_RetransmitTries c > 0 then cf_RetransmitTries c else 5)"

definition minDuration :: "duration \<Rightarrow> duration \<Rightarrow> duration" where
  "minDuration a b = (if a < b then a else b)"

definition dpdInterval :: "SessionConfig \<Rightarrow> duration" where
  "dpdInterval c = (if cf_DPDTimeout c > 0 then cf_DPDTimeout c else 30 * Second)"

definition ikeRekeyLifetime :: "SessionConfig \<Rightarrow> duration" where
  "ikeRekeyLifetime c =
     (if cf_IKERekeyLifetime c > 0 then cf_IKERekeyLifetime c
      else if cf_RekeyLifetime c > 0 then 4 * cf_RekeyLifetime c
      else 0)"

definition defaultRekeyMaxPackets :: u32 where
  "defaultRekeyMaxPackets = push_bit 31 1"

definition rekeyMaxPackets :: "SessionConfig \<Rightarrow> u32" where
  "rekeyMaxPackets c = (if cf_RekeyMaxPackets c > 0 then cf_RekeyMaxPackets c else defaultRekeyMaxPackets)"

text \<open>\<open>backoff_loop n d\<close> is the loop of \<open>retransBackoff\<close> with \<open>n\<close> iterations to go.\<close>

fun backoff_loop :: "SessionConfig \<Rightarrow> nat \<Rightarrow> duration \<Rightarrow> duration" where
  "backoff_loop c 0 d = d"
| "backoff_loop c (Suc n) d =
     (if d * 2 \<ge> retransmitMax c then retransmitMax c else backoff_loop c n (d * 2))"

definition retransBackoff :: "SessionConfig \<Rightarrow> int \<Rightarrow> duration" where
  "retransBackoff c attempt = backoff_loop c (nat (attempt - 1)) (retransmitBase c)"

text \<open>\<open>randFraction\<close> in units of 1/65536; 0.5 if the random source fails.\<close>

definition randFraction :: "world \<Rightarrow> (Session, 'e, u16) go" where
  "randFraction W =
     bindS (tryS (randBytes W 2)) (\<lambda>r.
     case r of Inl _ \<Rightarrow> retS 0x8000 | Inr b \<Rightarrow> retS (Uint16 b))"

definition jitteredDeadline :: "world \<Rightarrow> time \<Rightarrow> duration \<Rightarrow> (Session, 'e, time) go" where
  "jitteredDeadline W base lifetime =
     (if lifetime \<le> 0 then retS zeroTime
      else bindS (randFraction W) (\<lambda>f. retS (base + w_jitter W lifetime f)))"

section \<open>Construction\<close>

text \<open>\<open>New\<close>, on a connection (if any) that is already open.\<close>

definition New_session :: "SessionConfig \<Rightarrow> Session" where
  "New_session cfg = \<lparr>s_n = 0, s_out = [], s_cfg = cfg, s_conn = False, s_localAddr = OtherAddr,
     s_remoteAddr = OtherAddr, s_canMigrate = False, s_initiatorSPI = 0, s_responderSPI = 0,
     s_ikeSA = None, s_dh = None, s_nonceI = [], s_nonceR = [], s_peerDHPub = [],
     s_initSAInitReq = [], s_initSAInitRsp = [], s_messageID = 0, s_childInitiatorSPI = 0,
     s_remoteIDr = \<lparr>wi_Type = 0, wi_Data = []\<rparr>, s_child = None,
     s_assigned = \<lparr>as_IP = None, as_Netmask = None, as_Gateway = None, as_DNS = [], as_IP6 = None, as_DNS6 = []\<rparr>,
     s_established = False, s_nattMode = False, s_natDetected = False, s_dataPlane = False,
     s_pending = None, s_lastInbound = zeroTime, s_lastTickWall = zeroTime, s_fastDPDDue = False,
     s_childInstalledAt = zeroTime, s_ikeInstalledAt = zeroTime, s_nextChildRekey = zeroTime,
     s_nextIKERekey = zeroTime, s_nextVolumeRekey = zeroTime, s_oldIKE = None, s_oldIKEUntil = zeroTime,
     s_childReestablish = False, s_nextChildReestablish = zeroTime, s_childPFS = cf_ChildSAPFS cfg,
     s_ikeDHGroup = 0, s_childPFSGroup = 0, s_peer = emptyDedup, s_oldPeer = emptyDedup,
     s_oldIKEDelete = None\<rparr>"

definition enabledESPSuites :: "SessionConfig \<Rightarrow> transformSuite list" where
  "enabledESPSuites c = enabledSuites (cf_ESPSuites c) espSuites"

definition enabledIKESuites :: "SessionConfig \<Rightarrow> transformSuite list" where
  "enabledIKESuites c = enabledSuites (cf_IKESuites c) ikeSuites"

end
