(* ===== verification/Tunnel.thy ===== *)
theory Tunnel
  imports Session_State
begin

text \<open>
  The packet tunnel over the Child SA in use (\<open>internal/tunnel/tunnel.go\<close>): the pipe handed to
  the network stack, the inbound handler, the hooks that fire when the layer-3 assignment
  changes.

  ESP associations are shared by pointer: the tunnel encrypts with the association that the
  inbound registry of the client decrypts with.  They live in the store \<open>h_sas\<close>, a pointer is
  an index of it, and allocating appends to it.  \<open>h_out\<close> is what the client has done to the
  outside, in order.  Function values registered by the network stack or the application are
  known by a number.
\<close>

type_synonym sa_ref = nat
type_synonym hook = nat

section \<open>The store of associations\<close>

record TunConfig =
  tc_LocalIP :: "Addr option"
  tc_Netmask :: "Addr option"
  tc_Gateway :: "Addr option"
  tc_LocalIP6 :: "(Addr \<times> nat) option"
  tc_DNS :: "Addr list"
  tc_MTU :: u32

datatype act =
    SentESP bytes
  | SentKeepalive
  | Deliver hook bytes
  | Reconf hook TunConfig
  | RekeyHook hook
  | Waited duration

record heap =
  h_sas :: "SA list"
  h_out :: "act list"

datatype tun_err = ErrNetClosed | ErrTimeout | ErrTransport | ErrESP esp_err

definition emitH :: "act \<Rightarrow> ('z heap_scheme, 'e, unit) go" where
  "emitH x = modS (\<lambda>h. h\<lparr>h_out := h_out h @ [x]\<rparr>)"

text \<open>\<open>esp.NewSA\<close> with its allocation, and the two methods of an association behind a pointer.\<close>

definition allocSA :: "(esp_err, SA) res \<Rightarrow> ('z heap_scheme, tun_err, sa_ref) go" where
  "allocSA r =
     bindS (liftS (wrapR ErrESP r)) (\<lambda>sa.
     readS h_sas (\<lambda>sas.
     thenS (modS (\<lambda>h. h\<lparr>h_sas := h_sas h @ [sa]\<rparr>)) (retS (length sas))))"

definition useSA :: "(SA \<Rightarrow> (esp_err, 'a) res \<times> SA) \<Rightarrow> sa_ref \<Rightarrow> ('z heap_scheme, tun_err, 'a) go" where
  "useSA f ref =
     readS h_sas (\<lambda>sas.
     if ref < length sas then
       (case f (sas ! ref) of (r, sa') \<Rightarrow>
        thenS (modS (\<lambda>h. h\<lparr>h_sas := (h_sas h)[ref := sa']\<rparr>)) (liftS (wrapR ErrESP r)))
     else liftS Panic)"

section \<open>The connection\<close>

record espConn =
  ec_sa :: sa_ref
  ec_readDeadline :: time
  ec_wake :: bool
  ec_closed :: bool

definition newESPConn :: "sa_ref \<Rightarrow> espConn" where
  "newESPConn sa = \<lparr>ec_sa = sa, ec_readDeadline = zeroTime, ec_wake = False, ec_closed = False\<rparr>"

definition swapSA :: "sa_ref \<Rightarrow> espConn \<Rightarrow> espConn" where
  "swapSA sa c = c\<lparr>ec_sa := sa\<rparr>"

text \<open>
  \<open>Write\<close>.  \<open>rnd\<close> is what the random source offers, \<open>send\<close> is the function the connection was
  built with, and \<open>late\<close> says whether the connection has been closed when a failed send
  returns.
\<close>

definition espConn_Write ::
  "prims \<Rightarrow> bytes \<Rightarrow> bool \<Rightarrow> (bytes \<Rightarrow> ('z heap_scheme, tun_err, unit) go) \<Rightarrow> espConn \<Rightarrow> bytes \<Rightarrow> ('z heap_scheme, tun_err, nat) go" where
  "espConn_Write P rnd late send c p =
     guardS (ec_closed c) ErrNetClosed
     (bindS (useSA (\<lambda>sa. Encrypt P sa rnd p) (ec_sa c)) (\<lambda>pkt.
      bindS (tryS (send pkt)) (\<lambda>r.
      case r of
        Inr _ \<Rightarrow> retS (length p)
      | Inl e \<Rightarrow> guardS late ErrNetClosed (failS e))))"

text \<open>
  \<open>Read\<close>, on the deadlines it reads, the clock, and what its \<open>select\<close> receives; \<open>None\<close> is that it
  still blocks.  Without a deadline there is no timer to receive from.
\<close>

datatype wakeup = Closed | Timer | Wake

fun espConn_Read :: "(time \<times> time \<times> wakeup) list \<Rightarrow> (tun_err, nat) res option" where
  "espConn_Read [] = None"
| "espConn_Read ((dl, now, w) # rest) =
     (if dl = zeroTime then
        (case w of Closed \<Rightarrow> Some (Err ErrNetClosed) | Wake \<Rightarrow> espConn_Read rest | Timer \<Rightarrow> espConn_Read rest)
      else if dl - now \<le> 0 then Some (Err ErrTimeout)
      else
        (case w of
           Closed \<Rightarrow> Some (Err ErrNetClosed)
         | Timer \<Rightarrow> Some (Err ErrTimeout)
         | Wake \<Rightarrow> espConn_Read rest))"

definition SetReadDeadline :: "time \<Rightarrow> espConn \<Rightarrow> espConn" where
  "SetReadDeadline t c = c\<lparr>ec_readDeadline := t, ec_wake := True\<rparr>"

definition SetDeadline :: "time \<Rightarrow> espConn \<Rightarrow> espConn" where
  "SetDeadline t c = SetReadDeadline t c"

definition espConn_Close :: "espConn \<Rightarrow> espConn" where
  "espConn_Close c = c\<lparr>ec_closed := True\<rparr>"

section \<open>The tunnel\<close>

text \<open>The hooks are a Go map from their numbers; \<open>t_reconfigure\<close> lists its entries.\<close>

record Tunnel =
  t_conn :: espConn
  t_cfg :: TunConfig
  t_inbound :: "hook option"
  t_reconfigure :: "(nat \<times> hook) list"
  t_nextHook :: nat

definition Tunnel_New :: "sa_ref \<Rightarrow> TunConfig \<Rightarrow> Tunnel" where
  "Tunnel_New sa cfg =
     \<lparr>t_conn = newESPConn sa, t_cfg = cfg, t_inbound = None, t_reconfigure = [], t_nextHook = 0\<rparr>"

definition SetInbound :: "hook \<Rightarrow> Tunnel \<Rightarrow> Tunnel" where
  "SetInbound fn t = t\<lparr>t_inbound := Some fn\<rparr>"

text \<open>The function \<open>SetInbound\<close> returns.\<close>

definition detachInbound :: "Tunnel \<Rightarrow> Tunnel" where
  "detachInbound t = t\<lparr>t_inbound := None\<rparr>"

definition OnReconfigure :: "hook \<Rightarrow> Tunnel \<Rightarrow> nat \<times> Tunnel" where
  "OnReconfigure fn t =
     (let i = t_nextHook t in
      (i, t\<lparr>t_nextHook := t_nextHook t + 1, t_reconfigure := t_reconfigure t @ [(i, fn)]\<rparr>))"

definition detachReconfigure :: "nat \<Rightarrow> Tunnel \<Rightarrow> Tunnel" where
  "detachReconfigure i t = t\<lparr>t_reconfigure := filter (\<lambda>e. fst e \<noteq> i) (t_reconfigure t)\<rparr>"

definition DeliverInbound :: "Tunnel \<Rightarrow> bytes \<Rightarrow> ('z heap_scheme, 'e, unit) go" where
  "DeliverInbound t ip = (case t_inbound t of None \<Rightarrow> retS () | Some fn \<Rightarrow> emitH (Deliver fn ip))"

definition SwapSA :: "sa_ref \<Rightarrow> Tunnel \<Rightarrow> Tunnel" where
  "SwapSA sa t = t\<lparr>t_conn := swapSA sa (t_conn t)\<rparr>"

definition OutboundSeq :: "Tunnel \<Rightarrow> ('z heap_scheme, tun_err, u32) go" where
  "OutboundSeq t = useSA (\<lambda>sa. (Ok (sa_seq sa), sa)) (ec_sa (t_conn t))"

text \<open>
  \<open>Reconfigure\<close>.  Go does not fix the order in which it ranges over the hooks; \<open>range\<close> puts
  them in the order it takes.
\<close>

fun call_hooks :: "TunConfig \<Rightarrow> (nat \<times> hook) list \<Rightarrow> ('z heap_scheme, 'e, unit) go" where
  "call_hooks cfg [] = retS ()"
| "call_hooks cfg ((_, fn) # hs) = thenS (emitH (Reconf fn cfg)) (call_hooks cfg hs)"

definition reconfigured :: "sa_ref \<Rightarrow> TunConfig \<Rightarrow> Tunnel \<Rightarrow> Tunnel" where
  "reconfigured sa cfg t = t\<lparr>t_conn := swapSA sa (t_conn t), t_cfg := cfg\<rparr>"

definition Tunnel_Close :: "Tunnel \<Rightarrow> Tunnel" where
  "Tunnel_Close t = t\<lparr>t_conn := espConn_Close (t_conn t)\<rparr>"

end
