(* ===== verification/Workers.thy ===== *)
theory Workers
  imports Main
begin

text \<open>
  The worker manager (\<open>internal/workers/workers.go\<close>), with its goroutines interleaving.

  A worker is known by its number, in the order of the successful calls of \<open>Go\<close>; \<open>m_pc\<close> says
  how far it has come.  The steps are the atomic actions of the code: the critical section of
  \<open>Go\<close>, the function of the worker returning or panicking, the deferred calls one by one, and
  the two halves of \<open>Shutdown\<close>.
\<close>

datatype worker_pc =
    Running
  | Panicked
  | Handled
  | Stopping
  | Counted
  | Gone

record Manager =
  m_cancelled :: bool
  m_once :: bool
  m_shutdown :: bool
  m_wg :: nat
  m_active :: int
  m_pc :: "worker_pc list"
  m_handler :: "nat list"

definition NewManager :: "bool \<Rightarrow> Manager" where
  "NewManager parentDone =
     \<lparr>m_cancelled = parentDone, m_once = False, m_shutdown = False, m_wg = 0, m_active = 0, m_pc = [], m_handler = []\<rparr>"

definition Active :: "Manager \<Rightarrow> int" where
  "Active m = m_active m"

text \<open>\<open>Go\<close>: whether the worker was started.\<close>

definition Go :: "Manager \<Rightarrow> bool \<times> Manager" where
  "Go m =
     (if m_shutdown m then (False, m)
      else (True, m\<lparr>m_wg := m_wg m + 1, m_active := m_active m + 1, m_pc := m_pc m @ [Running]\<rparr>))"

text \<open>
  \<open>Shutdown\<close>: the first caller enters the once-only function and sets the flag under the lock;
  the context is cancelled after that.
\<close>

definition Shutdown_flag :: "Manager \<Rightarrow> Manager" where
  "Shutdown_flag m = (if m_once m then m else m\<lparr>m_once := True, m_shutdown := True\<rparr>)"

definition Shutdown_cancel :: "Manager \<Rightarrow> Manager" where
  "Shutdown_cancel m = m\<lparr>m_cancelled := True\<rparr>"

definition Shutdown :: "Manager \<Rightarrow> Manager" where
  "Shutdown m = (if m_once m then m else Shutdown_cancel (Shutdown_flag m))"

text \<open>\<open>Wait\<close> returns when this holds.\<close>

definition Wait_returns :: "Manager \<Rightarrow> bool" where
  "Wait_returns m \<longleftrightarrow> m_wg m = 0"

text \<open>
  The steps.  A panicking worker runs the handler if there is one (\<open>h\<close>), then \<open>Shutdown\<close>, then
  the two remaining deferred calls.  \<open>parent_done\<close> is the parent context firing, and
  \<open>shut_flag\<close> with \<open>shut_cancel\<close> is \<open>Shutdown\<close> called from outside.
\<close>

inductive mgr_step :: "bool \<Rightarrow> Manager \<Rightarrow> Manager \<Rightarrow> bool" for h where
  go: "mgr_step h m (snd (Go m))"
| returns: "i < length (m_pc m) \<Longrightarrow> m_pc m ! i = Running \<Longrightarrow> mgr_step h m (m\<lparr>m_pc := (m_pc m)[i := Stopping]\<rparr>)"
| panics: "i < length (m_pc m) \<Longrightarrow> m_pc m ! i = Running \<Longrightarrow> mgr_step h m (m\<lparr>m_pc := (m_pc m)[i := Panicked]\<rparr>)"
| handler: "i < length (m_pc m) \<Longrightarrow> m_pc m ! i = Panicked \<Longrightarrow>
    mgr_step h m (m\<lparr>m_pc := (m_pc m)[i := Handled], m_handler := (if h then m_handler m @ [i] else m_handler m)\<rparr>)"
| panic_shutdown: "i < length (m_pc m) \<Longrightarrow> m_pc m ! i = Handled \<Longrightarrow>
    mgr_step h m ((Shutdown m)\<lparr>m_pc := (m_pc m)[i := Stopping]\<rparr>)"
| active_dec: "i < length (m_pc m) \<Longrightarrow> m_pc m ! i = Stopping \<Longrightarrow>
    mgr_step h m (m\<lparr>m_active := m_active m - 1, m_pc := (m_pc m)[i := Counted]\<rparr>)"
| wg_done: "i < length (m_pc m) \<Longrightarrow> m_pc m ! i = Counted \<Longrightarrow>
    mgr_step h m (m\<lparr>m_wg := m_wg m - 1, m_pc := (m_pc m)[i := Gone]\<rparr>)"
| parent_done: "mgr_step h m (m\<lparr>m_cancelled := True\<rparr>)"
| shut_flag: "mgr_step h m (Shutdown_flag m)"
| shut_cancel: "m_shutdown m \<Longrightarrow> mgr_step h m (Shutdown_cancel m)"

inductive_cases mgr_stepE: "mgr_step h m m'"

section \<open>Counting\<close>

text \<open>How many workers have not yet passed a point.\<close>

definition live :: "worker_pc list \<Rightarrow> nat" where
  "live pcs = length (filter (\<lambda>p. p \<noteq> Gone) pcs)"

definition counted :: "worker_pc list \<Rightarrow> nat" where
  "counted pcs = length (filter (\<lambda>p. p \<noteq> Gone \<and> p \<noteq> Counted) pcs)"

lemma filter_update:
  assumes "i < length xs"
  shows "length (filter P (xs[i := x])) + (if P (xs ! i) then 1 else 0) = length (filter P xs) + (if P x then 1 else 0)"
  using assms
proof (induction xs arbitrary: i)
  case (Cons y xs)
  then show ?case by (cases i) auto
qed simp

lemma live_update [simp]:
  "i < length pcs \<Longrightarrow> pcs ! i \<noteq> Gone \<Longrightarrow> p \<noteq> Gone \<Longrightarrow> live (pcs[i := p]) = live pcs"
  "i < length pcs \<Longrightarrow> pcs ! i \<noteq> Gone \<Longrightarrow> live (pcs[i := Gone]) = live pcs - 1"
  using filter_update [of i pcs "\<lambda>p. p \<noteq> Gone" p] filter_update [of i pcs "\<lambda>p. p \<noteq> Gone" Gone] by (auto simp: live_def)

lemma counted_update [simp]:
  "i < length pcs \<Longrightarrow> pcs ! i \<noteq> Gone \<Longrightarrow> pcs ! i \<noteq> Counted \<Longrightarrow> p \<noteq> Gone \<Longrightarrow> p \<noteq> Counted \<Longrightarrow> counted (pcs[i := p]) = counted pcs"
  "i < length pcs \<Longrightarrow> pcs ! i \<noteq> Gone \<Longrightarrow> pcs ! i \<noteq> Counted \<Longrightarrow> counted (pcs[i := Counted]) = counted pcs - 1"
  "i < length pcs \<Longrightarrow> pcs ! i = Counted \<Longrightarrow> counted (pcs[i := Gone]) = counted pcs"
  using filter_update [of i pcs "\<lambda>p. p \<noteq> Gone \<and> p \<noteq> Counted" p] filter_update [of i pcs "\<lambda>p. p \<noteq> Gone \<and> p \<noteq> Counted" Counted]
    filter_update [of i pcs "\<lambda>p. p \<noteq> Gone \<and> p \<noteq> Counted" Gone]
  by (auto simp: counted_def)

lemma counted_pos: "i < length pcs \<Longrightarrow> pcs ! i \<noteq> Gone \<Longrightarrow> pcs ! i \<noteq> Counted \<Longrightarrow> 0 < counted pcs"
  unfolding counted_def by (auto simp: filter_empty_conv dest: nth_mem)

definition counts_inv :: "Manager \<Rightarrow> bool" where
  "counts_inv m \<longleftrightarrow> m_wg m = live (m_pc m) \<and> m_active m = int (counted (m_pc m)) \<and> m_once m = m_shutdown m"

definition handler_inv :: "Manager \<Rightarrow> bool" where
  "handler_inv m \<longleftrightarrow> distinct (m_handler m) \<and>
     (\<forall>i\<in>set (m_handler m). i < length (m_pc m) \<and> m_pc m ! i \<noteq> Running \<and> m_pc m ! i \<noteq> Panicked \<and>
        (m_pc m ! i = Handled \<or> m_shutdown m))"

lemma counts_inv_step:
  assumes "mgr_step h m m'" "counts_inv m"
  shows "counts_inv m'"
  using assms
proof (induction rule: mgr_step.induct)
  case (go m)
  then show ?case by (auto simp: Go_def counts_inv_def live_def counted_def)
next
  case (panic_shutdown i m)
  then show ?case by (auto simp: counts_inv_def Shutdown_def Shutdown_flag_def Shutdown_cancel_def)
next
  case (active_dec i m)
  then show ?case using counted_pos [of i "m_pc m"] by (auto simp: counts_inv_def)
next
  case (shut_flag m)
  then show ?case by (auto simp: counts_inv_def Shutdown_flag_def)
qed (simp_all add: counts_inv_def Shutdown_cancel_def)

lemma handler_inv_update:
  assumes "handler_inv m" "i < length (m_pc m)" "p \<noteq> Running" "p \<noteq> Panicked \<or> i \<notin> set (m_handler m)"
    "p = Handled \<or> m_shutdown m' \<or> i \<notin> set (m_handler m)" "m_pc m' = (m_pc m)[i := p]" "m_handler m' = m_handler m"
    "m_shutdown m \<Longrightarrow> m_shutdown m'"
  shows "handler_inv m'"
  using assms unfolding handler_inv_def by (auto simp: nth_list_update)

lemma handler_inv_step:
  assumes "mgr_step h m m'" "handler_inv m" "counts_inv m"
  shows "handler_inv m'"
  using assms
proof (induction rule: mgr_step.induct)
  case (go m)
  have "(m_pc m @ [Running]) ! i = m_pc m ! i" if "i \<in> set (m_handler m)" for i
    using that go by (simp add: handler_inv_def nth_append)
  note A = this
  show ?case
  proof (cases "m_shutdown m")
    case True
    then show ?thesis using go by (simp add: Go_def)
  next
    case False
    have "\<forall>i\<in>set (m_handler m). i < Suc (length (m_pc m))" using go by (auto simp: handler_inv_def)
    then show ?thesis using go A False by (simp add: Go_def handler_inv_def)
  qed
next
  case (returns i m)
  show ?case by (rule handler_inv_update [of m i Stopping]) (use returns in \<open>auto simp: handler_inv_def\<close>)
next
  case (panics i m)
  show ?case by (rule handler_inv_update [of m i Panicked]) (use panics in \<open>auto simp: handler_inv_def\<close>)
next
  case (handler i m)
  then have "i \<notin> set (m_handler m)" by (auto simp: handler_inv_def)
  with handler show ?case by (auto simp: handler_inv_def nth_list_update)
next
  case (panic_shutdown i m)
  show ?case
    by (rule handler_inv_update [of m i Stopping])
       (use panic_shutdown in \<open>auto simp: counts_inv_def Shutdown_def Shutdown_flag_def Shutdown_cancel_def\<close>)
next
  case (active_dec i m)
  show ?case by (rule handler_inv_update [of m i Counted]) (use active_dec in \<open>auto simp: handler_inv_def\<close>)
next
  case (wg_done i m)
  show ?case by (rule handler_inv_update [of m i Gone]) (use wg_done in \<open>auto simp: handler_inv_def\<close>)
next
  case (shut_flag m)
  then show ?case by (auto simp: handler_inv_def Shutdown_flag_def)
qed (simp_all add: handler_inv_def Shutdown_cancel_def)

lemma mgr_inv_reachable: "(mgr_step h)\<^sup>*\<^sup>* (NewManager d) m \<Longrightarrow> counts_inv m \<and> handler_inv m"
proof (induction rule: rtranclp_induct)
  case base
  then show ?case by (simp add: counts_inv_def handler_inv_def NewManager_def live_def counted_def)
qed (blast intro: counts_inv_step handler_inv_step)

lemma mgr_shutdown_stable:
  assumes "(mgr_step h)\<^sup>*\<^sup>* m m'" "m_shutdown m"
  shows "m_shutdown m' \<and> length (m_pc m') = length (m_pc m) \<and> \<not> fst (Go m')"
  using assms
proof (induction rule: rtranclp_induct)
  case (step y z)
  then show ?case
    by (auto simp: Go_def Shutdown_def Shutdown_flag_def Shutdown_cancel_def elim!: mgr_stepE split: if_splits)
qed (simp add: Go_def)

section \<open>Properties\<close>

text \<open>
  C39 (safety).  However the workers interleave, \<open>Wait\<close> returns only when every started worker
  has returned or has been recovered, and \<open>Active\<close> is then 0; the panic handler runs at most
  once per worker, never for one that did not panic, and a worker it ran for is past its
  deferred calls only once the manager is shut down; and after the shutdown flag no call of \<open>Go\<close>
  starts a worker, so a \<open>Wait\<close> that has returned stays final.
\<close>

theorem workers_lifecycle:
  assumes "(mgr_step h)\<^sup>*\<^sup>* (NewManager d) m"
  shows "(Wait_returns m \<longrightarrow> (\<forall>p\<in>set (m_pc m). p = Gone) \<and> Active m = 0) \<and>
    distinct (m_handler m) \<and> (\<forall>i\<in>set (m_handler m). m_pc m ! i \<in> {Handled, Stopping, Counted, Gone} \<and>
      (m_pc m ! i \<noteq> Handled \<longrightarrow> m_shutdown m)) \<and>
    (m_shutdown m \<longrightarrow> (\<forall>m'. (mgr_step h)\<^sup>*\<^sup>* m m' \<longrightarrow> \<not> fst (Go m') \<and> length (m_pc m') = length (m_pc m)))"
proof -
  have inv: "counts_inv m \<and> handler_inv m" by (rule mgr_inv_reachable [OF assms])
  have gone: "\<forall>p\<in>set (m_pc m). p = Gone" if "Wait_returns m"
    using that inv by (auto simp: Wait_returns_def counts_inv_def live_def filter_empty_conv)
  then have "Active m = 0" if "Wait_returns m"
    using that inv by (auto simp: Active_def counts_inv_def counted_def filter_empty_conv)
  moreover have "m_pc m ! i \<in> {Handled, Stopping, Counted, Gone} \<and> (m_pc m ! i \<noteq> Handled \<longrightarrow> m_shutdown m)"
    if "i \<in> set (m_handler m)" for i
  proof -
    have "m_pc m ! i \<noteq> Running" "m_pc m ! i \<noteq> Panicked" "m_pc m ! i = Handled \<or> m_shutdown m"
      using that inv unfolding handler_inv_def by blast+
    then show ?thesis by (cases "m_pc m ! i") simp_all
  qed
  moreover have "distinct (m_handler m)" using inv unfolding handler_inv_def by blast
  ultimately show ?thesis using gone mgr_shutdown_stable [of h m] by blast
qed

text \<open>A worker starts, panics and is recovered.\<close>

theorem workers_lifecycle_witness:
  "\<exists>m. (mgr_step True)\<^sup>*\<^sup>* (NewManager False) m \<and> Wait_returns m \<and> m_pc m = [Gone] \<and> m_handler m = [0] \<and>
     m_shutdown m \<and> m_cancelled m \<and> Active m = 0"
proof -
  define st where "st pc hd sd wg ac = \<lparr>m_cancelled = sd, m_once = sd, m_shutdown = sd, m_wg = wg, m_active = ac, m_pc = [pc], m_handler = hd\<rparr>"
    for pc hd sd wg ac
  have "mgr_step True (NewManager False) (st Running [] False 1 1)"
    using mgr_step.go [of True "NewManager False"] by (simp add: Go_def NewManager_def st_def)
  moreover have "mgr_step True (st Running [] False 1 1) (st Panicked [] False 1 1)"
    using mgr_step.panics [of 0 "st Running [] False 1 1"] by (simp add: st_def)
  moreover have "mgr_step True (st Panicked [] False 1 1) (st Handled [0] False 1 1)"
    using mgr_step.handler [of 0 "st Panicked [] False 1 1" True] by (simp add: st_def)
  moreover have "mgr_step True (st Handled [0] False 1 1) (st Stopping [0] True 1 1)"
    using mgr_step.panic_shutdown [of 0 "st Handled [0] False 1 1" True]
    by (simp add: st_def Shutdown_def Shutdown_flag_def Shutdown_cancel_def)
  moreover have "mgr_step True (st Stopping [0] True 1 1) (st Counted [0] True 1 0)"
    using mgr_step.active_dec [of 0 "st Stopping [0] True 1 1" True] by (simp add: st_def)
  moreover have "mgr_step True (st Counted [0] True 1 0) (st Gone [0] True 0 0)"
    using mgr_step.wg_done [of 0 "st Counted [0] True 1 0" True] by (simp add: st_def)
  ultimately have run: "(mgr_step True)\<^sup>*\<^sup>* (NewManager False) (st Gone [0] True 0 0)"
    by (meson r_into_rtranclp rtranclp_trans)
  have "Wait_returns (st Gone [0] True 0 0)" by (simp add: Wait_returns_def st_def)
  then show ?thesis using workers_lifecycle [OF run] run
    by (intro exI [of _ "st Gone [0] True 0 0"]) (simp add: st_def)
qed

end
