(* ===== verification/Client_Config.thy ===== *)
theory Client_Config
  imports Session_State
begin

text \<open>
  The public configuration, \<open>config.go\<close> and \<open>identity.go\<close>: identities, cipher-suite lists, the
  defaults and checks of \<open>validate\<close>, and the translation into the session's configuration by
  \<open>toSessionConfig\<close> of \<open>ipsec.go\<close>.  Credentials and identity data are their octets.
\<close>

section \<open>Identities\<close>

type_synonym IDKind = byte

definition IDKindNone :: IDKind where [simp]: "IDKindNone = 0"
definition IDKindIPv4 :: IDKind where [simp]: "IDKindIPv4 = IDTypeIPv4"
definition IDKindFQDN :: IDKind where [simp]: "IDKindFQDN = IDTypeFQDN"
definition IDKindEmail :: IDKind where [simp]: "IDKindEmail = IDTypeRFC822"
definition IDKindIPv6 :: IDKind where [simp]: "IDKindIPv6 = IDTypeIPv6"
definition IDKindKeyID :: IDKind where [simp]: "IDKindKeyID = IDTypeKeyID"
definition idKindInvalid :: IDKind where [simp]: "idKindInvalid = 255"

record Identity =
  id_Kind :: IDKind
  id_Data :: bytes

definition FQDN :: "bytes \<Rightarrow> Identity" where
  "FQDN name = \<lparr>id_Kind = IDKindFQDN, id_Data = name\<rparr>"

definition Email :: "bytes \<Rightarrow> Identity" where
  "Email addr = \<lparr>id_Kind = IDKindEmail, id_Data = addr\<rparr>"

definition KeyID :: "bytes \<Rightarrow> Identity" where
  "KeyID i = \<lparr>id_Kind = IDKindKeyID, id_Data = i\<rparr>"

text \<open>The zero \<open>netip.Addr\<close> is \<open>None\<close>.\<close>

definition IPv4 :: "Addr option \<Rightarrow> Identity" where
  "IPv4 addr =
     (case (case addr of Some (Addr16 b) \<Rightarrow> Some (Unmap b) | _ \<Rightarrow> addr) of
        Some (Addr4 a4) \<Rightarrow> \<lparr>id_Kind = IDKindIPv4, id_Data = a4\<rparr>
      | _ \<Rightarrow> \<lparr>id_Kind = idKindInvalid, id_Data = []\<rparr>)"

definition Is4In6 :: "bytes \<Rightarrow> bool" where
  "Is4In6 b \<longleftrightarrow> take 12 b = zeros 10 @ [0xFF, 0xFF]"

definition IPv6 :: "Addr option \<Rightarrow> Identity" where
  "IPv6 addr =
     (case addr of
        Some (Addr16 b) \<Rightarrow>
          if Is4In6 b then \<lparr>id_Kind = idKindInvalid, id_Data = []\<rparr> else \<lparr>id_Kind = IDKindIPv6, id_Data = b\<rparr>
      | _ \<Rightarrow> \<lparr>id_Kind = idKindInvalid, id_Data = []\<rparr>)"

definition IsZero :: "Identity \<Rightarrow> bool" where
  "IsZero i \<longleftrightarrow> id_Kind i = IDKindNone"

datatype config_err =
    ErrServerRequired | ErrPSKAndEAP | ErrNoCredentials | ErrEAPUsername | ErrEAPPassword
  | ErrLocalIDRequired | ErrIDLen nat | ErrIDEmpty | ErrIDKind IDKind
  | ErrSuiteUnsupported byte | ErrSuiteUnknownID byte | ErrSuiteDuplicate byte

definition check :: "Identity \<Rightarrow> config_err + unit" where
  "check i =
     (if id_Kind i = IDKindNone then Inr ()
      else if id_Kind i = IDKindIPv4 then
        if length (id_Data i) \<noteq> 4 then Inl (ErrIDLen (length (id_Data i))) else Inr ()
      else if id_Kind i = IDKindIPv6 then
        if length (id_Data i) \<noteq> 16 then Inl (ErrIDLen (length (id_Data i))) else Inr ()
      else if id_Kind i = IDKindFQDN \<or> id_Kind i = IDKindEmail \<or> id_Kind i = IDKindKeyID then
        if length (id_Data i) = 0 then Inl ErrIDEmpty else Inr ()
      else Inl (ErrIDKind (id_Kind i)))"

text \<open>The at sign is octet 64.\<close>

definition defaultEAPIdentity :: "bytes \<Rightarrow> Identity" where
  "defaultEAPIdentity username = (if 64 \<in> set username then Email username else FQDN username)"

definition idType :: "Identity \<Rightarrow> byte" where "idType i = id_Kind i"
definition idData :: "Identity \<Rightarrow> bytes" where "idData i = id_Data i"

definition identityFromWire :: "byte \<Rightarrow> bytes \<Rightarrow> Identity" where
  "identityFromWire t d = \<lparr>id_Kind = t, id_Data = d\<rparr>"

section \<open>Cipher suites\<close>

type_synonym CipherSuite = byte

definition CipherSuiteAESGCM256 :: CipherSuite where [simp]: "CipherSuiteAESGCM256 = 1"
definition CipherSuiteChaCha20Poly1305 :: CipherSuite where [simp]: "CipherSuiteChaCha20Poly1305 = 2"
definition CipherSuiteAESCBC256SHA256 :: CipherSuite where [simp]: "CipherSuiteAESCBC256SHA256 = 3"

definition espSuite :: "CipherSuite \<Rightarrow> Suite option" where
  "espSuite cs =
     (if cs = CipherSuiteAESGCM256 then Some SuiteAESGCM256
      else if cs = CipherSuiteChaCha20Poly1305 then Some SuiteChaCha20Poly1305
      else if cs = CipherSuiteAESCBC256SHA256 then Some SuiteAESCBC256SHA256
      else None)"

definition ikeSuite :: "CipherSuite \<Rightarrow> ike_Suite option" where
  "ikeSuite cs =
     (if cs = CipherSuiteAESGCM256 then Some ike_SuiteAESGCM256
      else if cs = CipherSuiteChaCha20Poly1305 then Some ike_SuiteChaCha20Poly1305
      else if cs = CipherSuiteAESCBC256SHA256 then Some ike_SuiteAESCBC256SHA256
      else None)"

definition defined :: "CipherSuite \<Rightarrow> bool" where
  "defined cs \<longleftrightarrow> espSuite cs \<noteq> None \<or> ikeSuite cs \<noteq> None"

text \<open>\<open>seen\<close> is the map of the values met so far.\<close>

fun validate_suites :: "(CipherSuite \<Rightarrow> bool) \<Rightarrow> CipherSuite list \<Rightarrow> CipherSuite list \<Rightarrow> config_err + unit" where
  "validate_suites known [] seen = Inr ()"
| "validate_suites known (cs # rest) seen =
     (if \<not> known cs then
        if defined cs then Inl (ErrSuiteUnsupported cs) else Inl (ErrSuiteUnknownID cs)
      else if cs \<in> set seen then Inl (ErrSuiteDuplicate cs)
      else validate_suites known rest (cs # seen))"

definition validateCipherSuites :: "CipherSuite list \<Rightarrow> (CipherSuite \<Rightarrow> bool) \<Rightarrow> config_err + unit" where
  "validateCipherSuites suites known = validate_suites known suites []"

section \<open>The configuration\<close>

definition DefaultMTU :: u32 where [simp]: "DefaultMTU = 1400"
definition MinMTU :: u32 where [simp]: "MinMTU = 576"
definition DefaultKeepAlive :: duration where [simp]: "DefaultKeepAlive = 20 * Second"
definition DefaultDPDTimeout :: duration where [simp]: "DefaultDPDTimeout = 30 * Second"
definition DefaultRekeyLifetime :: duration where [simp]: "DefaultRekeyLifetime = 60 * Minute"
definition DefaultIKERekeyLifetime :: duration where [simp]: "DefaultIKERekeyLifetime = 4 * (60 * Minute)"
definition DefaultReplayWindow :: u32 where [simp]: "DefaultReplayWindow = 64"
definition MinRekeyMaxPackets :: u32 where [simp]: "MinRekeyMaxPackets = 4096"
definition DefaultRetransmitBase :: duration where [simp]: "DefaultRetransmitBase = 2 * Second"
definition DefaultRetransmitMax :: duration where [simp]: "DefaultRetransmitMax = 30 * Second"
definition DefaultRetransmitTries :: int where [simp]: "DefaultRetransmitTries = 5"
definition DefaultReconnectBackoffBase :: duration where [simp]: "DefaultReconnectBackoffBase = 1 * Second"
definition DefaultReconnectBackoffMax :: duration where [simp]: "DefaultReconnectBackoffMax = 30 * Second"
definition DefaultReconnectAttemptTimeout :: duration where [simp]: "DefaultReconnectAttemptTimeout = 20 * Second"

text \<open>A \<open>*bool\<close> is an optional truth value; \<open>Transport\<close> and \<open>Logger\<close> do not matter here.\<close>

record Config =
  c_Server :: string
  c_LocalID :: Identity
  c_RemoteID :: Identity
  c_Username :: bytes
  c_Password :: bytes
  c_PSK :: bytes
  c_RootCAs :: "bytes list option"
  c_MTU :: u32
  c_KeepAlive :: duration
  c_DPDTimeout :: duration
  c_RekeyLifetime :: duration
  c_IKERekeyLifetime :: duration
  c_ReplayWindow :: u32
  c_RekeyMaxPackets :: u32
  c_ESPCipherSuites :: "CipherSuite list"
  c_IKECipherSuites :: "CipherSuite list"
  c_ChildSAPFS :: bool
  c_RequestIPv6 :: "bool option"
  c_AutoReconnect :: "bool option"
  c_ReconnectBackoffBase :: duration
  c_ReconnectBackoffMax :: duration
  c_ReconnectAttemptTimeout :: duration

definition autoReconnectEnabled :: "Config \<Rightarrow> bool" where
  "autoReconnectEnabled c \<longleftrightarrow> c_AutoReconnect c = None \<or> c_AutoReconnect c = Some True"

definition requestIPv6Enabled :: "Config \<Rightarrow> bool" where
  "requestIPv6Enabled c \<longleftrightarrow> c_RequestIPv6 c = None \<or> c_RequestIPv6 c = Some True"

text \<open>The first part of \<open>validate\<close>: which credentials are set.\<close>

definition check_credentials :: "Config \<Rightarrow> config_err + unit" where
  "check_credentials c =
     (let hasPSK = c_PSK c \<noteq> []; hasEAP = (c_Username c \<noteq> [] \<or> c_Password c \<noteq> []) in
      if hasPSK \<and> hasEAP then Inl ErrPSKAndEAP
      else if \<not> hasPSK \<and> \<not> hasEAP then Inl ErrNoCredentials
      else if hasEAP then
        if c_Username c = [] then Inl ErrEAPUsername
        else if c_Password c = [] then Inl ErrEAPPassword
        else Inr ()
      else Inr ())"

text \<open>The last part: the defaults, clamps and floors.\<close>

definition positive :: "duration \<Rightarrow> duration \<Rightarrow> duration" where
  "positive d dflt = (if d \<le> 0 then dflt else d)"

definition fill_defaults :: "Config \<Rightarrow> Config" where
  "fill_defaults c = c\<lparr>
     c_MTU := (let mtu = if c_MTU c = 0 then DefaultMTU else c_MTU c in if mtu < MinMTU then MinMTU else mtu),
     c_KeepAlive := positive (c_KeepAlive c) DefaultKeepAlive,
     c_DPDTimeout := positive (c_DPDTimeout c) DefaultDPDTimeout,
     c_RekeyLifetime := positive (c_RekeyLifetime c) DefaultRekeyLifetime,
     c_IKERekeyLifetime := positive (c_IKERekeyLifetime c) DefaultIKERekeyLifetime,
     c_ReplayWindow := (let w = if c_ReplayWindow c = 0 then DefaultReplayWindow else c_ReplayWindow c in
        if w > MaxReplayWindow then MaxReplayWindow else w),
     c_RekeyMaxPackets := (if c_RekeyMaxPackets c \<noteq> 0 \<and> c_RekeyMaxPackets c < MinRekeyMaxPackets
        then MinRekeyMaxPackets else c_RekeyMaxPackets c),
     c_ReconnectBackoffBase := positive (c_ReconnectBackoffBase c) DefaultReconnectBackoffBase,
     c_ReconnectBackoffMax := positive (c_ReconnectBackoffMax c) DefaultReconnectBackoffMax,
     c_ReconnectAttemptTimeout := positive (c_ReconnectAttemptTimeout c) DefaultReconnectAttemptTimeout\<rparr>"

text \<open>The error monad of \<open>if err != nil \<open>return err\<close>\<close>.\<close>

fun thenE :: "'e + unit \<Rightarrow> 'e + 'a \<Rightarrow> 'e + 'a" where
  "thenE (Inl e) r = Inl e"
| "thenE (Inr _) r = r"

definition validate :: "Config \<Rightarrow> config_err + Config" where
  "validate c =
     (if c_Server c = [] then Inl ErrServerRequired
      else
        thenE (check_credentials c)
        (if IsZero (c_LocalID c) \<and> c_PSK c \<noteq> [] then Inl ErrLocalIDRequired
         else
           let c1 = (if IsZero (c_LocalID c) then c\<lparr>c_LocalID := defaultEAPIdentity (c_Username c)\<rparr> else c) in
           thenE (check (c_LocalID c1))
           (thenE (check (c_RemoteID c1))
           (thenE (validateCipherSuites (c_ESPCipherSuites c1) (\<lambda>cs. espSuite cs \<noteq> None))
           (thenE (validateCipherSuites (c_IKECipherSuites c1) (\<lambda>cs. ikeSuite cs \<noteq> None))
           (Inr (fill_defaults c1)))))))"

section \<open>Translation to the session\<close>

fun espSuitesFromConfig :: "CipherSuite list \<Rightarrow> Suite list" where
  "espSuitesFromConfig [] = []"
| "espSuitesFromConfig (cs # css) =
     (case espSuite cs of Some i \<Rightarrow> i # espSuitesFromConfig css | None \<Rightarrow> espSuitesFromConfig css)"

fun ikeSuitesFromConfig :: "CipherSuite list \<Rightarrow> ike_Suite list" where
  "ikeSuitesFromConfig [] = []"
| "ikeSuitesFromConfig (cs # css) =
     (case ikeSuite cs of Some i \<Rightarrow> i # ikeSuitesFromConfig css | None \<Rightarrow> ikeSuitesFromConfig css)"

definition toSessionConfig :: "Config \<Rightarrow> SessionConfig" where
  "toSessionConfig cfg =
     \<lparr>cf_Server = c_Server cfg,
      cf_LocalID = \<lparr>wi_Type = idType (c_LocalID cfg), wi_Data = idData (c_LocalID cfg)\<rparr>,
      cf_RemoteID = \<lparr>wi_Type = idType (c_RemoteID cfg), wi_Data = idData (c_RemoteID cfg)\<rparr>,
      cf_EAPUser = c_Username cfg, cf_EAPPass = c_Password cfg, cf_PSK = c_PSK cfg, cf_RootCAs = c_RootCAs cfg,
      cf_MTU = c_MTU cfg, cf_KeepAlive = c_KeepAlive cfg, cf_DPDTimeout = c_DPDTimeout cfg,
      cf_RekeyLifetime = c_RekeyLifetime cfg, cf_IKERekeyLifetime = c_IKERekeyLifetime cfg,
      cf_ReplayWindow = c_ReplayWindow cfg, cf_RekeyMaxPackets = c_RekeyMaxPackets cfg,
      cf_ChildSAPFS = c_ChildSAPFS cfg,
      cf_ESPSuites = espSuitesFromConfig (c_ESPCipherSuites cfg),
      cf_IKESuites = ikeSuitesFromConfig (c_IKECipherSuites cfg),
      cf_RequestIPv6 = requestIPv6Enabled cfg,
      cf_RetransmitBase = DefaultRetransmitBase, cf_RetransmitMax = DefaultRetransmitMax,
      cf_RetransmitTries = DefaultRetransmitTries\<rparr>"

section \<open>What validation guarantees\<close>

lemma thenE_Inr: "thenE r k = Inr x \<longleftrightarrow> r = Inr () \<and> k = Inr x"
  by (cases r) auto

lemma validate_suites_iff:
  "validate_suites known css seen = Inr () \<longleftrightarrow>
     (\<forall>cs\<in>set css. known cs) \<and> distinct css \<and> set css \<inter> set seen = {}"
  by (induction css arbitrary: seen) auto

lemma validateCipherSuites_iff:
  "validateCipherSuites css known = Inr () \<longleftrightarrow> (\<forall>cs\<in>set css. known cs) \<and> distinct css"
  by (simp add: validateCipherSuites_def validate_suites_iff)

text \<open>The shape of a configuration that passed.\<close>

definition config_ok :: "Config \<Rightarrow> bool" where
  "config_ok c \<longleftrightarrow>
     c_Server c \<noteq> [] \<and>
     (c_PSK c \<noteq> [] \<longleftrightarrow> c_Username c = []) \<and> (c_PSK c \<noteq> [] \<longleftrightarrow> c_Password c = []) \<and>
     \<not> IsZero (c_LocalID c) \<and> check (c_LocalID c) = Inr () \<and> check (c_RemoteID c) = Inr () \<and>
     distinct (c_ESPCipherSuites c) \<and> set (c_ESPCipherSuites c) \<subseteq> {1, 2, 3} \<and>
     distinct (c_IKECipherSuites c) \<and> set (c_IKECipherSuites c) \<subseteq> {1, 2, 3} \<and>
     MinMTU \<le> c_MTU c \<and> 0 < c_KeepAlive c \<and> 0 < c_DPDTimeout c \<and> 0 < c_RekeyLifetime c \<and> 0 < c_IKERekeyLifetime c \<and>
     0 < c_ReplayWindow c \<and> c_ReplayWindow c \<le> MaxReplayWindow \<and>
     (c_RekeyMaxPackets c = 0 \<or> MinRekeyMaxPackets \<le> c_RekeyMaxPackets c) \<and>
     0 < c_ReconnectBackoffBase c \<and> 0 < c_ReconnectBackoffMax c \<and> 0 < c_ReconnectAttemptTimeout c"

lemma suite_domain:
  "espSuite cs \<noteq> None \<longleftrightarrow> cs \<in> {1, 2, 3}" "ikeSuite cs \<noteq> None \<longleftrightarrow> cs \<in> {1, 2, 3}"
  by (auto simp: espSuite_def ikeSuite_def)

lemma validated_suites:
  "validateCipherSuites css (\<lambda>cs. espSuite cs \<noteq> None) = Inr () \<longleftrightarrow> distinct css \<and> set css \<subseteq> {1, 2, 3}"
  "validateCipherSuites css (\<lambda>cs. ikeSuite cs \<noteq> None) = Inr () \<longleftrightarrow> distinct css \<and> set css \<subseteq> {1, 2, 3}"
  unfolding validateCipherSuites_iff suite_domain by blast+

lemma check_credentials_iff:
  "check_credentials c = Inr () \<longleftrightarrow>
     (c_PSK c \<noteq> [] \<longleftrightarrow> c_Username c = []) \<and> (c_PSK c \<noteq> [] \<longleftrightarrow> c_Password c = [])"
  by (auto simp: check_credentials_def Let_def)

lemma fill_defaults_ranges:
  "MinMTU \<le> c_MTU (fill_defaults c)" "0 < c_KeepAlive (fill_defaults c)" "0 < c_DPDTimeout (fill_defaults c)"
  "0 < c_RekeyLifetime (fill_defaults c)" "0 < c_IKERekeyLifetime (fill_defaults c)"
  "0 < c_ReplayWindow (fill_defaults c)" "c_ReplayWindow (fill_defaults c) \<le> MaxReplayWindow"
  "c_RekeyMaxPackets (fill_defaults c) = 0 \<or> MinRekeyMaxPackets \<le> c_RekeyMaxPackets (fill_defaults c)"
  "0 < c_ReconnectBackoffBase (fill_defaults c)" "0 < c_ReconnectBackoffMax (fill_defaults c)"
  "0 < c_ReconnectAttemptTimeout (fill_defaults c)"
  by (auto simp: fill_defaults_def positive_def Let_def MaxReplayWindow_def not_less word_gt_0)

lemma fill_defaults_id:
  assumes "config_ok c"
  shows "fill_defaults c = c"
  using assms by (cases c) (auto simp: fill_defaults_def config_ok_def positive_def)

lemma defaultEAPIdentity_nonzero: "\<not> IsZero (defaultEAPIdentity u)"
  by (simp add: IsZero_def defaultEAPIdentity_def Email_def FQDN_def)

lemma validate_ok:
  assumes "validate c = Inr c'"
  shows "config_ok c' \<and> validate c' = Inr c' \<and>
     c_ESPCipherSuites c' = c_ESPCipherSuites c \<and> c_IKECipherSuites c' = c_IKECipherSuites c"
proof -
  define c1 where "c1 = (if IsZero (c_LocalID c) then c\<lparr>c_LocalID := defaultEAPIdentity (c_Username c)\<rparr> else c)"
  have server: "c_Server c \<noteq> []" and psk: "\<not> (IsZero (c_LocalID c) \<and> c_PSK c \<noteq> [])"
    and cred: "check_credentials c = Inr ()" and ids: "check (c_LocalID c1) = Inr ()" "check (c_RemoteID c1) = Inr ()"
    and suites: "validateCipherSuites (c_ESPCipherSuites c1) (\<lambda>cs. espSuite cs \<noteq> None) = Inr ()"
      "validateCipherSuites (c_IKECipherSuites c1) (\<lambda>cs. ikeSuite cs \<noteq> None) = Inr ()"
    and c': "c' = fill_defaults c1"
    using assms by (auto simp: validate_def Let_def thenE_Inr c1_def split: if_splits)
  have same: "c_Server c1 = c_Server c" "c_PSK c1 = c_PSK c" "c_Username c1 = c_Username c" "c_Password c1 = c_Password c"
    "\<not> IsZero (c_LocalID c1)"
    by (simp_all add: c1_def defaultEAPIdentity_nonzero)
  have kept: "c_Server c' = c_Server c1" "c_PSK c' = c_PSK c1" "c_Username c' = c_Username c1"
    "c_Password c' = c_Password c1" "c_LocalID c' = c_LocalID c1" "c_RemoteID c' = c_RemoteID c1"
    "c_ESPCipherSuites c' = c_ESPCipherSuites c1" "c_IKECipherSuites c' = c_IKECipherSuites c1"
    by (simp_all add: c' fill_defaults_def)
  have ok: "config_ok c'"
    unfolding config_ok_def kept
    using server cred ids suites same fill_defaults_ranges [of c1]
    unfolding check_credentials_iff validated_suites c' [symmetric] by auto
  then have "validate c' = Inr c'"
    using suites ids kept fill_defaults_id [OF ok]
    by (auto simp: validate_def Let_def thenE_Inr config_ok_def check_credentials_iff)
  then show ?thesis using ok kept c1_def by simp
qed


text \<open>
  C36 (invariant).  \<open>validate\<close> returns only configurations with exactly one kind of credential,
  well-formed identities, duplicate-free suite lists of known suites and every timer and limit
  in its range; and it is a fixed point: a validated configuration validates to itself.
\<close>

theorem config_validated:
  assumes "validate c = Inr c'"
  shows "config_ok c' \<and> validate c' = Inr c'"
  using validate_ok [OF assms] by simp

theorem config_validated_witness:
  "\<exists>c'. validate \<lparr>c_Server = ''vpn'', c_LocalID = \<lparr>id_Kind = 0, id_Data = []\<rparr>, c_RemoteID = \<lparr>id_Kind = 0, id_Data = []\<rparr>,
      c_Username = [97, 64, 98], c_Password = [1], c_PSK = [], c_RootCAs = None, c_MTU = 14, c_KeepAlive = 0,
      c_DPDTimeout = - 1, c_RekeyLifetime = 0, c_IKERekeyLifetime = 0, c_ReplayWindow = 4294967295, c_RekeyMaxPackets = 7,
      c_ESPCipherSuites = [3, 1], c_IKECipherSuites = [], c_ChildSAPFS = False, c_RequestIPv6 = None, c_AutoReconnect = None,
      c_ReconnectBackoffBase = 0, c_ReconnectBackoffMax = 0, c_ReconnectAttemptTimeout = 0\<rparr> = Inr c' \<and>
     c_LocalID c' = Email [97, 64, 98] \<and> config_ok c'"
  (is "\<exists>c'. validate ?c = Inr c' \<and> _")
proof -
  obtain c' where "validate ?c = Inr c'" "c_LocalID c' = Email [97, 64, 98]"
    by (simp add: validate_def check_credentials_def IsZero_def check_def defaultEAPIdentity_def Email_def
        validateCipherSuites_def espSuite_def fill_defaults_def)
  with config_validated [of ?c c'] show ?thesis by blast
qed

lemma suitesFromConfig_known:
  "set css \<subseteq> {1, 2, 3} \<Longrightarrow> espSuitesFromConfig css = map (\<lambda>cs. the (espSuite cs)) css"
  "set css \<subseteq> {1, 2, 3} \<Longrightarrow> ikeSuitesFromConfig css = map (\<lambda>cs. the (ikeSuite cs)) css"
  by (induction css) (auto simp: espSuite_def ikeSuite_def)

lemma checkSuites_known:
  "set css \<subseteq> {1, 2, 3} \<Longrightarrow> checkSuites (map (\<lambda>cs. the (espSuite cs)) css) espSuites = Inr ()"
  "set css \<subseteq> {1, 2, 3} \<Longrightarrow> checkSuites (map (\<lambda>cs. the (ikeSuite cs)) css) ikeSuites = Inr ()"
  by (induction css) (auto simp: espSuite_def ikeSuite_def espSuites_def ikeSuites_def)

lemma enabled_ids:
  assumes "checkConfiguredSuites espIDs ikeIDs = Inr ()"
  shows "map su_id (enabledSuites espIDs espSuites) = (if espIDs = [] then map su_id espSuites else espIDs)"
    "map su_id (enabledSuites ikeIDs ikeSuites) = (if ikeIDs = [] then map su_id ikeSuites else ikeIDs)"
  using assms esp_table.enabled_loop_ids [of espIDs] ike_table.enabled_loop_ids [of ikeIDs]
  by (auto simp: checkConfiguredSuites_def enabledSuites_def split: sum.splits)

text \<open>
  A validated configuration reaches the session whole: its suite lists pass
  the session's own check, and the suites the session offers on each layer are the configured
  ones in the configured order, or all three if the list is empty.
\<close>

lemma config_reaches_session:
  assumes "validate c = Inr c'" "sc = toSessionConfig c'"
  shows "checkConfiguredSuites (cf_ESPSuites sc) (cf_IKESuites sc) = Inr () \<and>
     map su_id (enabledESPSuites sc) =
       (if c_ESPCipherSuites c = [] then map su_id espSuites else map (\<lambda>cs. the (espSuite cs)) (c_ESPCipherSuites c)) \<and>
     map su_id (enabledIKESuites sc) =
       (if c_IKECipherSuites c = [] then map su_id ikeSuites else map (\<lambda>cs. the (ikeSuite cs)) (c_IKECipherSuites c)) \<and>
     cf_RekeyLifetime sc > 0 \<and> cf_DPDTimeout sc > 0 \<and> cf_RetransmitTries sc > 0"
proof -
  have "config_ok c'" "c_ESPCipherSuites c' = c_ESPCipherSuites c" "c_IKECipherSuites c' = c_IKECipherSuites c"
    using validate_ok [OF assms(1)] by simp_all
  then have "checkConfiguredSuites (cf_ESPSuites sc) (cf_IKESuites sc) = Inr ()"
    "cf_ESPSuites sc = map (\<lambda>cs. the (espSuite cs)) (c_ESPCipherSuites c)"
    "cf_IKESuites sc = map (\<lambda>cs. the (ikeSuite cs)) (c_IKECipherSuites c)"
    by (simp_all add: assms(2) toSessionConfig_def config_ok_def suitesFromConfig_known checkSuites_known
        checkConfiguredSuites_def)
  moreover have "cf_RekeyLifetime sc > 0 \<and> cf_DPDTimeout sc > 0 \<and> cf_RetransmitTries sc > 0"
    using \<open>config_ok c'\<close> by (simp add: assms(2) toSessionConfig_def config_ok_def)
  ultimately show ?thesis
    using enabled_ids [of "cf_ESPSuites sc" "cf_IKESuites sc"]
    by (simp add: enabledESPSuites_def enabledIKESuites_def)
qed


end
