(* ===== verification/Session_Payloads.thy ===== *)
theory Session_Payloads
  imports Session_State
begin

text \<open>
  The payload helpers of \<open>internal/session/ikeauth.go\<close>: the traffic selectors and the
  configuration request the client sends, the configuration reply it receives, error notifies,
  and the constant-time comparison.
\<close>

section \<open>What the client sends\<close>

definition fullV4 :: TrafficSelector where
  "fullV4 = \<lparr>ts_TSType = TSIPv4AddrRange, ts_Protocol = 0, ts_StartPort = 0, ts_EndPort = 65535,
     ts_StartAddr = [0, 0, 0, 0], ts_EndAddr = [255, 255, 255, 255]\<rparr>"

definition fullV6 :: TrafficSelector where
  "fullV6 = \<lparr>ts_TSType = TSIPv6AddrRange, ts_Protocol = 0, ts_StartPort = 0, ts_EndPort = 65535,
     ts_StartAddr = zeros 16, ts_EndAddr = replicate 16 0xff\<rparr>"

definition appendTrafficSelectors :: "Payloads \<Rightarrow> bool \<Rightarrow> Payloads" where
  "appendTrafficSelectors c includeV6 =
     (let full = [fullV4] @ (if includeV6 then [fullV6] else []) in
      c @ [TSiPayload full, TSrPayload full])"

definition buildCPRequest :: "Payloads \<Rightarrow> bool \<Rightarrow> Payloads" where
  "buildCPRequest c requestIPv6 =
     (let attrs =
        [\<lparr>ca_Type = ConfigAttrInternalIP4Address, ca_Value = []\<rparr>,
         \<lparr>ca_Type = ConfigAttrInternalIP4Netmask, ca_Value = []\<rparr>,
         \<lparr>ca_Type = ConfigAttrInternalIP4DNS, ca_Value = []\<rparr>] @
        (if requestIPv6
         then [\<lparr>ca_Type = ConfigAttrInternalIP6Address, ca_Value = []\<rparr>,
               \<lparr>ca_Type = ConfigAttrInternalIP6DNS, ca_Value = []\<rparr>]
         else [])
      in c @ [ConfigPayload ConfigRequest attrs])"

section \<open>What it receives\<close>

definition selectorIsFullRange :: "TrafficSelector \<Rightarrow> bool" where
  "selectorIsFullRange ts =
     (if ts_Protocol ts \<noteq> 0 \<or> ts_StartPort ts \<noteq> 0 \<or> ts_EndPort ts \<noteq> 65535 then False
      else if ts_TSType ts = TSIPv4AddrRange then
        ts_StartAddr ts = [0, 0, 0, 0] \<and> ts_EndAddr ts = [255, 255, 255, 255]
      else if ts_TSType ts = TSIPv6AddrRange then
        ts_StartAddr ts = zeros 16 \<and> ts_EndAddr ts = replicate 16 0xff
      else False)"

text \<open>\<open>narrowed\<close> is the test that makes \<open>warnNarrowedTS\<close> log.\<close>

fun narrowed :: "TrafficSelector list \<Rightarrow> bool" where
  "narrowed [] = False"
| "narrowed (ts # sels) = (if \<not> selectorIsFullRange ts then True else narrowed sels)"

definition addr16 :: "bytes \<Rightarrow> bytes" where
  "addr16 v = (if length v = 16 \<or> length v = 17 then take 16 v else [])"

definition AddrFromSlice :: "bytes \<Rightarrow> Addr option" where
  "AddrFromSlice b =
     (if length b = 4 then Some (Addr4 b) else if length b = 16 then Some (Addr16 b) else None)"

text \<open>One iteration of the loop of \<open>parseCPReply\<close>.\<close>

definition cp_attr :: "ConfigAttr \<Rightarrow> Assigned \<Rightarrow> Assigned" where
  "cp_attr attr a =
     (let v = ca_Value attr in
      if ca_Type attr = ConfigAttrInternalIP4Address then
        (case AddrFromSlice v of Some ip \<Rightarrow> if length v = 4 then a\<lparr>as_IP := Some ip\<rparr> else a | None \<Rightarrow> a)
      else if ca_Type attr = ConfigAttrInternalIP4Netmask then
        (case AddrFromSlice v of Some ip \<Rightarrow> if length v = 4 then a\<lparr>as_Netmask := Some ip\<rparr> else a | None \<Rightarrow> a)
      else if ca_Type attr = ConfigAttrInternalIP4DNS then
        (case AddrFromSlice v of Some ip \<Rightarrow> if length v = 4 then a\<lparr>as_DNS := as_DNS a @ [ip]\<rparr> else a | None \<Rightarrow> a)
      else if ca_Type attr = ConfigAttrInternalIP6Address then
        (case AddrFromSlice (addr16 v) of
           Some ip \<Rightarrow>
             let plen = (if length v = 17 then unat (v ! 16) else 64) in
             if plen \<le> 128 then a\<lparr>as_IP6 := Some (ip, plen)\<rparr> else a
         | None \<Rightarrow> a)
      else if ca_Type attr = ConfigAttrInternalIP6DNS then
        (case AddrFromSlice v of Some ip \<Rightarrow> if length v = 16 then a\<lparr>as_DNS6 := as_DNS6 a @ [ip]\<rparr> else a | None \<Rightarrow> a)
      else a)"

definition emptyAssigned :: Assigned where
  "emptyAssigned = \<lparr>as_IP = None, as_Netmask = None, as_Gateway = None, as_DNS = [], as_IP6 = None, as_DNS6 = []\<rparr>"

definition parseCPReply :: "ConfigAttr list \<Rightarrow> Assigned" where
  "parseCPReply attrs = fold cp_attr attrs emptyAssigned"

definition notifyError :: "NotifyType \<Rightarrow> sess_err option" where
  "notifyError t = (if IsError t then Some (ErrNotify t) else None)"

fun firstNotifyError :: "Payloads \<Rightarrow> sess_err option" where
  "firstNotifyError [] = None"
| "firstNotifyError (NotifyPayload _ t _ _ # ps) =
     (case notifyError t of Some e \<Rightarrow> Some e | None \<Rightarrow> firstNotifyError ps)"
| "firstNotifyError (_ # ps) = firstNotifyError ps"

section \<open>Constant-time comparison\<close>

text \<open>\<open>ct_loop\<close> is the loop over the two slices, which then have the same length.\<close>

fun ct_loop :: "bytes \<Rightarrow> bytes \<Rightarrow> byte \<Rightarrow> byte" where
  "ct_loop (x # xs) (y # ys) v = ct_loop xs ys (v OR (x XOR y))"
| "ct_loop _ _ v = v"

definition constTimeEqual :: "bytes \<Rightarrow> bytes \<Rightarrow> bool" where
  "constTimeEqual a b = (if length a \<noteq> length b then False else ct_loop a b 0 = 0)"

section \<open>Lemmas\<close>

lemma or_eq_0_word: "(a OR b :: 'a::len word) = 0 \<longleftrightarrow> a = 0 \<and> b = 0"
  by (auto simp: bit_eq_iff bit_or_iff)

lemma xor_eq_0_word: "(a XOR b :: 'a::len word) = 0 \<longleftrightarrow> a = b"
  by (auto simp: bit_eq_iff bit_xor_iff)

lemma ct_loop_eq_0: "length a = length b \<Longrightarrow> ct_loop a b v = 0 \<longleftrightarrow> v = 0 \<and> a = b"
  by (induction a b v rule: ct_loop.induct) (auto simp: or_eq_0_word xor_eq_0_word)

lemma constTimeEqual_iff [simp]: "constTimeEqual a b \<longleftrightarrow> a = b"
  by (auto simp: constTimeEqual_def ct_loop_eq_0)

lemma narrowed_iff: "narrowed sels \<longleftrightarrow> (\<exists>ts\<in>set sels. \<not> selectorIsFullRange ts)"
  by (induction sels) auto

lemma full_selectors: "selectorIsFullRange fullV4" "selectorIsFullRange fullV6"
  by (simp_all add: selectorIsFullRange_def fullV4_def fullV6_def)

lemma firstNotifyError_None_iff:
  "firstNotifyError ps = None \<longleftrightarrow> (\<forall>p t spi d. NotifyPayload p t spi d \<in> set ps \<longrightarrow> \<not> IsError t)"
  by (induction ps rule: firstNotifyError.induct) (auto simp: notifyError_def split: if_splits, blast)

end
