(* ===== verification/Rekey.thy ===== *)
theory Rekey
  imports Session_Payloads
begin

text \<open>
  The rekey exchanges of \<open>internal/session/rekey.go\<close>, as initiator and as responder, for Child
  SAs and for the IKE SA, with the responses and notifies they are answered by
  (\<open>sendNotifyResponse\<close>, \<open>recordPeerResponse\<close> of \<open>informational.go\<close>).
\<close>

definition nonceLen :: nat where [simp]: "nonceLen = 32"
definition ikeRekeyGrace :: duration where [simp]: "ikeRekeyGrace = 30 * Second"

section \<open>Answering a request of the peer\<close>

definition recordPeerResponse :: "bool \<Rightarrow> u32 \<Rightarrow> bytes \<Rightarrow> (Session, 'e, unit) go" where
  "recordPeerResponse viaOld msgID raw =
     (let dd = \<lparr>dd_msgID = msgID, dd_set = True, dd_resp = Some raw\<rparr> in
      modS (\<lambda>s. if viaOld then s\<lparr>s_oldPeer := dd\<rparr> else s\<lparr>s_peer := dd\<rparr>))"

definition sendNotifyResponse ::
  "world \<Rightarrow> ctxRef \<Rightarrow> u32 \<Rightarrow> bool \<Rightarrow> ProtocolID \<Rightarrow> NotifyType \<Rightarrow> bytes \<Rightarrow> (Session, 'e, unit) go" where
  "sendNotifyResponse W dec msgID viaOld proto notifyType data =
     bindS (tryS (encodeWith W dec ExchangeCreateChildSA responseFlags msgID
                    [NotifyPayload proto notifyType [] data])) (\<lambda>r.
     case r of
       Inl _ \<Rightarrow> retS ()
     | Inr raw \<Rightarrow> thenS (recordPeerResponse viaOld msgID raw) (ignoreS (sendIKE W raw)))"

definition sendTemporaryFailure :: "world \<Rightarrow> ctxRef \<Rightarrow> u32 \<Rightarrow> bool \<Rightarrow> (Session, 'e, unit) go" where
  "sendTemporaryFailure W dec msgID viaOld =
     sendNotifyResponse W dec msgID viaOld ProtocolNone NotifyTemporaryFailure []"

definition sendInvalidKEPayload :: "world \<Rightarrow> ctxRef \<Rightarrow> u32 \<Rightarrow> bool \<Rightarrow> (Session, 'e, unit) go" where
  "sendInvalidKEPayload W dec msgID viaOld =
     sendNotifyResponse W dec msgID viaOld ProtocolNone NotifyInvalidKEPayload (PutUint16 (preferredDHGroups ! 0))"

section \<open>Reading rekey messages\<close>

text \<open>
  The loops over the payloads keep, of each kind, the last one.  \<open>scan_rekey\<close> is the loop of
  \<open>childRekeyResponse\<close> and of \<open>ikeRekeyPayloads\<close>, which leave at the first error notify.
\<close>

fun scan_rekey ::
  "Payloads \<Rightarrow> Proposal list option \<times> bytes \<times> (u16 \<times> bytes) option \<Rightarrow>
   (sess_err, Proposal list option \<times> bytes \<times> (u16 \<times> bytes) option) res" where
  "scan_rekey [] acc = Ok acc"
| "scan_rekey (p # ps) (saP, nonce, ke) =
     (case p of
        SAPayload props \<Rightarrow> scan_rekey ps (Some props, nonce, ke)
      | NoncePayload d \<Rightarrow> scan_rekey ps (saP, d, ke)
      | KEPayload g d \<Rightarrow> scan_rekey ps (saP, nonce, Some (g, d))
      | NotifyPayload _ t _ _ \<Rightarrow>
          (case notifyError t of Some e \<Rightarrow> Err e | None \<Rightarrow> scan_rekey ps (saP, nonce, ke))
      | _ \<Rightarrow> scan_rekey ps (saP, nonce, ke))"

definition childRekeyResponse ::
  "SessionConfig \<Rightarrow> Payloads \<Rightarrow> (sess_err, Proposal \<times> transformSuite \<times> bytes \<times> (u16 \<times> bytes) option) res" where
  "childRekeyResponse cfg inner =
     bindR (scan_rekey inner (None, [], None)) (\<lambda>(saP, nr, ke).
     case saP of
       None \<Rightarrow> Err ErrMissingSA
     | Some [] \<Rightarrow> Err ErrNoProposals
     | Some (prop # _) \<Rightarrow>
         (case selectedSuite prop (enabledESPSuites cfg) of
            None \<Rightarrow> Err ErrBadProposal
          | Some suite \<Rightarrow>
              guardR (length (pr_SPI prop) \<noteq> 4) ErrBadProposal
              (guardR (length nr = 0) ErrMissingNonce
              (Ok (prop, suite, nr, ke)))))"

fun scan_request ::
  "Payloads \<Rightarrow> Proposal list option \<times> bytes \<times> (u16 \<times> bytes) option \<times> TrafficSelector list \<times> TrafficSelector list \<Rightarrow>
   Proposal list option \<times> bytes \<times> (u16 \<times> bytes) option \<times> TrafficSelector list \<times> TrafficSelector list" where
  "scan_request [] acc = acc"
| "scan_request (p # ps) (saP, ni, ke, tsi, tsr) =
     scan_request ps
       (case p of
          SAPayload props \<Rightarrow> (Some props, ni, ke, tsi, tsr)
        | NoncePayload d \<Rightarrow> (saP, d, ke, tsi, tsr)
        | KEPayload g d \<Rightarrow> (saP, ni, Some (g, d), tsi, tsr)
        | TSiPayload s \<Rightarrow> (saP, ni, ke, s, tsr)
        | TSrPayload s \<Rightarrow> (saP, ni, ke, tsi, s)
        | _ \<Rightarrow> (saP, ni, ke, tsi, tsr))"

definition childRekeyRequestPayloads ::
  "Payloads \<Rightarrow>
   (sess_err, Proposal list \<times> bytes \<times> (u16 \<times> bytes) option \<times> TrafficSelector list \<times> TrafficSelector list) res" where
  "childRekeyRequestPayloads inner =
     (case scan_request inner (None, [], None, [], []) of
        (None, _) \<Rightarrow> Err ErrMissingSA
      | (Some saP, ni, ke, tsi, tsr) \<Rightarrow>
          guardR (length ni = 0) ErrMissingNonce (Ok (saP, ni, ke, tsi, tsr)))"

definition ikeRekeyPayloads :: "Payloads \<Rightarrow> (sess_err, Proposal list \<times> bytes \<times> u16 \<times> bytes) res" where
  "ikeRekeyPayloads inner =
     bindR (scan_rekey inner (None, [], None)) (\<lambda>(saP, nonce, ke).
     case saP of
       None \<Rightarrow> Err ErrMissingSA
     | Some saP \<Rightarrow>
         (case ke of
            None \<Rightarrow> Err ErrMissingNonceKE
          | Some (g, d) \<Rightarrow>
              guardR (length nonce = 0 \<or> length d = 0) ErrMissingNonceKE (Ok (saP, nonce, g, d))))"

fun isIKERekey :: "Payloads \<Rightarrow> bool" where
  "isIKERekey [] = False"
| "isIKERekey (SAPayload props # ps) =
     (case props of
        prop # _ \<Rightarrow> if pr_Protocol prop = ProtocolIKE then True else isIKERekey ps
      | [] \<Rightarrow> isIKERekey ps)"
| "isIKERekey (_ # ps) = isIKERekey ps"

section \<open>Child SA rekey, as initiator\<close>

definition childRekeyGroup :: "Session \<Rightarrow> u16" where
  "childRekeyGroup s =
     (if s_childPFSGroup s \<noteq> 0 then s_childPFSGroup s
      else if s_ikeDHGroup s \<noteq> 0 then s_ikeDHGroup s
      else preferredDHGroups ! 0)"

definition initiateChildRekey :: "world \<Rightarrow> bool \<Rightarrow> (Session, sess_err, unit) go" where
  "initiateChildRekey W reestablish =
     readS (\<lambda>s. s) (\<lambda>s.
     case s_child s of
       None \<Rightarrow> failS ErrNoChildSA
     | Some child \<Rightarrow>
         bindS (randBytes W 4) (\<lambda>newSPI.
         bindS (randBytes W nonceLen) (\<lambda>ni.
         bindS (if s_childPFS s then bindS (newDHS W (childRekeyGroup s)) (\<lambda>d. retS (Some d)) else retS None) (\<lambda>dh.
         let esp = enabledESPSuites (s_cfg s);
             inner =
               appendTrafficSelectors
                 ((if \<not> reestablish
                   then [NotifyPayload ProtocolESP NotifyRekeySA (PutUint32 (ch_InitiatorSPI child)) []] else []) @
                  [SAPayload (buildProposals newSPI esp (case dh of Some d \<Rightarrow> [dh_Group d] | None \<Rightarrow> []))] @
                  [NoncePayload ni] @
                  (case dh of Some d \<Rightarrow> [KEPayload (dh_Group d) (dh_Public d)] | None \<Rightarrow> []))
                 (cf_RequestIPv6 (s_cfg s));
             msgID = s_messageID s in
         bindS (encodeSK W ExchangeCreateChildSA requestFlags msgID inner) (\<lambda>raw.
         bindS (nowS W) (\<lambda>now.
         thenS (modS (\<lambda>s. s\<lparr>s_messageID := s_messageID s + 1,
            s_pending := Some \<lparr>pe_kind = exChildRekey, pe_msgID = msgID, pe_raw = raw, pe_attempts = 1,
              pe_nextRetransmit = now + retransmitBase (s_cfg s),
              pe_child = Some \<lparr>cr_newInSPI = Uint32 newSPI, cr_oldInSPI = ch_InitiatorSPI child, cr_ni = ni,
                cr_reestablish = reestablish, cr_dh = dh\<rparr>,
              pe_ike = None, pe_fast = False\<rparr>\<rparr>))
         (sendIKE W raw)))))))"

definition sendChildDelete :: "world \<Rightarrow> u32 \<Rightarrow> (Session, sess_err, unit) go" where
  "sendChildDelete W inSPI =
     readS s_messageID (\<lambda>msgID.
     bindS (encodeSK W ExchangeInformational requestFlags msgID
              [DeletePayload ProtocolESP [PutUint32 inSPI]]) (\<lambda>raw.
     bindS (nowS W) (\<lambda>now.
     thenS (modS (\<lambda>s. s\<lparr>s_messageID := s_messageID s + 1,
        s_pending := Some \<lparr>pe_kind = exDelete, pe_msgID = msgID, pe_raw = raw, pe_attempts = 1,
          pe_nextRetransmit = now + retransmitBase (s_cfg s), pe_child = None, pe_ike = None, pe_fast = False\<rparr>\<rparr>))
     (sendIKE W raw))))"

text \<open>\<open>childRekeyKeys\<close> is the \<open>switch\<close> of \<open>completeChildRekey\<close> that derives the keys.\<close>

definition childRekeyKeys ::
  "world \<Rightarrow> IKESA \<Rightarrow> childRekeyCtx \<Rightarrow> Proposal \<Rightarrow> transformSuite \<Rightarrow> bytes \<Rightarrow> (u16 \<times> bytes) option \<Rightarrow>
   (sess_err, ChildKeys) res" where
  "childRekeyKeys W sa c prop suite nr ke =
     (case (cr_dh c, ke) of
        (Some d, Some (g, kd)) \<Rightarrow>
          guardR (g \<noteq> dh_Group d) (ErrKEGroupMismatch g (dh_Group d))
          (bindR (wrapR ErrIKESA (Shared (w_curve W) d kd)) (\<lambda>shared.
           wrapR ErrIKESA
             (DeriveChildKeysPFS (w_prims W) sa shared (cr_ni c) nr (su_encrKeyLen suite) (su_integKeyLen suite))))
      | (None, Some _) \<Rightarrow> Err ErrUnsolicitedKE
      | (d, None) \<Rightarrow>
          guardR (d \<noteq> None \<and> selectedDHGroup prop \<noteq> 0) ErrKEOmitted
          (wrapR ErrIKESA
             (DeriveChildKeys (w_prims W) sa (cr_ni c) nr (su_encrKeyLen suite) (su_integKeyLen suite))))"

definition completeChildRekey ::
  "world \<Rightarrow> Payloads \<Rightarrow> pendingExchange \<Rightarrow> (Session, sess_err, unit) go" where
  "completeChildRekey W inner p =
     readS (\<lambda>s. s) (\<lambda>s.
     bindS (liftS (childRekeyResponse (s_cfg s) inner)) (\<lambda>(prop, suite, nr, ke).
     bindS (liftS (be_Uint32 (pr_SPI prop))) (\<lambda>respSPI.
     derefS (pe_child p) (\<lambda>c.
     derefS (s_ikeSA s) (\<lambda>sa.
     bindS (liftS (childRekeyKeys W sa c prop suite nr ke)) (\<lambda>keys.
     thenS (InstallChildSA_call
       \<lparr>cu_NewInSPI = cr_newInSPI c, cu_NewOutSPI = respSPI, cu_OldInSPI = cr_oldInSPI c, cu_Suite = su_id suite,
        cu_OutEncr = EncrIR keys, cu_OutInteg = IntegIR keys, cu_InEncr = EncrRI keys, cu_InInteg = IntegRI keys\<rparr>)
     (bindS (nowS W) (\<lambda>now.
     thenS (modS (\<lambda>s. s\<lparr>
        s_child := Some \<lparr>ch_InitiatorSPI = cr_newInSPI c, ch_ResponderSPI = respSPI, ch_Suite = su_id suite, ch_Keys = keys\<rparr>,
        s_childInstalledAt := now, s_childReestablish := False, s_nextChildReestablish := zeroTime\<rparr>))
     (if cr_reestablish c then retS ()
      else if cr_oldInSPI c = cr_newInSPI c then retS ()
      else sendChildDelete W (cr_oldInSPI c))))))))))"

section \<open>Child SA rekey, as responder\<close>

text \<open>
  The Diffie-Hellman exchange of a request with a KE payload: the fresh key pair and the
  shared secret, or the answer to a request whose KE value cannot be used.
\<close>

definition answerKE ::
  "world \<Rightarrow> ctxRef \<Rightarrow> u32 \<Rightarrow> bool \<Rightarrow> u16 \<Rightarrow> bytes \<Rightarrow> (Session, sess_err, DH \<times> bytes) go" where
  "answerKE W dec msgID viaOld grp data =
     bindS (onErrS (newDHS W grp) (sendTemporaryFailure W dec msgID viaOld)) (\<lambda>d.
     bindS (onErrS (liftS (wrapR ErrIKESA (Shared (w_curve W) d data)))
              (sendNotifyResponse W dec msgID viaOld ProtocolNone NotifyInvalidSyntax [])) (\<lambda>shared.
     retS (d, shared)))"

text \<open>
  The second half of \<open>handleChildRekeyRequest\<close>, once a proposal is chosen: respond, derive,
  install, cache, send.
\<close>

definition answerChildRekey ::
  "world \<Rightarrow> u32 \<Rightarrow> ctxRef \<Rightarrow> bool \<Rightarrow> ChildSA \<Rightarrow> Proposal \<Rightarrow> transformSuite \<Rightarrow> bytes \<Rightarrow> (u16 \<times> bytes) option \<Rightarrow>
   TrafficSelector list \<Rightarrow> TrafficSelector list \<Rightarrow> (Session, sess_err, unit) go" where
  "answerChildRekey W msgID dec viaOld child prop suite ni ke reqTSi reqTSr =
     bindS (liftS (be_Uint32 (pr_SPI prop))) (\<lambda>serverNewSPI.
     bindS (case ke of None \<Rightarrow> retS None
            | Some (g, kd) \<Rightarrow> bindS (answerKE W dec msgID viaOld g kd) (\<lambda>x. retS (Some x))) (\<lambda>dhs.
     bindS (onErrS (randBytes W 4) (sendTemporaryFailure W dec msgID viaOld)) (\<lambda>newSPI.
     bindS (onErrS (randBytes W nonceLen) (sendTemporaryFailure W dec msgID viaOld)) (\<lambda>nr.
     readS (\<lambda>s. cf_RequestIPv6 (s_cfg s)) (\<lambda>ipv6.
     let head =
           [SAPayload [buildProposalForSuite (pr_Number prop) suite newSPI
                         (case dhs of Some (d, _) \<Rightarrow> [dh_Group d] | None \<Rightarrow> [])]] @
           [NoncePayload nr] @
           (case dhs of Some (d, _) \<Rightarrow> [KEPayload (dh_Group d) (dh_Public d)] | None \<Rightarrow> []);
         resp =
           (if 0 < length reqTSi \<and> 0 < length reqTSr then head @ [TSiPayload reqTSi, TSrPayload reqTSr]
            else appendTrafficSelectors head ipv6) in
     bindS (encodeWith W dec ExchangeCreateChildSA responseFlags msgID resp) (\<lambda>raw.
     readS (ctxOf dec) (\<lambda>c.
     derefS c (\<lambda>c.
     bindS (liftS (wrapR ErrIKESA
         (case dhs of
            Some (d, shared) \<Rightarrow>
              DeriveChildKeysPFS (w_prims W) (cx_sa c) shared ni nr (su_encrKeyLen suite) (su_integKeyLen suite)
          | None \<Rightarrow>
              DeriveChildKeys (w_prims W) (cx_sa c) ni nr (su_encrKeyLen suite) (su_integKeyLen suite)))) (\<lambda>keys.
     thenS (case dhs of
              Some (d, _) \<Rightarrow> modS (\<lambda>s. s\<lparr>s_childPFS := True, s_childPFSGroup := dh_Group d\<rparr>)
            | None \<Rightarrow> retS ())
     (thenS (InstallChildSA_call
       \<lparr>cu_NewInSPI = Uint32 newSPI, cu_NewOutSPI = serverNewSPI, cu_OldInSPI = ch_InitiatorSPI child,
        cu_Suite = su_id suite,
        cu_OutEncr = EncrRI keys, cu_OutInteg = IntegRI keys, cu_InEncr = EncrIR keys, cu_InInteg = IntegIR keys\<rparr>)
     (bindS (nowS W) (\<lambda>now.
     thenS (modS (\<lambda>s. s\<lparr>
        s_child := Some \<lparr>ch_InitiatorSPI = Uint32 newSPI, ch_ResponderSPI = serverNewSPI,
                         ch_Suite = su_id suite, ch_Keys = keys\<rparr>,
        s_childInstalledAt := now\<rparr>))
     (readS (\<lambda>s. cf_RekeyLifetime (s_cfg s)) (\<lambda>lifetime.
     bindS (jitteredDeadline W now lifetime) (\<lambda>deadline.
     thenS (modS (\<lambda>s. s\<lparr>s_nextChildRekey := deadline\<rparr>))
     (thenS (recordPeerResponse viaOld msgID raw)
     (sendIKE W raw)))))))))))))))))"

definition handleChildRekeyRequest ::
  "world \<Rightarrow> u32 \<Rightarrow> Payloads \<Rightarrow> ctxRef \<Rightarrow> bool \<Rightarrow> (Session, sess_err, unit) go" where
  "handleChildRekeyRequest W msgID inner dec viaOld =
     readS (\<lambda>s. s) (\<lambda>s.
     case s_child s of
       None \<Rightarrow>
         thenS (sendNotifyResponse W dec msgID viaOld ProtocolESP NotifyChildSANotFound []) (failS ErrNoChildSA)
     | Some child \<Rightarrow>
         bindS (onErrS (liftS (childRekeyRequestPayloads inner))
                  (sendNotifyResponse W dec msgID viaOld ProtocolESP NotifyNoProposalChosen []))
           (\<lambda>(saP, ni, ke, reqTSi, reqTSr).
         let unsupported = (case ke of Some (g, _) \<Rightarrow> \<not> supportedDHGroup g | None \<Rightarrow> False);
             requireGroup = (case ke of Some (g, _) \<Rightarrow> g | None \<Rightarrow> 0);
             esp = enabledESPSuites (s_cfg s) in
         if unsupported then sendInvalidKEPayload W dec msgID viaOld
         else
           (case selectProposal saP esp requireGroup of
              None \<Rightarrow>
                if requireGroup \<noteq> 0 \<and> selectProposal saP esp 0 \<noteq> None
                then sendInvalidKEPayload W dec msgID viaOld
                else thenS (sendNotifyResponse W dec msgID viaOld ProtocolESP NotifyNoProposalChosen [])
                       (failS ErrNoMatchingProposal)
            | Some (prop, suite) \<Rightarrow>
                answerChildRekey W msgID dec viaOld child prop suite ni ke reqTSi reqTSr)))"

section \<open>IKE SA rekey\<close>

definition initiateIKERekey :: "world \<Rightarrow> (Session, sess_err, unit) go" where
  "initiateIKERekey W =
     bindS (randUint64 W) (\<lambda>newSPIi.
     readS s_ikeDHGroup (\<lambda>g.
     bindS (newDHS W g) (\<lambda>d.
     bindS (randBytes W nonceLen) (\<lambda>ni.
     readS (\<lambda>s. s) (\<lambda>s.
     let inner =
           [SAPayload (buildProposals (PutUint64 newSPIi) (enabledIKESuites (s_cfg s)) [dh_Group d]),
            NoncePayload ni,
            KEPayload (dh_Group d) (dh_Public d)];
         msgID = s_messageID s in
     bindS (encodeSK W ExchangeCreateChildSA requestFlags msgID inner) (\<lambda>raw.
     bindS (nowS W) (\<lambda>now.
     thenS (modS (\<lambda>s. s\<lparr>s_messageID := s_messageID s + 1,
        s_pending := Some \<lparr>pe_kind = exIKERekey, pe_msgID = msgID, pe_raw = raw, pe_attempts = 1,
          pe_nextRetransmit = now + retransmitBase (s_cfg s), pe_child = None,
          pe_ike = Some \<lparr>ir_newSPIi = newSPIi, ir_ni = ni, ir_dh = d\<rparr>, pe_fast = False\<rparr>\<rparr>))
     (sendIKE W raw))))))))"

definition sendIKEDeleteUnderCurrent :: "world \<Rightarrow> (Session, sess_err, unit) go" where
  "sendIKEDeleteUnderCurrent W =
     readS s_messageID (\<lambda>msgID.
     bindS (encodeSK W ExchangeInformational requestFlags msgID [DeletePayload ProtocolIKE []]) (\<lambda>raw.
     bindS (nowS W) (\<lambda>now.
     thenS (modS (\<lambda>s. s\<lparr>s_messageID := s_messageID s + 1,
        s_oldIKEDelete := Some \<lparr>pe_kind = exDelete, pe_msgID = msgID, pe_raw = raw, pe_attempts = 1,
          pe_nextRetransmit = now + retransmitBase (s_cfg s), pe_child = None, pe_ike = None, pe_fast = False\<rparr>\<rparr>))
     (sendIKE W raw))))"

definition swapIKE :: "world \<Rightarrow> IKESA \<Rightarrow> u64 \<Rightarrow> u64 \<Rightarrow> (Session, 'e, unit) go" where
  "swapIKE W newIKE spii spir =
     bindS (nowS W) (\<lambda>now.
     thenS (modS (\<lambda>s. s\<lparr>
        s_oldIKE := curCtx s, s_oldIKEUntil := now + ikeRekeyGrace,
        s_oldPeer := s_peer s, s_peer := emptyDedup,
        s_ikeSA := Some newIKE, s_initiatorSPI := spii, s_responderSPI := spir, s_messageID := 0\<rparr>))
     (bindS (nowS W) (\<lambda>installed.
     thenS (modS (\<lambda>s. s\<lparr>s_ikeInstalledAt := installed\<rparr>))
     (readS (\<lambda>s. ikeRekeyLifetime (s_cfg s)) (\<lambda>lifetime.
     bindS (jitteredDeadline W installed lifetime) (\<lambda>deadline.
     modS (\<lambda>s. s\<lparr>s_nextIKERekey := deadline, s_pending := None\<rparr>)))))))"

definition completeIKERekey ::
  "world \<Rightarrow> Payloads \<Rightarrow> pendingExchange \<Rightarrow> (Session, sess_err, unit) go" where
  "completeIKERekey W inner p =
     bindS (liftS (ikeRekeyPayloads inner)) (\<lambda>(saP, nr, kg, kd).
     readS (\<lambda>s. s) (\<lambda>s.
     case saP of
       [] \<Rightarrow> failS ErrNoProposals
     | prop # _ \<Rightarrow>
         (case selectedSuite prop (enabledIKESuites (s_cfg s)) of
            None \<Rightarrow> failS ErrBadProposal
          | Some suite \<Rightarrow>
              guardS (length (pr_SPI prop) \<noteq> 8) ErrBadProposal
              (bindS (liftS (be_Uint64 (pr_SPI prop))) (\<lambda>newSPIr.
               derefS (pe_ike p) (\<lambda>c.
               guardS (kg \<noteq> dh_Group (ir_dh c)) (ErrKEGroupMismatch kg (dh_Group (ir_dh c)))
               (bindS (liftS (wrapR ErrIKESA (Shared (w_curve W) (ir_dh c) kd))) (\<lambda>shared.
                derefS (s_ikeSA s) (\<lambda>sa.
                bindS (liftS (wrapR ErrIKESA
                    (DeriveRekeyIKE (w_prims W) (su_id suite) (SKd sa) Initiator (ir_newSPIi c) newSPIr (ir_ni c) nr shared)))
                  (\<lambda>newIKE.
                thenS (ignoreS (sendIKEDeleteUnderCurrent W))
                (swapIKE W newIKE (ir_newSPIi c) newSPIr))))))))))) "

text \<open>The second half of \<open>handleIKERekeyRequest\<close>, once a proposal is chosen.\<close>

definition answerIKERekey ::
  "world \<Rightarrow> u32 \<Rightarrow> ctxRef \<Rightarrow> Proposal \<Rightarrow> transformSuite \<Rightarrow> bytes \<Rightarrow> u16 \<Rightarrow> bytes \<Rightarrow> (Session, sess_err, unit) go" where
  "answerIKERekey W msgID dec prop suite ni kg kd =
     (let viaOld = False in
      bindS (liftS (be_Uint64 (pr_SPI prop))) (\<lambda>serverNewSPIi.
      bindS (answerKE W dec msgID viaOld kg kd) (\<lambda>(d, shared).
      bindS (onErrS (randUint64 W) (sendTemporaryFailure W dec msgID viaOld)) (\<lambda>newSPIr.
      bindS (onErrS (randBytes W nonceLen) (sendTemporaryFailure W dec msgID viaOld)) (\<lambda>nr.
      readS (ctxOf dec) (\<lambda>c.
      derefS c (\<lambda>c.
      bindS (onErrS (liftS (wrapR ErrIKESA
               (DeriveRekeyIKE (w_prims W) (su_id suite) (SKd (cx_sa c)) Responder serverNewSPIi newSPIr ni nr shared)))
               (sendTemporaryFailure W dec msgID viaOld)) (\<lambda>newIKE.
      let resp =
            [SAPayload [buildProposalForSuite (pr_Number prop) suite (PutUint64 newSPIr) [dh_Group d]],
             NoncePayload nr,
             KEPayload (dh_Group d) (dh_Public d)] in
      bindS (onErrS (encodeWith W dec ExchangeCreateChildSA responseFlags msgID resp)
               (sendTemporaryFailure W dec msgID viaOld)) (\<lambda>raw.
      thenS (recordPeerResponse viaOld msgID raw)
      (thenS (swapIKE W newIKE serverNewSPIi newSPIr)
      (thenS (modS (\<lambda>s. s\<lparr>s_ikeDHGroup := dh_Group d\<rparr>))
      (sendIKE W raw))))))))))))"

definition handleIKERekeyRequest ::
  "world \<Rightarrow> u32 \<Rightarrow> Payloads \<Rightarrow> ctxRef \<Rightarrow> (Session, sess_err, unit) go" where
  "handleIKERekeyRequest W msgID inner dec =
     (let viaOld = False in
      bindS (onErrS (liftS (ikeRekeyPayloads inner))
               (sendNotifyResponse W dec msgID viaOld ProtocolNone NotifyNoProposalChosen [])) (\<lambda>(saP, ni, kg, kd).
      if \<not> supportedDHGroup kg then sendInvalidKEPayload W dec msgID viaOld
      else
        readS (\<lambda>s. enabledIKESuites (s_cfg s)) (\<lambda>suites.
        case selectProposal saP suites kg of
          None \<Rightarrow>
            if selectProposal saP suites 0 \<noteq> None then sendInvalidKEPayload W dec msgID viaOld
            else thenS (sendNotifyResponse W dec msgID viaOld ProtocolNone NotifyNoProposalChosen [])
                   (failS ErrNoMatchingProposal)
        | Some (prop, suite) \<Rightarrow> answerIKERekey W msgID dec prop suite ni kg kd)))"

end
