(* ===== verification/Driver.thy ===== *)
theory Driver
  imports Rekey
begin

text \<open>
  The control loop of an established session, \<open>internal/session/informational.go\<close>: it answers
  the peer's requests, completes and retransmits its own, and runs the periodic timers.
\<close>

definition rekeyRetryInterval :: duration where [simp]: "rekeyRetryInterval = Minute"
definition suspendThreshold :: duration where [simp]: "suspendThreshold = 5 * Second"
definition fastDPDBase :: duration where [simp]: "fastDPDBase = 1 * Second"
definition fastDPDTries :: int where [simp]: "fastDPDTries = 2"

section \<open>Messages without inner payloads\<close>

definition encodeSKEmptyWith ::
  "prims \<Rightarrow> ikeCtx \<Rightarrow> bytes \<Rightarrow> ExchangeType \<Rightarrow> Flags \<Rightarrow> u32 \<Rightarrow> (prot_err, bytes) res \<times> IKESA" where
  "encodeSKEmptyWith P c rnd exchangeType flags msgID =
     (let (r, sa') = EncryptToSK P (cx_sa c) rnd [] in
      (bindR (wrapR ErrIKE r) (\<lambda>skData.
       bindR (wrapR ErrSKMessage (Marshal
         \<lparr>InitiatorSPI = cx_spii c, ResponderSPI = cx_spir c, Exchange = exchangeType, MFlags = flags,
          MessageID = msgID, MPayloads = [EncryptedPayload PayloadNone skData]\<rparr>)) (\<lambda>raw.
       wrapR ErrIKE (FinalizeSK P sa' raw (length skData)))), sa'))"

definition encodeEmpty ::
  "world \<Rightarrow> ctxRef \<Rightarrow> ExchangeType \<Rightarrow> (IKESA \<Rightarrow> Flags) \<Rightarrow> u32 \<Rightarrow> (Session, sess_err, bytes) go" where
  "encodeEmpty W dec exchangeType flags msgID =
     readS (ctxOf dec) (\<lambda>c.
     derefS c (\<lambda>c.
     bindS tickS (\<lambda>n.
     let (r, sa') = encodeSKEmptyWith (w_prims W) c (w_rand W n) exchangeType (flags (cx_sa c)) msgID in
     thenS (modS (putSA dec sa')) (liftS (wrapR ErrProt r)))))"

section \<open>The peer's requests\<close>

definition dedupPeerRequest :: "world \<Rightarrow> u32 \<Rightarrow> bool \<Rightarrow> (Session, 'e, bool) go" where
  "dedupPeerRequest W msgID viaOld =
     readS (\<lambda>s. if viaOld then s_oldPeer s else s_peer s) (\<lambda>dd.
     if dd_set dd \<and> msgID \<le> dd_msgID dd then
       thenS (case dd_resp dd of
                Some resp \<Rightarrow> if msgID = dd_msgID dd then ignoreS (sendIKE W resp) else retS ()
              | None \<Rightarrow> retS ())
       (retS True)
     else retS False)"

definition clearOldIKEDelete :: "u32 \<Rightarrow> (Session, 'e, unit) go" where
  "clearOldIKEDelete msgID =
     readS s_oldIKEDelete (\<lambda>p.
     case p of
       Some p \<Rightarrow> if pe_msgID p = msgID then modS (\<lambda>s. s\<lparr>s_oldIKEDelete := None\<rparr>) else retS ()
     | None \<Rightarrow> retS ())"

definition clearPending :: "u32 \<Rightarrow> (Session, 'e, unit) go" where
  "clearPending msgID =
     readS s_pending (\<lambda>p.
     case p of
       Some p \<Rightarrow>
         if pe_msgID p = msgID \<and> (pe_kind p = exDPD \<or> pe_kind p = exDelete)
         then modS (\<lambda>s. s\<lparr>s_pending := None\<rparr>) else retS ()
     | None \<Rightarrow> retS ())"

definition completeMatchingRekey :: "world \<Rightarrow> u32 \<Rightarrow> Payloads \<Rightarrow> bool \<Rightarrow> (Session, 'e, unit) go" where
  "completeMatchingRekey W msgID inner viaOld =
     (if viaOld then retS ()
      else
        readS s_pending (\<lambda>p.
        case p of
          None \<Rightarrow> retS ()
        | Some p \<Rightarrow>
            if pe_msgID p \<noteq> msgID then retS ()
            else if pe_kind p \<noteq> exChildRekey \<and> pe_kind p \<noteq> exIKERekey then retS ()
            else
              thenS (modS (\<lambda>s. s\<lparr>s_pending := None\<rparr>))
              (if pe_kind p = exChildRekey then
                 bindS (tryS (completeChildRekey W inner p)) (\<lambda>r.
                 case r of
                   Inl _ \<Rightarrow> retS ()
                 | Inr _ \<Rightarrow>
                     readS (\<lambda>s. (s_childInstalledAt s, cf_RekeyLifetime (s_cfg s))) (\<lambda>(installed, lifetime).
                     bindS (jitteredDeadline W installed lifetime) (\<lambda>deadline.
                     modS (\<lambda>s. s\<lparr>s_nextChildRekey := deadline\<rparr>))))
               else ignoreS (completeIKERekey W inner p))))"

fun deleteRefsChild :: "bytes list \<Rightarrow> ChildSA \<Rightarrow> bool" where
  "deleteRefsChild [] child = False"
| "deleteRefsChild (raw # spis) child =
     (if length raw \<noteq> 4 then deleteRefsChild spis child
      else if Uint32 raw = ch_ResponderSPI child \<or> Uint32 raw = ch_InitiatorSPI child then True
      else deleteRefsChild spis child)"

definition handleInboundChildDelete :: "world \<Rightarrow> bytes list \<Rightarrow> (Session, 'e, unit) go" where
  "handleInboundChildDelete W spis =
     readS (\<lambda>s. s) (\<lambda>s.
     case s_child s of
       None \<Rightarrow> retS ()
     | Some child \<Rightarrow>
         if \<not> s_dataPlane s \<or> SPISize spis \<noteq> 4 then retS ()
         else if \<not> deleteRefsChild spis child then retS ()
         else if s_pending s = None then
           bindS (tryS (initiateChildRekey W True)) (\<lambda>r.
           case r of
             Inl _ \<Rightarrow> modS (\<lambda>s. s\<lparr>s_childReestablish := True\<rparr>)
           | Inr _ \<Rightarrow> modS (\<lambda>s. s\<lparr>s_childReestablish := False, s_nextChildReestablish := zeroTime\<rparr>))
         else modS (\<lambda>s. s\<lparr>s_childReestablish := True\<rparr>))"

text \<open>\<open>info_loop\<close> is the loop of \<open>handleInformationalRequest\<close> over the inner payloads.\<close>

fun info_loop :: "world \<Rightarrow> bool \<Rightarrow> Payloads \<Rightarrow> bool \<Rightarrow> (Session, 'e, bool) go" where
  "info_loop W viaOld [] teardown = retS teardown"
| "info_loop W viaOld (DeletePayload proto spis # ps) teardown =
     (if proto = ProtocolIKE then info_loop W viaOld ps (if \<not> viaOld then True else teardown)
      else if proto = ProtocolESP then
        thenS (handleInboundChildDelete W spis) (info_loop W viaOld ps teardown)
      else info_loop W viaOld ps teardown)"
| "info_loop W viaOld (_ # ps) teardown = info_loop W viaOld ps teardown"

definition handleInformationalRequest ::
  "world \<Rightarrow> u32 \<Rightarrow> Payloads \<Rightarrow> ctxRef \<Rightarrow> bool \<Rightarrow> (Session, 'e, bool) go" where
  "handleInformationalRequest W msgID inner dec viaOld =
     bindS (info_loop W viaOld inner False) (\<lambda>teardown.
     bindS (tryS (encodeEmpty W dec ExchangeInformational responseFlags msgID)) (\<lambda>r.
     thenS (case r of
              Inl _ \<Rightarrow> retS ()
            | Inr ack \<Rightarrow> thenS (recordPeerResponse viaOld msgID ack) (ignoreS (sendIKE W ack)))
     (retS teardown)))"

text \<open>
  \<open>handleInbound\<close> returns whether the session is torn down.  The pointer comparison
  \<open>dec.sa == s.oldIKE.sa\<close> is \<open>dec = Old\<close>.  \<open>dispatch\<close> is its \<open>switch\<close> over the exchange type.
\<close>

definition dispatch :: "world \<Rightarrow> Message \<Rightarrow> Payloads \<Rightarrow> ctxRef \<Rightarrow> (Session, 'e, bool) go" where
  "dispatch W hdr inner dec =
     (let isResponse = IsResponse (MFlags hdr); viaOld = (dec = Old); msgID = MessageID hdr in
      if Exchange hdr = ExchangeInformational then
        (if isResponse then
           thenS (if viaOld then clearOldIKEDelete msgID else clearPending msgID) (retS False)
         else
           bindS (dedupPeerRequest W msgID viaOld) (\<lambda>dup.
           if dup then retS False
           else
             bindS (handleInformationalRequest W msgID inner dec viaOld) (\<lambda>teardown.
             if teardown then thenS (emitS Dead) (retS True) else retS False)))
      else if Exchange hdr = ExchangeCreateChildSA then
        (if isResponse then thenS (completeMatchingRekey W msgID inner viaOld) (retS False)
         else
           bindS (dedupPeerRequest W msgID viaOld) (\<lambda>dup.
           if dup then retS False
           else
             readS s_pending (\<lambda>p.
             if (case p of Some p \<Rightarrow> pe_kind p = exChildRekey \<or> pe_kind p = exIKERekey | None \<Rightarrow> False)
             then thenS (sendTemporaryFailure W dec msgID viaOld) (retS False)
             else
               let ikeRekey = isIKERekey inner in
               if ikeRekey \<and> viaOld then thenS (sendTemporaryFailure W dec msgID viaOld) (retS False)
               else
                 thenS (ignoreS (if ikeRekey then handleIKERekeyRequest W msgID inner dec
                                 else handleChildRekeyRequest W msgID inner dec viaOld))
                 (retS False))))
      else retS False)"

definition handleInbound :: "world \<Rightarrow> bytes \<Rightarrow> (Session, 'e, bool) go" where
  "handleInbound W raw =
     bindS (tryS (decodeS W raw)) (\<lambda>r.
     case r of
       Inl _ \<Rightarrow> retS False
     | Inr (hdr, inner, dec) \<Rightarrow>
         bindS (nowS W) (\<lambda>now.
         thenS (modS (\<lambda>s. s\<lparr>s_lastInbound := now\<rparr>))
         (dispatch W hdr inner dec)))"

section \<open>The timers\<close>

definition initiateDPD :: "world \<Rightarrow> bool \<Rightarrow> (Session, sess_err, unit) go" where
  "initiateDPD W fast =
     readS s_messageID (\<lambda>msgID.
     bindS (encodeEmpty W Cur ExchangeInformational requestFlags msgID) (\<lambda>raw.
     bindS (nowS W) (\<lambda>now.
     thenS (modS (\<lambda>s. s\<lparr>s_messageID := s_messageID s + 1,
        s_pending := Some \<lparr>pe_kind = exDPD, pe_msgID = msgID, pe_raw = raw, pe_attempts = 1,
          pe_nextRetransmit = now + (if fast then fastDPDBase else retransmitBase (s_cfg s)),
          pe_child = None, pe_ike = None, pe_fast = fast\<rparr>\<rparr>))
     (sendIKE W raw))))"

definition pendingTries :: "SessionConfig \<Rightarrow> pendingExchange \<Rightarrow> int" where
  "pendingTries c p = (if pe_fast p then fastDPDTries else retransmitTries c)"

definition pendingBackoff :: "SessionConfig \<Rightarrow> pendingExchange \<Rightarrow> int \<Rightarrow> duration" where
  "pendingBackoff c p attempt = (if pe_fast p then fastDPDBase else retransBackoff c attempt)"

definition detectSuspend :: "world \<Rightarrow> time \<Rightarrow> time \<Rightarrow> (Session, 'e, unit) go" where
  "detectSuspend W now wall =
     readS s_lastTickWall (\<lambda>prev.
     thenS (modS (\<lambda>s. s\<lparr>s_lastTickWall := wall\<rparr>))
     (if prev = zeroTime \<or> wall - prev \<le> suspendThreshold then retS ()
      else
        readS s_pending (\<lambda>p.
        case p of
          None \<Rightarrow> ignoreS (initiateDPD W True)
        | Some p \<Rightarrow>
            if pe_kind p = exDPD
            then modS (\<lambda>s. s\<lparr>s_pending := Some (p\<lparr>pe_fast := True, pe_nextRetransmit := now\<rparr>)\<rparr>)
            else modS (\<lambda>s. s\<lparr>s_pending := Some (p\<lparr>pe_fast := True, pe_nextRetransmit := now\<rparr>), s_fastDPDDue := True\<rparr>))))"

text \<open>The parts of \<open>housekeeping\<close>, in order: the grace period of a superseded IKE SA,\<close>

definition hk_grace :: "time \<Rightarrow> Session \<Rightarrow> Session" where
  "hk_grace now s =
     (if s_oldIKE s \<noteq> None \<and> now > s_oldIKEUntil s
      then s\<lparr>s_oldIKE := None, s_oldPeer := emptyDedup, s_oldIKEDelete := None\<rparr> else s)"

text \<open>the retransmission of its DELETE,\<close>

definition hk_oldDelete :: "world \<Rightarrow> time \<Rightarrow> (Session, 'e, unit) go" where
  "hk_oldDelete W now =
     readS (\<lambda>s. s) (\<lambda>s.
     case s_oldIKEDelete s of
       None \<Rightarrow> retS ()
     | Some p \<Rightarrow>
         if s_oldIKE s = None then modS (\<lambda>s. s\<lparr>s_oldIKEDelete := None\<rparr>)
         else if now > pe_nextRetransmit p then
           let attempts = pe_attempts p + 1 in
           if attempts > retransmitTries (s_cfg s) then modS (\<lambda>s. s\<lparr>s_oldIKEDelete := None\<rparr>)
           else
             thenS (modS (\<lambda>s. s\<lparr>s_oldIKEDelete :=
                 Some (p\<lparr>pe_attempts := attempts, pe_nextRetransmit := now + retransBackoff (s_cfg s) attempts\<rparr>)\<rparr>))
             (ignoreS (sendIKE W (pe_raw p)))
         else retS ())"

text \<open>the retransmission of the outstanding request,\<close>

definition hk_pending :: "world \<Rightarrow> time \<Rightarrow> pendingExchange \<Rightarrow> (Session, 'e, bool) go" where
  "hk_pending W now p =
     (if now > pe_nextRetransmit p then
        let p1 = p\<lparr>pe_attempts := pe_attempts p + 1\<rparr> in
        readS s_cfg (\<lambda>cfg.
        if pe_attempts p1 > pendingTries cfg p1 then
          thenS (modS (\<lambda>s. s\<lparr>s_pending := None\<rparr>))
          (if pe_kind p = exDPD then thenS (emitS Dead) (retS True)
           else if (case pe_child p of Some c \<Rightarrow> cr_reestablish c | None \<Rightarrow> False) then
             thenS (modS (\<lambda>s. s\<lparr>s_childReestablish := True, s_nextChildReestablish := now + rekeyRetryInterval\<rparr>))
             (retS False)
           else retS False)
        else
          thenS (modS (\<lambda>s. s\<lparr>s_pending := Some (p1\<lparr>pe_nextRetransmit := now + pendingBackoff cfg p1 (pe_attempts p1)\<rparr>)\<rparr>))
          (thenS (ignoreS (sendIKE W (pe_raw p))) (retS False)))
      else retS False)"

text \<open>the probe of an idle tunnel,\<close>

definition hk_dpd :: "world \<Rightarrow> time \<Rightarrow> time \<Rightarrow> (Session, 'e, bool) go" where
  "hk_dpd W now wall =
     readS (\<lambda>s. s) (\<lambda>s.
     let idle = now - s_lastInbound s in
     bindS (if s_dataPlane s then
              bindS tickS (\<lambda>n.
              let last = w_lastData W n in
              retS (if last \<noteq> zeroTime \<and> wall - last < idle then wall - last else idle))
            else retS idle) (\<lambda>idle.
     thenS (if idle > dpdInterval (s_cfg s) then ignoreS (initiateDPD W False) else retS ())
     (retS False)))"

text \<open>and, with no request outstanding, at most one new exchange.\<close>

definition hk_initiate :: "world \<Rightarrow> time \<Rightarrow> time \<Rightarrow> (Session, 'e, bool) go" where
  "hk_initiate W now wall =
     readS (\<lambda>s. s) (\<lambda>s.
     let cfg = s_cfg s in
     if s_fastDPDDue s then
       thenS (modS (\<lambda>s. s\<lparr>s_fastDPDDue := False\<rparr>))
       (thenS (ignoreS (initiateDPD W True)) (retS False))
     else if s_childReestablish s \<and> s_dataPlane s \<and> now > s_nextChildReestablish s then
       bindS (tryS (initiateChildRekey W True)) (\<lambda>r.
       thenS (case r of
                Inl _ \<Rightarrow> modS (\<lambda>s. s\<lparr>s_nextChildReestablish := now + rekeyRetryInterval\<rparr>)
              | Inr _ \<Rightarrow> modS (\<lambda>s. s\<lparr>s_childReestablish := False, s_nextChildReestablish := zeroTime\<rparr>))
       (retS False))
     else
       bindS (if s_dataPlane s \<and> \<not> s_childReestablish s \<and> now > s_nextVolumeRekey s
              then bindS tickS (\<lambda>n. retS (w_volume W n \<ge> rekeyMaxPackets cfg)) else retS False) (\<lambda>volume.
       if volume then
         thenS (modS (\<lambda>s. s\<lparr>s_nextVolumeRekey := now + rekeyRetryInterval\<rparr>))
         (thenS (ignoreS (initiateChildRekey W False)) (retS False))
       else if s_dataPlane s \<and> cf_RekeyLifetime cfg > 0 \<and> s_nextIKERekey s \<noteq> zeroTime \<and> now > s_nextIKERekey s then
         thenS (modS (\<lambda>s. s\<lparr>s_nextIKERekey := now + rekeyRetryInterval\<rparr>))
         (thenS (ignoreS (initiateIKERekey W)) (retS False))
       else if s_dataPlane s \<and> cf_RekeyLifetime cfg > 0 \<and> \<not> s_childReestablish s \<and>
               s_nextChildRekey s \<noteq> zeroTime \<and> now > s_nextChildRekey s then
         thenS (modS (\<lambda>s. s\<lparr>s_nextChildRekey := now + rekeyRetryInterval\<rparr>))
         (thenS (ignoreS (initiateChildRekey W False)) (retS False))
       else hk_dpd W now wall))"

definition housekeeping :: "world \<Rightarrow> (Session, 'e, bool) go" where
  "housekeeping W =
     bindS (clockS W) (\<lambda>(now, wall).
     thenS (detectSuspend W now wall)
     (thenS (modS (hk_grace now))
     (thenS (hk_oldDelete W now)
     (readS s_pending (\<lambda>p.
      case p of Some p \<Rightarrow> hk_pending W now p | None \<Rightarrow> hk_initiate W now wall)))))"

section \<open>The loop\<close>

definition sendGracefulDelete :: "world \<Rightarrow> (Session, 'e, unit) go" where
  "sendGracefulDelete W =
     readS (\<lambda>s. s) (\<lambda>s.
     if s_ikeSA s = None \<or> \<not> s_conn s then retS ()
     else
       bindS (tryS (encodeSK W ExchangeInformational requestFlags (s_messageID s) [DeletePayload ProtocolIKE []])) (\<lambda>r.
       case r of
         Inl _ \<Rightarrow> retS ()
       | Inr raw \<Rightarrow>
           thenS (modS (\<lambda>s. s\<lparr>s_messageID := s_messageID s + 1\<rparr>)) (ignoreS (sendIKE W raw))))"

definition Driver_start :: "world \<Rightarrow> (Session, 'e, unit) go" where
  "Driver_start W =
     bindS (clockS W) (\<lambda>(now, wall).
     thenS (modS (\<lambda>s. s\<lparr>s_lastInbound := now, s_lastTickWall := wall,
        s_childInstalledAt := (if s_childInstalledAt s = zeroTime then now else s_childInstalledAt s),
        s_ikeInstalledAt := (if s_ikeInstalledAt s = zeroTime then now else s_ikeInstalledAt s)\<rparr>))
     (readS (\<lambda>s. s) (\<lambda>s.
      bindS (jitteredDeadline W (s_childInstalledAt s) (cf_RekeyLifetime (s_cfg s))) (\<lambda>dc.
      thenS (modS (\<lambda>s. s\<lparr>s_nextChildRekey := dc\<rparr>))
      (bindS (jitteredDeadline W (s_ikeInstalledAt s) (ikeRekeyLifetime (s_cfg s))) (\<lambda>di.
      modS (\<lambda>s. s\<lparr>s_nextIKERekey := di\<rparr>)))))))"

text \<open>
  What the \<open>select\<close> of the loop receives, in any order: the context is done, a datagram is in
  the inbox, the ticker fired.
\<close>

datatype event = CtxDone | Inbox bytes | Tick

definition driver_event :: "world \<Rightarrow> event \<Rightarrow> (Session, 'e, bool) go" where
  "driver_event W ev =
     (case ev of
        CtxDone \<Rightarrow> thenS (sendGracefulDelete W) (retS True)
      | Inbox raw \<Rightarrow> handleInbound W raw
      | Tick \<Rightarrow> housekeeping W)"

text \<open>The loop on the events it receives; it returns whether it has left the loop.\<close>

fun driver_loop :: "world \<Rightarrow> event list \<Rightarrow> (Session, 'e, bool) go" where
  "driver_loop W [] = retS False"
| "driver_loop W (ev # evs) =
     bindS (driver_event W ev) (\<lambda>exit. if exit then retS True else driver_loop W evs)"

end
