(* ===== verification/Handshake.thy ===== *)
theory Handshake
  imports Session_Payloads
begin

text \<open>
  Setting a session up: IKE_SA_INIT (\<open>internal/session/session.go\<close>), IKE_AUTH with a pre-shared
  key or with EAP-MSCHAPv2 (\<open>internal/session/ikeauth.go\<close>), and the request/response exchange
  with retransmission they share.

  The record \<open>env\<close> holds what only the handshake asks the outside for: the certificate
  functions, the RADIUS functions, and the dialer.
\<close>

record env =
  e_x509 :: x509
  e_radius :: radius
  e_dial :: "string \<Rightarrow> nat \<Rightarrow> (net_Addr \<times> net_Addr \<times> bool) option"

text \<open>\<open>x, err = m()\<close> for a variable of the session: it becomes the zero value on an error.\<close>

definition assignS :: "('a \<Rightarrow> Session \<Rightarrow> Session) \<Rightarrow> 'a \<Rightarrow> (Session, 'e, 'a) go \<Rightarrow> (Session, 'e, unit) go" where
  "assignS put zero m = bindS (onErrS m (modS (put zero))) (\<lambda>x. modS (put x))"

section \<open>The exchange\<close>

lemma recvDatagram_shorter: "recvDatagram b inp = Some (r, rest) \<Longrightarrow> length rest < length inp"
  by (induction b inp rule: recvDatagram.induct) (auto split: if_splits prod.splits Kind.splits)

text \<open>
  \<open>recv_loop\<close> is the loop of \<open>recvMatching\<close> on what the transport delivers until the deadline.
\<close>

function recv_loop :: "bool \<Rightarrow> u32 \<Rightarrow> (sess_err + bytes) list \<Rightarrow> (sess_err, bytes) res" where
  "recv_loop nattMode expectMsgID inp =
     (case recvDatagram nattMode inp of
        None \<Rightarrow> Err ErrRecv
      | Some (Inl e, _) \<Rightarrow> Err e
      | Some (Inr raw, rest) \<Rightarrow>
          (case Parse raw of
             Panic \<Rightarrow> Panic
           | Err _ \<Rightarrow> recv_loop nattMode expectMsgID rest
           | Ok hdr \<Rightarrow>
               if MessageID hdr \<noteq> expectMsgID then recv_loop nattMode expectMsgID rest
               else if \<not> IsResponse (MFlags hdr) then recv_loop nattMode expectMsgID rest
               else Ok raw))"
  by pat_completeness auto
termination
  by (relation "measure (\<lambda>(_, _, inp). length inp)") (auto dest: recvDatagram_shorter)

declare recv_loop.simps [simp del]

text \<open>The datagrams \<open>w_recv\<close> delivers until the deadline, then the error that it has passed.\<close>

definition recvMatching :: "world \<Rightarrow> u32 \<Rightarrow> (Session, sess_err, bytes) go" where
  "recvMatching W expectMsgID =
     readS s_nattMode (\<lambda>nattMode.
     bindS tickS (\<lambda>n. liftS (recv_loop nattMode expectMsgID (map Inr (w_recv W n) @ [Inl ErrRecv]))))"

text \<open>
  \<open>exchange_loop\<close> with the attempts that are left.  The time \<open>backoff\<close> each attempt waits is
  the deadline up to which the transport delivers.
\<close>

fun exchange_loop :: "world \<Rightarrow> bytes \<Rightarrow> u32 \<Rightarrow> nat \<Rightarrow> (Session, sess_err, bytes) go" where
  "exchange_loop W reqBytes expectMsgID 0 =
     readS s_cfg (\<lambda>cfg. failS (ErrNoResponse (retransmitTries cfg)))"
| "exchange_loop W reqBytes expectMsgID (Suc k) =
     thenS (sendIKE W reqBytes)
     (bindS (tryS (recvMatching W expectMsgID)) (\<lambda>r.
      case r of
        Inr raw \<Rightarrow> retS raw
      | Inl _ \<Rightarrow>
          bindS tickS (\<lambda>n.
          guardS (w_cancelled W n) ErrCancelled
          (exchange_loop W reqBytes expectMsgID k))))"

definition exchange :: "world \<Rightarrow> bytes \<Rightarrow> u32 \<Rightarrow> (Session, sess_err, bytes) go" where
  "exchange W reqBytes expectMsgID =
     readS s_cfg (\<lambda>cfg. exchange_loop W reqBytes expectMsgID (nat (retransmitTries cfg)))"

definition exchangeSK :: "world \<Rightarrow> ExchangeType \<Rightarrow> u32 \<Rightarrow> Payloads \<Rightarrow> (Session, sess_err, Payloads) go" where
  "exchangeSK W exchangeType msgID inner =
     bindS (encodeSK W exchangeType requestFlags msgID inner) (\<lambda>reqBytes.
     bindS (exchange W reqBytes msgID) (\<lambda>rawResp.
     bindS (decodeS W rawResp) (\<lambda>(_, payloads, _).
     retS payloads)))"

section \<open>IKE\_SA\_INIT\<close>

definition nonceLen :: nat where [simp]: "nonceLen = 32"

text \<open>The loop runs over the string from its end.\<close>

fun port_loop :: "string \<Rightarrow> bool" where
  "port_loop [] = False"
| "port_loop (c # cs) = (if c = CHR '':'' then True else if c = CHR '']'' then False else port_loop cs)"

definition withDefaultPort :: "string \<Rightarrow> string" where
  "withDefaultPort server = (if port_loop (rev server) then server else server @ '':500'')"

definition buildSAInit :: "world \<Rightarrow> bytes \<Rightarrow> (Session, sess_err, bytes) go" where
  "buildSAInit W cookie =
     readS (\<lambda>s. s) (\<lambda>s.
     derefS (s_dh s) (\<lambda>dh.
     let ps = (if length cookie > 0 then [NotifyPayload 0 NotifyCookie [] cookie] else []) @
              [SAPayload (buildProposals [] (enabledIKESuites (s_cfg s)) [DH_X25519, DH_MODP2048]),
               KEPayload (dh_Group dh) (dh_Public dh),
               NoncePayload (s_nonceI s)];
         ps = appendNATDetection (w_sha1 W) (s_initiatorSPI s) (s_responderSPI s) (s_localAddr s) (s_remoteAddr s) ps in
     liftS (wrapR ErrEncodeRequest (Marshal
       \<lparr>InitiatorSPI = s_initiatorSPI s, ResponderSPI = 0, Exchange = ExchangeIKESAInit,
        MFlags = FlagInitiator, MessageID = 0, MPayloads = ps\<rparr>))))"

definition sendSAInit :: "world \<Rightarrow> bytes \<Rightarrow> (Session, sess_err, bytes) go" where
  "sendSAInit W cookie =
     bindS (buildSAInit W cookie) (\<lambda>reqBytes.
     thenS (modS (\<lambda>s. s\<lparr>s_initSAInitReq := reqBytes\<rparr>))
     (bindS (exchange W reqBytes 0) (\<lambda>rspBytes.
      thenS (modS (\<lambda>s. s\<lparr>s_initSAInitRsp := rspBytes\<rparr>)) (retS rspBytes))))"

fun first_cookie :: "Payloads \<Rightarrow> bytes option" where
  "first_cookie [] = None"
| "first_cookie (NotifyPayload _ t _ d # ps) =
     (if t = NotifyCookie then (if length d = 0 \<or> length d > 64 then None else Some d) else first_cookie ps)"
| "first_cookie (_ # ps) = first_cookie ps"

definition saInitCookie :: "bytes \<Rightarrow> (sess_err, bytes option) res" where
  "saInitCookie raw =
     (case Parse raw of Ok m \<Rightarrow> Ok (first_cookie (MPayloads m)) | Err _ \<Rightarrow> Ok None | Panic \<Rightarrow> Panic)"

fun first_invalidKE :: "Payloads \<Rightarrow> u16 option" where
  "first_invalidKE [] = None"
| "first_invalidKE (NotifyPayload _ t _ d # ps) =
     (if t = NotifyInvalidKEPayload then Some (if length d \<ge> 2 then Uint16 (take 2 d) else 0) else first_invalidKE ps)"
| "first_invalidKE (_ # ps) = first_invalidKE ps"

definition saInitInvalidKE :: "bytes \<Rightarrow> (sess_err, u16 option) res" where
  "saInitInvalidKE raw =
     (case Parse raw of Ok m \<Rightarrow> Ok (first_invalidKE (MPayloads m)) | Err _ \<Rightarrow> Ok None | Panic \<Rightarrow> Panic)"

definition saInitNotifyError :: "NotifyType \<Rightarrow> sess_err option" where
  "saInitNotifyError t =
     (if t = NotifyNoProposalChosen then Some (ErrNotify t)
      else if t = NotifyInvalidSyntax then Some (ErrNotify t)
      else None)"

text \<open>The variables of the loop over the response's payloads; \<open>gotSA\<close> is that there is a suite.\<close>

record saInitAcc =
  ac_suite :: "transformSuite option"
  ac_gotKE :: bool
  ac_gotNonce :: bool
  ac_nats :: "(NotifyType \<times> bytes) list"
  ac_err :: "sess_err option"

definition sainit_payload :: "payload \<Rightarrow> saInitAcc \<Rightarrow> (Session, sess_err, saInitAcc) go" where
  "sainit_payload p acc =
     (case p of
        SAPayload props \<Rightarrow>
          guardS (length props = 0) ErrNoProposals
          (readS (\<lambda>s. s) (\<lambda>s.
           case selectedSuite (props ! 0) (enabledIKESuites (s_cfg s)) of
             None \<Rightarrow> failS ErrBadProposal
           | Some suite \<Rightarrow>
               derefS (s_dh s) (\<lambda>dh.
               let g = selectedDHGroup (props ! 0) in
               guardS (g \<noteq> dh_Group dh) (ErrDHGroupSelected g (dh_Group dh))
               (retS (acc\<lparr>ac_suite := Some suite\<rparr>)))))
      | KEPayload g d \<Rightarrow>
          thenS (modS (\<lambda>s. s\<lparr>s_peerDHPub := d\<rparr>)) (retS (acc\<lparr>ac_gotKE := True\<rparr>))
      | NoncePayload d \<Rightarrow>
          thenS (modS (\<lambda>s. s\<lparr>s_nonceR := d\<rparr>)) (retS (acc\<lparr>ac_gotNonce := True\<rparr>))
      | NotifyPayload _ t _ d \<Rightarrow>
          let acc = (case saInitNotifyError t of Some e \<Rightarrow> acc\<lparr>ac_err := Some e\<rparr> | None \<Rightarrow> acc) in
          retS (if t = NotifyNATDetectionSourceIP \<or> t = NotifyNATDetectionDestinationIP
                then acc\<lparr>ac_nats := ac_nats acc @ [(t, d)]\<rparr> else acc)
      | _ \<Rightarrow> retS acc)"

fun sainit_loop :: "Payloads \<Rightarrow> saInitAcc \<Rightarrow> (Session, sess_err, saInitAcc) go" where
  "sainit_loop [] acc = retS acc"
| "sainit_loop (p # ps) acc = bindS (sainit_payload p acc) (\<lambda>acc. sainit_loop ps acc)"

text \<open>From the payloads of the response to the keys.\<close>

definition sainit_keys :: "world \<Rightarrow> saInitAcc \<Rightarrow> (Session, sess_err, unit) go" where
  "sainit_keys W acc =
     (case ac_err acc of
        Some e \<Rightarrow> failS e
      | None \<Rightarrow>
         (case ac_suite acc of
            None \<Rightarrow> failS ErrMissingPayloads
          | Some suite \<Rightarrow>
             guardS (\<not> ac_gotKE acc \<or> \<not> ac_gotNonce acc) ErrMissingPayloads
             (thenS (modS (\<lambda>s. s\<lparr>s_natDetected := processNATDetection (w_sha1 W) (s_initiatorSPI s) (s_responderSPI s)
                (s_localAddr s) (s_remoteAddr s) (ac_nats acc) (s_natDetected s)\<rparr>))
             (readS (\<lambda>s. s) (\<lambda>s.
              derefS (s_dh s) (\<lambda>dh.
              bindS (liftS (wrapR ErrIKESA (Shared (w_curve W) dh (s_peerDHPub s)))) (\<lambda>shared.
              bindS (liftS (wrapR ErrIKESA (Derive (w_prims W) (su_id suite) Initiator (s_initiatorSPI s) (s_responderSPI s)
                (s_nonceI s) (s_nonceR s) shared))) (\<lambda>sa.
              modS (\<lambda>s. s\<lparr>s_ikeSA := Some sa, s_ikeDHGroup := dh_Group dh\<rparr>)))))))))"

definition handleSAInitResponse :: "world \<Rightarrow> bytes \<Rightarrow> (Session, sess_err, unit) go" where
  "handleSAInitResponse W raw =
     bindS (liftS (wrapR ErrParseResponse (Parse raw))) (\<lambda>m.
     guardS (Exchange m \<noteq> ExchangeIKESAInit) (ErrExchangeType (Exchange m))
     (guardS (\<not> IsResponse (MFlags m)) ErrNotResponse
     (readS s_initiatorSPI (\<lambda>spi.
      guardS (InitiatorSPI m \<noteq> spi) ErrInitiatorSPI
      (guardS (MessageID m \<noteq> 0) (ErrMessageID (MessageID m))
      (guardS (ResponderSPI m = 0) ErrZeroResponderSPI
      (thenS (modS (\<lambda>s. s\<lparr>s_responderSPI := ResponderSPI m\<rparr>))
      (bindS (sainit_loop (MPayloads m)
         \<lparr>ac_suite = None, ac_gotKE = False, ac_gotNonce = False, ac_nats = [], ac_err = None\<rparr>)
       (sainit_keys W)))))))))"

text \<open>The steps of \<open>IKESAInit\<close>: the connection,\<close>

definition sainit_dial :: "env \<Rightarrow> (Session, sess_err, unit) go" where
  "sainit_dial E =
     readS (\<lambda>s. s) (\<lambda>s.
     if s_conn s then retS ()
     else
       bindS tickS (\<lambda>n.
       case e_dial E (withDefaultPort (cf_Server (s_cfg s))) n of
         None \<Rightarrow> failS ErrDial
       | Some (l, r, mig) \<Rightarrow>
           modS (\<lambda>s. s\<lparr>s_conn := True, s_localAddr := l, s_remoteAddr := r, s_canMigrate := mig\<rparr>)))"

text \<open>the fresh values,\<close>

definition sainit_fresh :: "world \<Rightarrow> (Session, sess_err, unit) go" where
  "sainit_fresh W =
     thenS (assignS (\<lambda>x s. s\<lparr>s_initiatorSPI := x\<rparr>) 0 (randUint64 W))
     (thenS (assignS (\<lambda>x s. s\<lparr>s_dh := x\<rparr>) None (bindS (newDHS W DH_X25519) (\<lambda>d. retS (Some d))))
     (assignS (\<lambda>x s. s\<lparr>s_nonceI := x\<rparr>) [] (randBytes W nonceLen)))"

text \<open>the first request and the retry with the responder's cookie,\<close>

definition sainit_first :: "world \<Rightarrow> (Session, sess_err, bytes \<times> bytes) go" where
  "sainit_first W =
     bindS (sendSAInit W []) (\<lambda>rspBytes.
     bindS (liftS (saInitCookie rspBytes)) (\<lambda>c.
     case c of
       None \<Rightarrow> retS (rspBytes, [])
     | Some cookie \<Rightarrow> bindS (sendSAInit W cookie) (\<lambda>rspBytes. retS (rspBytes, cookie))))"

text \<open>and the retry with the responder's group.\<close>

definition sainit_group :: "world \<Rightarrow> bytes \<Rightarrow> bytes \<Rightarrow> (Session, sess_err, unit) go" where
  "sainit_group W rspBytes cookie =
     bindS (liftS (saInitInvalidKE rspBytes)) (\<lambda>gOpt.
     case gOpt of
       None \<Rightarrow> retS ()
     | Some g \<Rightarrow>
         readS s_dh (\<lambda>dh.
         derefS dh (\<lambda>dh.
         guardS (\<not> supportedDHGroup g \<or> g = dh_Group dh) (ErrUnsupportedGroup g)
         (thenS (assignS (\<lambda>x s. s\<lparr>s_dh := x\<rparr>) None (bindS (newDHS W g) (\<lambda>d. retS (Some d))))
         (bindS (sendSAInit W cookie) (\<lambda>rspBytes.
          bindS (liftS (saInitCookie rspBytes)) (\<lambda>c.
          case c of
            None \<Rightarrow> retS ()
          | Some cookie \<Rightarrow> bindS (sendSAInit W cookie) (\<lambda>_. retS ()))))))))"

definition IKESAInit :: "world \<Rightarrow> env \<Rightarrow> (Session, sess_err, unit) go" where
  "IKESAInit W E =
     readS s_cfg (\<lambda>cfg.
     case checkConfiguredSuites (cf_ESPSuites cfg) (cf_IKESuites cfg) of
       Inl i \<Rightarrow> failS (ErrSuiteUnknown i)
     | Inr _ \<Rightarrow>
         thenS (sainit_dial E)
         (thenS (sainit_fresh W)
         (bindS (sainit_first W) (\<lambda>(rspBytes, cookie).
          thenS (sainit_group W rspBytes cookie)
          (readS s_initSAInitRsp (\<lambda>rsp.
           thenS (handleSAInitResponse W rsp)
           (modS (\<lambda>s. s\<lparr>s_nattMode := migrateNATT (s_canMigrate s) (s_nattMode s), s_messageID := 1\<rparr>))))))))"

section \<open>IKE\_AUTH\<close>

definition maxEAPRounds :: nat where "maxEAPRounds = 32"

definition allocChildSPI :: "world \<Rightarrow> (Session, sess_err, bytes) go" where
  "allocChildSPI W =
     bindS (randBytes W 4) (\<lambda>spi.
     thenS (modS (\<lambda>s. s\<lparr>s_childInitiatorSPI := Uint32 spi\<rparr>)) (retS spi))"

text \<open>The signed octets of either side, and the shared-secret AUTH value of ours.\<close>

definition initiatorSignedOctets :: "world \<Rightarrow> Session \<Rightarrow> IKESA \<Rightarrow> bytes" where
  "initiatorSignedOctets W s sa =
     (let l = cf_LocalID (s_cfg s); idi = MarshalIDBody (wi_Type l) (wi_Data l) in
      SignedOctets (prf_HMAC (w_prims W)) (s_initSAInitReq s) (s_nonceR s) idi (SKpi sa))"

definition responderSignedOctets :: "world \<Rightarrow> Session \<Rightarrow> IKESA \<Rightarrow> bytes \<Rightarrow> bytes" where
  "responderSignedOctets W s sa idrPrime =
     SignedOctets (prf_HMAC (w_prims W)) (s_initSAInitRsp s) (s_nonceI s) idrPrime (SKpr sa)"

definition computeInitiatorAuth :: "world \<Rightarrow> Session \<Rightarrow> IKESA \<Rightarrow> bytes \<Rightarrow> bytes" where
  "computeInitiatorAuth W s sa secret =
     SharedSecretAuth (prf_HMAC (w_prims W)) secret (initiatorSignedOctets W s sa)"

definition peerName :: "WireID \<Rightarrow> PeerName" where
  "peerName r =
     (let t = wi_Type r; d = wi_Data r;
          rest = (if t \<noteq> 0 \<or> length d \<noteq> 0 then noName\<lparr>pn_Unverifiable := True\<rparr> else noName) in
      if t = IDTypeFQDN then noName\<lparr>pn_DNS := d\<rparr>
      else if t = IDTypeRFC822 then noName\<lparr>pn_Email := d\<rparr>
      else if t = IDTypeIPv4 \<or> t = IDTypeIPv6 then
        (case AddrFromSlice d of Some a \<Rightarrow> noName\<lparr>pn_IP := Some a\<rparr> | None \<Rightarrow> rest)
      else if t = IDTypeDERASN1DN then noName\<lparr>pn_DN := d\<rparr>
      else rest)"

fun firstEAP :: "Payloads \<Rightarrow> (sess_err, Packet option) res" where
  "firstEAP [] = Ok None"
| "firstEAP (EAPPayload d # ps) = bindR (wrapR ErrEAP (eap_Parse d)) (\<lambda>p. Ok (Some p))"
| "firstEAP (_ # ps) = firstEAP ps"

text \<open>The loop over the payloads of the first IKE\_AUTH response with EAP.\<close>

record authAcc =
  aa_idr :: "(IDType \<times> bytes) option"
  aa_auth :: "(byte \<times> bytes) option"
  aa_certs :: "bytes list"

fun auth_loop :: "Payloads \<Rightarrow> authAcc \<Rightarrow> (sess_err, authAcc) res" where
  "auth_loop [] acc = Ok acc"
| "auth_loop (p # ps) acc =
     (case p of
        IDrPayload t d \<Rightarrow> auth_loop ps (acc\<lparr>aa_idr := Some (t, d)\<rparr>)
      | CertPayload _ d \<Rightarrow> auth_loop ps (acc\<lparr>aa_certs := aa_certs acc @ [d]\<rparr>)
      | AuthPayload m d \<Rightarrow> auth_loop ps (acc\<lparr>aa_auth := Some (m, d)\<rparr>)
      | NotifyPayload _ t _ _ \<Rightarrow> (case notifyError t of Some e \<Rightarrow> Err e | None \<Rightarrow> auth_loop ps acc)
      | _ \<Rightarrow> auth_loop ps acc)"

definition handleAuthResponse :: "world \<Rightarrow> env \<Rightarrow> Payloads \<Rightarrow> (Session, sess_err, Packet) go" where
  "handleAuthResponse W E payloads =
     bindS (liftS (auth_loop payloads \<lparr>aa_idr = None, aa_auth = None, aa_certs = []\<rparr>)) (\<lambda>acc.
     case aa_idr acc of
       None \<Rightarrow> failS ErrMissingIDr
     | Some (t, d) \<Rightarrow>
         thenS (modS (\<lambda>s. s\<lparr>s_remoteIDr := \<lparr>wi_Type = t, wi_Data = d\<rparr>\<rparr>))
         (bindS (clockS W) (\<lambda>(_, wall).
          readS (\<lambda>s. s) (\<lambda>s.
          bindS (liftS (wrapR ErrServerChain (VerifyServerChain (e_x509 E) (aa_certs acc) (cf_RootCAs (s_cfg s))
            (peerName (cf_RemoteID (s_cfg s))) wall))) (\<lambda>leaf.
          case aa_auth acc of
            None \<Rightarrow> failS ErrMissingAuth
          | Some (meth, a) \<Rightarrow>
              derefS (s_ikeSA s) (\<lambda>sa.
              bindS (liftS (wrapR ErrCertAuth (VerifyCertAuth (e_x509 E) meth a
                (responderSignedOctets W s sa (MarshalIDBody t d)) leaf))) (\<lambda>_.
              bindS (liftS (firstEAP payloads)) (\<lambda>eapReq.
              case eapReq of None \<Rightarrow> failS ErrMissingEAP | Some p \<Rightarrow> retS p))))))))"

text \<open>
  The loop over the payloads of the final response.  The traffic selectors only feed a warning.
\<close>

record finalAcc =
  fa_idr :: "(IDType \<times> bytes) option"
  fa_auth :: "(byte \<times> bytes) option"
  fa_sa :: "Proposal list option"
  fa_cp :: "ConfigAttr list option"
  fa_tsi :: "TrafficSelector list"
  fa_tsr :: "TrafficSelector list"

fun final_loop :: "Payloads \<Rightarrow> finalAcc \<Rightarrow> (sess_err, finalAcc) res" where
  "final_loop [] acc = Ok acc"
| "final_loop (p # ps) acc =
     (case p of
        IDrPayload t d \<Rightarrow> final_loop ps (acc\<lparr>fa_idr := Some (t, d)\<rparr>)
      | AuthPayload m d \<Rightarrow> final_loop ps (acc\<lparr>fa_auth := Some (m, d)\<rparr>)
      | SAPayload props \<Rightarrow> final_loop ps (acc\<lparr>fa_sa := Some props\<rparr>)
      | ConfigPayload _ attrs \<Rightarrow> final_loop ps (acc\<lparr>fa_cp := Some attrs\<rparr>)
      | TSiPayload sels \<Rightarrow> final_loop ps (acc\<lparr>fa_tsi := sels\<rparr>)
      | TSrPayload sels \<Rightarrow> final_loop ps (acc\<lparr>fa_tsr := sels\<rparr>)
      | NotifyPayload _ t _ _ \<Rightarrow> (case notifyError t of Some e \<Rightarrow> Err e | None \<Rightarrow> final_loop ps acc)
      | _ \<Rightarrow> final_loop ps acc)"

definition emptyFinal :: finalAcc where
  "emptyFinal = \<lparr>fa_idr = None, fa_auth = None, fa_sa = None, fa_cp = None, fa_tsi = [], fa_tsr = []\<rparr>"

text \<open>The part of \<open>handleFinalAuthResponse\<close> that installs the Child SA, after AUTH has been verified.\<close>

definition final_install :: "world \<Rightarrow> finalAcc \<Rightarrow> (Session, sess_err, unit) go" where
  "final_install W acc =
     (case fa_sa acc of
        None \<Rightarrow> failS ErrMissingSA
      | Some props \<Rightarrow>
          guardS (length props = 0) ErrMissingSA
          (readS (\<lambda>s. s) (\<lambda>s.
           case selectedSuite (props ! 0) (enabledESPSuites (s_cfg s)) of
             None \<Rightarrow> failS ErrBadProposal
           | Some suite \<Rightarrow>
               let spi = pr_SPI (props ! 0) in
               guardS (length spi \<noteq> 4) (ErrBadSPILength (length spi))
               (derefS (s_ikeSA s) (\<lambda>sa.
                bindS (liftS (be_Uint32 spi)) (\<lambda>rspi.
                bindS (liftS (wrapR ErrIKESA (DeriveChildKeys (w_prims W) sa (s_nonceI s) (s_nonceR s)
                  (su_encrKeyLen suite) (su_integKeyLen suite)))) (\<lambda>keys.
                thenS (modS (\<lambda>s. s\<lparr>s_child := Some \<lparr>ch_InitiatorSPI = s_childInitiatorSPI s, ch_ResponderSPI = rspi,
                  ch_Suite = su_id suite, ch_Keys = keys\<rparr>\<rparr>))
                (thenS (case fa_cp acc of
                          None \<Rightarrow> retS ()
                        | Some attrs \<Rightarrow> modS (\<lambda>s. s\<lparr>s_assigned := parseCPReply attrs\<rparr>))
                (modS (\<lambda>s. s\<lparr>s_established := True\<rparr>))))))))))"

definition handleFinalAuthResponse :: "world \<Rightarrow> Payloads \<Rightarrow> bytes \<Rightarrow> (Session, sess_err, unit) go" where
  "handleFinalAuthResponse W payloads secret =
     bindS (liftS (final_loop payloads emptyFinal)) (\<lambda>acc.
     case fa_auth acc of
       None \<Rightarrow> failS ErrMissingAuth
     | Some (meth, a) \<Rightarrow>
         thenS (case fa_idr acc of
                  None \<Rightarrow> retS ()
                | Some (t, d) \<Rightarrow> modS (\<lambda>s. s\<lparr>s_remoteIDr := \<lparr>wi_Type = t, wi_Data = d\<rparr>\<rparr>))
         (readS (\<lambda>s. s) (\<lambda>s.
          let r = s_remoteIDr s in
          guardS (wi_Type r = 0 \<and> length (wi_Data r) = 0) ErrMissingIDr
          (derefS (s_ikeSA s) (\<lambda>sa.
           let respSigned = responderSignedOctets W s sa (MarshalIDBody (wi_Type r) (wi_Data r));
               want = SharedSecretAuth (prf_HMAC (w_prims W)) secret respSigned in
           guardS (meth \<noteq> MethodSharedKeyMIC \<or> \<not> constTimeEqual a want) ErrAuthFailed
           (final_install W acc))))))"

text \<open>The payloads that end either first request.\<close>

definition auth_request :: "SessionConfig \<Rightarrow> bytes \<Rightarrow> Payloads \<Rightarrow> Payloads" where
  "auth_request cfg spi first =
     buildCPRequest (appendTrafficSelectors
       (first @ [SAPayload (buildProposals spi (enabledESPSuites cfg) preferredDHGroups)])
       (cf_RequestIPv6 cfg)) (cf_RequestIPv6 cfg)"

definition nextMessageID :: "(Session, 'e, unit) go" where
  "nextMessageID = modS (\<lambda>s. s\<lparr>s_messageID := s_messageID s + 1\<rparr>)"

definition ikeAuthPSK :: "world \<Rightarrow> (Session, sess_err, unit) go" where
  "ikeAuthPSK W =
     bindS (allocChildSPI W) (\<lambda>spi.
     readS (\<lambda>s. s) (\<lambda>s.
     derefS (s_ikeSA s) (\<lambda>sa.
     let cfg = s_cfg s; l = cf_LocalID cfg in
     bindS (exchangeSK W ExchangeIKEAuth (s_messageID s) (auth_request cfg spi
       [IDiPayload (wi_Type l) (wi_Data l), AuthPayload MethodSharedKeyMIC (computeInitiatorAuth W s sa (cf_PSK cfg))])) (\<lambda>resp.
     thenS nextMessageID
     (case firstNotifyError resp of
        Some e \<Rightarrow> failS e
      | None \<Rightarrow> handleFinalAuthResponse W resp (cf_PSK cfg))))))"

text \<open>
  The EAP loop with the rounds that are left; it returns the conversation when the responder
  has sent EAP-Success.  The random source is asked in every round, used or not.
\<close>

fun eap_loop :: "world \<Rightarrow> env \<Rightarrow> nat \<Rightarrow> MSCHAPv2 \<Rightarrow> Packet \<Rightarrow> (Session, sess_err, MSCHAPv2) go" where
  "eap_loop W E 0 m eapReq = failS ErrEAPRounds"
| "eap_loop W E (Suc k) m eapReq =
     (if pk_Code eapReq = CodeSuccess then
        (case MSKInputs m of (phh, ntResp) \<Rightarrow>
         guardS (length phh > 0 \<and> length ntResp > 0 \<and> \<not> Verified m) ErrEAPUnverified (retS m))
      else
        guardS (pk_Code eapReq = CodeFailure) ErrEAPFailure
        (bindS tickS (\<lambda>n.
         case buildEAPResponse (e_radius E) (w_rand W n) eapReq m of (r, m') \<Rightarrow>
         bindS (liftS (wrapR ErrEAP r)) (\<lambda>eapResp.
         readS s_messageID (\<lambda>mid.
         bindS (exchangeSK W ExchangeIKEAuth mid [EAPPayload (eap_Marshal eapResp)]) (\<lambda>resp.
         thenS nextMessageID
         (case firstNotifyError resp of
            Some e \<Rightarrow> failS e
          | None \<Rightarrow>
              bindS (liftS (firstEAP resp)) (\<lambda>nxt.
              case nxt of
                None \<Rightarrow> failS ErrMissingEAP
              | Some p \<Rightarrow> eap_loop W E k m' p))))))))"

text \<open>After EAP: the master session key and the final exchange.\<close>

definition eap_finish :: "world \<Rightarrow> env \<Rightarrow> MSCHAPv2 \<Rightarrow> (Session, sess_err, unit) go" where
  "eap_finish W E m =
     (case MSKInputs m of (phh, ntResp) \<Rightarrow>
      bindS (liftS (wrapR ErrEAP (DeriveMSK (e_radius E) phh ntResp))) (\<lambda>msk.
      readS (\<lambda>s. s) (\<lambda>s.
      derefS (s_ikeSA s) (\<lambda>sa.
      bindS (exchangeSK W ExchangeIKEAuth (s_messageID s)
        [AuthPayload MethodSharedKeyMIC (computeInitiatorAuth W s sa msk)]) (\<lambda>finalResp.
      thenS nextMessageID (handleFinalAuthResponse W finalResp msk))))))"

definition ikeAuthEAP :: "world \<Rightarrow> env \<Rightarrow> (Session, sess_err, unit) go" where
  "ikeAuthEAP W E =
     bindS (allocChildSPI W) (\<lambda>spi.
     readS (\<lambda>s. s) (\<lambda>s.
     let cfg = s_cfg s; l = cf_LocalID cfg in
     bindS (exchangeSK W ExchangeIKEAuth (s_messageID s) (auth_request cfg spi [IDiPayload (wi_Type l) (wi_Data l)])) (\<lambda>resp.
     thenS nextMessageID
     (bindS (handleAuthResponse W E resp) (\<lambda>eapReq.
      bindS (eap_loop W E maxEAPRounds (NewMSCHAPv2 (cf_EAPUser cfg) (cf_EAPPass cfg)) eapReq) (\<lambda>m.
      eap_finish W E m))))))"

definition IKEAuth :: "world \<Rightarrow> env \<Rightarrow> (Session, sess_err, unit) go" where
  "IKEAuth W E =
     readS (\<lambda>s. s) (\<lambda>s.
     guardS (s_ikeSA s = None) ErrBeforeSAInit
     (if length (cf_PSK (s_cfg s)) > 0 then ikeAuthPSK W else ikeAuthEAP W E))"

end
