(* ===== verification/Client.thy ===== *)
theory Client
  imports Tunnel Workers Client_Config Driver Handshake
begin

text \<open>
  The client (\<open>ipsec.go\<close>, \<open>dataplane.go\<close>, \<open>reconnect.go\<close>): the inbound registry of Child SAs,
  their replacement on a rekey and the grace period of the superseded one, the receive loop,
  the supervisor that redials after the peer is declared dead, and the shutdown.

  The goroutines of the client take turns in any order: \<open>client_event\<close> performs one turn of one
  of them, and a run of the client is a list of events.  An event that is not possible in a
  state does nothing.  A turn ends where the code blocks or another goroutine could see its
  effect in the registry; what a turn learns from outside is in the event.

  The record \<open>outside\<close> holds what stays the same: the primitives of ESP, the world of every
  dial attempt (each session asks its own), the order in which Go ranges over a map, and the
  floating-point scaling of \<open>jitterDuration\<close>.
\<close>

record outside =
  o_prims :: prims
  o_dial :: "nat \<Rightarrow> world \<times> env"
  o_range :: "(nat \<times> hook) list \<Rightarrow> (nat \<times> hook) list"
  o_jitter :: "duration \<Rightarrow> bytes \<Rightarrow> duration"

datatype client_err = ErrConfig config_err | ErrSession sess_err | ErrTun tun_err

section \<open>State\<close>

text \<open>
  Where the supervisor goroutine is: not launched, waiting in its \<open>select\<close>, in the loop of
  \<open>redialWithBackoff\<close> with its variable \<open>backoff\<close>, or returned.
\<close>

datatype supervisor = NotStarted | Idle | Redialing duration | Exited

text \<open>
  \<open>cl_gen\<close> is the dial attempt that set up the session in use.  \<open>cl_graceTimers\<close> are the timers
  with the arguments of their callbacks, \<open>cl_callbacks\<close> the callbacks that have been started and
  have not run yet; stopping a timer does not call them back.  \<open>cl_teardown\<close> is the goroutine
  that calls \<open>Close\<close> after a death without auto-reconnect.
\<close>

record Client = heap +
  cl_cfg :: Config
  cl_attempts :: nat
  cl_gen :: nat
  cl_session :: "Session option"
  cl_tun :: "Tunnel option"
  cl_rxDrops :: u64
  cl_inbound :: "(u32 \<rightharpoonup> sa_ref) option"
  cl_lastDataInbound :: time
  cl_graceTimers :: "(nat \<times> u32 \<times> sa_ref option) list"
  cl_callbacks :: "(nat \<times> u32 \<times> sa_ref option) list"
  cl_nextTimer :: nat
  cl_onRekey :: "hook list"
  cl_localIP :: "Addr option"
  cl_mgr :: "Manager option"
  cl_inbox :: "bytes list"
  cl_superCancelled :: bool
  cl_super :: supervisor
  cl_deathSig :: bool
  cl_closed :: bool
  cl_torndown :: bool
  cl_teardown :: bool

definition newClient :: "Config \<Rightarrow> Client" where
  "newClient cfg =
     \<lparr>h_sas = [], h_out = [], cl_cfg = cfg, cl_attempts = 0, cl_gen = 0, cl_session = None, cl_tun = None, cl_rxDrops = 0,
      cl_inbound = None, cl_lastDataInbound = zeroTime, cl_graceTimers = [], cl_callbacks = [], cl_nextTimer = 0,
      cl_onRekey = [], cl_localIP = None, cl_mgr = None, cl_inbox = [], cl_superCancelled = False,
      cl_super = NotStarted, cl_deathSig = False, cl_closed = False, cl_torndown = False, cl_teardown = False\<rparr>"

section \<open>Sessions\<close>

text \<open>\<open>Session.Close\<close>: the credentials are overwritten in place; the socket is the transport's.\<close>

definition Wipe :: "bytes \<Rightarrow> bytes" where
  "Wipe b = replicate (length b) 0"

definition Session_Close :: "Session \<Rightarrow> Session" where
  "Session_Close s = s\<lparr>s_cfg := (s_cfg s)\<lparr>cf_PSK := Wipe (cf_PSK (s_cfg s)), cf_EAPPass := Wipe (cf_EAPPass (s_cfg s))\<rparr>\<rparr>"

text \<open>The handshake on a fresh session; the outcome and the session as it was left.\<close>

definition defaultDialSession :: "world \<Rightarrow> env \<Rightarrow> Config \<Rightarrow> (sess_err, unit) res \<times> Session" where
  "defaultDialSession W E cfg =
     thenS (onErrS (IKESAInit W E) (modS Session_Close)) (onErrS (IKEAuth W E) (modS Session_Close))
       (New_session (toSessionConfig cfg))"

definition dialSession :: "outside \<Rightarrow> (Client, client_err, Session) go" where
  "dialSession X =
     readS (\<lambda>c. c) (\<lambda>c.
     thenS (modS (\<lambda>c. c\<lparr>cl_attempts := cl_attempts c + 1\<rparr>))
     (case o_dial X (cl_attempts c) of (W, E) \<Rightarrow>
      case defaultDialSession W E (cl_cfg c) of (r, s) \<Rightarrow>
      thenS (liftS (wrapR ErrSession r)) (retS s)))"

definition onSession :: "(Session, client_err, 'a) go \<Rightarrow> (Client, client_err, 'a) go" where
  "onSession m = (\<lambda>c.
     case cl_session c of
       None \<Rightarrow> (Panic, c)
     | Some s \<Rightarrow> (case m s of (r, s') \<Rightarrow> (r, c\<lparr>cl_session := Some s'\<rparr>)))"

definition closeSession :: "(Client, client_err, unit) go" where
  "closeSession = readS cl_session (\<lambda>s. case s of None \<Rightarrow> retS () | Some _ \<Rightarrow> onSession (modS Session_Close))"

section \<open>The inbound registry\<close>

definition espSAFromChild :: "ChildSA \<Rightarrow> (Client, client_err, sa_ref) go" where
  "espSAFromChild child =
     readS cl_cfg (\<lambda>cfg.
     wrapS ErrTun (allocSA (NewSA (ch_Suite child) (ch_ResponderSPI child) (ch_InitiatorSPI child)
       (EncrIR (ch_Keys child)) (IntegIR (ch_Keys child)) (EncrRI (ch_Keys child)) (IntegRI (ch_Keys child))
       (c_ReplayWindow cfg))))"

definition resetInbound :: "u32 \<Rightarrow> sa_ref \<Rightarrow> (Client, client_err, unit) go" where
  "resetInbound spi sa = modS (\<lambda>c. c\<lparr>cl_inbound := Some [spi \<mapsto> sa]\<rparr>)"

definition lookupInbound :: "u32 \<Rightarrow> Client \<Rightarrow> sa_ref option" where
  "lookupInbound spi c = (case cl_inbound c of None \<Rightarrow> None | Some m \<Rightarrow> m spi)"

definition removeInbound :: "u32 \<Rightarrow> sa_ref option \<Rightarrow> (Client, client_err, unit) go" where
  "removeInbound spi want =
     readS cl_inbound (\<lambda>old.
     derefS old (\<lambda>old.
     case old spi of
       None \<Rightarrow> retS ()
     | Some cur \<Rightarrow>
         if Some cur \<noteq> want then retS ()
         else modS (\<lambda>c. c\<lparr>cl_inbound := Some (old(spi := None))\<rparr>)))"

definition stopGraceTimers :: "(Client, client_err, unit) go" where
  "stopGraceTimers = modS (\<lambda>c. c\<lparr>cl_graceTimers := []\<rparr>)"

definition scheduleInboundRemoval :: "u32 \<Rightarrow> sa_ref option \<Rightarrow> (Client, client_err, unit) go" where
  "scheduleInboundRemoval spi sa =
     modS (\<lambda>c. c\<lparr>cl_graceTimers := cl_graceTimers c @ [(cl_nextTimer c, spi, sa)], cl_nextTimer := cl_nextTimer c + 1\<rparr>)"

text \<open>The callback of a grace timer: launched when the timer fires, run later.\<close>

definition timerFires :: "nat \<Rightarrow> (Client, client_err, unit) go" where
  "timerFires i =
     modS (\<lambda>c. c\<lparr>cl_callbacks := cl_callbacks c @ filter (\<lambda>t. fst t = i \<and> t \<notin> set (cl_callbacks c)) (cl_graceTimers c)\<rparr>)"

definition timerRuns :: "(Client, client_err, unit) go" where
  "timerRuns =
     readS cl_callbacks (\<lambda>cs.
     case cs of
       [] \<Rightarrow> retS ()
     | (i, spi, sa) # rest \<Rightarrow>
         thenS (modS (\<lambda>c. c\<lparr>cl_callbacks := rest\<rparr>))
         (thenS (removeInbound spi sa)
         (modS (\<lambda>c. c\<lparr>cl_graceTimers := filter (\<lambda>t. fst t \<noteq> i) (cl_graceTimers c)\<rparr>))))"

fun fire_hooks :: "hook list \<Rightarrow> (Client, client_err, unit) go" where
  "fire_hooks [] = retS ()"
| "fire_hooks (h # hs) = thenS (emitH (RekeyHook h)) (fire_hooks hs)"

definition fireRekey :: "(Client, client_err, unit) go" where
  "fireRekey = readS cl_onRekey fire_hooks"

definition OnRekey :: "hook option \<Rightarrow> Client \<Rightarrow> Client" where
  "OnRekey fn c = (case fn of None \<Rightarrow> c | Some h \<Rightarrow> c\<lparr>cl_onRekey := cl_onRekey c @ [h]\<rparr>)"

definition InstallChildSA :: "ChildSAUpdate \<Rightarrow> (Client, client_err, unit) go" where
  "InstallChildSA u =
     readS cl_cfg (\<lambda>cfg.
     bindS (tryS (wrapS ErrTun (allocSA (NewSA (cu_Suite u) (cu_NewOutSPI u) (cu_NewInSPI u)
       (cu_OutEncr u) (cu_OutInteg u) (cu_InEncr u) (cu_InInteg u) (c_ReplayWindow cfg))))) (\<lambda>r.
     case r of
       Inl _ \<Rightarrow> retS ()
     | Inr sa \<Rightarrow>
         readS cl_inbound (\<lambda>old.
         derefS old (\<lambda>old.
         let superseded = old (cu_OldInSPI u) in
         thenS (modS (\<lambda>c. c\<lparr>cl_inbound := Some (old(cu_NewInSPI u \<mapsto> sa))\<rparr>))
         (readS cl_tun (\<lambda>t.
          derefS t (\<lambda>t.
          thenS (modS (\<lambda>c. c\<lparr>cl_tun := Some (SwapSA sa t)\<rparr>))
          (thenS fireRekey
          (if cu_OldInSPI u \<noteq> 0 \<and> cu_OldInSPI u \<noteq> cu_NewInSPI u
           then scheduleInboundRemoval (cu_OldInSPI u) superseded
           else retS ())))))))))"

section \<open>Workers\<close>

definition signalDeath :: "(Client, client_err, unit) go" where
  "signalDeath = modS (\<lambda>c. c\<lparr>cl_deathSig := True\<rparr>)"

definition onDead :: "(Client, client_err, unit) go" where
  "onDead =
     readS cl_cfg (\<lambda>cfg.
     if autoReconnectEnabled cfg then signalDeath else modS (\<lambda>c. c\<lparr>cl_teardown := True\<rparr>))"

text \<open>
  The numbers the manager gives the workers of a generation, and one of them returning.
\<close>

definition rxWorker :: nat where [simp]: "rxWorker = 0"
definition driverWorker :: nat where [simp]: "driverWorker = 1"
definition keepaliveWorker :: nat where [simp]: "keepaliveWorker = 2"

definition workerRuns :: "nat \<Rightarrow> Client \<Rightarrow> bool" where
  "workerRuns i c = (case cl_mgr c of None \<Rightarrow> False | Some m \<Rightarrow> i < length (m_pc m) \<and> m_pc m ! i = Running)"

definition workerReturns :: "nat \<Rightarrow> Manager \<Rightarrow> Manager" where
  "workerReturns i m = m\<lparr>m_active := m_active m - 1, m_wg := m_wg m - 1, m_pc := (m_pc m)[i := Gone]\<rparr>"

definition exitWorker :: "nat \<Rightarrow> (Client, client_err, unit) go" where
  "exitWorker i = modS (\<lambda>c. c\<lparr>cl_mgr := map_option (workerReturns i) (cl_mgr c)\<rparr>)"

text \<open>
  \<open>startWorkers\<close>: the data plane is set, the inbox is fresh, a manager under the supervisor's
  context starts the workers.  The driver goroutine begins with \<open>Driver_start\<close>.
\<close>

definition startWorkers :: "outside \<Rightarrow> (Client, client_err, unit) go" where
  "startWorkers X =
     readS (\<lambda>c. c) (\<lambda>c.
     thenS (onSession (modS (\<lambda>s. s\<lparr>s_dataPlane := True\<rparr>)))
     (let m0 = NewManager (cl_superCancelled c);
          m1 = snd (Go (snd (Go m0)));
          m2 = (if c_KeepAlive (cl_cfg c) > 0 then snd (Go m1) else m1) in
      thenS (modS (\<lambda>c. c\<lparr>cl_inbox := [], cl_mgr := Some m2\<rparr>))
      (onSession (Driver_start (fst (o_dial X (cl_gen c)))))))"

text \<open>
  What the driver did to the data plane while it handled an event: \<open>InstallChildSA\<close> and \<open>onDead\<close>
  are calls of the client's methods.
\<close>

fun data_plane_calls :: "effect list \<Rightarrow> (Client, client_err, unit) go" where
  "data_plane_calls [] = retS ()"
| "data_plane_calls (Sent _ # es) = data_plane_calls es"
| "data_plane_calls (Install u # es) = thenS (InstallChildSA u) (data_plane_calls es)"
| "data_plane_calls (Dead # es) = thenS onDead (data_plane_calls es)"

definition driverTurn :: "outside \<Rightarrow> event \<Rightarrow> (Client, client_err, unit) go" where
  "driverTurn X ev =
     readS (\<lambda>c. c) (\<lambda>c.
     derefS (cl_session c) (\<lambda>s.
     case driver_event (fst (o_dial X (cl_gen c))) ev s of (r, s') \<Rightarrow>
     thenS (modS (\<lambda>c. c\<lparr>cl_session := Some s'\<rparr>))
     (thenS (data_plane_calls (drop (length (s_out s)) (s_out s')))
     (bindS (liftS r) (\<lambda>exit. if exit then exitWorker driverWorker else retS ())))))"

text \<open>The inbox has room for 16 datagrams; the send does not block.\<close>

definition inboxCap :: nat where [simp]: "inboxCap = 16"

definition rxDrop :: "(Client, client_err, unit) go" where
  "rxDrop = modS (\<lambda>c. c\<lparr>cl_rxDrops := cl_rxDrops c + 1\<rparr>)"

text \<open>One round of \<open>rxDemux\<close> on the datagram it receives, at the time \<open>now\<close>.\<close>

definition rxDemux_turn :: "outside \<Rightarrow> bytes \<Rightarrow> time \<Rightarrow> (Client, client_err, unit) go" where
  "rxDemux_turn X raw now =
     (case Classify raw of (kind, payload) \<Rightarrow>
      case kind of
        KindESP \<Rightarrow>
          if length payload < 4 then rxDrop
          else
            readS (lookupInbound (Uint32 (take 4 payload))) (\<lambda>sa.
            case sa of
              None \<Rightarrow> rxDrop
            | Some sa \<Rightarrow>
                bindS (tryS (useSA (\<lambda>sa. Decrypt (o_prims X) sa payload) sa)) (\<lambda>r.
                case r of
                  Inl (_ :: tun_err) \<Rightarrow> rxDrop
                | Inr inner \<Rightarrow>
                    thenS (modS (\<lambda>c. c\<lparr>cl_lastDataInbound := now\<rparr>))
                    (readS cl_tun (\<lambda>t. derefS t (\<lambda>t. DeliverInbound t inner)))))
      | KindIKE \<Rightarrow>
          modS (\<lambda>c. if length (cl_inbox c) < inboxCap then c\<lparr>cl_inbox := cl_inbox c @ [payload]\<rparr> else c)
      | _ \<Rightarrow> retS ())"

definition LastDataInbound :: "Client \<Rightarrow> time" where
  "LastDataInbound c = cl_lastDataInbound c"

definition ChildSAVolume :: "(Client, tun_err, u32) go" where
  "ChildSAVolume = readS cl_tun (\<lambda>t. derefS t OutboundSeq)"

text \<open>\<open>sendESP\<close>, with the answer of the transport, and a write of the network stack.\<close>

definition sendESP :: "bool \<Rightarrow> bytes \<Rightarrow> (Client, tun_err, unit) go" where
  "sendESP sent pkt =
     readS cl_session (\<lambda>s.
     case s of
       None \<Rightarrow> failS ErrNetClosed
     | Some _ \<Rightarrow> thenS (emitH (SentESP pkt)) (guardS (\<not> sent) ErrTransport (retS ())))"

definition tunnelWrite :: "outside \<Rightarrow> bytes \<Rightarrow> bool \<Rightarrow> bool \<Rightarrow> bytes \<Rightarrow> (Client, tun_err, nat) go" where
  "tunnelWrite X rnd sent late p =
     readS cl_tun (\<lambda>t. derefS t (\<lambda>t. espConn_Write (o_prims X) rnd late (sendESP sent) (t_conn t) p))"

definition keepalive_turn :: "bool \<Rightarrow> (Client, client_err, unit) go" where
  "keepalive_turn sent =
     readS (\<lambda>c. c) (\<lambda>c.
     case cl_session c of
       None \<Rightarrow> exitWorker keepaliveWorker
     | Some _ \<Rightarrow>
         thenS (emitH SentKeepalive)
         (if \<not> sent \<and> (case cl_mgr c of None \<Rightarrow> False | Some m \<Rightarrow> m_cancelled m)
          then exitWorker keepaliveWorker else retS ()))"

text \<open>
  \<open>mgr.Shutdown(); mgr.Wait()\<close>: the driver, if it still runs, sends its delete on the cancelled
  context; the other workers return.
\<close>

definition stopWorkers :: "outside \<Rightarrow> (Client, client_err, unit) go" where
  "stopWorkers X =
     readS (\<lambda>c. c) (\<lambda>c.
     case cl_mgr c of
       None \<Rightarrow> retS ()
     | Some m \<Rightarrow>
         thenS (modS (\<lambda>c. c\<lparr>cl_mgr := Some (Shutdown m)\<rparr>))
         (thenS (if workerRuns driverWorker c then driverTurn X CtxDone else retS ())
         (modS (\<lambda>c. c\<lparr>cl_mgr := map_option (\<lambda>m. m\<lparr>m_active := 0, m_wg := 0, m_pc := map (\<lambda>_. Gone) (m_pc m)\<rparr>) (cl_mgr c)\<rparr>))))"

section \<open>Setting up\<close>

definition tunConfig :: "Session \<Rightarrow> Config \<Rightarrow> TunConfig" where
  "tunConfig s cfg =
     (let a = s_assigned s in
      \<lparr>tc_LocalIP = as_IP a, tc_Netmask = as_Netmask a, tc_Gateway = as_Gateway a, tc_LocalIP6 = as_IP6 a,
       tc_DNS = as_DNS a @ as_DNS6 a, tc_MTU = c_MTU cfg\<rparr>)"

definition startDataPlane :: "outside \<Rightarrow> (Client, client_err, unit) go" where
  "startDataPlane X =
     readS (\<lambda>c. c) (\<lambda>c.
     derefS (cl_session c) (\<lambda>sess.
     derefS (s_child sess) (\<lambda>child.
     bindS (espSAFromChild child) (\<lambda>sa.
     thenS (resetInbound (ch_InitiatorSPI child) sa)
     (thenS (modS (\<lambda>c. c\<lparr>cl_tun := Some (Tunnel_New sa (tunConfig sess (cl_cfg c)))\<rparr>))
     (thenS (if autoReconnectEnabled (cl_cfg c) then modS (\<lambda>c. c\<lparr>cl_super := Idle\<rparr>) else retS ())
     (startWorkers X)))))))"

definition superCancel :: "(Client, client_err, unit) go" where
  "superCancel =
     modS (\<lambda>c. c\<lparr>cl_superCancelled := True, cl_mgr := map_option (\<lambda>m. m\<lparr>m_cancelled := True\<rparr>) (cl_mgr c)\<rparr>)"

text \<open>\<open>c.session.Store(sess)\<close> with the address, for the attempt just made.\<close>

definition storeSession :: "Session \<Rightarrow> (Client, client_err, unit) go" where
  "storeSession s =
     modS (\<lambda>c. c\<lparr>cl_session := Some s, cl_gen := cl_attempts c - 1, cl_localIP := as_IP (s_assigned s)\<rparr>)"

definition Dial :: "outside \<Rightarrow> Config \<Rightarrow> (client_err, unit) res \<times> Client" where
  "Dial X cfg =
     (case validate cfg of
        Inl e \<Rightarrow> (Err (ErrConfig e), newClient cfg)
      | Inr cfg \<Rightarrow>
          bindS (onErrS (dialSession X) superCancel) (\<lambda>sess.
          thenS (storeSession sess)
          (onErrS (startDataPlane X) (thenS closeSession superCancel))) (newClient cfg))"

text \<open>What a client tells of its addresses and drops.\<close>

definition LocalIP :: "Client \<Rightarrow> Addr option" where
  "LocalIP c = cl_localIP c"

definition LocalIP6 :: "Client \<Rightarrow> (Addr \<times> nat) option" where
  "LocalIP6 c = (case cl_session c of None \<Rightarrow> None | Some s \<Rightarrow> as_IP6 (s_assigned s))"

definition DNS :: "Client \<Rightarrow> Addr list" where
  "DNS c = (case cl_session c of None \<Rightarrow> [] | Some s \<Rightarrow> as_DNS (s_assigned s))"

definition DNS6 :: "Client \<Rightarrow> Addr list" where
  "DNS6 c = (case cl_session c of None \<Rightarrow> [] | Some s \<Rightarrow> as_DNS6 (s_assigned s))"

definition RxDrops :: "Client \<Rightarrow> u64" where
  "RxDrops c = cl_rxDrops c"

section \<open>The supervisor\<close>

definition isClosing :: "Client \<Rightarrow> bool" where
  "isClosing c = cl_superCancelled c"

text \<open>
  \<open>reconnect\<close> up to its first dial: the workers of the dead generation are stopped, its session
  closed, its grace timers dropped.
\<close>

definition reconnect_begin :: "outside \<Rightarrow> (Client, client_err, unit) go" where
  "reconnect_begin X =
     readS (\<lambda>c. c) (\<lambda>c.
     if isClosing c then retS ()
     else
       thenS (stopWorkers X)
       (thenS closeSession
       (thenS stopGraceTimers
       (modS (\<lambda>c. c\<lparr>cl_super := Redialing (c_ReconnectBackoffBase (cl_cfg c))\<rparr>)))))"

text \<open>\<open>reconnect\<close> after a successful dial.\<close>

definition Reconfigure :: "outside \<Rightarrow> sa_ref \<Rightarrow> TunConfig \<Rightarrow> (Client, client_err, unit) go" where
  "Reconfigure X sa cfg =
     readS cl_tun (\<lambda>t.
     derefS t (\<lambda>t.
     thenS (modS (\<lambda>c. c\<lparr>cl_tun := Some (reconfigured sa cfg t)\<rparr>))
     (call_hooks cfg (o_range X (t_reconfigure t)))))"

definition reconnect_finish :: "outside \<Rightarrow> Session \<Rightarrow> (Client, client_err, unit) go" where
  "reconnect_finish X sess =
     derefS (s_child sess) (\<lambda>child.
     bindS (tryS (espSAFromChild child)) (\<lambda>r.
     thenS (modS (\<lambda>c. c\<lparr>cl_super := Idle\<rparr>))
     (case r of
        Inl _ \<Rightarrow> signalDeath
      | Inr sa \<Rightarrow>
          thenS (resetInbound (ch_InitiatorSPI child) sa)
          (thenS (storeSession sess)
          (readS cl_cfg (\<lambda>cfg.
           thenS (Reconfigure X sa (tunConfig sess cfg))
           (thenS fireRekey (startWorkers X))))))))"

text \<open>
  One round of \<open>redialWithBackoff\<close> up to its wait; a wait that is interrupted shows as the next
  round finding the client closing.
\<close>

definition redial_turn :: "outside \<Rightarrow> bytes \<Rightarrow> duration \<Rightarrow> (Client, client_err, unit) go" where
  "redial_turn X rnd backoff =
     readS (\<lambda>c. c) (\<lambda>c.
     if isClosing c then modS (\<lambda>c. c\<lparr>cl_super := Idle\<rparr>)
     else
       bindS (tryS (dialSession X)) (\<lambda>r.
       case r of
         Inr sess \<Rightarrow> reconnect_finish X sess
       | Inl (_ :: client_err) \<Rightarrow>
           readS isClosing (\<lambda>closing.
           if closing then modS (\<lambda>c. c\<lparr>cl_super := Idle\<rparr>)
           else
             thenS (emitH (Waited (o_jitter X backoff rnd)))
             (modS (\<lambda>c. c\<lparr>cl_super := Redialing (min (backoff * 2) (c_ReconnectBackoffMax (cl_cfg c)))\<rparr>)))))"

section \<open>Closing\<close>

text \<open>
  \<open>Close\<close> up to the wait for the supervisor, and the rest of it.
\<close>

definition Close_begin :: "(Client, client_err, unit) go" where
  "Close_begin =
     readS cl_closed (\<lambda>closed.
     if closed then retS () else thenS (modS (\<lambda>c. c\<lparr>cl_closed := True\<rparr>)) superCancel)"

definition Close_end :: "outside \<Rightarrow> (Client, client_err, unit) go" where
  "Close_end X =
     thenS (stopWorkers X)
     (thenS (modS (\<lambda>c. c\<lparr>cl_tun := map_option Tunnel_Close (cl_tun c)\<rparr>))
     (thenS stopGraceTimers
     (thenS closeSession
     (modS (\<lambda>c. c\<lparr>cl_torndown := True\<rparr>)))))"

section \<open>Runs of the client\<close>

text \<open>
  The turns: a write of the network stack, a datagram for the receive loop or the error with which
  its transport ends, the driver taking a
  datagram from its inbox, its ticker, its context done, a grace timer firing and its callback
  running, the keepalive ticker, the supervisor seeing the cancelled context or a death or making
  the next dial attempt, the two parts of \<open>Close\<close>, and the calls of the network stack and the
  application that register functions.
\<close>

datatype turn =
    EvWrite bytes bytes bool bool
  | EvRx bytes time
  | EvRxErr
  | EvInbox
  | EvTick
  | EvCtxDone
  | EvTimer nat
  | EvCallback
  | EvKeepalive bool
  | EvSuperDone
  | EvDeath
  | EvRedial bytes
  | EvCloseBegin
  | EvCloseEnd
  | EvSetInbound hook
  | EvDetachInbound
  | EvOnReconfigure hook
  | EvDetachReconfigure nat
  | EvOnRekey "hook option"

definition onTun :: "(Tunnel \<Rightarrow> Tunnel) \<Rightarrow> (Client, client_err, unit) go" where
  "onTun f = modS (\<lambda>c. c\<lparr>cl_tun := map_option f (cl_tun c)\<rparr>)"

definition cancelledMgr :: "Client \<Rightarrow> bool" where
  "cancelledMgr c = (case cl_mgr c of None \<Rightarrow> False | Some m \<Rightarrow> m_cancelled m)"

text \<open>\<open>whenS b m\<close>: the turn is possible only if \<open>b\<close>.\<close>

definition whenS :: "(Client \<Rightarrow> bool) \<Rightarrow> (Client, client_err, unit) go \<Rightarrow> (Client, client_err, unit) go" where
  "whenS b m = readS b (\<lambda>x. if x then m else retS ())"

definition client_event :: "outside \<Rightarrow> turn \<Rightarrow> (Client, client_err, unit) go" where
  "client_event X ev =
     (case ev of
        EvWrite p rnd sent late \<Rightarrow> ignoreS (tunnelWrite X rnd sent late p)
      | EvRx raw now \<Rightarrow> whenS (workerRuns rxWorker) (rxDemux_turn X raw now)
      | EvRxErr \<Rightarrow> whenS (workerRuns rxWorker) (exitWorker rxWorker)
      | EvInbox \<Rightarrow>
          whenS (workerRuns driverWorker)
            (readS cl_inbox (\<lambda>q. case q of [] \<Rightarrow> retS ()
               | raw # rest \<Rightarrow> thenS (modS (\<lambda>c. c\<lparr>cl_inbox := rest\<rparr>)) (driverTurn X (Inbox raw))))
      | EvTick \<Rightarrow> whenS (workerRuns driverWorker) (driverTurn X Tick)
      | EvCtxDone \<Rightarrow> whenS (\<lambda>c. workerRuns driverWorker c \<and> cancelledMgr c) (driverTurn X CtxDone)
      | EvTimer i \<Rightarrow> timerFires i
      | EvCallback \<Rightarrow> timerRuns
      | EvKeepalive sent \<Rightarrow> whenS (workerRuns keepaliveWorker) (keepalive_turn sent)
      | EvSuperDone \<Rightarrow>
          whenS (\<lambda>c. cl_super c = Idle \<and> cl_superCancelled c) (modS (\<lambda>c. c\<lparr>cl_super := Exited\<rparr>))
      | EvDeath \<Rightarrow>
          whenS (\<lambda>c. cl_super c = Idle \<and> cl_deathSig c)
            (thenS (modS (\<lambda>c. c\<lparr>cl_deathSig := False\<rparr>)) (reconnect_begin X))
      | EvRedial rnd \<Rightarrow>
          readS cl_super (\<lambda>p. case p of Redialing b \<Rightarrow> redial_turn X rnd b | _ \<Rightarrow> retS ())
      | EvCloseBegin \<Rightarrow> Close_begin
      | EvCloseEnd \<Rightarrow>
          whenS (\<lambda>c. cl_closed c \<and> \<not> cl_torndown c \<and> (cl_super c = NotStarted \<or> cl_super c = Exited)) (Close_end X)
      | EvSetInbound h \<Rightarrow> onTun (SetInbound h)
      | EvDetachInbound \<Rightarrow> onTun detachInbound
      | EvOnReconfigure h \<Rightarrow> onTun (snd \<circ> OnReconfigure h)
      | EvDetachReconfigure i \<Rightarrow> onTun (detachReconfigure i)
      | EvOnRekey h \<Rightarrow> modS (OnRekey h))"

fun client_run :: "outside \<Rightarrow> turn list \<Rightarrow> (Client, client_err, unit) go" where
  "client_run X [] = retS ()"
| "client_run X (ev # evs) = thenS (ignoreS (client_event X ev)) (client_run X evs)"

end
