(* ===== verification/Net_Text.thy ===== *)
theory Net_Text
  imports Client
begin

text \<open>
  The DNS server of a client's resolver (\<open>resolver.go\<close>), with the functions of Go's \<open>net\<close> package
  on \<open>host:port\<close> strings that it and the proxy command use.  Printing an address is a parameter.
\<close>

section \<open>Host and port\<close>

fun IndexByte :: "char \<Rightarrow> string \<Rightarrow> nat option" where
  "IndexByte c [] = None"
| "IndexByte c (x # xs) = (if x = c then Some 0 else map_option Suc (IndexByte c xs))"

definition LastIndexByte :: "char \<Rightarrow> string \<Rightarrow> nat option" where
  "LastIndexByte c s = map_option (\<lambda>i. length s - 1 - i) (IndexByte c (rev s))"

datatype hostport_err = MissingPort | TooManyColons | MissingBracket | UnexpectedBracket

definition SplitHostPort :: "string \<Rightarrow> hostport_err + string \<times> string" where
  "SplitHostPort s =
     (case LastIndexByte CHR '':'' s of
        None \<Rightarrow> Inl MissingPort
      | Some i \<Rightarrow>
          let finish = (\<lambda>host j k.
            if CHR ''['' \<in> set (drop j s) \<or> CHR '']'' \<in> set (drop k s) then Inl UnexpectedBracket
            else Inr (host, drop (i + 1) s)) in
          if s ! 0 = CHR ''['' then
            (case IndexByte CHR '']'' s of
               None \<Rightarrow> Inl MissingBracket
             | Some e \<Rightarrow>
                 if e + 1 = length s then Inl MissingPort
                 else if e + 1 = i then finish (take (e - 1) (drop 1 s)) 1 (e + 1)
                 else if s ! (e + 1) = CHR '':'' then Inl TooManyColons
                 else Inl MissingPort)
          else if CHR '':'' \<in> set (take i s) then Inl TooManyColons
          else finish (take i s) 0 0)"

definition JoinHostPort :: "string \<Rightarrow> string \<Rightarrow> string" where
  "JoinHostPort host port =
     (if CHR '':'' \<in> set host then ''['' @ host @ '']:'' @ port else host @ '':'' @ port)"

text \<open>Decimal digits, as \<open>strconv.Itoa\<close> prints a number that is not negative.\<close>

fun Itoa :: "nat \<Rightarrow> string" where
  "Itoa n = (if n < 10 then [char_of (48 + n)] else Itoa (n div 10) @ [char_of (48 + n mod 10)])"

declare Itoa.simps [simp del]

lemma IndexByte_None: "IndexByte c s = None \<longleftrightarrow> c \<notin> set s"
  by (induction s) auto

lemma IndexByte_append: "c \<notin> set xs \<Longrightarrow> IndexByte c (xs @ c # ys) = Some (length xs)"
  by (induction xs) auto

lemma LastIndexByte_append: "c \<notin> set ys \<Longrightarrow> LastIndexByte c (xs @ c # ys) = Some (length xs)"
  using IndexByte_append [of c "rev ys" "rev xs"] by (simp add: LastIndexByte_def)

text \<open>Splitting takes apart what joining has put together.\<close>

definition plain_port :: "string \<Rightarrow> bool" where
  "plain_port p \<longleftrightarrow> CHR '':'' \<notin> set p \<and> CHR ''['' \<notin> set p \<and> CHR '']'' \<notin> set p"

lemma split_join:
  assumes "CHR ''['' \<notin> set host" "CHR '']'' \<notin> set host" "plain_port port"
  shows "SplitHostPort (JoinHostPort host port) = Inr (host, port)"
proof (cases "CHR '':'' \<in> set host")
  case True
  have "LastIndexByte CHR '':'' ((''['' @ host @ '']'') @ CHR '':'' # port) = Some (length host + 2)"
    using LastIndexByte_append [of "CHR '':''" port "''['' @ host @ '']''"] assms(3) by (simp add: plain_port_def)
  moreover have "IndexByte CHR '']'' ((CHR ''['' # host) @ CHR '']'' # CHR '':'' # port) = Some (length host + 1)"
    using IndexByte_append [of "CHR '']''" "CHR ''['' # host"] assms(2) by simp
  ultimately show ?thesis
    using True assms by (auto simp: SplitHostPort_def JoinHostPort_def Let_def plain_port_def)
next
  case False
  have "LastIndexByte CHR '':'' (host @ CHR '':'' # port) = Some (length host)"
    using LastIndexByte_append [of "CHR '':''" port host] assms(3) by (simp add: plain_port_def)
  moreover have "(host @ CHR '':'' # port) ! 0 \<noteq> CHR ''[''" using assms(1) by (cases host) auto
  ultimately show ?thesis
    using False assms by (auto simp: SplitHostPort_def JoinHostPort_def Let_def plain_port_def)
qed

section \<open>The resolver's server\<close>

definition resolverServer :: "(Addr \<Rightarrow> string) \<Rightarrow> Addr list \<Rightarrow> Addr list \<Rightarrow> string" where
  "resolverServer str dns4 dns6 =
     (case dns4 of
        a # _ \<Rightarrow> JoinHostPort (str a) ''53''
      | [] \<Rightarrow> (case dns6 of a # _ \<Rightarrow> JoinHostPort (str a) ''53'' | [] \<Rightarrow> ''1.1.1.1:53''))"

text \<open>\<open>Resolver\<close>: the address every query is dialled to.\<close>

definition Resolver :: "(Addr \<Rightarrow> string) \<Rightarrow> Client \<Rightarrow> string \<Rightarrow> string" where
  "Resolver str c server =
     (if server = [] then resolverServer str (DNS c) (DNS6 c)
      else (case SplitHostPort server of
              Inl _ \<Rightarrow> JoinHostPort server ''53''
            | Inr _ \<Rightarrow> server))"

definition buildResolver :: "(Addr \<Rightarrow> string) \<Rightarrow> Client \<Rightarrow> string \<Rightarrow> string" where
  "buildResolver str c override = Resolver str c override"

text \<open>
  A resolver always dials a well-formed address.  Without a server it is the
  first IPv4 resolver the responder pushed, or else its first IPv6 resolver, or else 1.1.1.1,
  on port 53; a given server keeps its port and gets port 53 if it has none, also when it is an
  IPv6 literal.
\<close>

lemma resolver_wellformed:
  assumes "\<forall>a. CHR ''['' \<notin> set (str a) \<and> CHR '']'' \<notin> set (str a)" "CHR ''['' \<notin> set server" "CHR '']'' \<notin> set server"
  shows "SplitHostPort (Resolver str c server) =
     (if server = [] then
        Inr ((case DNS c @ DNS6 c of a # _ \<Rightarrow> str a | [] \<Rightarrow> ''1.1.1.1''), ''53'')
      else (case SplitHostPort server of Inr hp \<Rightarrow> Inr hp | Inl _ \<Rightarrow> Inr (server, ''53'')))"
proof -
  have p: "plain_port ''53''" by (simp add: plain_port_def)
  have "SplitHostPort (JoinHostPort (str a) ''53'') = Inr (str a, ''53'')" for a using split_join assms(1) p by simp
  moreover have "SplitHostPort ''1.1.1.1:53'' = Inr (''1.1.1.1'', ''53'')"
    using split_join [of "''1.1.1.1''" "''53''"] by (simp add: JoinHostPort_def plain_port_def)
  moreover have "SplitHostPort (JoinHostPort server ''53'') = Inr (server, ''53'')" by (rule split_join [OF assms(2,3) p])
  ultimately show ?thesis by (auto simp: Resolver_def resolverServer_def split: list.split sum.split)
qed

text \<open>A bracketed literal without a port is not such a server: it comes out bracketed twice.\<close>

lemma resolver_bracketed_literal:
  "Resolver str c ''[::1]'' = ''[[::1]]:53''" "SplitHostPort ''[[::1]]:53'' = Inl MissingPort"
  by (simp_all add: Resolver_def SplitHostPort_def LastIndexByte_def JoinHostPort_def Let_def)

end
