(* ===== verification/Config_Print.thy ===== *)
theory Config_Print
  imports Net_Text Client_Config
begin

text \<open>
  How a configuration prints (\<open>String\<close> and \<open>LogValue\<close> of \<open>config.go\<close>, \<open>identity.go\<close> and the suite
  names).  Quoting a string (\<open>%q\<close>), printing octets in hexadecimal (\<open>%x\<close>) and printing an address are
  parameters.
\<close>

section \<open>Names\<close>

record printing =
  p_quote :: "bytes \<Rightarrow> string"
  p_hex :: "bytes \<Rightarrow> string"
  p_addr :: "Addr \<Rightarrow> string"

definition esp_Suite_String :: "Suite \<Rightarrow> string" where
  "esp_Suite_String s =
     (if s = SuiteAESCBC256SHA256 then ''aes256-sha256''
      else if s = SuiteAESGCM256 then ''aes256gcm16''
      else if s = SuiteChaCha20Poly1305 then ''chacha20poly1305''
      else ''esp-suite-'' @ Itoa (unat s))"

definition ike_Suite_String :: "ike_Suite \<Rightarrow> string" where
  "ike_Suite_String s =
     (if s = ike_SuiteAESCBC256SHA256 then ''aes256-sha256''
      else if s = ike_SuiteAESGCM256 then ''aes256gcm16''
      else if s = ike_SuiteChaCha20Poly1305 then ''chacha20poly1305''
      else ''ike-suite-'' @ Itoa (unat s))"

definition CipherSuite_String :: "CipherSuite \<Rightarrow> string" where
  "CipherSuite_String cs =
     (case espSuite cs of
        Some i \<Rightarrow> esp_Suite_String i
      | None \<Rightarrow>
          (case ikeSuite cs of
             Some i \<Rightarrow> ike_Suite_String i
           | None \<Rightarrow> ''ipsec-cipher-suite-'' @ Itoa (unat cs)))"

definition string_of :: "bytes \<Rightarrow> string" where
  "string_of b = map (\<lambda>x. char_of (unat x)) b"

definition Identity_String :: "printing \<Rightarrow> Identity \<Rightarrow> string" where
  "Identity_String P i =
     (if id_Kind i = IDKindNone then ''<unset>''
      else if id_Kind i = idKindInvalid then ''<invalid>''
      else if id_Kind i = IDKindIPv4 \<or> id_Kind i = IDKindIPv6 then
        if length (id_Data i) = 4 then p_addr P (Addr4 (id_Data i))
        else if length (id_Data i) = 16 then p_addr P (Addr16 (id_Data i))
        else ''ip:'' @ p_hex P (id_Data i)
      else if id_Kind i = IDKindKeyID then ''keyid:'' @ p_hex P (id_Data i)
      else string_of (id_Data i))"

section \<open>Configurations\<close>

definition redactSecret :: "bytes \<Rightarrow> string" where
  "redactSecret s = (if s = [] then ''<unset>'' else ''<redacted>'')"

definition EAPMSCHAPv2_String :: "printing \<Rightarrow> bytes \<Rightarrow> bytes \<Rightarrow> string" where
  "EAPMSCHAPv2_String P username password =
     ''ipsec.EAPMSCHAPv2{Username: '' @ p_quote P username @ '', Password: '' @ redactSecret password @ ''}''"

definition Config_String :: "printing \<Rightarrow> Config \<Rightarrow> string" where
  "Config_String P c =
     ''ipsec.Config{Server: '' @ p_quote P (map (\<lambda>x. word_of_nat (of_char x)) (c_Server c)) @
     '', LocalID: '' @ Identity_String P (c_LocalID c) @ '', RemoteID: '' @ Identity_String P (c_RemoteID c) @
     '', EAP: '' @ EAPMSCHAPv2_String P (c_Username c) (c_Password c) @
     '', PSK: '' @ redactSecret (c_PSK c) @ '', MTU: '' @ Itoa (unat (c_MTU c)) @ ''}''"

definition Config_LogValue :: "printing \<Rightarrow> Config \<Rightarrow> (string \<times> string) list" where
  "Config_LogValue P c =
     [(''server'', c_Server c), (''localID'', Identity_String P (c_LocalID c)), (''remoteID'', Identity_String P (c_RemoteID c)),
      (''eapUser'', string_of (c_Username c)), (''psk'', redactSecret (c_PSK c))]"

definition EAPMSCHAPv2_LogValue :: "bytes \<Rightarrow> bytes \<Rightarrow> (string \<times> string) list" where
  "EAPMSCHAPv2_LogValue username password = [(''username'', string_of username), (''password'', redactSecret password)]"

text \<open>
  Printing or logging a configuration gives away nothing of its pre-shared key or its
  password but whether they are set: neither their octets nor their length.  Other secrets of which the
  same ones are set give the same text.
\<close>

lemma config_print_redacts:
  assumes "psk = [] \<longleftrightarrow> c_PSK c = []" "password = [] \<longleftrightarrow> c_Password c = []"
  shows "Config_String P (c\<lparr>c_PSK := psk, c_Password := password\<rparr>) = Config_String P c \<and>
    Config_LogValue P (c\<lparr>c_PSK := psk, c_Password := password\<rparr>) = Config_LogValue P c \<and>
    EAPMSCHAPv2_String P (c_Username c) password = EAPMSCHAPv2_String P (c_Username c) (c_Password c) \<and>
    EAPMSCHAPv2_LogValue (c_Username c) password = EAPMSCHAPv2_LogValue (c_Username c) (c_Password c)"
  using assms
  by (simp add: Config_String_def Config_LogValue_def EAPMSCHAPv2_String_def EAPMSCHAPv2_LogValue_def redactSecret_def)

end
