(* ===== verification/Session_Example.thy ===== *)
theory Session_Example
  imports Session_State
begin

text \<open>
  A concrete surrounding for the session: transparent primitives that obey the laws assumed of
  the real ones, a clock that advances a tenth of a second per question, a socket that always sends.  The
  examples of the session theories run in it.
\<close>

definition plain_curve :: curve where
  "plain_curve = \<lparr>x_Public = (\<lambda>k. k), x_NewPublicKey = Some, x_ECDH = (\<lambda>a b. Some (map2 (+) a b))\<rparr>"

lemma plain_curve_ok: "curve_ok plain_curve"
proof -
  have "map2 (+) a b = map2 (+) b (a :: bytes)" for a b
    by (rule nth_equalityI) (auto simp: add.commute)
  then show ?thesis by (simp add: curve_ok_def plain_curve_def)
qed

definition plain_world :: world where
  "plain_world =
     \<lparr>w_prims = plain_prims, w_curve = plain_curve, w_sha1 = (\<lambda>d. take 20 (d @ zeros 20)),
      w_rand = (\<lambda>n. replicate 64 (of_nat n)), w_rint = (\<lambda>n. Some n), w_xkey = (\<lambda>n. Some (replicate 32 (of_nat n))),
      w_now = (\<lambda>n. (int n + 1) * 100000000), w_wall = (\<lambda>n. (int n + 1) * 100000000), w_send = (\<lambda>n. True), w_recv = (\<lambda>n. []),
      w_cancelled = (\<lambda>n. False), w_jitter = (\<lambda>d x. d), w_volume = (\<lambda>n. 0), w_lastData = (\<lambda>n. zeroTime)\<rparr>"

definition plain_cfg :: SessionConfig where
  "plain_cfg =
     \<lparr>cf_Server = ''vpn.example'', cf_LocalID = \<lparr>wi_Type = 2, wi_Data = [1]\<rparr>, cf_RemoteID = \<lparr>wi_Type = 2, wi_Data = [2]\<rparr>,
      cf_EAPUser = [], cf_EAPPass = [], cf_PSK = [7], cf_RootCAs = None, cf_MTU = 1280,
      cf_KeepAlive = 20 * Second, cf_DPDTimeout = 30 * Second, cf_RekeyLifetime = 60 * Minute, cf_IKERekeyLifetime = 0,
      cf_ReplayWindow = 64, cf_RekeyMaxPackets = 0, cf_ChildSAPFS = False, cf_ESPSuites = [], cf_IKESuites = [],
      cf_RequestIPv6 = False, cf_RetransmitBase = 0, cf_RetransmitMax = 0, cf_RetransmitTries = 0\<rparr>"

end
