(* ===== verification/Driver_Safety.thy ===== *)
theory Driver_Safety
  imports Driver Session_Example
begin

text \<open>
  The control loop keeps the session well-formed and never panics, whatever the peer sends and
  however the outside answers.
\<close>

section \<open>Well-formed sessions\<close>

text \<open>A Diffie-Hellman value holds the private key of its group.\<close>

definition dh_ok :: "DH \<Rightarrow> bool" where
  "dh_ok d \<longleftrightarrow> (dh_Group d = 14 \<longrightarrow> privModp d \<noteq> None) \<and> (dh_Group d = 31 \<longrightarrow> privX25519 d \<noteq> None)"

definition pending_ok :: "pendingExchange \<Rightarrow> bool" where
  "pending_ok p \<longleftrightarrow>
     1 \<le> pe_attempts p \<and>
     (pe_kind p = exChildRekey \<longrightarrow> (\<exists>c. pe_child p = Some c \<and> (\<forall>d. cr_dh c = Some d \<longrightarrow> dh_ok d))) \<and>
     (pe_kind p = exIKERekey \<longrightarrow> (\<exists>c. pe_ike p = Some c \<and> dh_ok (ir_dh c)))"

text \<open>The keys of a Child SA have the lengths of its suite.\<close>

definition keys_ok :: "byte \<Rightarrow> bytes \<Rightarrow> bytes \<Rightarrow> bytes \<Rightarrow> bytes \<Rightarrow> bool" where
  "keys_ok sid oe og ie ig \<longleftrightarrow>
     (\<exists>s\<in>set espSuites. sid = su_id s \<and> length oe = su_encrKeyLen s \<and> length og = su_integKeyLen s \<and>
        length ie = su_encrKeyLen s \<and> length ig = su_integKeyLen s)"

definition child_ok :: "ChildSA \<Rightarrow> bool" where
  "child_ok c \<longleftrightarrow>
     keys_ok (ch_Suite c) (EncrIR (ch_Keys c)) (IntegIR (ch_Keys c)) (EncrRI (ch_Keys c)) (IntegRI (ch_Keys c))"

definition update_ok :: "ChildSAUpdate \<Rightarrow> bool" where
  "update_ok u \<longleftrightarrow> keys_ok (cu_Suite u) (cu_OutEncr u) (cu_OutInteg u) (cu_InEncr u) (cu_InInteg u)"

definition ikes_ok :: "Session \<Rightarrow> bool" where
  "ikes_ok s \<longleftrightarrow>
     (\<exists>sa. s_ikeSA s = Some sa \<and> ike_ok sa) \<and> (\<forall>c. s_oldIKE s = Some c \<longrightarrow> ike_ok (cx_sa c))"

text \<open>
  The IKE SAs have the keys of their suites, an outstanding rekey has its context, and so have
  the Child SA and every Child SA handed to the data plane.
\<close>

definition session_ok :: "Session \<Rightarrow> bool" where
  "session_ok s \<longleftrightarrow>
     ikes_ok s \<and> s_dataPlane s \<and>
     (\<forall>p. s_pending s = Some p \<longrightarrow> pending_ok p) \<and>
     (\<forall>c. s_child s = Some c \<longrightarrow> child_ok c) \<and>
     (\<forall>u. Install u \<in> set (s_out s) \<longrightarrow> update_ok u)"

text \<open>While a request is served that came in under \<open>dec\<close>, that IKE SA is there.\<close>

definition serving :: "ctxRef \<Rightarrow> Session \<Rightarrow> bool" where
  "serving dec s \<longleftrightarrow> session_ok s \<and> (dec = Old \<longrightarrow> s_oldIKE s \<noteq> None)"

section \<open>Steps that leave the control state alone\<close>

text \<open>
  Asking the outside, encoding and sending change the question counter, the output and the
  sequence numbers of the IKE SAs, nothing else.
\<close>

definition same_keys :: "IKESA \<Rightarrow> IKESA \<Rightarrow> bool" where
  "same_keys x y \<longleftrightarrow> (\<exists>q. y = x\<lparr>skSeq := q\<rparr>)"

definition same_ctx :: "ikeCtx \<Rightarrow> ikeCtx \<Rightarrow> bool" where
  "same_ctx c d \<longleftrightarrow> cx_spii c = cx_spii d \<and> cx_spir c = cx_spir d \<and> same_keys (cx_sa c) (cx_sa d)"

definition quiet :: "Session \<Rightarrow> Session \<Rightarrow> bool" where
  "quiet s s' \<longleftrightarrow>
     (\<exists>k sa old ds. s' = s\<lparr>s_n := k, s_ikeSA := sa, s_oldIKE := old, s_out := s_out s @ map Sent ds\<rparr> \<and>
        rel_option same_keys (s_ikeSA s) sa \<and> rel_option same_ctx (s_oldIKE s) old)"

definition stable :: "(Session \<Rightarrow> bool) \<Rightarrow> bool" where
  "stable P \<longleftrightarrow> (\<forall>s s'. P s \<longrightarrow> quiet s s' \<longrightarrow> P s')"

definition quietS :: "ctxRef \<Rightarrow> (Session, 'e, 'a) go \<Rightarrow> bool" where
  "quietS dec m \<longleftrightarrow>
     (\<forall>s. ikes_ok s \<longrightarrow> (dec = Old \<longrightarrow> s_oldIKE s \<noteq> None) \<longrightarrow> wp m (\<lambda>r s'. r \<noteq> Panic \<and> quiet s s') s)"

lemma same_keys_refl [simp]: "same_keys x x"
  unfolding same_keys_def by (rule exI [of _ "skSeq x"]) simp

lemma same_keys_trans: "same_keys x y \<Longrightarrow> same_keys y z \<Longrightarrow> same_keys x z"
  by (auto simp: same_keys_def)

lemma same_keys_ok: "same_keys x y \<Longrightarrow> ike_ok y \<longleftrightarrow> ike_ok x"
  by (auto simp: same_keys_def)

lemma same_ctx_refl [simp]: "same_ctx c c"
  by (simp add: same_ctx_def)

lemma same_ctx_trans: "same_ctx c d \<Longrightarrow> same_ctx d e \<Longrightarrow> same_ctx c e"
  by (auto simp: same_ctx_def intro: same_keys_trans)

lemma rel_same_refl [simp]: "rel_option same_keys a a" "rel_option same_ctx c c"
  by (simp_all add: option.rel_refl)

lemma quietI:
  "rel_option same_keys (s_ikeSA s) sa \<Longrightarrow> rel_option same_ctx (s_oldIKE s) old \<Longrightarrow>
   s' = s\<lparr>s_n := k, s_ikeSA := sa, s_oldIKE := old, s_out := s_out s @ map Sent ds\<rparr> \<Longrightarrow> quiet s s'"
  unfolding quiet_def by blast

lemma quiet_refl: "quiet s s"
  by (rule quietI [where k = "s_n s" and sa = "s_ikeSA s" and old = "s_oldIKE s" and ds = "[]"]) simp_all

lemma quiet_n: "quiet s (s\<lparr>s_n := k\<rparr>)"
  by (rule quietI [where k = k and sa = "s_ikeSA s" and old = "s_oldIKE s" and ds = "[]"]) simp_all

lemma quiet_sent: "quiet s (s\<lparr>s_n := k, s_out := s_out s @ [Sent d]\<rparr>)"
  by (rule quietI [where k = k and sa = "s_ikeSA s" and old = "s_oldIKE s" and ds = "[d]"]) simp_all

lemma quiet_trans:
  assumes "quiet s t" "quiet t u"
  shows "quiet s u"
proof -
  obtain k sa old ds where t: "t = s\<lparr>s_n := k, s_ikeSA := sa, s_oldIKE := old, s_out := s_out s @ map Sent ds\<rparr>"
    "rel_option same_keys (s_ikeSA s) sa" "rel_option same_ctx (s_oldIKE s) old"
    using assms(1) unfolding quiet_def by blast
  obtain k' sa' old' ds' where u: "u = t\<lparr>s_n := k', s_ikeSA := sa', s_oldIKE := old', s_out := s_out t @ map Sent ds'\<rparr>"
    "rel_option same_keys (s_ikeSA t) sa'" "rel_option same_ctx (s_oldIKE t) old'"
    using assms(2) unfolding quiet_def by blast
  have "rel_option same_keys (s_ikeSA s) sa'"
    using t u(2) by (cases "s_ikeSA s"; cases sa; cases sa') (auto intro: same_keys_trans)
  moreover have "rel_option same_ctx (s_oldIKE s) old'"
    using t u(3) by (cases "s_oldIKE s"; cases old; cases old') (auto intro: same_ctx_trans)
  ultimately show ?thesis using t(1) u(1)
    by (intro quietI [where k = k' and sa = sa' and old = old' and ds = "ds @ ds'"]) simp_all
qed

lemma quiet_ikes_ok: "quiet s s' \<Longrightarrow> ikes_ok s \<Longrightarrow> ikes_ok s'"
  unfolding quiet_def ikes_ok_def
  by (cases "s_oldIKE s") (auto simp: option_rel_Some1 same_ctx_def same_keys_ok)

lemma quiet_old: "quiet s s' \<Longrightarrow> (s_oldIKE s' = None) = (s_oldIKE s = None)"
  unfolding quiet_def by (cases "s_oldIKE s") (auto simp: option_rel_Some1)

lemma quiet_fields:
  assumes "quiet s s'"
  shows "s_dataPlane s' = s_dataPlane s" "s_pending s' = s_pending s" "s_messageID s' = s_messageID s"
    "s_child s' = s_child s" "s_cfg s' = s_cfg s" "s_oldIKEDelete s' = s_oldIKEDelete s"
    "s_childPFS s' = s_childPFS s" "s_peer s' = s_peer s" "s_oldPeer s' = s_oldPeer s"
    "Install u \<in> set (s_out s') \<longleftrightarrow> Install u \<in> set (s_out s)"
  using assms unfolding quiet_def by auto

lemma quiet_session_ok: "quiet s s' \<Longrightarrow> session_ok s \<Longrightarrow> session_ok s'"
  unfolding session_ok_def using quiet_ikes_ok [of s s'] quiet_fields [of s s'] by simp

lemma stable_session_ok: "stable session_ok"
  by (auto simp: stable_def intro: quiet_session_ok)

lemma stable_serving: "stable (serving dec)"
  by (auto simp: stable_def serving_def quiet_old intro: quiet_session_ok)

lemma holds_quiet:
  "quietS dec m \<Longrightarrow> stable P \<Longrightarrow> (\<And>s. P s \<Longrightarrow> serving dec s) \<Longrightarrow> keeps P m"
  unfolding quietS_def holds_def stable_def serving_def session_ok_def by (blast intro: wp_mono)

lemma quietS_bindS:
  assumes "quietS dec m" "\<And>x. quietS dec (f x)"
  shows "quietS dec (bindS m f)"
  unfolding quietS_def
proof (intro allI impI)
  fix s assume s: "ikes_ok s" "dec = Old \<longrightarrow> s_oldIKE s \<noteq> None"
  have "wp m (\<lambda>r s'. r \<noteq> Panic \<and> quiet s s') s" using assms(1) s unfolding quietS_def by blast
  then show "wp (bindS m f) (\<lambda>r s'. r \<noteq> Panic \<and> quiet s s') s"
    unfolding wp_bindS
  proof (rule wp_mono, goal_cases)
    case (1 r s')
    show ?case
    proof (cases r)
      case (Ok x)
      have "ikes_ok s'" "dec = Old \<longrightarrow> s_oldIKE s' \<noteq> None"
        using 1 s quiet_ikes_ok [of s s'] quiet_old [of s s'] by simp_all
      then have "wp (f x) (\<lambda>r s''. r \<noteq> Panic \<and> quiet s' s'') s'" using assms(2) unfolding quietS_def by blast
      then have "wp (f x) (\<lambda>r s''. r \<noteq> Panic \<and> quiet s s'') s'" by (rule wp_mono) (use 1 quiet_trans in blast)
      then show ?thesis using Ok by simp
    qed (use 1 in auto)
  qed
qed

lemma quietS_any: "quietS Cur m \<Longrightarrow> quietS dec m"
  by (simp add: quietS_def)

lemma quietS_pure: "(\<And>s. wp m (\<lambda>r s'. r \<noteq> Panic \<and> quiet s s') s) \<Longrightarrow> quietS dec m"
  by (simp add: quietS_def)


named_theorems quiet_intros \<open>computations that leave the control state alone\<close>

lemmas [quiet_intros] = quietS_bindS

lemma quietS_retS [quiet_intros]: "quietS dec (retS x)"
  and quietS_failS [quiet_intros]: "quietS dec (failS e)"
  by (simp_all add: quietS_def wp_simps quiet_refl)

lemma quietS_liftS [quiet_intros]: "panic_free r \<Longrightarrow> quietS dec (liftS r)"
  by (simp add: quietS_def wp_simps quiet_refl panic_free_def)

lemma quietS_readS [quiet_intros]: "(\<And>x. quietS dec (k x)) \<Longrightarrow> quietS dec (readS f k)"
  by (simp add: quietS_def wp_simps)

lemma quietS_guardS [quiet_intros]: "quietS dec k \<Longrightarrow> quietS dec (guardS c e k)"
  by (simp add: guardS_def quietS_failS)

lemma quietS_if [quiet_intros]: "quietS dec m \<Longrightarrow> quietS dec n \<Longrightarrow> quietS dec (if c then m else n)"
  by simp

lemma quietS_tryS [quiet_intros]: "quietS dec m \<Longrightarrow> quietS dec (tryS m)"
  unfolding quietS_def wp_tryS by (fastforce elim!: wp_mono split: res.splits)

lemma quietS_ignoreS [quiet_intros]: "quietS dec m \<Longrightarrow> quietS dec (ignoreS m)"
  unfolding ignoreS_def by (intro quiet_intros)

lemma quietS_case_sum [quiet_intros]:
  "(\<And>e. quietS dec (f e)) \<Longrightarrow> (\<And>y. quietS dec (g y)) \<Longrightarrow> quietS dec (case x of Inl e \<Rightarrow> f e | Inr y \<Rightarrow> g y)"
  by (cases x) simp_all

lemma quietS_tickS [quiet_intros]: "quietS dec tickS"
  by (auto simp: quietS_def tickS_def wp_def intro: quiet_n)

lemma quietS_nowS [quiet_intros]: "quietS dec (nowS W)"
  and quietS_clockS [quiet_intros]: "quietS dec (clockS W)"
  by (simp_all add: nowS_def clockS_def quiet_intros)

lemma quietS_randBytes [quiet_intros]: "quietS dec (randBytes W k)"
  unfolding randBytes_def by (intro quiet_intros no_panic)

lemma quietS_randUint64 [quiet_intros]: "quietS dec (randUint64 W)"
  unfolding randUint64_def by (intro quiet_intros)

lemma NewDH_panic_free [no_panic]: "panic_free (NewDH C ri xk g)"
  by (auto simp: NewDH_def Let_def intro!: no_panic)

lemma quietS_newDHS [quiet_intros]: "quietS dec (newDHS W g)"
  unfolding newDHS_def by (intro quiet_intros no_panic)

lemma quiet_emit: "quiet s (s\<lparr>s_out := s_out s @ [Sent d]\<rparr>)"
  by (rule quietI [where k = "s_n s" and sa = "s_ikeSA s" and old = "s_oldIKE s" and ds = "[d]"]) simp_all

lemma quietS_emit_Sent [quiet_intros]: "quietS dec (emitS (Sent d))"
  by (simp add: quietS_def emitS_def wp_simps quiet_emit)

lemma quietS_sendIKE [quiet_intros]: "quietS dec (sendIKE W raw)"
  unfolding sendIKE_def by (intro quiet_intros)

lemma quietS_randFraction [quiet_intros]: "quietS dec (randFraction W)"
  unfolding randFraction_def by (intro quiet_intros)

lemma quietS_jitteredDeadline [quiet_intros]: "quietS dec (jitteredDeadline W b l)"
  unfolding jitteredDeadline_def by (intro quiet_intros)

lemma curCtx_Some: "s_ikeSA s = Some sa \<Longrightarrow>
   curCtx s = Some \<lparr>cx_sa = sa, cx_spii = s_initiatorSPI s, cx_spir = s_responderSPI s\<rparr>"
  by (simp add: curCtx_def)

lemma ctxOf_ok:
  assumes "ikes_ok s" "dec = Old \<longrightarrow> s_oldIKE s \<noteq> None"
  obtains c where "ctxOf dec s = Some c" "ike_ok (cx_sa c)"
  using assms by (cases dec) (auto simp: ctxOf_def ikes_ok_def curCtx_Some)

lemma quiet_putSA:
  assumes "ctxOf dec s = Some c"
  shows "quiet s (putSA dec ((cx_sa c)\<lparr>skSeq := q\<rparr>) (s\<lparr>s_n := k\<rparr>))"
proof (cases dec)
  case Cur
  then obtain sa where "s_ikeSA s = Some sa" "cx_sa c = sa" using assms by (auto simp: ctxOf_def curCtx_def)
  then show ?thesis using Cur
    by (intro quietI [where k = k and sa = "Some (sa\<lparr>skSeq := q\<rparr>)" and old = "s_oldIKE s" and ds = "[]"])
       (auto simp: putSA_def same_keys_def)
next
  case Old
  then have "s_oldIKE s = Some c" using assms by (simp add: ctxOf_def)
  then show ?thesis using Old
    by (intro quietI [where k = k and sa = "s_ikeSA s" and old = "Some (c\<lparr>cx_sa := (cx_sa c)\<lparr>skSeq := q\<rparr>\<rparr>)" and ds = "[]"])
       (auto simp: putSA_def same_ctx_def same_keys_def)
qed

lemma encodeSKEmptyWith_eq:
  "encodeSKEmptyWith P c rnd ex fl mid = encodeSKWith P (cx_sa c) rnd (cx_spii c) (cx_spir c) ex fl mid []"
  by (simp add: encodeSKEmptyWith_def encodeSKWith_def MarshalPayloads_def)

lemma encodeEmpty_eq: "encodeEmpty W dec ex fl mid = encodeWith W dec ex fl mid []"
  by (simp add: encodeEmpty_def encodeWith_def encodeSKEmptyWith_eq)

text \<open>The effect of encoding under one of the IKE SAs.\<close>

lemma encodeWith_run:
  assumes "ctxOf dec s = Some c"
    and "encodeSKWith (w_prims W) (cx_sa c) (w_rand W (s_n s)) (cx_spii c) (cx_spir c) ex (fl (cx_sa c)) mid inner = (r, sa')"
  shows "encodeWith W dec ex fl mid inner s = (wrapR ErrProt r, putSA dec sa' (s\<lparr>s_n := Suc (s_n s)\<rparr>))"
  using assms
  by (simp add: encodeWith_def readS_def derefS_def bindS_def tickS_def modS_def liftS_def Let_def)

lemma quietS_encodeWith [quiet_intros]:
  assumes "prims_ok (w_prims W)"
  shows "quietS dec (encodeWith W dec ex fl mid inner)"
  unfolding quietS_def
proof (intro allI impI)
  fix s assume "ikes_ok s" "dec = Old \<longrightarrow> s_oldIKE s \<noteq> None"
  then obtain c where c: "ctxOf dec s = Some c" "ike_ok (cx_sa c)" by (rule ctxOf_ok)
  obtain r sa' where e: "encodeSKWith (w_prims W) (cx_sa c) (w_rand W (s_n s)) (cx_spii c) (cx_spir c) ex
       (fl (cx_sa c)) mid inner = (r, sa')" by (metis surj_pair)
  have "panic_free r" "\<exists>q. sa' = (cx_sa c)\<lparr>skSeq := q\<rparr>"
    using encodeSKWith_total [OF assms c(2), of "w_rand W (s_n s)" "cx_spii c" "cx_spir c" ex "fl (cx_sa c)" mid inner] e
    by simp_all
  then show "wp (encodeWith W dec ex fl mid inner) (\<lambda>r s'. r \<noteq> Panic \<and> quiet s s') s"
    using encodeWith_run [of dec s c W ex fl mid inner r sa', OF c(1) e] quiet_putSA [OF c(1)] by (auto simp: wp_def panic_free_def)
qed

lemma quietS_encodeSK [quiet_intros]:
  "prims_ok (w_prims W) \<Longrightarrow> quietS dec (encodeSK W ex fl mid inner)"
  unfolding encodeSK_def by (rule quietS_any [OF quietS_encodeWith])

lemma quietS_encodeEmpty [quiet_intros]:
  "prims_ok (w_prims W) \<Longrightarrow> quietS dec (encodeEmpty W dec ex fl mid)"
  unfolding encodeEmpty_eq by (rule quietS_encodeWith)


section \<open>Every operation keeps the session well-formed\<close>

lemma keeps_quiet_serving: "quietS dec m \<Longrightarrow> keeps (serving dec) m"
  by (rule holds_quiet [OF _ stable_serving])

lemma serving_session: "serving Cur = session_ok"
  by (simp add: serving_def fun_eq_iff)

lemma serving_ok: "serving dec s \<Longrightarrow> session_ok s"
  by (simp add: serving_def)

lemmas [holds_intros] =
  quietS_tickS [THEN keeps_quiet_serving] quietS_nowS [THEN keeps_quiet_serving]
  quietS_clockS [THEN keeps_quiet_serving] quietS_randBytes [THEN keeps_quiet_serving]
  quietS_randUint64 [THEN keeps_quiet_serving] quietS_newDHS [THEN keeps_quiet_serving]
  quietS_sendIKE [THEN keeps_quiet_serving] quietS_jitteredDeadline [THEN keeps_quiet_serving]
  quietS_encodeWith [THEN keeps_quiet_serving] quietS_encodeEmpty [THEN keeps_quiet_serving]
  quietS_encodeSK [THEN keeps_quiet_serving] quietS_encodeEmpty [THEN quietS_any, THEN keeps_quiet_serving]

text \<open>Fields that well-formedness does not speak about.\<close>

lemma serving_fields [simp]:
  "serving dec (s\<lparr>s_peer := a\<rparr>) = serving dec s" "serving dec (s\<lparr>s_oldPeer := a\<rparr>) = serving dec s"
  "serving dec (s\<lparr>s_childPFS := b, s_childPFSGroup := c\<rparr>) = serving dec s"
  "serving dec (s\<lparr>s_nextChildRekey := t\<rparr>) = serving dec s" "serving dec (s\<lparr>s_ikeDHGroup := g\<rparr>) = serving dec s"
  "serving dec (s\<lparr>s_lastInbound := t\<rparr>) = serving dec s" "serving dec (s\<lparr>s_fastDPDDue := b\<rparr>) = serving dec s"
  "serving dec (s\<lparr>s_nextIKERekey := t\<rparr>) = serving dec s" "serving dec (s\<lparr>s_nextVolumeRekey := t\<rparr>) = serving dec s"
  "serving dec (s\<lparr>s_lastTickWall := t\<rparr>) = serving dec s" "serving dec (s\<lparr>s_childReestablish := b\<rparr>) = serving dec s"
  "serving dec (s\<lparr>s_nextChildReestablish := t\<rparr>) = serving dec s" "serving dec (s\<lparr>s_messageID := i\<rparr>) = serving dec s"
  "serving dec (s\<lparr>s_childReestablish := b, s_nextChildReestablish := t\<rparr>) = serving dec s"
  "serving dec (s\<lparr>s_oldIKEDelete := d\<rparr>) = serving dec s" "serving dec (s\<lparr>s_messageID := i, s_oldIKEDelete := d\<rparr>) = serving dec s"
  "serving dec (s\<lparr>s_ikeInstalledAt := t\<rparr>) = serving dec s"
  "serving dec (s\<lparr>s_out := s_out s @ [Dead]\<rparr>) = serving dec s"
  by (simp_all add: serving_def session_ok_def ikes_ok_def)

lemma serving_pending:
  "serving dec s \<Longrightarrow> serving dec (s\<lparr>s_pending := None\<rparr>)"
  "serving dec s \<Longrightarrow> pending_ok p \<Longrightarrow> serving dec (s\<lparr>s_messageID := i, s_pending := Some p\<rparr>)"
  "serving dec s \<Longrightarrow> pending_ok p \<Longrightarrow> serving dec (s\<lparr>s_pending := Some p\<rparr>)"
  "serving dec s \<Longrightarrow> pending_ok p \<Longrightarrow> serving dec (s\<lparr>s_pending := Some p, s_fastDPDDue := b\<rparr>)"
  by (auto simp: serving_def session_ok_def ikes_ok_def)

lemma keeps_recordPeerResponse [holds_intros]: "keeps (serving dec) (recordPeerResponse v mid raw)"
  unfolding recordPeerResponse_def by (auto simp: Let_def intro!: holds_intros)

lemma keeps_sendNotifyResponse [holds_intros]:
  assumes "prims_ok (w_prims W)"
  shows "keeps (serving dec) (sendNotifyResponse W dec mid v pr t d)"
  unfolding sendNotifyResponse_def
  using assms by (intro holds_intros)

lemma keeps_sendTemporaryFailure [holds_intros]:
  "prims_ok (w_prims W) \<Longrightarrow> keeps (serving dec) (sendTemporaryFailure W dec mid v)"
  unfolding sendTemporaryFailure_def by (rule keeps_sendNotifyResponse)

lemma keeps_sendInvalidKEPayload [holds_intros]:
  "prims_ok (w_prims W) \<Longrightarrow> keeps (serving dec) (sendInvalidKEPayload W dec mid v)"
  unfolding sendInvalidKEPayload_def by (rule keeps_sendNotifyResponse)

lemma enabledSuites_subset: "set (enabledSuites conf table) \<subseteq> set table"
proof -
  have "suiteByID i t = Some s \<Longrightarrow> s \<in> set t" for i t s
    by (induction t) (auto split: if_splits)
  then have "set (enabled_loop conf table) \<subseteq> set table"
    by (induction conf) (auto split: option.splits)
  then show ?thesis by (auto simp: enabledSuites_def)
qed

lemma selectedSuite_in: "selectedSuite p enabled = Some s \<Longrightarrow> s \<in> set enabled"
  by (induction enabled) (auto split: if_splits)

lemma selectProposal_in: "selectProposal ps enabled g = Some (p, s) \<Longrightarrow> s \<in> set enabled \<and> p \<in> set ps \<and> offers g s p"
proof (induction enabled)
  case (Cons t enabled)
  then show ?case by (auto simp: select_inner_find find_Some_iff split: option.splits)
qed simp

lemma espSuites_lens: "s \<in> set espSuites \<Longrightarrow> su_encrKeyLen s \<le> 36 \<and> su_integKeyLen s \<le> 32"
  by (auto simp: espSuites_def)

lemma deriveChildKeys_suite:
  assumes "prims_ok P" "s \<in> set espSuites"
  obtains ck where "deriveChildKeys P sa dh ni nr (su_encrKeyLen s) (su_integKeyLen s) = Ok ck"
    "keys_ok (su_id s) (EncrIR ck) (IntegIR ck) (EncrRI ck) (IntegRI ck)"
    "keys_ok (su_id s) (EncrRI ck) (IntegRI ck) (EncrIR ck) (IntegIR ck)"
proof -
  have "2 * (su_encrKeyLen s + su_integKeyLen s) \<le> 255 * 32" using espSuites_lens [OF assms(2)] by simp
  then show ?thesis
  proof (rule deriveChildKeys_Ok [OF assms(1), of _ _ sa dh ni nr], goal_cases)
    case (1 ck)
    then show ?case using that [of ck] assms(2) unfolding keys_ok_def by blast
  qed
qed

lemma Shared_panic_free [no_panic]: "dh_ok d \<Longrightarrow> panic_free (Shared C d peer)"
  by (auto simp: Shared_def dh_ok_def Let_def intro!: no_panic)

lemma NewDH_ok: "NewDH C ri xk g = Ok d \<Longrightarrow> dh_ok d \<and> dh_Group d = g"
  by (auto simp: NewDH_def dh_ok_def Let_def split: if_splits option.splits)

lemma wp_newDHS:
  assumes "stable P" "\<And>s. P s \<Longrightarrow> serving dec s" "P s"
  shows "wp (newDHS W g) (\<lambda>r s'. r \<noteq> Panic \<and> P s' \<and> (\<forall>d. r = Ok d \<longrightarrow> dh_ok d \<and> dh_Group d = g)) s"
proof -
  have "keeps P (newDHS W g)" using quietS_newDHS assms(1,2) by (rule holds_quiet)
  then have "wp (newDHS W g) (\<lambda>r s'. r \<noteq> Panic \<and> P s') s" using assms(3) by (simp add: holds_def)
  moreover have "wp (newDHS W g) (\<lambda>r s'. \<forall>d. r = Ok d \<longrightarrow> dh_ok d \<and> dh_Group d = g) s"
    by (auto simp: newDHS_def wp_def bindS_def tickS_def liftS_def dest: NewDH_ok)
  ultimately show ?thesis by (simp add: wp_def)
qed

lemma keeps_Install [holds_intros]:
  "update_ok u \<Longrightarrow> keeps (serving dec) (InstallChildSA_call u)"
  by (auto simp: InstallChildSA_call_def emitS_def holds_def wp_simps serving_def session_ok_def ikes_ok_def)

lemma scan_rekey_panic_free [no_panic]: "panic_free (scan_rekey ps acc)"
  by (induction ps acc rule: scan_rekey.induct)
     (auto simp: notifyError_def split: payload.split option.split intro!: no_panic)

lemma childRekeyResponse_panic_free [no_panic]: "panic_free (childRekeyResponse cfg inner)"
  by (auto simp: childRekeyResponse_def split: option.split list.split intro!: no_panic)

lemma childRekeyResponse_Ok:
  assumes "childRekeyResponse cfg inner = Ok (prop, suite, nr, ke)"
  shows "suite \<in> set espSuites" "length (pr_SPI prop) = 4" "nr \<noteq> []"
    "selectedSuite prop (enabledESPSuites cfg) = Some suite"
proof -
  obtain saP n k where "scan_rekey inner (None, [], None) = Ok (saP, n, k)"
    using assms by (auto simp: childRekeyResponse_def)
  then have "length (pr_SPI prop) = 4 \<and> nr \<noteq> [] \<and> selectedSuite prop (enabledESPSuites cfg) = Some suite"
    using assms by (auto simp: childRekeyResponse_def split: option.splits list.splits)
  then show "suite \<in> set espSuites" "length (pr_SPI prop) = 4" "nr \<noteq> []"
    "selectedSuite prop (enabledESPSuites cfg) = Some suite"
    using enabledSuites_subset [of "cf_ESPSuites cfg" espSuites]
    by (auto simp: enabledESPSuites_def dest: selectedSuite_in)
qed

lemma childRekeyKeys_Ok:
  assumes "prims_ok (w_prims W)" "suite \<in> set espSuites" "\<And>d. cr_dh c = Some d \<Longrightarrow> dh_ok d"
  shows "panic_free (childRekeyKeys W sa c prop suite nr ke)"
    and "childRekeyKeys W sa c prop suite nr ke = Ok ck \<Longrightarrow>
       keys_ok (su_id suite) (EncrIR ck) (IntegIR ck) (EncrRI ck) (IntegRI ck)"
proof -
  have d: "panic_free (deriveChildKeys (w_prims W) sa sh ni nr (su_encrKeyLen suite) (su_integKeyLen suite))"
    "deriveChildKeys (w_prims W) sa sh ni nr (su_encrKeyLen suite) (su_integKeyLen suite) = Ok ck \<Longrightarrow>
       keys_ok (su_id suite) (EncrIR ck) (IntegIR ck) (EncrRI ck) (IntegRI ck)" for sh ni ck
    by (rule deriveChildKeys_suite [OF assms(1,2), of sa sh ni nr]; simp add: panic_free_def)+
  show "panic_free (childRekeyKeys W sa c prop suite nr ke)"
    using assms(3) d(1)
    by (auto simp: childRekeyKeys_def DeriveChildKeys_def DeriveChildKeysPFS_def split: option.split prod.split intro!: no_panic)
  show "keys_ok (su_id suite) (EncrIR ck) (IntegIR ck) (EncrRI ck) (IntegRI ck)"
    if "childRekeyKeys W sa c prop suite nr ke = Ok ck"
    using that d(2)
    by (auto simp: childRekeyKeys_def DeriveChildKeys_def DeriveChildKeysPFS_def split: option.splits prod.splits)
qed

lemma keeps_initiateDPD [holds_intros]:
  "prims_ok (w_prims W) \<Longrightarrow> keeps (serving dec) (initiateDPD W fast)"
  unfolding initiateDPD_def
  by (intro holds_intros) (simp_all add: serving_pending pending_ok_def)

lemma keeps_sendChildDelete [holds_intros]:
  "prims_ok (w_prims W) \<Longrightarrow> keeps (serving dec) (sendChildDelete W inSPI)"
  unfolding sendChildDelete_def
  by (intro holds_intros) (simp_all add: serving_pending pending_ok_def)

lemma keeps_sendIKEDeleteUnderCurrent [holds_intros]:
  "prims_ok (w_prims W) \<Longrightarrow> keeps (serving dec) (sendIKEDeleteUnderCurrent W)"
  unfolding sendIKEDeleteUnderCurrent_def
  by (intro holds_intros) simp_all

lemma holds_newDHS:
  "(\<And>d. dh_ok d \<Longrightarrow> dh_Group d = g \<Longrightarrow> holds (serving dec) (f d) (serving dec)) \<Longrightarrow>
   keeps (serving dec) (bindS (newDHS W g) f)"
  by (rule holds_bindS_Ok [where R = "\<lambda>d. dh_ok d \<and> dh_Group d = g"])
     (auto intro: wp_newDHS [where dec = dec] stable_serving)

lemma keeps_initiateIKERekey [holds_intros]:
  "prims_ok (w_prims W) \<Longrightarrow> keeps (serving dec) (initiateIKERekey W)"
  unfolding initiateIKERekey_def
  by (intro holds_newDHS holds_intros) (simp_all add: serving_pending pending_ok_def)

lemma keeps_optional_DH:
  assumes "\<And>x. (\<And>d. x = Some d \<Longrightarrow> dh_ok d) \<Longrightarrow> keeps (serving dec) (f x)"
  shows "keeps (serving dec) (bindS (if c then bindS (newDHS W g) (\<lambda>d. retS (Some d)) else retS None) f)"
proof (rule holds_bindS_Ok [where R = "\<lambda>x. \<forall>d. x = Some d \<longrightarrow> dh_ok d"])
  fix s assume "serving dec s"
  then show "wp (if c then bindS (newDHS W g) (\<lambda>d. retS (Some d)) else retS None)
      (\<lambda>r s'. r \<noteq> Panic \<and> serving dec s' \<and> (\<forall>x. r = Ok x \<longrightarrow> (\<forall>d. x = Some d \<longrightarrow> dh_ok d))) s"
    using wp_newDHS [of "serving dec" dec s W g]
    by (auto simp: wp_simps stable_serving elim!: wp_mono split: res.splits)
qed (use assms in auto)

lemma keeps_initiateChildRekey [holds_intros]:
  "prims_ok (w_prims W) \<Longrightarrow> keeps (serving dec) (initiateChildRekey W re)"
  unfolding initiateChildRekey_def
  by (intro keeps_optional_DH holds_intros) (simp_all add: serving_pending pending_ok_def)


lemma holds_liftS_bind:
  assumes "panic_free r" "\<And>x. r = Ok x \<Longrightarrow> holds P (f x) Q" "\<And>s. P s \<Longrightarrow> Q s"
  shows "holds P (bindS (liftS r) f) Q"
  by (rule holds_bindS_Ok [where R = "\<lambda>x. r = Ok x"]) (use assms in \<open>auto simp: wp_simps panic_free_def\<close>)

lemma serving_child:
  "serving dec s \<Longrightarrow> child_ok c \<Longrightarrow> serving dec (s\<lparr>s_child := Some c, s_childInstalledAt := t\<rparr>)"
  "serving dec s \<Longrightarrow> child_ok c \<Longrightarrow>
   serving dec (s\<lparr>s_child := Some c, s_childInstalledAt := t, s_childReestablish := b, s_nextChildReestablish := u\<rparr>)"
  by (auto simp: serving_def session_ok_def ikes_ok_def)

lemma serving_ikeSA: "serving dec s \<Longrightarrow> s_ikeSA s \<noteq> None"
  by (auto simp: serving_def session_ok_def ikes_ok_def)

lemma keeps_install_child:
  assumes "keys_ok sid oe og ie ig" "keys_ok sid (EncrIR ks) (IntegIR ks) (EncrRI ks) (IntegRI ks)"
    and "\<And>now. keeps (serving dec) (m now)"
  shows "keeps (serving dec)
     (thenS (InstallChildSA_call \<lparr>cu_NewInSPI = a, cu_NewOutSPI = b, cu_OldInSPI = c, cu_Suite = sid,
        cu_OutEncr = oe, cu_OutInteg = og, cu_InEncr = ie, cu_InInteg = ig\<rparr>)
     (bindS (nowS W) (\<lambda>now.
     thenS (modS (\<lambda>s. s\<lparr>
        s_child := Some \<lparr>ch_InitiatorSPI = a, ch_ResponderSPI = b, ch_Suite = sid, ch_Keys = ks\<rparr>,
        s_childInstalledAt := now, s_childReestablish := r s, s_nextChildReestablish := n s\<rparr>)) (m now))))"
  using assms by (intro holds_intros) (simp_all add: update_ok_def child_ok_def serving_child)

lemma be_Uint_panic_free [no_panic]:
  "length b = 4 \<Longrightarrow> panic_free (be_Uint32 b)" "length b = 8 \<Longrightarrow> panic_free (be_Uint64 b)"
  by (simp_all add: be_Uint32_def be_Uint64_def panic_free_def)

lemma keeps_completeChildRekey:
  assumes W: "prims_ok (w_prims W)" and p: "pending_ok p" "pe_kind p = exChildRekey"
  shows "keeps (serving dec) (completeChildRekey W inner p)"
proof -
  obtain c where c: "pe_child p = Some c" "\<And>d. cr_dh c = Some d \<Longrightarrow> dh_ok d"
    using p by (auto simp: pending_ok_def)
  have sa: "s_ikeSA t \<noteq> None" if "serving dec t" for t using that by (rule serving_ikeSA)
  have keys: "panic_free (childRekeyKeys W sa c pp suite nr ke)"
    "childRekeyKeys W sa c pp suite nr ke = Ok ck \<Longrightarrow>
       keys_ok (su_id suite) (EncrIR ck) (IntegIR ck) (EncrRI ck) (IntegRI ck)"
    if "childRekeyResponse cfg inner = Ok (pp, suite, nr, ke)" for sa pp suite nr ke cfg ck
    using childRekeyKeys_Ok [OF W childRekeyResponse_Ok(1) [OF that] c(2)] by blast+
  show ?thesis
    unfolding completeChildRekey_def c(1)
    by (intro holds_liftS_bind holds_readS holds_case_prod holds_Let holds_derefS keeps_install_child no_panic)
       (auto simp: sa intro: keys childRekeyResponse_Ok intro!: W holds_intros)
qed


section \<open>The responder of a Child SA rekey\<close>

lemma DeriveRekeyIKE_total:
  assumes "prims_ok P"
  shows "panic_free (DeriveRekeyIKE P suite d role spii spir ni nr sh)"
    and "DeriveRekeyIKE P suite d role spii spir ni nr sh = Ok sa \<Longrightarrow> ike_ok sa"
proof -
  have K: "panic_free (deriveFromSKEYSEED P suite role spii spir ni nr K)"
    "deriveFromSKEYSEED P suite role spii spir ni nr K = Ok sa \<Longrightarrow> ike_ok sa" for K
    by (rule deriveFromSKEYSEED_Ok [OF assms, of suite role spii spir ni nr K]; simp add: panic_free_def)+
  show "panic_free (DeriveRekeyIKE P suite d role spii spir ni nr sh)"
    by (auto simp: DeriveRekeyIKE_def Let_def K intro!: no_panic)
  show "DeriveRekeyIKE P suite d role spii spir ni nr sh = Ok sa \<Longrightarrow> ike_ok sa"
    by (auto simp: DeriveRekeyIKE_def Let_def intro: K split: if_splits)
qed

lemma wp_onErrS_Ok:
  assumes "wp m (\<lambda>r s'. r \<noteq> Panic \<and> P s' \<and> (\<forall>x. r = Ok x \<longrightarrow> R x)) s" "keeps P h"
  shows "wp (onErrS m h) (\<lambda>r s'. r \<noteq> Panic \<and> P s' \<and> (\<forall>x. r = Ok x \<longrightarrow> R x)) s"
  using assms unfolding wp_onErrS holds_def by (fastforce elim!: wp_mono split: res.splits)

lemma keeps_answerKE [holds_intros]:
  assumes "prims_ok (w_prims W)"
  shows "keeps (serving dec) (answerKE W dec mid v g kd)"
  unfolding answerKE_def
proof (rule holds_bindS_Ok [where R = dh_ok])
  fix s assume "serving dec s"
  then show "wp (onErrS (newDHS W g) (sendTemporaryFailure W dec mid v))
     (\<lambda>r s'. r \<noteq> Panic \<and> serving dec s' \<and> (\<forall>x. r = Ok x \<longrightarrow> dh_ok x)) s"
    using wp_newDHS [of "serving dec" dec s W g] assms
    by (intro wp_onErrS_Ok keeps_sendTemporaryFailure) (auto simp: stable_serving elim: wp_mono)
qed (use assms in \<open>auto intro!: holds_intros no_panic\<close>)

lemma serving_ctxOf: "serving dec s \<Longrightarrow> ctxOf dec s \<noteq> None"
  by (cases dec) (auto simp: serving_def session_ok_def ikes_ok_def ctxOf_def curCtx_Some)

lemma keeps_install_child':
  assumes "keys_ok sid oe og ie ig" "keys_ok sid (EncrIR ks) (IntegIR ks) (EncrRI ks) (IntegRI ks)"
    and "\<And>now. keeps (serving dec) (m now)"
  shows "keeps (serving dec)
     (thenS (InstallChildSA_call \<lparr>cu_NewInSPI = a, cu_NewOutSPI = b, cu_OldInSPI = c, cu_Suite = sid,
        cu_OutEncr = oe, cu_OutInteg = og, cu_InEncr = ie, cu_InInteg = ig\<rparr>)
     (bindS (nowS W) (\<lambda>now.
     thenS (modS (\<lambda>s. s\<lparr>
        s_child := Some \<lparr>ch_InitiatorSPI = a, ch_ResponderSPI = b, ch_Suite = sid, ch_Keys = ks\<rparr>,
        s_childInstalledAt := now\<rparr>)) (m now))))"
  using assms by (intro holds_intros) (simp_all add: update_ok_def child_ok_def serving_child)

lemma keeps_answerChildRekey:
  assumes W: "prims_ok (w_prims W)" and suite: "suite \<in> set espSuites" and spi: "length (pr_SPI pp) = 4"
  shows "keeps (serving dec) (answerChildRekey W mid dec v child pp suite ni ke tsi tsr)"
proof -
  have keys: "panic_free (deriveChildKeys (w_prims W) sa sh ni nr (su_encrKeyLen suite) (su_integKeyLen suite))"
    "deriveChildKeys (w_prims W) sa sh ni nr (su_encrKeyLen suite) (su_integKeyLen suite) = Ok ck \<Longrightarrow>
       keys_ok (su_id suite) (EncrIR ck) (IntegIR ck) (EncrRI ck) (IntegRI ck) \<and>
       keys_ok (su_id suite) (EncrRI ck) (IntegRI ck) (EncrIR ck) (IntegIR ck)" for sa sh nr ck
    by (rule deriveChildKeys_suite [OF W suite, of sa sh ni nr]; simp add: panic_free_def)+
  define der where "der dhs sa nr =
      wrapR ErrIKESA (case dhs of
            Some (d::DH, shared) \<Rightarrow>
              DeriveChildKeysPFS (w_prims W) sa shared ni nr (su_encrKeyLen suite) (su_integKeyLen suite)
          | None \<Rightarrow> DeriveChildKeys (w_prims W) sa ni nr (su_encrKeyLen suite) (su_integKeyLen suite))" for dhs sa nr
  have der: "panic_free (der dhs sa nr)" "der dhs sa nr = Ok ck \<Longrightarrow>
       keys_ok (su_id suite) (EncrIR ck) (IntegIR ck) (EncrRI ck) (IntegRI ck)"
       "der dhs sa nr = Ok ck \<Longrightarrow>
       keys_ok (su_id suite) (EncrRI ck) (IntegRI ck) (EncrIR ck) (IntegIR ck)" for dhs sa nr ck
    using keys unfolding der_def
    by (auto simp: DeriveChildKeys_def DeriveChildKeysPFS_def split: option.splits prod.splits intro!: no_panic)
  show ?thesis
    unfolding answerChildRekey_def der_def [symmetric]
    by (intro keeps_install_child' holds_liftS_bind holds_intros der W no_panic spi) (auto simp: serving_ctxOf)
qed


lemma enabledESP_in: "suite \<in> set (enabledESPSuites cfg) \<Longrightarrow> suite \<in> set espSuites"
  using enabledSuites_subset [of "cf_ESPSuites cfg" espSuites] by (auto simp: enabledESPSuites_def)

lemma enabledIKE_in: "suite \<in> set (enabledIKESuites cfg) \<Longrightarrow> suite \<in> set ikeSuites"
  using enabledSuites_subset [of "cf_IKESuites cfg" ikeSuites] by (auto simp: enabledIKESuites_def)

lemma spiLen_suites: "s \<in> set espSuites \<Longrightarrow> spiLen s = 4" "s \<in> set ikeSuites \<Longrightarrow> spiLen s = 8"
  by (auto simp: espSuites_def ikeSuites_def spiLen_def protocol_def)

lemma selected_spi:
  "selectProposal ps (enabledESPSuites cfg) g = Some (p, s) \<Longrightarrow> length (pr_SPI p) = 4"
  "selectProposal ps (enabledIKESuites cfg) g = Some (p, s) \<Longrightarrow> length (pr_SPI p) = 8"
  by (auto dest!: selectProposal_in enabledESP_in enabledIKE_in simp: offers_def spiLen_suites)

lemma childRekeyRequestPayloads_panic_free [no_panic]: "panic_free (childRekeyRequestPayloads inner)"
  by (auto simp: childRekeyRequestPayloads_def split: prod.split option.split intro!: no_panic)

lemma keeps_handleChildRekeyRequest [holds_intros]:
  assumes "prims_ok (w_prims W)"
  shows "keeps (serving dec) (handleChildRekeyRequest W mid inner dec v)"
  unfolding handleChildRekeyRequest_def
  using assms
  by (intro holds_intros keeps_answerChildRekey no_panic) (auto dest: selectProposal_in enabledESP_in selected_spi)

section \<open>Rekeying the IKE SA\<close>

lemma serving_swap:
  assumes "serving dec s" "ike_ok newIKE"
  shows "serving dec (s\<lparr>s_oldIKE := curCtx s, s_oldIKEUntil := t, s_oldPeer := a, s_peer := b,
     s_ikeSA := Some newIKE, s_initiatorSPI := i, s_responderSPI := r\<rparr>)"
  using assms by (auto simp: serving_def session_ok_def ikes_ok_def curCtx_Some)

lemma keeps_swapIKE: "ike_ok newIKE \<Longrightarrow> keeps (serving dec) (swapIKE W newIKE spii spir)"
  unfolding swapIKE_def
  by (intro holds_intros) (auto simp: serving_swap serving_pending(1) [of _ "_\<lparr>s_nextIKERekey := _\<rparr>", simplified])

lemma ikeRekeyPayloads_panic_free [no_panic]: "panic_free (ikeRekeyPayloads inner)"
  by (auto simp: ikeRekeyPayloads_def split: option.split prod.split intro!: no_panic)

lemma keeps_completeIKERekey:
  assumes W: "prims_ok (w_prims W)" and p: "pending_ok p" "pe_kind p = exIKERekey"
  shows "keeps (serving dec) (completeIKERekey W inner p)"
proof -
  obtain c where c: "pe_ike p = Some c" "dh_ok (ir_dh c)"
    using p by (auto simp: pending_ok_def)
  show ?thesis
    unfolding completeIKERekey_def c(1)
    by (intro holds_liftS_bind holds_intros keeps_swapIKE no_panic DeriveRekeyIKE_total c W)
       (auto simp: serving_ikeSA c W dest: DeriveRekeyIKE_total(2) [OF W])
qed


lemma keeps_answerIKERekey:
  assumes W: "prims_ok (w_prims W)" and spi: "length (pr_SPI pp) = 8"
  shows "keeps (serving dec) (answerIKERekey W mid dec pp suite ni kg kd)"
proof -
  have der: "keeps (serving dec) (bindS (onErrS (liftS (wrapR ErrIKESA
       (DeriveRekeyIKE (w_prims W) su d role spii spir ni nr sh))) h) f)"
    if "\<And>sa. ike_ok sa \<Longrightarrow> keeps (serving dec) (f sa)" "keeps (serving dec) h" for su d role spii spir nr sh h f
  proof (rule holds_bindS_Ok [where R = ike_ok])
    fix s assume "serving dec s"
    then show "wp (onErrS (liftS (wrapR ErrIKESA (DeriveRekeyIKE (w_prims W) su d role spii spir ni nr sh))) h)
        (\<lambda>r s'. r \<noteq> Panic \<and> serving dec s' \<and> (\<forall>x. r = Ok x \<longrightarrow> ike_ok x)) s"
      using DeriveRekeyIKE_total [OF W, of su d role spii spir ni nr sh] that(2)
      by (intro wp_onErrS_Ok) (auto simp: wp_simps panic_free_def)
  qed (use that in auto)
  show ?thesis
    unfolding answerIKERekey_def
    by (intro der holds_intros keeps_swapIKE no_panic W spi) (auto simp: serving_ctxOf)
qed

lemma keeps_handleIKERekeyRequest [holds_intros]:
  "prims_ok (w_prims W) \<Longrightarrow> keeps (serving dec) (handleIKERekeyRequest W mid inner dec)"
  unfolding handleIKERekeyRequest_def
  by (intro holds_intros keeps_answerIKERekey no_panic) (auto dest: selected_spi)

section \<open>The control loop\<close>

lemma keeps_dedupPeerRequest [holds_intros]: "keeps (serving dec) (dedupPeerRequest W mid v)"
  unfolding dedupPeerRequest_def by (intro holds_intros) auto

lemma keeps_clear [holds_intros]:
  "keeps (serving dec) (clearOldIKEDelete mid)" "keeps (serving dec) (clearPending mid)"
  unfolding clearOldIKEDelete_def clearPending_def by (intro holds_intros; simp add: serving_pending)+

lemma serving_pending_ok: "serving dec s \<Longrightarrow> s_pending s = Some p \<Longrightarrow> pending_ok p"
  by (auto simp: serving_def session_ok_def)

lemma keeps_completeMatchingRekey [holds_intros]:
  "prims_ok (w_prims W) \<Longrightarrow> keeps (serving dec) (completeMatchingRekey W mid inner v)"
  unfolding completeMatchingRekey_def
  by (intro holds_intros keeps_completeChildRekey keeps_completeIKERekey)
     (auto simp: serving_pending dest: serving_pending_ok)

lemma keeps_handleInboundChildDelete [holds_intros]:
  "prims_ok (w_prims W) \<Longrightarrow> keeps (serving dec) (handleInboundChildDelete W spis)"
  unfolding handleInboundChildDelete_def by (intro holds_intros) auto

lemma keeps_info_loop [holds_intros]:
  "prims_ok (w_prims W) \<Longrightarrow> keeps (serving dec) (info_loop W v ps t)"
  by (induction W v ps t rule: info_loop.induct) (auto intro!: holds_intros)

lemma keeps_handleInformationalRequest [holds_intros]:
  "prims_ok (w_prims W) \<Longrightarrow> keeps (serving dec) (handleInformationalRequest W mid inner dec v)"
  unfolding handleInformationalRequest_def by (intro holds_intros) auto


text \<open>A message is decoded under an IKE SA that is there.\<close>

lemma decodeIKE_old: "decodeIKE P cur old until now raw = Ok (m, inner, Old) \<Longrightarrow> old \<noteq> None"
  by (auto simp: decodeIKE_def Let_def split: prod.splits res.splits if_splits option.splits)

lemma wp_decodeS:
  assumes "prims_ok (w_prims W)" "serving Cur s"
  shows "wp (decodeS W raw) (\<lambda>r s'. r \<noteq> Panic \<and> serving Cur s' \<and> (\<forall>m i d. r = Ok (m, i, d) \<longrightarrow> serving d s')) s"
proof -
  obtain sa where sa: "s_ikeSA s = Some sa" "ike_ok sa" and old: "\<And>c. s_oldIKE s = Some c \<Longrightarrow> ike_ok (cx_sa c)"
    using assms(2) by (auto simp: serving_def session_ok_def ikes_ok_def)
  define cur where "cur = \<lparr>cx_sa = sa, cx_spii = s_initiatorSPI s, cx_spir = s_responderSPI s\<rparr>"
  define dr where "dr = decodeIKE (w_prims W) cur (s_oldIKE s) (s_oldIKEUntil s) (w_now W (s_n s)) raw"
  have "dr \<noteq> Panic" using decodeIKE_total [OF assms(1), of cur "s_oldIKE s"] sa old
    by (simp add: dr_def cur_def panic_free_def)
  moreover have "serving d s" if "dr = Ok (m, i, d)" for m i d
    using assms(2) that decodeIKE_old [of "w_prims W" cur "s_oldIKE s"] by (cases d) (auto simp: dr_def serving_def)
  moreover have "serving d (s\<lparr>s_n := k\<rparr>) = serving d s" for d k
    by (simp add: serving_def session_ok_def ikes_ok_def)
  moreover have "decodeS W raw s = (wrapR ErrProt dr, s\<lparr>s_n := Suc (s_n s)\<rparr>)"
    by (simp add: decodeS_def readS_def derefS_def bindS_def nowS_def tickS_def retS_def liftS_def curCtx_Some [OF sa(1)] dr_def cur_def)
  ultimately show ?thesis using assms(2) by (cases dr) (auto simp: wp_def)
qed

lemma keeps_emit_Dead [holds_intros]: "keeps (serving dec) (emitS Dead)"
  unfolding emitS_def by (intro holds_intros) simp

lemma keeps_dispatch [holds_intros]:
  "prims_ok (w_prims W) \<Longrightarrow> keeps (serving dec) (dispatch W hdr inner dec)"
  unfolding dispatch_def by (intro holds_intros) auto

lemma serving_Cur: "serving dec s \<Longrightarrow> serving Cur s"
  by (simp add: serving_def)

lemma holds_wp: "holds P m Q \<Longrightarrow> P s \<Longrightarrow> wp m (\<lambda>r s'. r \<noteq> Panic \<and> Q s') s"
  by (simp add: holds_def)

lemma holds_dispatch:
  assumes "prims_ok (w_prims W)"
  shows "holds (serving dec) (bindS (nowS W) (\<lambda>now.
     thenS (modS (\<lambda>s. s\<lparr>s_lastInbound := now\<rparr>)) (dispatch W m i dec))) (serving Cur)"
  by (rule holds_weaken [where P = "serving dec" and Q = "serving dec"])
     (use assms in \<open>auto intro!: holds_intros intro: serving_Cur\<close>)

lemma keeps_handleInbound [holds_intros]:
  assumes W: "prims_ok (w_prims W)"
  shows "keeps (serving Cur) (handleInbound W raw)"
  unfolding holds_def
proof (intro allI impI)
  fix s assume "serving Cur s"
  from wp_decodeS [OF W this, of raw]
  show "wp (handleInbound W raw) (\<lambda>r s'. r \<noteq> Panic \<and> serving Cur s') s"
    unfolding handleInbound_def wp_bindS wp_tryS
  proof (rule wp_mono, goal_cases)
    case (1 r s')
    then show ?case
    proof (cases r)
      case (Ok x)
      with Ok obtain m i d where "r = Ok (m, i, d)" by (cases x) auto
      then show ?thesis using 1 by (auto intro!: holds_wp [OF holds_dispatch [OF W]])
    qed (auto simp: wp_simps)
  qed
qed

lemma keeps_detectSuspend [holds_intros]:
  "prims_ok (w_prims W) \<Longrightarrow> keeps (serving Cur) (detectSuspend W now wall)"
  unfolding detectSuspend_def
  by (intro holds_intros) (auto intro!: serving_pending dest: serving_pending_ok simp: pending_ok_def)

lemma serving_grace: "serving Cur s \<Longrightarrow> serving Cur (hk_grace now s)"
  by (auto simp: hk_grace_def serving_def session_ok_def ikes_ok_def)

lemma keeps_hk_oldDelete [holds_intros]: "keeps (serving dec) (hk_oldDelete W now)"
  unfolding hk_oldDelete_def by (intro holds_intros) auto

lemma keeps_hk_pending [holds_intros]:
  "pending_ok p \<Longrightarrow> keeps (serving dec) (hk_pending W now p)"
  unfolding hk_pending_def
  by (intro holds_intros) (auto intro!: serving_pending simp: pending_ok_def)

lemma keeps_hk_dpd [holds_intros]:
  "prims_ok (w_prims W) \<Longrightarrow> keeps (serving dec) (hk_dpd W now wall)"
  unfolding hk_dpd_def by (intro holds_intros) auto

lemma keeps_hk_initiate [holds_intros]:
  "prims_ok (w_prims W) \<Longrightarrow> keeps (serving dec) (hk_initiate W now wall)"
  unfolding hk_initiate_def by (intro holds_intros) auto

lemma keeps_housekeeping [holds_intros]:
  "prims_ok (w_prims W) \<Longrightarrow> keeps (serving Cur) (housekeeping W)"
  unfolding housekeeping_def
  by (intro holds_intros) (auto simp: serving_grace dest: serving_pending_ok)

lemma keeps_sendGracefulDelete [holds_intros]:
  "prims_ok (w_prims W) \<Longrightarrow> keeps (serving dec) (sendGracefulDelete W)"
  unfolding sendGracefulDelete_def by (intro holds_intros) auto

lemma keeps_driver_event [holds_intros]:
  "prims_ok (w_prims W) \<Longrightarrow> keeps (serving Cur) (driver_event W ev)"
  unfolding driver_event_def by (cases ev) (auto intro!: holds_intros)

lemma keeps_driver_loop:
  "prims_ok (w_prims W) \<Longrightarrow> keeps (serving Cur) (driver_loop W evs)"
  by (induction evs) (auto intro!: holds_intros)

section \<open>Properties\<close>

text \<open>
  C12 (type).  Whatever events the control loop of an established session receives in
  whatever order - datagrams of any content, ticks at any times, the end of the context -
  and however the random source, the clocks, the socket and the data plane answer, it never
  panics, and it leaves the session well-formed: IKE SAs with keys of the right lengths, an
  outstanding rekey with its context, a Child SA with the keys of its suite.
\<close>

theorem driver_safe:
  assumes "prims_ok (w_prims W)" "session_ok s" "driver_loop W evs s = (r, s')"
  shows "r \<noteq> Panic \<and> session_ok s'"
  using holdsD [OF keeps_driver_loop, of W s evs r s'] assms by (simp add: serving_session)

theorem driver_safe_witness:
  "\<exists>s s' r. session_ok s \<and>
     driver_loop plain_world [Tick, Inbox [1, 2, 3], CtxDone] s = (r :: (sess_err, bool) res, s') \<and> r \<noteq> Panic \<and> session_ok s'"
proof -
  obtain sa where sa: "ike_ok sa" using deriveFromSKEYSEED_Ok [OF plain_prims_ok] by blast
  define s where "s = (New_session plain_cfg)\<lparr>s_ikeSA := Some sa, s_dataPlane := True\<rparr>"
  have W: "prims_ok (w_prims plain_world)" by (simp add: plain_world_def plain_prims_ok)
  have s: "session_ok s" using sa by (simp add: s_def session_ok_def ikes_ok_def New_session_def)
  obtain r s' where "driver_loop plain_world [Tick, Inbox [1, 2, 3], CtxDone] s = (r :: (sess_err, bool) res, s')"
    by (metis surj_pair)
  with driver_safe [OF W s this] s show ?thesis by blast
qed

end
