(* ===== verification/Wire.thy ===== *)
theory Wire
  imports Rekey
begin

text \<open>
  The messages the session builds fit a datagram: their payloads can be encoded, and the
  encoded chain is within the size an SK payload can carry.
\<close>

definition fits :: "nat \<Rightarrow> payload \<Rightarrow> bool" where
  "fits n p \<longleftrightarrow> (\<exists>b. marshalBody p = Ok b \<and> length b \<le> n)"

definition sendable :: "Payloads \<Rightarrow> bool" where
  "sendable ps \<longleftrightarrow> (\<exists>first pt. MarshalPayloads ps = Ok (first, pt) \<and> length pt \<le> 65483) \<and> chain_ok ps"

lemma marshalChain_fits:
  assumes "\<forall>p\<in>set ps. fits n p" "n \<le> 65531"
  shows "\<exists>b. marshalChain ps = Ok b \<and> length b \<le> (n + 4) * length ps"
  using assms
proof (induction ps)
  case (Cons p ps)
  then obtain b r where "marshalBody p = Ok b" "length b \<le> n" "marshalChain ps = Ok r" "length r \<le> (n + 4) * length ps"
    by (auto simp: fits_def)
  then show ?case using Cons.prems(2) by simp
qed simp

lemma chain_ok_plain: "\<forall>p\<in>set ps. payload_ok p \<and> (\<forall>f d. p \<noteq> EncryptedPayload f d) \<Longrightarrow> chain_ok ps"
proof (induction ps)
  case (Cons p ps)
  then show ?case by (cases p) auto
qed simp

lemma sendableI:
  assumes "\<forall>p\<in>set ps. fits 6000 p \<and> payload_ok p \<and> (\<forall>f d. p \<noteq> EncryptedPayload f d)" "length ps \<le> 10"
  shows "sendable ps"
proof -
  obtain b where "marshalChain ps = Ok b" "length b \<le> 6004 * length ps"
    using marshalChain_fits [of ps 6000] assms(1) by auto
  then show ?thesis using assms chain_ok_plain [of ps] by (auto simp: sendable_def MarshalPayloads_def split: list.split)
qed

section \<open>Payloads\<close>

lemma fits_simple [simp]:
  "fits n (NoncePayload d) \<longleftrightarrow> length d \<le> n"
  "fits n (KEPayload g d) \<longleftrightarrow> 4 + length d \<le> n"
  "fits n (NotifyPayload p t spi d) \<longleftrightarrow> 4 + length spi + length d \<le> n"
  by (auto simp: fits_def)

lemma put_all_fits:
  assumes "\<And>x f. x \<in> set xs \<Longrightarrow> \<exists>b. put f x = Ok b \<and> length b \<le> n"
  shows "\<exists>b. put_all put xs = Ok b \<and> length b \<le> n * length xs"
  using assms
proof (induction xs)
  case (Cons x xs)
  then obtain b r where "put (xs \<noteq> []) x = Ok b" "length b \<le> n" "put_all put xs = Ok r" "length r \<le> n * length xs"
    by (metis list.set_intros)
  then show ?case by simp
qed simp

lemma marshalTransform_fits:
  "(tr_KeyLength t \<noteq> 0 \<Longrightarrow> tr_HasKeyLength t) \<Longrightarrow> \<exists>b. marshalTransform f t = Ok b \<and> length b \<le> 12"
  by (auto simp: marshalTransform_def)

lemma marshalProposal_built:
  assumes "length spi \<le> 8" "length groups \<le> 2"
  shows "\<exists>b. marshalProposal f (buildProposalForSuite n s spi groups) = Ok b \<and> length b \<le> 100"
proof -
  define ts where "ts = pr_Transforms (buildProposalForSuite n s spi groups)"
  have "\<exists>b. put_all marshalTransform ts = Ok b \<and> length b \<le> 12 * length ts"
    by (rule put_all_fits, rule marshalTransform_fits) (auto simp: ts_def buildProposalForSuite_def)
  moreover have "length ts \<le> 7" using assms(2) by (simp add: ts_def buildProposalForSuite_def)
  ultimately obtain b where "put_all marshalTransform ts = Ok b" "length b \<le> 84" "length ts \<le> 255" by force
  moreover have "pr_SPI (buildProposalForSuite n s spi groups) = spi" by (simp add: buildProposalForSuite_def)
  ultimately show ?thesis using assms(1) by (auto simp: marshalProposal_def ts_def [symmetric])
qed

lemma fits_SA_built:
  assumes "\<And>p. p \<in> set ps \<Longrightarrow> \<exists>n s spi groups. p = buildProposalForSuite n s spi groups \<and> length spi \<le> 8 \<and> length groups \<le> 2"
    and "length ps \<le> 60"
  shows "fits 6000 (SAPayload ps)"
proof -
  have "\<exists>b. put_all marshalProposal ps = Ok b \<and> length b \<le> 100 * length ps"
    by (rule put_all_fits) (use assms(1) marshalProposal_built in blast)
  then show ?thesis using assms(2) by (force simp: fits_def)
qed

lemma build_from_built: "p \<in> set (build_from i spi suites groups) \<Longrightarrow> \<exists>n s. p = buildProposalForSuite n s spi groups"
  by (induction suites arbitrary: i) auto

lemma length_build_from [simp]: "length (build_from i spi suites groups) = length suites"
  by (induction suites arbitrary: i) auto

lemma fits_buildProposals:
  assumes "length spi \<le> 8" "length groups \<le> 2" "length suites \<le> 60"
  shows "fits 6000 (SAPayload (buildProposals spi suites groups))"
  by (rule fits_SA_built) (use assms build_from_built in \<open>fastforce simp: buildProposals_def\<close>)+

lemma fits_full_selectors:
  "fits 6000 (TSiPayload ([fullV4] @ (if v6 then [fullV6] else [])))"
  "fits 6000 (TSrPayload ([fullV4] @ (if v6 then [fullV6] else [])))"
  by (auto simp: fits_def marshalTSBody_def marshalSelector_def fullV4_def fullV6_def addrLen_def)


section \<open>Encoding succeeds\<close>

lemma ike_mirror_exists:
  assumes "ike_ok a"
  obtains b where "ike_ok b" "ike_mirrors a b"
proof -
  define b where "b = a\<lparr>ik_Role := (if ik_Role a = Initiator then Responder else Initiator),
     ik_outAEAD := ik_inAEAD a, ik_inAEAD := ik_outAEAD a, ik_outSalt := ik_inSalt a, ik_inSalt := ik_outSalt a\<rparr>"
  have "outboundEncrKey b = inboundEncrKey a" "inboundEncrKey b = outboundEncrKey a"
    by (cases "ik_Role a"; simp add: b_def outboundEncrKey_def inboundEncrKey_def)+
  then have "ike_ok b" using assms by (auto simp: ike_ok_def b_def)
  moreover have "ike_mirrors a b"
    by (rule ike_mirrors_roles [OF assms \<open>ike_ok b\<close>]) (auto simp: b_def)
  ultimately show thesis by (rule that)
qed

text \<open>What every mirrored end reads in the datagram.\<close>

definition carries :: "prims \<Rightarrow> IKESA \<Rightarrow> bytes \<Rightarrow> ExchangeType \<Rightarrow> Flags \<Rightarrow> u32 \<Rightarrow> Payloads \<Rightarrow> bool" where
  "carries P a raw ex fl mid inner \<longleftrightarrow>
     (\<forall>b. ike_mirrors a b \<longrightarrow>
        (\<exists>m. decodeSKWith P b raw = (Ok (m, inner), True) \<and> Exchange m = ex \<and> MFlags m = fl \<and> MessageID m = mid))"

lemma encodeSKWith_Ok:
  assumes "prims_ok P" "ike_ok a" "16 \<le> length rnd" "sendable inner"
  obtains raw where "encodeSKWith P a rnd spii spir ex fl mid inner =
      (Ok raw, if ike_aead (ik_Suite a) then a\<lparr>skSeq := skSeq a + 1\<rparr> else a)" "carries P a raw ex fl mid inner"
proof -
  obtain first pt where pt: "MarshalPayloads inner = Ok (first, pt)" "length pt \<le> 65483" "chain_ok inner"
    using assms(4) by (auto simp: sendable_def)
  note rt = protected_roundtrip [OF assms(1,2) _ assms(3) pt, of _ spii spir ex fl mid]
  obtain b0 where "ike_mirrors a b0" using ike_mirror_exists [OF assms(2)] by blast
  then obtain raw where raw: "encodeSKWith P a rnd spii spir ex fl mid inner =
      (Ok raw, if ike_aead (ik_Suite a) then a\<lparr>skSeq := skSeq a + 1\<rparr> else a)"
    using rt by blast
  have "carries P a raw ex fl mid inner"
    unfolding carries_def using rt raw by auto
  with raw show thesis by (rule that)
qed

end
