(* ===== verification/Session_Run.thy ===== *)
theory Session_Run
  imports Driver_Safety Wire
begin

text \<open>
  Running the session's operations step by step, in a surrounding where the random source and
  the key generation deliver: what each primitive returns and leaves.
\<close>

section \<open>Running the primitives\<close>

lemma wp_tickS [wp_simps]: "wp tickS Q s \<longleftrightarrow> Q (Ok (s_n s)) (s\<lparr>s_n := Suc (s_n s)\<rparr>)"
  by (simp add: wp_def tickS_def)

lemma wp_nowS [wp_simps]: "wp (nowS W) Q s \<longleftrightarrow> Q (Ok (w_now W (s_n s))) (s\<lparr>s_n := Suc (s_n s)\<rparr>)"
  by (simp add: nowS_def wp_simps)

lemma wp_clockS [wp_simps]:
  "wp (clockS W) Q s \<longleftrightarrow> Q (Ok (w_now W (s_n s), w_wall W (s_n s))) (s\<lparr>s_n := Suc (s_n s)\<rparr>)"
  by (simp add: clockS_def wp_simps)

lemma wp_emitS [wp_simps]: "wp (emitS x) Q s \<longleftrightarrow> Q (Ok ()) (s\<lparr>s_out := s_out s @ [x]\<rparr>)"
  by (simp add: emitS_def wp_simps)

lemma wp_sendIKE [wp_simps]:
  "wp (sendIKE W raw) Q s \<longleftrightarrow>
     Q (if w_send W (s_n s) then Ok () else Err ErrSendFailed)
       (s\<lparr>s_out := s_out s @ [Sent (sendDatagram (s_nattMode s) raw)], s_n := Suc (s_n s)\<rparr>)"
  by (simp add: sendIKE_def wp_simps)

text \<open>The random source delivers.\<close>

definition rand_ok :: "world \<Rightarrow> bool" where
  "rand_ok W \<longleftrightarrow> (\<forall>n. 32 \<le> length (w_rand W n))"

lemma rand_ok_length: "rand_ok W \<Longrightarrow> k \<le> 32 \<Longrightarrow> length (take k (w_rand W n)) = k"
  unfolding rand_ok_def length_take by (metis min.absorb2 le_trans)

lemma wp_randBytes:
  "rand_ok W \<Longrightarrow> k \<le> 32 \<Longrightarrow>
   wp (randBytes W k) Q s \<longleftrightarrow> Q (Ok (take k (w_rand W (s_n s)))) (s\<lparr>s_n := Suc (s_n s)\<rparr>)"
  by (auto simp: randBytes_def wp_simps ReadFull_def rand_ok_def dest: spec [of _ "s_n s"])

lemma wp_randUint64:
  "rand_ok W \<Longrightarrow>
   wp (randUint64 W) Q s \<longleftrightarrow> Q (Ok (Uint64 (take 8 (w_rand W (s_n s))))) (s\<lparr>s_n := Suc (s_n s)\<rparr>)"
  by (simp add: randUint64_def wp_simps wp_randBytes)

lemma wp_encodeSK:
  assumes "prims_ok (w_prims W)" "rand_ok W" "s_ikeSA s = Some sa" "ike_ok sa" "sendable inner"
    and "\<And>raw q. carries (w_prims W) sa raw ex (fl sa) mid inner \<Longrightarrow> Q (Ok raw) (s\<lparr>s_n := Suc (s_n s), s_ikeSA := Some (sa\<lparr>skSeq := q\<rparr>)\<rparr>)"
  shows "wp (encodeSK W ex fl mid inner) Q s"
proof -
  obtain raw where raw: "encodeSKWith (w_prims W) sa (w_rand W (s_n s)) (s_initiatorSPI s) (s_responderSPI s) ex (fl sa) mid inner =
      (Ok raw, if ike_aead (ik_Suite sa) then sa\<lparr>skSeq := skSeq sa + 1\<rparr> else sa)"
    "carries (w_prims W) sa raw ex (fl sa) mid inner"
    using assms(2) by (rule_tac encodeSKWith_Ok [OF assms(1,4) _ assms(5)]) (auto simp: rand_ok_def dest: spec [of _ "s_n s"])
  have "encodeSK W ex fl mid inner s =
      (Ok raw, putSA Cur (if ike_aead (ik_Suite sa) then sa\<lparr>skSeq := skSeq sa + 1\<rparr> else sa) (s\<lparr>s_n := Suc (s_n s)\<rparr>))"
    unfolding encodeSK_def
    using encodeWith_run [of Cur s "\<lparr>cx_sa = sa, cx_spii = s_initiatorSPI s, cx_spir = s_responderSPI s\<rparr>" W ex fl mid inner "Ok raw"
       "if ike_aead (ik_Suite sa) then sa\<lparr>skSeq := skSeq sa + 1\<rparr> else sa"] raw assms(3)
    by (simp add: ctxOf_def curCtx_def)
  then show ?thesis using raw(2) assms(6) [of raw "if ike_aead (ik_Suite sa) then skSeq sa + 1 else skSeq sa"]
    by (auto simp: wp_def putSA_def split: if_splits)
qed


text \<open>Key generation succeeds.\<close>

definition keygen_ok :: "world \<Rightarrow> u16 \<Rightarrow> bool" where
  "keygen_ok W g \<longleftrightarrow>
     (\<forall>n. \<exists>d. NewDH (w_curve W) (w_rint W n) (w_xkey W n) g = Ok d \<and> length (dh_Public d) \<le> 256)"

definition generated :: "world \<Rightarrow> u16 \<Rightarrow> DH \<Rightarrow> bool" where
  "generated W g d \<longleftrightarrow> (\<exists>n. NewDH (w_curve W) (w_rint W n) (w_xkey W n) g = Ok d)"

lemma wp_newDHS_Ok:
  assumes "keygen_ok W g" "\<And>d. generated W g d \<Longrightarrow> length (dh_Public d) \<le> 256 \<Longrightarrow> Q (Ok d) (s\<lparr>s_n := Suc (s_n s)\<rparr>)"
  shows "wp (newDHS W g) Q s"
proof -
  obtain d where "NewDH (w_curve W) (w_rint W (s_n s)) (w_xkey W (s_n s)) g = Ok d" "length (dh_Public d) \<le> 256"
    using assms(1) unfolding keygen_ok_def by blast
  then show ?thesis using assms(2) [of d] unfolding generated_def by (force simp: newDHS_def wp_simps)
qed

end
