(* ===== verification/Driver_Live.thy ===== *)
theory Driver_Live
  imports Session_Run
begin

text \<open>
  Liveness of the control loop when the peer is silent: dead peer detection ends the session,
  unless a rekey that is due keeps it from ever being reached.
\<close>

section \<open>A tick that starts a rekey of the IKE SA\<close>

lemma sendable_ikeRekey:
  assumes "length suites \<le> 60" "length ni = 32" "length pub \<le> 256"
  shows "sendable [SAPayload (buildProposals (PutUint64 spi) suites [g]), NoncePayload ni, KEPayload g pub]"
  using assms fits_buildProposals [of "PutUint64 spi" "[g]" suites] by (intro sendableI) auto

lemma wp_initiateIKERekey:
  assumes W: "prims_ok (w_prims W)" "rand_ok W" "keygen_ok W (s_ikeDHGroup s)"
    and s: "s_ikeSA s = Some sa" "ike_ok sa" "length (enabledIKESuites (s_cfg s)) \<le> 60"
    and Q: "\<And>r raw c mid q x nx k. r \<noteq> Panic \<Longrightarrow> nx = w_now W (s_n s + 4) + retransmitBase (s_cfg s) \<Longrightarrow> k = s_n s + 6 \<Longrightarrow>
      Q r (s\<lparr>s_ikeSA := Some (sa\<lparr>skSeq := q\<rparr>), s_messageID := s_messageID s + 1,
          s_pending := Some \<lparr>pe_kind = exIKERekey, pe_msgID = mid, pe_raw = raw, pe_attempts = 1,
            pe_nextRetransmit = nx, pe_child = None, pe_ike = Some c, pe_fast = False\<rparr>,
          s_out := s_out s @ [Sent x], s_n := k\<rparr>)"
  shows "wp (initiateIKERekey W) Q s"
  unfolding initiateIKERekey_def
  apply (simp add: wp_simps wp_randUint64 W)
  apply (rule wp_newDHS_Ok, simp add: W)
  apply (simp add: wp_simps wp_randBytes W Let_def)
  apply (rule wp_encodeSK [OF W(1,2)], simp add: s, rule s, rule sendable_ikeRekey, simp add: s)
  apply (rule rand_ok_length [OF W(2)], simp)
  apply simp
  apply (simp add: wp_simps)
  by (rule conjI; intro impI; rule Q; simp add: numeral_eq_Suc)


section \<open>The start of a tick\<close>

text \<open>Between two ticks the wall clock does not jump as it does over a suspend.\<close>

definition awake :: "world \<Rightarrow> bool" where
  "awake W \<longleftrightarrow> (\<forall>m n. m \<le> n \<longrightarrow> n \<le> m + 20 \<longrightarrow> w_wall W n - w_wall W m \<le> suspendThreshold)"

definition last_tick :: "world \<Rightarrow> Session \<Rightarrow> bool" where
  "last_tick W s \<longleftrightarrow>
     s_lastTickWall s = zeroTime \<or> (\<exists>m. s_lastTickWall s = w_wall W m \<and> m \<le> s_n s \<and> s_n s \<le> m + 20)"

text \<open>What a tick does before it looks at the outstanding request.\<close>

definition tick_base :: "world \<Rightarrow> Session \<Rightarrow> Session \<Rightarrow> bool" where
  "tick_base W s t \<longleftrightarrow>
     (\<exists>old op d xs k. t = s\<lparr>s_lastTickWall := w_wall W (s_n s), s_oldIKE := old, s_oldPeer := op, s_oldIKEDelete := d,
        s_out := s_out s @ map Sent xs, s_n := k\<rparr> \<and> s_n s < k \<and> k \<le> s_n s + 2 \<and> (old = None \<or> old = s_oldIKE s))"

lemma detectSuspend_awake:
  "awake W \<Longrightarrow> last_tick W s \<Longrightarrow>
   wp (detectSuspend W now (w_wall W (s_n s))) Q (s\<lparr>s_n := Suc (s_n s)\<rparr>) \<longleftrightarrow>
   Q (Ok ()) (s\<lparr>s_n := Suc (s_n s), s_lastTickWall := w_wall W (s_n s)\<rparr>)"
  by (auto simp: detectSuspend_def wp_simps awake_def last_tick_def)

lemma wp_hk_oldDelete:
  assumes "\<And>d xs k. k \<le> 1 \<Longrightarrow> Q (Ok ()) (s\<lparr>s_oldIKEDelete := d, s_out := s_out s @ map Sent xs, s_n := s_n s + k\<rparr>)"
  shows "wp (hk_oldDelete W now) Q s"
proof -
  have "Q (Ok ()) s" using assms [of 0 "[]" "s_oldIKEDelete s"] by simp
  moreover have "Q (Ok ()) (s\<lparr>s_oldIKEDelete := None\<rparr>)" using assms [of 0 "[]" None] by simp
  moreover have "Q (Ok ()) (s\<lparr>s_oldIKEDelete := Some p, s_out := s_out s @ [Sent x], s_n := Suc (s_n s)\<rparr>)" for p x
    using assms [of 1 "[x]" "Some p"] by simp
  ultimately show ?thesis by (auto simp: hk_oldDelete_def wp_simps Let_def split: option.split)
qed

lemma wp_housekeeping:
  assumes "awake W" "last_tick W s"
    and "\<And>t. tick_base W s t \<Longrightarrow>
      wp (case s_pending t of Some p \<Rightarrow> hk_pending W (w_now W (s_n s)) p
          | None \<Rightarrow> hk_initiate W (w_now W (s_n s)) (w_wall W (s_n s))) Q t"
  shows "wp (housekeeping W) Q s"
proof -
  define t0 where "t0 = hk_grace (w_now W (s_n s)) (s\<lparr>s_n := Suc (s_n s), s_lastTickWall := w_wall W (s_n s)\<rparr>)"
  have base: "tick_base W s (t0\<lparr>s_oldIKEDelete := d, s_out := s_out t0 @ map Sent xs, s_n := s_n t0 + k\<rparr>)"
    if "k \<le> 1" for k d xs
    unfolding tick_base_def
    by (rule exI [of _ "s_oldIKE t0"], rule exI [of _ "s_oldPeer t0"], rule exI [of _ d], rule exI [of _ xs],
        rule exI [of _ "s_n t0 + k"]) (use that in \<open>simp add: t0_def hk_grace_def\<close>)
  have "wp (hk_oldDelete W (w_now W (s_n s)))
      (\<lambda>r t. case r of Ok _ \<Rightarrow> wp (readS s_pending (\<lambda>p. case p of Some p \<Rightarrow> hk_pending W (w_now W (s_n s)) p
          | None \<Rightarrow> hk_initiate W (w_now W (s_n s)) (w_wall W (s_n s)))) Q t
        | Err e \<Rightarrow> Q (Err e) t | Panic \<Rightarrow> Q Panic t) t0"
    by (rule wp_hk_oldDelete, drule_tac d = d and xs = xs in base, drule assms(3)) (simp add: wp_simps)
  then show ?thesis
    by (simp add: housekeeping_def wp_simps t0_def detectSuspend_awake [OF assms(1,2)])
qed


section \<open>A due rekey hides a dead peer\<close>

definition backoff_sum :: "int \<Rightarrow> duration" where
  "backoff_sum a = (if a = 1 then 2 * Second else if a = 2 then 6 * Second else if a = 3 then 14 * Second
     else if a = 4 then 30 * Second else 60 * Second)"

definition default_retransmission :: "SessionConfig \<Rightarrow> bool" where
  "default_retransmission c \<longleftrightarrow>
     retransmitBase c = 2 * Second \<and> retransmitMax c = 30 * Second \<and> retransmitTries c = 5"

text \<open>
  The states the loop stays in: either the rekey is due, or it is outstanding and its next
  retransmission is late enough that giving it up comes after the next attempt is due.
\<close>

definition starving :: "world \<Rightarrow> Session \<Rightarrow> bool" where
  "starving W s \<longleftrightarrow>
     default_retransmission (s_cfg s) \<and> cf_RekeyLifetime (s_cfg s) > 0 \<and>
     length (enabledIKESuites (s_cfg s)) \<le> 60 \<and> keygen_ok W (s_ikeDHGroup s) \<and>
     (\<forall>n. w_volume W n < rekeyMaxPackets (s_cfg s)) \<and>
     \<not> s_fastDPDDue s \<and> \<not> s_childReestablish s \<and> s_nextIKERekey s \<noteq> zeroTime \<and>
     Dead \<notin> set (s_out s) \<and> last_tick W s \<and>
     (case s_pending s of
        None \<Rightarrow> s_nextIKERekey s < w_now W (s_n s)
      | Some p \<Rightarrow> pe_kind p = exIKERekey \<and> \<not> pe_fast p \<and> pe_child p = None \<and> 1 \<le> pe_attempts p \<and> pe_attempts p \<le> 5 \<and>
          s_nextIKERekey s - 60 * Second + backoff_sum (pe_attempts p) \<le> pe_nextRetransmit p)"

lemma default_backoff:
  assumes "default_retransmission c"
  shows "retransBackoff c 2 = 4 * Second" "retransBackoff c 3 = 8 * Second" "retransBackoff c 4 = 16 * Second"
    "retransBackoff c 5 = 30 * Second" "retransmitTries c = 5" "retransmitBase c = 2 * Second"
  using assms
  by (simp_all add: default_retransmission_def retransBackoff_def numeral_eq_Suc)

lemma last_tickI:
  "s_lastTickWall u = w_wall W m \<Longrightarrow> m \<le> s_n u \<Longrightarrow> s_n u \<le> m + 20 \<Longrightarrow> last_tick W u"
  by (auto simp: last_tick_def)

lemma last_tick_base: "tick_base W s t \<Longrightarrow> s_lastTickWall t = w_wall W (s_n s) \<and> s_n s < s_n t \<and> s_n t \<le> s_n s + 2"
  by (auto simp: tick_base_def)

lemma tick_base_fields:
  assumes "tick_base W s t"
  shows "s_pending t = s_pending s" "s_cfg t = s_cfg s" "s_ikeDHGroup t = s_ikeDHGroup s" "s_fastDPDDue t = s_fastDPDDue s"
    "s_childReestablish t = s_childReestablish s" "s_nextIKERekey t = s_nextIKERekey s" "s_ikeSA t = s_ikeSA s"
    "s_dataPlane t = s_dataPlane s" "Dead \<in> set (s_out t) \<longleftrightarrow> Dead \<in> set (s_out s)" "s_lastInbound t = s_lastInbound s"
    "session_ok s \<Longrightarrow> session_ok t"
  using assms by (auto simp: tick_base_def session_ok_def ikes_ok_def)

lemma starving_pending:
  assumes "starving W s" "s_pending s = Some p" "tick_base W s t" "mono (w_now W)"
  shows "wp (hk_pending W (w_now W (s_n s)) p) (\<lambda>r s'. r = Ok False \<and> starving W s') t"
proof -
  have p: "pe_kind p = exIKERekey" "\<not> pe_fast p" "pe_child p = None" "1 \<le> pe_attempts p" "pe_attempts p \<le> 5"
    "s_nextIKERekey s - 60 * Second + backoff_sum (pe_attempts p) \<le> pe_nextRetransmit p"
    and cfg: "default_retransmission (s_cfg s)"
    using assms(1,2) by (simp_all add: starving_def)
  note f = tick_base_fields(1-10) [OF assms(3)] last_tick_base [OF assms(3)]
  have mono: "w_now W (s_n s) \<le> w_now W (s_n t)" using assms(4) f by (simp add: mono_def)
  define now where "now = w_now W (s_n s)"
  show ?thesis
  proof (cases "now \<le> pe_nextRetransmit p")
    case True
    then show ?thesis using assms(1,2) p f 
      by (simp add: hk_pending_def wp_simps now_def starving_def last_tickI)
  next
    case False
    have "pe_attempts p \<in> {1, 2, 3, 4, 5}" using p by auto
    then show ?thesis using assms(1,2) p f False default_backoff [OF cfg] mono
      by (auto simp: hk_pending_def wp_simps now_def starving_def Let_def pendingTries_def pendingBackoff_def backoff_sum_def last_tickI)
  qed
qed


lemma starving_due:
  assumes W: "prims_ok (w_prims W)" "rand_ok W" "mono (w_now W)" "\<And>n. 0 < w_now W n"
    and s: "starving W s" "session_ok s" "s_pending s = None" "tick_base W s t"
  shows "wp (hk_initiate W (w_now W (s_n s)) wall) (\<lambda>r s'. r = Ok False \<and> starving W s') t"
proof -
  note f = tick_base_fields [OF s(4)] last_tick_base [OF s(4)]
  obtain sa where sa: "s_ikeSA s = Some sa" "ike_ok sa" "s_dataPlane s"
    using s(2) by (auto simp: session_ok_def ikes_ok_def)
  define now where "now = w_now W (s_n s)"
  have due: "s_nextIKERekey s \<noteq> zeroTime" "s_nextIKERekey s < now" using s(1,3) by (simp_all add: starving_def now_def)
  have later: "now \<le> w_now W k" if "s_n s \<le> k" for k using W(3) that by (simp add: mono_def now_def)
  have ike: "wp (thenS (modS (\<lambda>s. s\<lparr>s_nextIKERekey := now + rekeyRetryInterval\<rparr>))
         (thenS (ignoreS (initiateIKERekey W)) (retS False))) (\<lambda>r s'. r = Ok False \<and> starving W s') (t\<lparr>s_n := k\<rparr>)"
    if "s_n t \<le> k" "k \<le> Suc (s_n t)" for k
    apply (simp only: wp_simps res.case)
    apply (rule wp_initiateIKERekey [OF W(1,2)])
    using s(1,3) f sa that W(4) [of "s_n s"] later [of "k + 4"] default_backoff(6) [of "s_cfg s"]
    apply (simp_all add: starving_def wp_simps backoff_sum_def last_tickI [of _ W "s_n s"] now_def)
    done
  have st: "\<not> s_fastDPDDue s" "\<not> s_childReestablish s" "\<And>n. \<not> rekeyMaxPackets (s_cfg s) \<le> w_volume W n"
    "cf_RekeyLifetime (s_cfg s) > 0"
    using s(1) by (simp_all add: starving_def not_le)
  have "wp (hk_initiate W now wall) (\<lambda>r s'. r = Ok False \<and> starving W s') t"
    using f st sa due
    by (simp add: hk_initiate_def wp_readS Let_def wp_if wp_bindS [of "tickS"] wp_bindS [of "if _ then _ else _"] wp_tickS wp_retS
        ike [of "s_n t", simplified] ike [of "Suc (s_n t)", simplified] del: zeroTime_def)
  then show ?thesis by (simp add: now_def)
qed


lemma starving_tick:
  assumes W: "prims_ok (w_prims W)" "rand_ok W" "mono (w_now W)" "\<And>n. 0 < w_now W n" "awake W"
    and s: "starving W s" "session_ok s"
  shows "wp (housekeeping W :: (Session, 'e, bool) go) (\<lambda>r s'. r = Ok False \<and> starving W s' \<and> session_ok s') s"
proof -
  have "wp (housekeeping W :: (Session, 'e, bool) go) (\<lambda>r s'. r = Ok False \<and> starving W s') s"
  proof (rule wp_housekeeping)
    fix t assume t: "tick_base W s t"
    show "wp (case s_pending t of Some p \<Rightarrow> hk_pending W (w_now W (s_n s)) p
          | None \<Rightarrow> hk_initiate W (w_now W (s_n s)) (w_wall W (s_n s))) (\<lambda>r s'. r = Ok False \<and> starving W s') t"
      using starving_pending [OF s(1) _ t W(3)] starving_due [OF W(1-4) s(1,2) _ t] tick_base_fields(1) [OF t]
      by (cases "s_pending s") auto
  qed (use W(5) s(1) in \<open>auto simp: starving_def\<close>)
  moreover have "wp (housekeeping W :: (Session, 'e, bool) go) (\<lambda>r s'. r \<noteq> Panic \<and> serving Cur s') s"
    by (rule holds_wp [OF keeps_housekeeping [OF W(1)]]) (simp add: serving_session s)
  ultimately show ?thesis by (simp add: wp_def serving_session)
qed

lemma driver_ticks:
  fixes W :: world and I :: "Session \<Rightarrow> bool"
  assumes "\<And>s. I s \<Longrightarrow> wp (housekeeping W :: (Session, 'e, bool) go) (\<lambda>r s'. r = Ok False \<and> I s') s" "I s"
  shows "\<exists>s'. (driver_loop W (replicate k Tick) :: (Session, 'e, bool) go) s = (Ok False, s') \<and> I s'"
  using assms(2)
proof (induction k arbitrary: s)
  case (Suc k)
  obtain s1 where "(housekeeping W :: (Session, 'e, bool) go) s = (Ok False, s1)" "I s1"
    using assms(1) [OF Suc.prems] unfolding wp_def by (metis prod.collapse)
  then show ?case using Suc.IH [of s1] by (simp add: driver_event_def bindS_def)
qed (simp add: retS_def)

text \<open>
  C34 (liveness).  Dead peer detection can be starved.  Once a rekey of the IKE SA is due and
  the peer is silent, the loop never declares the peer dead, however many ticks pass: with the
  default retransmission schedule an unanswered rekey is given up only after more than the
  retry interval of a minute, when the next attempt is already due, and a due rekey comes before
  the idle check on every tick.
\<close>

theorem driver_rekey_starves_dpd:
  assumes "prims_ok (w_prims W)" "rand_ok W" "mono (w_now W)" "\<And>n. 0 < w_now W n" "awake W"
    and "session_ok s" "starving W s"
  shows "\<exists>s'. driver_loop W (replicate k Tick) s = (Ok False, s') \<and> Dead \<notin> set (s_out s')"
proof -
  have "\<exists>s'. driver_loop W (replicate k Tick) s = (Ok False, s') \<and> starving W s' \<and> session_ok s'"
    by (rule driver_ticks) (use assms starving_tick in auto)
  then show ?thesis by (auto simp: starving_def)
qed


theorem driver_rekey_starves_dpd_witness:
  "\<exists>s s'. starving plain_world s \<and>
     (driver_loop plain_world (replicate 1000000 Tick) :: (Session, sess_err, bool) go) s = (Ok False, s') \<and>
     Dead \<notin> set (s_out s')"
proof -
  obtain sa where sa: "ike_ok sa" using deriveFromSKEYSEED_Ok [OF plain_prims_ok] by blast
  define s where "s = (New_session plain_cfg)\<lparr>s_ikeSA := Some sa, s_dataPlane := True, s_ikeDHGroup := 31, s_nextIKERekey := 1\<rparr>"
  have W: "prims_ok (w_prims plain_world)" "rand_ok plain_world" "mono (w_now plain_world)" "\<And>n. 0 < w_now plain_world n"
    "awake plain_world" "keygen_ok plain_world 31"
    by (auto simp: plain_world_def plain_prims_ok rand_ok_def mono_def awake_def keygen_ok_def NewDH_def plain_curve_def)
  have "session_ok s" using sa by (simp add: s_def session_ok_def ikes_ok_def New_session_def)
  moreover have "starving plain_world s"
    using W(4) [of 0] W(6)
    by (simp add: s_def starving_def New_session_def plain_cfg_def default_retransmission_def retransmitBase_def
        retransmitMax_def retransmitTries_def enabledIKESuites_def enabledSuites_def ikeSuites_def last_tick_def
        rekeyMaxPackets_def defaultRekeyMaxPackets_def) (simp add: plain_world_def)
  ultimately show ?thesis
    using driver_rekey_starves_dpd [OF W(1-5), of s 1000000] by blast
qed

section \<open>An outstanding probe ends the session\<close>

definition probing :: "world \<Rightarrow> SessionConfig \<Rightarrow> pendingExchange \<Rightarrow> Session \<Rightarrow> bool" where
  "probing W cfg p s \<longleftrightarrow> last_tick W s \<and> s_cfg s = cfg \<and> s_pending s = Some p \<and> pe_kind p = exDPD"

text \<open>Time passes.\<close>

definition unbounded :: "world \<Rightarrow> bool" where
  "unbounded W \<longleftrightarrow> (\<forall>T. \<exists>N. \<forall>n\<ge>N. T < w_now W n)"

lemma probing_tick:
  assumes W: "awake W" and s: "probing W cfg p s"
  shows "wp (housekeeping W) (\<lambda>r s'.
     if w_now W (s_n s) \<le> pe_nextRetransmit p then r = Ok False \<and> probing W cfg p s' \<and> s_n s < s_n s'
     else if pe_attempts p + 1 > pendingTries cfg p then r = Ok True \<and> s_out s' \<noteq> [] \<and> last (s_out s') = Dead
     else r = Ok False \<and> (\<exists>p'. probing W cfg p' s' \<and> pe_attempts p' = pe_attempts p + 1 \<and> pe_fast p' = pe_fast p)) s"
proof (rule wp_housekeeping [OF W])
  show "last_tick W s" using s by (simp add: probing_def)
  fix t assume t: "tick_base W s t"
  note f = tick_base_fields(1,2) [OF t] last_tick_base [OF t]
  show "wp (case s_pending t of Some p \<Rightarrow> hk_pending W (w_now W (s_n s)) p
          | None \<Rightarrow> hk_initiate W (w_now W (s_n s)) (w_wall W (s_n s))) (\<lambda>r s'.
     if w_now W (s_n s) \<le> pe_nextRetransmit p then r = Ok False \<and> probing W cfg p s' \<and> s_n s < s_n s'
     else if pe_attempts p + 1 > pendingTries cfg p then r = Ok True \<and> s_out s' \<noteq> [] \<and> last (s_out s') = Dead
     else r = Ok False \<and> (\<exists>p'. probing W cfg p' s' \<and> pe_attempts p' = pe_attempts p + 1 \<and> pe_fast p' = pe_fast p)) t"
    using s f
    by (simp add: hk_pending_def wp_simps probing_def Let_def pendingTries_def last_tickI [of _ W "s_n s"])
qed

lemma driver_loop_Cons_run:
  "(driver_event W ev :: (Session, 'e, bool) go) s = (Ok b, s1) \<Longrightarrow>
   (driver_loop W (ev # evs) :: (Session, 'e, bool) go) s = (if b then (Ok True, s1) else driver_loop W evs s1)"
  by (simp add: bindS_def retS_def)

lemma probing_dead:
  assumes W: "awake W" "unbounded W"
  shows "probing W cfg p s \<Longrightarrow> nat (pendingTries cfg p + 1 - pe_attempts p) = d \<Longrightarrow>
    \<exists>k s'. (driver_loop W (replicate k Tick) :: (Session, 'e, bool) go) s = (Ok True, s') \<and> s_out s' \<noteq> [] \<and> last (s_out s') = Dead"
proof (induction d arbitrary: p s rule: less_induct)
  case (less d)
  obtain N where N: "\<And>n. N \<le> n \<Longrightarrow> pe_nextRetransmit p < w_now W n" using W(2) unfolding unbounded_def by blast
  show ?case using less.prems
  proof (induction "N - s_n s" arbitrary: s rule: less_induct)
    case inner: less
    obtain r s1 where run: "(housekeeping W :: (Session, 'e, bool) go) s = (r, s1)" by (metis surj_pair)
    note tick = wpD [OF probing_tick [OF W(1) inner.prems(1)] run]
    note step = driver_loop_Cons_run [of W Tick s, unfolded driver_event_def, simplified]
    show ?case
    proof (cases "w_now W (s_n s) \<le> pe_nextRetransmit p")
      case True
      then have r: "r = Ok False" "probing W cfg p s1" "s_n s < s_n s1" using tick by simp_all
      have "s_n s < N" using True N [of "s_n s"] by (meson not_le)
      then have "N - s_n s1 < N - s_n s" using r(3) by simp
      from inner.hyps [OF this r(2) inner.prems(2)] obtain k s' where
        "(driver_loop W (replicate k Tick) :: (Session, 'e, bool) go) s1 = (Ok True, s')" "s_out s' \<noteq> []" "last (s_out s') = Dead"
        by blast
      then show ?thesis using run r(1) by (intro exI [of _ "Suc k"] exI [of _ s']) (simp add: step)
    next
      case late: False
      show ?thesis
      proof (cases "pe_attempts p + 1 > pendingTries cfg p")
        case True
        then show ?thesis using tick late run by (intro exI [of _ 1] exI [of _ s1]) (simp add: step)
      next
        case False
        then obtain p' where r: "r = Ok False" "probing W cfg p' s1" "pe_attempts p' = pe_attempts p + 1" "pe_fast p' = pe_fast p"
          using tick late by auto
        have "nat (pendingTries cfg p' + 1 - pe_attempts p') < d"
          using False r(3,4) inner.prems(2) by (auto simp: pendingTries_def)
        from less.IH [OF this r(2) refl] obtain k s' where
          "(driver_loop W (replicate k Tick) :: (Session, 'e, bool) go) s1 = (Ok True, s')" "s_out s' \<noteq> []" "last (s_out s') = Dead"
          by blast
        then show ?thesis using run r(1) by (intro exI [of _ "Suc k"] exI [of _ s']) (simp add: step)
      qed
    qed
  qed
qed

text \<open>
  C35 (liveness).  Once a dead peer probe is outstanding, a silent peer is declared dead: after
  finitely many ticks the loop ends, and its last act is \<open>onDead\<close>.  Rekeys that fall due
  meanwhile, and the state of a superseded IKE SA, do not keep it from ending.
\<close>

theorem driver_probe_declares_dead:
  assumes "awake W" "unbounded W" "last_tick W s" "s_pending s = Some p" "pe_kind p = exDPD"
  shows "\<exists>k s'. driver_loop W (replicate k Tick) s = (Ok True, s') \<and> s_out s' \<noteq> [] \<and> last (s_out s') = Dead"
  by (rule probing_dead [OF assms(1,2), of "s_cfg s" p]) (simp_all add: probing_def assms)


theorem driver_probe_declares_dead_witness:
  "\<exists>k s'. (driver_loop plain_world (replicate k Tick) :: (Session, sess_err, bool) go)
      ((New_session plain_cfg)\<lparr>s_pending := Some \<lparr>pe_kind = exDPD, pe_msgID = 4, pe_raw = [1], pe_attempts = 1,
          pe_nextRetransmit = 5, pe_child = None, pe_ike = None, pe_fast = False\<rparr>\<rparr>) = (Ok True, s') \<and>
     s_out s' \<noteq> [] \<and> last (s_out s') = Dead"
proof -
  have "awake plain_world" by (auto simp: plain_world_def awake_def)
  moreover have "unbounded plain_world"
    unfolding unbounded_def
  proof
    fix T
    have "T < w_now plain_world n" if "nat T \<le> n" for n using that by (simp add: plain_world_def)
    then show "\<exists>N. \<forall>n\<ge>N. T < w_now plain_world n" by blast
  qed
  ultimately show ?thesis
    by (rule driver_probe_declares_dead) (simp add: New_session_def last_tick_def, simp, simp)
qed

end
