(* ===== verification/Rekey_Agree.thy ===== *)
theory Rekey_Agree
  imports Session_Run
begin

text \<open>
  A Child SA rekey between two ends that both run this code, over the encoded messages: the
  Child SAs they install mirror each other.
\<close>

section \<open>The messages\<close>

definition rekeyRequest ::
  "SessionConfig \<Rightarrow> u32 \<Rightarrow> bool \<Rightarrow> bytes \<Rightarrow> bytes \<Rightarrow> DH option \<Rightarrow> Payloads" where
  "rekeyRequest cfg oldSPI reestablish spi ni dh =
     appendTrafficSelectors
       ((if \<not> reestablish then [NotifyPayload ProtocolESP NotifyRekeySA (PutUint32 oldSPI) []] else []) @
        [SAPayload (buildProposals spi (enabledESPSuites cfg) (case dh of Some d \<Rightarrow> [dh_Group d] | None \<Rightarrow> []))] @
        [NoncePayload ni] @
        (case dh of Some d \<Rightarrow> [KEPayload (dh_Group d) (dh_Public d)] | None \<Rightarrow> []))
       (cf_RequestIPv6 cfg)"

definition rekeyResponse ::
  "byte \<Rightarrow> transformSuite \<Rightarrow> bytes \<Rightarrow> bytes \<Rightarrow> DH option \<Rightarrow> TrafficSelector list \<Rightarrow> Payloads" where
  "rekeyResponse number suite spi nr dh ts =
     [SAPayload [buildProposalForSuite number suite spi (case dh of Some d \<Rightarrow> [dh_Group d] | None \<Rightarrow> [])]] @
     [NoncePayload nr] @
     (case dh of Some d \<Rightarrow> [KEPayload (dh_Group d) (dh_Public d)] | None \<Rightarrow> []) @
     [TSiPayload ts, TSrPayload ts]"

definition full_selectors :: "bool \<Rightarrow> TrafficSelector list" where
  "full_selectors v6 = [fullV4] @ (if v6 then [fullV6] else [])"

definition dh_small :: "DH option \<Rightarrow> bool" where
  "dh_small dh \<longleftrightarrow> (\<forall>d. dh = Some d \<longrightarrow> length (dh_Public d) \<le> 256)"

lemma sendable_rekeyRequest:
  assumes "length (enabledESPSuites cfg) \<le> 60" "length spi = 4" "length ni = 32" "dh_small dh"
  shows "sendable (rekeyRequest cfg oldSPI re spi ni dh)"
  using assms fits_buildProposals [of spi "case dh of Some d \<Rightarrow> [dh_Group d] | None \<Rightarrow> []" "enabledESPSuites cfg"]
    fits_full_selectors [of "cf_RequestIPv6 cfg"]
  unfolding rekeyRequest_def appendTrafficSelectors_def Let_def
  by (intro sendableI) (auto simp: dh_small_def split: option.split)

lemma sendable_rekeyResponse:
  assumes "length spi = 4" "length nr = 32" "dh_small dh"
  shows "sendable (rekeyResponse n suite spi nr dh (full_selectors v6))"
proof -
  have "fits 6000 (SAPayload [buildProposalForSuite n suite spi (case dh of Some d \<Rightarrow> [dh_Group d] | None \<Rightarrow> [])])"
    using marshalProposal_built [of spi "case dh of Some d \<Rightarrow> [dh_Group d] | None \<Rightarrow> []" False n suite] assms(1)
    by (auto simp: fits_def split: option.splits)
  then show ?thesis
    using assms fits_full_selectors [of v6]
    unfolding rekeyResponse_def full_selectors_def
    by (intro sendableI) (auto simp: dh_small_def split: option.split)
qed

lemma protocol_esp: "suite \<in> set (enabledESPSuites cfg) \<Longrightarrow> protocol suite = ProtocolESP"
  by (drule enabledESP_in) (auto simp: espSuites_def protocol_def)

lemma not_isIKERekey: "\<not> isIKERekey (rekeyRequest cfg oldSPI re spi ni dh)"
proof (cases "enabledESPSuites cfg")
  case Nil
  then show ?thesis
    by (cases dh; cases re) (simp_all add: rekeyRequest_def appendTrafficSelectors_def Let_def buildProposals_def)
next
  case (Cons suite rest)
  then have "protocol suite = ProtocolESP" using protocol_esp [of suite cfg] by simp
  then show ?thesis using Cons
    by (cases dh; cases re)
       (simp_all add: rekeyRequest_def appendTrafficSelectors_def Let_def buildProposals_def buildProposalForSuite_def)
qed

lemma request_payloads:
  assumes "ni \<noteq> []"
  shows "childRekeyRequestPayloads (rekeyRequest cfg oldSPI re spi ni dh) =
     Ok (buildProposals spi (enabledESPSuites cfg) (case dh of Some d \<Rightarrow> [dh_Group d] | None \<Rightarrow> []), ni,
         map_option (\<lambda>d. (dh_Group d, dh_Public d)) dh, full_selectors (cf_RequestIPv6 cfg), full_selectors (cf_RequestIPv6 cfg))"
  using assms
  by (cases dh; cases re) (simp_all add: childRekeyRequestPayloads_def rekeyRequest_def appendTrafficSelectors_def Let_def full_selectors_def)

lemma response_payloads:
  assumes "suite \<in> set (enabledESPSuites cfg)" "length spi = 4" "nr \<noteq> []"
  shows "childRekeyResponse cfg (rekeyResponse n suite spi nr dh ts) =
     Ok (buildProposalForSuite n suite spi (case dh of Some d \<Rightarrow> [dh_Group d] | None \<Rightarrow> []), suite, nr,
         map_option (\<lambda>d. (dh_Group d, dh_Public d)) dh)"
proof -
  have sel: "selectedSuite (buildProposalForSuite n suite spi gs) (enabledESPSuites cfg) = Some suite" if "length gs \<le> 1" for gs
    using assms(1) isSelectionFor_built [OF that, of suite n spi] enabledESP_in
      esp_table.selectedSuite_iff [of "enabledESPSuites cfg" "buildProposalForSuite n suite spi gs" suite] by blast
  have "pr_SPI (buildProposalForSuite n suite spi gs) = spi" for gs by (simp add: buildProposalForSuite_def)
  then show ?thesis using assms sel [of "[]"] sel [of "[g]" for g]
    by (cases dh) (simp_all add: childRekeyResponse_def rekeyResponse_def)
qed

section \<open>The responder's choice\<close>

lemma build_from_in:
  "p \<in> set (build_from i spi suites groups) \<Longrightarrow> \<exists>n. \<exists>s\<in>set suites. p = buildProposalForSuite n s spi groups"
  by (induction suites arbitrary: i) (auto, blast)

lemma in_build_from:
  "s \<in> set suites \<Longrightarrow> \<exists>n. buildProposalForSuite n s spi groups \<in> set (build_from i spi suites groups)"
  by (induction suites arbitrary: i) auto

lemma suiteMatches_built:
  assumes "suite \<in> set espSuites" "s \<in> set espSuites" "suiteMatches suite (buildProposalForSuite n s spi groups)"
  shows "suite = s"
  using assms
  by (auto simp: espSuites_def suiteMatches_def buildProposalForSuite_def protocol_def ByType_def aead_suite_def Let_def
      split: if_splits)

lemma offers_built:
  assumes "s \<in> set espSuites" "length spi = 4" "g = 0 \<or> g \<in> set groups"
  shows "offers g s (buildProposalForSuite n s spi groups)"
proof -
  have dh: "ByType (buildProposalForSuite n s spi groups) TransformDH =
      map (\<lambda>g. \<lparr>tr_Type = TransformDH, tr_ID = g, tr_KeyLength = 0, tr_HasKeyLength = False\<rparr>) groups"
    using assms(1) by (auto simp: espSuites_def ByType_def buildProposalForSuite_def protocol_def aead_suite_def comp_def)
  have "hasTransform (map (\<lambda>g. \<lparr>tr_Type = TransformDH, tr_ID = g, tr_KeyLength = 0, tr_HasKeyLength = False\<rparr>) groups) g None"
    if "g \<in> set groups"
    using that by (induction groups) auto
  then have "g = 0 \<or> proposalHasDHGroup (buildProposalForSuite n s spi groups) g"
    using assms(3) unfolding proposalHasDHGroup_def dh by blast
  moreover have "pr_SPI (buildProposalForSuite n s spi groups) = spi" by (simp add: buildProposalForSuite_def)
  moreover have "suiteMatches s (buildProposalForSuite n s spi groups)"
    using isSelectionFor_built [of "[]" s n spi] assms(1)
    by (auto simp: espSuites_def suiteMatches_def buildProposalForSuite_def protocol_def ByType_def aead_suite_def Let_def)
  ultimately show ?thesis using assms(2) spiLen_suites(1) [OF assms(1)] by (simp add: offers_def)
qed

lemma select_built:
  assumes "selectProposal (buildProposals spi (enabledESPSuites cfgA) groups) (enabledESPSuites cfgB) g = Some (pp, suite)"
  shows "\<exists>n. pp = buildProposalForSuite n suite spi groups" "suite \<in> set (enabledESPSuites cfgA)"
    "suite \<in> set (enabledESPSuites cfgB)"
proof -
  have sel: "suite \<in> set (enabledESPSuites cfgB)" "pp \<in> set (build_from 0 spi (enabledESPSuites cfgA) groups)" "offers g suite pp"
    using selectProposal_in [OF assms] by (auto simp: buildProposals_def)
  then obtain n s where s: "s \<in> set (enabledESPSuites cfgA)" "pp = buildProposalForSuite n s spi groups"
    using build_from_in by blast
  have "suite = s" using suiteMatches_built [of suite s n spi groups] sel s enabledESP_in by (auto simp: offers_def)
  with s sel show "\<exists>n. pp = buildProposalForSuite n suite spi groups" "suite \<in> set (enabledESPSuites cfgA)"
    "suite \<in> set (enabledESPSuites cfgB)" by blast+
qed

lemma select_exists:
  assumes "suite \<in> set (enabledESPSuites cfgA)" "suite \<in> set (enabledESPSuites cfgB)" "length spi = 4" "g = 0 \<or> g \<in> set groups"
  shows "selectProposal (buildProposals spi (enabledESPSuites cfgA) groups) (enabledESPSuites cfgB) g \<noteq> None"
proof -
  obtain n where "buildProposalForSuite n suite spi groups \<in> set (buildProposals spi (enabledESPSuites cfgA) groups)"
    using in_build_from [OF assms(1), of spi groups 0] by (auto simp: buildProposals_def)
  moreover have "offers g suite (buildProposalForSuite n suite spi groups)"
    using assms enabledESP_in by (intro offers_built) auto
  ultimately have "find (\<lambda>s. \<exists>p\<in>set (buildProposals spi (enabledESPSuites cfgA) groups). offers g s p) (enabledESPSuites cfgB) \<noteq> None"
    using assms(2) by (auto simp: find_None_iff)
  then show ?thesis by (auto simp: selectProposal_find)
qed

section \<open>The initiator sends its request\<close>

text \<open>The key pair of a PFS rekey: there is one exactly if the session does PFS.\<close>

definition own_dh :: "world \<Rightarrow> Session \<Rightarrow> DH option \<Rightarrow> bool" where
  "own_dh W s dh \<longleftrightarrow>
     (if s_childPFS s then \<exists>d. dh = Some d \<and> generated W (childRekeyGroup s) d else dh = None) \<and> dh_small dh"

definition awaiting :: "world \<Rightarrow> Session \<Rightarrow> IKESA \<Rightarrow> ChildSA \<Rightarrow> bool \<Rightarrow> bytes \<Rightarrow> bytes \<Rightarrow> DH option \<Rightarrow> bytes \<Rightarrow> Session \<Rightarrow> bool" where
  "awaiting W s sa child reestablish spi ni dh raw t \<longleftrightarrow>
     (\<exists>q x k nx. t = s\<lparr>s_ikeSA := Some (sa\<lparr>skSeq := q\<rparr>), s_messageID := s_messageID s + 1,
        s_pending := Some \<lparr>pe_kind = exChildRekey, pe_msgID = s_messageID s, pe_raw = raw, pe_attempts = 1, pe_nextRetransmit = nx,
          pe_child = Some \<lparr>cr_newInSPI = Uint32 spi, cr_oldInSPI = ch_InitiatorSPI child, cr_ni = ni,
            cr_reestablish = reestablish, cr_dh = dh\<rparr>, pe_ike = None, pe_fast = False\<rparr>,
        s_out := s_out s @ [Sent x], s_n := k\<rparr>) \<and>
     own_dh W s dh \<and> length spi = 4 \<and> length ni = 32 \<and>
     carries (w_prims W) sa raw ExchangeCreateChildSA (requestFlags sa) (s_messageID s)
       (rekeyRequest (s_cfg s) (ch_InitiatorSPI child) reestablish spi ni dh)"

definition optional_DH :: "world \<Rightarrow> Session \<Rightarrow> (Session, sess_err, DH option) go" where
  "optional_DH W s = (if s_childPFS s then bindS (newDHS W (childRekeyGroup s)) (\<lambda>d. retS (Some d)) else retS None)"

lemma wp_optional_DH:
  assumes "s_childPFS s \<Longrightarrow> keygen_ok W (childRekeyGroup s)"
    and "\<And>dh k. own_dh W s dh \<Longrightarrow> Q (Ok dh) (t\<lparr>s_n := k\<rparr>)"
  shows "wp (optional_DH W s) Q t"
proof (cases "s_childPFS s")
  case True
  then show ?thesis
    by (auto simp: optional_DH_def wp_bindS own_dh_def dh_small_def wp_retS intro!: wp_newDHS_Ok assms)
next
  case False
  then show ?thesis using assms(2) [of None "s_n t"] by (simp add: optional_DH_def wp_retS own_dh_def dh_small_def)
qed

lemma initiateChildRekey_eq:
  "initiateChildRekey W re =
     readS (\<lambda>s. s) (\<lambda>s.
     case s_child s of
       None \<Rightarrow> failS ErrNoChildSA
     | Some child \<Rightarrow>
         bindS (randBytes W 4) (\<lambda>newSPI.
         bindS (randBytes W nonceLen) (\<lambda>ni.
         bindS (optional_DH W s) (\<lambda>dh.
         bindS (encodeSK W ExchangeCreateChildSA requestFlags (s_messageID s)
           (rekeyRequest (s_cfg s) (ch_InitiatorSPI child) re newSPI ni dh)) (\<lambda>raw.
         bindS (nowS W) (\<lambda>now.
         thenS (modS (\<lambda>t. t\<lparr>s_messageID := s_messageID t + 1,
            s_pending := Some \<lparr>pe_kind = exChildRekey, pe_msgID = s_messageID s, pe_raw = raw, pe_attempts = 1,
              pe_nextRetransmit = now + retransmitBase (s_cfg t),
              pe_child = Some \<lparr>cr_newInSPI = Uint32 newSPI, cr_oldInSPI = ch_InitiatorSPI child, cr_ni = ni,
                cr_reestablish = re, cr_dh = dh\<rparr>,
              pe_ike = None, pe_fast = False\<rparr>\<rparr>))
         (sendIKE W raw)))))))"
  unfolding initiateChildRekey_def rekeyRequest_def optional_DH_def Let_def ..

lemma wp_initiateChildRekey:
  assumes W: "prims_ok (w_prims W)" "rand_ok W" "s_childPFS s \<Longrightarrow> keygen_ok W (childRekeyGroup s)"
    and s: "s_ikeSA s = Some sa" "ike_ok sa" "s_child s = Some child" "length (enabledESPSuites (s_cfg s)) \<le> 60"
  shows "wp (initiateChildRekey W re) (\<lambda>r t. r \<noteq> Panic \<and> (\<exists>spi ni dh raw. awaiting W s sa child re spi ni dh raw t)) s"
  unfolding initiateChildRekey_eq
  apply (simp add: wp_readS s(3) wp_bindS wp_randBytes W(2))
  apply (rule wp_optional_DH [OF W(3)], assumption)
  apply (simp add: wp_simps)
  apply (rule wp_encodeSK [OF W(1,2)], simp add: s, rule s)
  apply (rule sendable_rekeyRequest [OF s(4)])
  apply (rule rand_ok_length [OF W(2)], simp)
  apply (rule rand_ok_length [OF W(2)], simp)
  apply (simp add: own_dh_def)
  apply (simp only: wp_simps res.case awaiting_def)
  apply (rule conjI, simp)
  apply (intro exI conjI, simp)
  by (simp_all add: rand_ok_length [OF W(2)] del: length_take)

section \<open>The responder answers\<close>

text \<open>Its own key pair and the shared secret, if the request has a key exchange.\<close>

definition peer_dh :: "world \<Rightarrow> DH option \<Rightarrow> (DH \<times> bytes) option \<Rightarrow> bool" where
  "peer_dh W dh dhs \<longleftrightarrow>
     (case dh of
        None \<Rightarrow> dhs = None
      | Some d \<Rightarrow> \<exists>d' k. dhs = Some (d', k) \<and> generated W (dh_Group d) d' \<and> length (dh_Public d') \<le> 256 \<and>
          Shared (w_curve W) d' (dh_Public d) = Ok k)"

text \<open>Key pairs of this responder work with the request's public value.\<close>

definition usable :: "world \<Rightarrow> DH option \<Rightarrow> bool" where
  "usable W dh \<longleftrightarrow>
     (\<forall>d. dh = Some d \<longrightarrow> supportedDHGroup (dh_Group d) \<and> keygen_ok W (dh_Group d) \<and>
        (\<forall>d'. generated W (dh_Group d) d' \<longrightarrow> (\<exists>k. Shared (w_curve W) d' (dh_Public d) = Ok k)))"

lemma wp_answer_dh:
  assumes "usable W dh" "\<And>dhs k. peer_dh W dh dhs \<Longrightarrow> Q (Ok dhs) (t\<lparr>s_n := k\<rparr>)"
  shows "wp (case map_option (\<lambda>d. (dh_Group d, dh_Public d)) dh of None \<Rightarrow> retS None
            | Some (g, kd) \<Rightarrow> bindS (answerKE W dec mid v g kd) (\<lambda>x. retS (Some x))) Q t"
proof (cases dh)
  case None
  then show ?thesis using assms(2) [of None "s_n t"] by (simp add: wp_retS peer_dh_def)
next
  case (Some d)
  have "wp (newDHS W (dh_Group d)) (\<lambda>r s'. \<exists>d' k. r = Ok d' \<and> s' = t\<lparr>s_n := Suc (s_n t)\<rparr> \<and>
      generated W (dh_Group d) d' \<and> length (dh_Public d') \<le> 256 \<and> Shared (w_curve W) d' (dh_Public d) = Ok k) t"
    using assms(1) Some by (intro wp_newDHS_Ok) (auto simp: usable_def)
  then show ?thesis
    unfolding Some
    by (auto simp: answerKE_def wp_simps peer_dh_def Some elim!: wp_mono intro!: assms(2))
qed

definition dh_of :: "(DH \<times> bytes) option \<Rightarrow> DH option" where
  "dh_of dhs = map_option fst dhs"

definition secret_of :: "(DH \<times> bytes) option \<Rightarrow> bytes" where
  "secret_of dhs = (case dhs of Some (_, k) \<Rightarrow> k | None \<Rightarrow> [])"

lemma answerChildRekey_eq:
  assumes "ts \<noteq> []"
  shows "answerChildRekey W mid dec v child pp suite ni ke ts ts =
     bindS (liftS (be_Uint32 (pr_SPI pp))) (\<lambda>serverNewSPI.
     bindS (case ke of None \<Rightarrow> retS None
            | Some (g, kd) \<Rightarrow> bindS (answerKE W dec mid v g kd) (\<lambda>x. retS (Some x))) (\<lambda>dhs.
     bindS (onErrS (randBytes W 4) (sendTemporaryFailure W dec mid v)) (\<lambda>newSPI.
     bindS (onErrS (randBytes W nonceLen) (sendTemporaryFailure W dec mid v)) (\<lambda>nr.
     readS (\<lambda>s. cf_RequestIPv6 (s_cfg s)) (\<lambda>ipv6.
     bindS (encodeWith W dec ExchangeCreateChildSA responseFlags mid
              (rekeyResponse (pr_Number pp) suite newSPI nr (dh_of dhs) ts)) (\<lambda>raw.
     readS (ctxOf dec) (\<lambda>c.
     derefS c (\<lambda>c.
     bindS (liftS (wrapR ErrIKESA
         (deriveChildKeys (w_prims W) (cx_sa c) (secret_of dhs) ni nr (su_encrKeyLen suite) (su_integKeyLen suite)))) (\<lambda>keys.
     thenS (case dhs of
              Some (d, _) \<Rightarrow> modS (\<lambda>s. s\<lparr>s_childPFS := True, s_childPFSGroup := dh_Group d\<rparr>)
            | None \<Rightarrow> retS ())
     (thenS (InstallChildSA_call
       \<lparr>cu_NewInSPI = Uint32 newSPI, cu_NewOutSPI = serverNewSPI, cu_OldInSPI = ch_InitiatorSPI child,
        cu_Suite = su_id suite,
        cu_OutEncr = EncrRI keys, cu_OutInteg = IntegRI keys, cu_InEncr = EncrIR keys, cu_InInteg = IntegIR keys\<rparr>)
     (bindS (nowS W) (\<lambda>now.
     thenS (modS (\<lambda>s. s\<lparr>
        s_child := Some \<lparr>ch_InitiatorSPI = Uint32 newSPI, ch_ResponderSPI = serverNewSPI,
                         ch_Suite = su_id suite, ch_Keys = keys\<rparr>,
        s_childInstalledAt := now\<rparr>))
     (readS (\<lambda>s. cf_RekeyLifetime (s_cfg s)) (\<lambda>lifetime.
     bindS (jitteredDeadline W now lifetime) (\<lambda>deadline.
     thenS (modS (\<lambda>s. s\<lparr>s_nextChildRekey := deadline\<rparr>))
     (thenS (recordPeerResponse v mid raw)
     (sendIKE W raw)))))))))))))))))"
  unfolding answerChildRekey_def rekeyResponse_def Let_def dh_of_def secret_of_def DeriveChildKeys_def DeriveChildKeysPFS_def
  using assms
  apply (intro arg_cong2 [where f = bindS] refl ext)
  apply (simp split: option.split)
  done

definition answered ::
  "world \<Rightarrow> Session \<Rightarrow> IKESA \<Rightarrow> u32 \<Rightarrow> bytes \<Rightarrow> bytes \<Rightarrow> DH option \<Rightarrow> transformSuite \<Rightarrow> bytes \<Rightarrow> bytes \<Rightarrow> (DH \<times> bytes) option \<Rightarrow>
   ChildKeys \<Rightarrow> bytes \<Rightarrow> bytes \<Rightarrow> Session \<Rightarrow> bool" where
  "answered W s b mid spi ni dh suite spi' nr dhs keys raw x t \<longleftrightarrow>
     s_peer t = \<lparr>dd_msgID = mid, dd_set = True, dd_resp = Some raw\<rparr> \<and>
     s_out t = s_out s @ [Install \<lparr>cu_NewInSPI = Uint32 spi', cu_NewOutSPI = Uint32 spi,
        cu_OldInSPI = (case s_child s of Some c \<Rightarrow> ch_InitiatorSPI c | None \<Rightarrow> 0), cu_Suite = su_id suite,
        cu_OutEncr = EncrRI keys, cu_OutInteg = IntegRI keys, cu_InEncr = EncrIR keys, cu_InInteg = IntegIR keys\<rparr>, Sent x] \<and>
     length spi' = 4 \<and> length nr = 32 \<and> peer_dh W dh dhs \<and>
     deriveChildKeys (w_prims W) b (secret_of dhs) ni nr (su_encrKeyLen suite) (su_integKeyLen suite) = Ok keys \<and>
     (\<exists>n ts. carries (w_prims W) b raw ExchangeCreateChildSA (responseFlags b) mid (rekeyResponse n suite spi' nr (dh_of dhs) ts))"

lemma wp_jitteredDeadline:
  "rand_ok W \<Longrightarrow> (\<And>d k. Q (Ok d) (t\<lparr>s_n := k\<rparr>)) \<Longrightarrow> wp (jitteredDeadline W base l) Q t"
  using wp_randBytes [of W 2]
  apply (auto simp: jitteredDeadline_def randFraction_def wp_simps split: sum.split)
  apply (metis Session.surjective Session.update_convs(1))
  done

lemma deriveChildKeys_skSeq [simp]:
  "deriveChildKeys P (sa\<lparr>skSeq := q\<rparr>) sh ni nr e g = deriveChildKeys P sa sh ni nr e g"
  by (simp add: deriveChildKeys_def)

lemma wp_answerChildRekey:
  assumes W: "prims_ok (w_prims W)" "rand_ok W" "usable W dh"
    and s: "s_ikeSA s = Some b" "ike_ok b" "s_child s = Some child" "s_dataPlane s"
    and pp: "pr_SPI pp = spi" "length spi = 4" "suite \<in> set espSuites" "ts = full_selectors v6"
  shows "wp (answerChildRekey W mid Cur False child pp suite ni (map_option (\<lambda>d. (dh_Group d, dh_Public d)) dh) ts ts)
     (\<lambda>r t. r \<noteq> Panic \<and> (\<exists>spi' nr dhs keys raw x. answered W s b mid spi ni dh suite spi' nr dhs keys raw x t)) s"
proof -
  have ts: "ts \<noteq> []" by (simp add: pp(4) full_selectors_def)
  have spi: "be_Uint32 (pr_SPI pp) = Ok (Uint32 spi)" by (simp add: be_Uint32_def pp)
  have tail: "case Ok raw of Ok raw \<Rightarrow> wp (readS (ctxOf Cur) (\<lambda>c.
     derefS c (\<lambda>c.
     bindS (liftS (wrapR ErrIKESA
         (deriveChildKeys (w_prims W) (cx_sa c) (secret_of dhs) ni nr (su_encrKeyLen suite) (su_integKeyLen suite)))) (\<lambda>keys.
     thenS (case dhs of
              Some (d, _) \<Rightarrow> modS (\<lambda>s. s\<lparr>s_childPFS := True, s_childPFSGroup := dh_Group d\<rparr>)
            | None \<Rightarrow> retS ())
     (thenS (InstallChildSA_call
       \<lparr>cu_NewInSPI = Uint32 spi', cu_NewOutSPI = Uint32 spi, cu_OldInSPI = ch_InitiatorSPI child,
        cu_Suite = su_id suite,
        cu_OutEncr = EncrRI keys, cu_OutInteg = IntegRI keys, cu_InEncr = EncrIR keys, cu_InInteg = IntegIR keys\<rparr>)
     (bindS (nowS W) (\<lambda>now.
     thenS (modS (\<lambda>s. s\<lparr>
        s_child := Some \<lparr>ch_InitiatorSPI = Uint32 spi', ch_ResponderSPI = Uint32 spi,
                         ch_Suite = su_id suite, ch_Keys = keys\<rparr>,
        s_childInstalledAt := now\<rparr>))
     (readS (\<lambda>s. cf_RekeyLifetime (s_cfg s)) (\<lambda>lifetime.
     bindS (jitteredDeadline W now lifetime) (\<lambda>deadline.
     thenS (modS (\<lambda>s. s\<lparr>s_nextChildRekey := deadline\<rparr>))
     (thenS (recordPeerResponse False mid raw)
     (sendIKE W raw)))))))))))) Q' u | Err e \<Rightarrow> R e | Panic \<Rightarrow> R'"
    if "Q' = (\<lambda>r t. r \<noteq> Panic \<and> (\<exists>spi' nr dhs keys raw x. answered W s b mid spi ni dh suite spi' nr dhs keys raw x t))"
      and u: "s_ikeSA u = Some (b\<lparr>skSeq := q\<rparr>)" "s_dataPlane u" "s_out u = s_out s"
      and "length spi' = 4" "length nr = 32" "peer_dh W dh dhs"
      and "carries (w_prims W) b raw ExchangeCreateChildSA (responseFlags b) mid
        (rekeyResponse (pr_Number pp) suite spi' nr (dh_of dhs) (full_selectors v6))"
    for raw dhs spi' nr u Q' R R' q
  proof -
    obtain keys where keys: "deriveChildKeys (w_prims W) b (secret_of dhs) ni nr (su_encrKeyLen suite) (su_integKeyLen suite) = Ok keys"
      by (rule deriveChildKeys_suite [OF W(1) pp(3), of b "secret_of dhs" ni nr])
    have fin: "\<exists>spi' nr dhs keys raw x. answered W s b mid spi ni dh suite spi' nr dhs keys raw x t"
      if "s_peer t = \<lparr>dd_msgID = mid, dd_set = True, dd_resp = Some raw\<rparr>"
        "s_out t = s_out s @ [Install \<lparr>cu_NewInSPI = Uint32 spi', cu_NewOutSPI = Uint32 spi, cu_OldInSPI = ch_InitiatorSPI child,
           cu_Suite = su_id suite, cu_OutEncr = EncrRI keys, cu_OutInteg = IntegRI keys, cu_InEncr = EncrIR keys,
           cu_InInteg = IntegIR keys\<rparr>, Sent (sendDatagram (s_nattMode u) raw)]" for t
      using that \<open>length spi' = 4\<close> \<open>length nr = 32\<close> \<open>peer_dh W dh dhs\<close> keys s(3)
        \<open>carries _ b raw _ _ _ _\<close> unfolding answered_def
      by (intro exI [of _ spi'] exI [of _ nr] exI [of _ dhs] exI [of _ keys] exI [of _ raw] exI [of _ "sendDatagram (s_nattMode u) raw"]) auto
    show ?thesis
      using u keys \<open>Q' = _\<close>
      by (cases dhs)
         (auto simp: wp_simps ctxOf_def curCtx_def InstallChildSA_call_def recordPeerResponse_def Let_def
           intro!: wp_jitteredDeadline [OF W(2)] fin)
  qed
  show ?thesis
    unfolding answerChildRekey_eq [OF ts] encodeSK_def [symmetric]
    apply (simp only: wp_bindS [of "liftS _"] wp_liftS spi res.case)
    apply (subst wp_bindS, rule wp_answer_dh [OF W(3)])
    apply (simp add: wp_bindS wp_onErrS wp_randBytes W(2) wp_readS)
    apply (rule wp_encodeSK [OF W(1,2)], simp add: s, rule s)
    apply (unfold pp(4))
    apply (rule sendable_rekeyResponse)
    apply (rule rand_ok_length [OF W(2)], simp)
    apply (rule rand_ok_length [OF W(2)], simp)
    apply (auto simp: peer_dh_def dh_small_def dh_of_def split: option.splits) []
    apply (rule tail, simp_all add: s rand_ok_length [OF W(2)] del: length_take)
    done
qed

lemma wp_decodeS_cur:
  assumes "s_ikeSA s = Some b" "decodeSKWith (w_prims W) b raw = (Ok (m, inner), True)"
  shows "wp (decodeS W raw) Q s \<longleftrightarrow> Q (Ok (m, inner, Cur)) (s\<lparr>s_n := Suc (s_n s)\<rparr>)"
  using assms by (simp add: decodeS_def wp_simps curCtx_def decodeIKE_def)

lemma request_flags [simp]: "\<not> IsResponse (requestFlags sa)" "IsResponse (responseFlags sa)"
  by (cases "ik_Role sa"; simp add: requestFlags_def responseFlags_def ikeRoleBit_def IsResponse_def)+

lemma wp_request:
  assumes W: "prims_ok (w_prims W)" "rand_ok W" "usable W dh"
    and s: "s_ikeSA s = Some b" "ike_ok b" "s_child s = Some child" "s_dataPlane s" "s_pending s = None"
      "\<not> (dd_set (s_peer s) \<and> mid \<le> dd_msgID (s_peer s))"
    and raw: "carries (w_prims W) a raw ExchangeCreateChildSA (requestFlags a) mid (rekeyRequest cfg oldSPI re spi ni dh)"
      "ike_mirrors a b" "length spi = 4" "length ni = 32"
    and common: "s0 \<in> set (enabledESPSuites cfg)" "s0 \<in> set (enabledESPSuites (s_cfg s))"
  shows "wp (handleInbound W raw) (\<lambda>r t. r \<noteq> Panic \<and> (\<exists>suite spi' nr dhs keys raw' x.
     suite \<in> set (enabledESPSuites cfg) \<and> suite \<in> set espSuites \<and> answered W s b mid spi ni dh suite spi' nr dhs keys raw' x t)) s"
proof -
  define inner where "inner = rekeyRequest cfg oldSPI re spi ni dh"
  define ps where "ps = buildProposals spi (enabledESPSuites cfg) (case dh of Some d \<Rightarrow> [dh_Group d] | None \<Rightarrow> [])"
  define ke where "ke = map_option (\<lambda>d. (dh_Group d, dh_Public d)) dh"
  define g where "g = (case dh of Some d \<Rightarrow> dh_Group d | None \<Rightarrow> 0)"
  obtain m where m: "decodeSKWith (w_prims W) b raw = (Ok (m, inner), True)" "Exchange m = ExchangeCreateChildSA"
    "MFlags m = requestFlags a" "MessageID m = mid"
    using raw(1,2) unfolding carries_def inner_def by blast
  have pay: "childRekeyRequestPayloads inner = Ok (ps, ni, ke,
      full_selectors (cf_RequestIPv6 cfg), full_selectors (cf_RequestIPv6 cfg))"
    using request_payloads [of ni cfg oldSPI re spi dh] raw(4) by (force simp: inner_def ps_def ke_def)
  have "selectProposal ps (enabledESPSuites (s_cfg s)) g \<noteq> None"
    unfolding ps_def by (rule select_exists [OF common raw(3)]) (simp add: g_def split: option.split)
  then obtain pp suite where sel: "selectProposal ps (enabledESPSuites (s_cfg s)) g = Some (pp, suite)" by auto
  note chosen = select_built [OF sel [unfolded ps_def]]
  have spi: "pr_SPI pp = spi" using chosen(1) by (auto simp: buildProposalForSuite_def)
  have ike: "\<not> isIKERekey inner" unfolding inner_def by (rule not_isIKERekey)
  have sup: "\<not> (case ke of Some (g, _) \<Rightarrow> \<not> supportedDHGroup g | None \<Rightarrow> False)"
    using W(3) by (auto simp: usable_def ke_def split: option.split)
  have g: "(case ke of Some (g, _) \<Rightarrow> g | None \<Rightarrow> 0) = g"
    by (simp add: g_def ke_def split: option.split)
  let ?s = "s\<lparr>s_n := Suc (Suc (s_n s)), s_lastInbound := w_now W (Suc (s_n s))\<rparr>"
  have ans: "wp (answerChildRekey W mid Cur False child pp suite ni ke
       (full_selectors (cf_RequestIPv6 cfg)) (full_selectors (cf_RequestIPv6 cfg)))
     (\<lambda>r t. r \<noteq> Panic \<and> (\<exists>spi' nr dhs keys raw x. answered W ?s b mid spi ni dh suite spi' nr dhs keys raw x t)) ?s"
    unfolding ke_def by (rule wp_answerChildRekey [OF W]) (use s chosen spi raw(3) enabledESP_in in auto)
  have same: "answered W ?s b mid spi ni dh suite spi' nr dhs keys raw x t = answered W s b mid spi ni dh suite spi' nr dhs keys raw x t"
    for spi' nr dhs keys raw x t by (simp add: answered_def)
  have "wp (handleChildRekeyRequest W mid inner Cur False)
     (\<lambda>r t. r \<noteq> Panic \<and> (\<exists>spi' nr dhs keys raw x. answered W s b mid spi ni dh suite spi' nr dhs keys raw x t)) ?s"
    unfolding handleChildRekeyRequest_def
    using ans unfolding same
    by (simp add: wp_readS s(3) wp_bindS wp_onErrS wp_liftS pay Let_def sup g sel)
  then show ?thesis
    using m s(5,6) ike chosen(2) enabledESP_in [OF chosen(2)]
    by (auto simp: handleInbound_def wp_bindS wp_tryS wp_decodeS_cur [OF s(1) m(1)] wp_nowS wp_modS dispatch_def
        dedupPeerRequest_def wp_readS wp_retS wp_ignoreS Let_def elim!: wp_mono) blast+
qed

section \<open>Output only grows\<close>

definition emitted :: "effect list \<Rightarrow> Session \<Rightarrow> bool" where
  "emitted o' t \<longleftrightarrow> (\<exists>xs. s_out t = o' @ xs)"

definition grows :: "(Session, 'e, 'a) go \<Rightarrow> bool" where
  "grows m \<longleftrightarrow> (\<forall>o' s. emitted o' s \<longrightarrow> wp m (\<lambda>r. emitted o') s)"

named_theorems grows_intros \<open>computations that only add to the output\<close>

lemma emitted_refl [simp]: "emitted (s_out s) s"
  by (simp add: emitted_def)

lemma wp_then_grows:
  assumes "wp m (\<lambda>r. emitted o') s" "\<And>x. grows (f x)"
  shows "wp (bindS m f) (\<lambda>r. emitted o') s"
  using assms unfolding wp_bindS grows_def by (fastforce elim!: wp_mono split: res.splits)

lemma grows_bindS [grows_intros]: "grows m \<Longrightarrow> (\<And>x. grows (f x)) \<Longrightarrow> grows (bindS m f)"
  unfolding grows_def by (intro allI impI wp_then_grows) (auto simp: grows_def)

lemma grows_retS [grows_intros]: "grows (retS x)"
  and grows_liftS [grows_intros]: "grows (liftS r)"
  and grows_failS [grows_intros]: "grows (failS e)"
  and grows_tickS [grows_intros]: "grows tickS"
  and grows_nowS [grows_intros]: "grows (nowS W)"
  and grows_sendIKE [grows_intros]: "grows (sendIKE W raw)"
  by (auto simp: grows_def wp_simps emitted_def)

lemma grows_modS [grows_intros]: "(\<And>s. s_out (f s) = s_out s) \<Longrightarrow> grows (modS f)"
  by (simp add: grows_def wp_simps emitted_def)

lemma grows_readS [grows_intros]: "(\<And>x. grows (k x)) \<Longrightarrow> grows (readS f k)"
  by (simp add: grows_def wp_simps)

lemma grows_derefS [grows_intros]: "(\<And>y. grows (k y)) \<Longrightarrow> grows (derefS x k)"
  by (cases x) (simp_all add: derefS_def grows_liftS)

lemma grows_if [grows_intros]: "grows m \<Longrightarrow> grows n \<Longrightarrow> grows (if c then m else n)"
  by simp

lemma grows_tryS [grows_intros]: "grows m \<Longrightarrow> grows (tryS m)"
  unfolding grows_def wp_tryS by (fastforce elim!: wp_mono split: res.splits)

lemma grows_case_sum [grows_intros]:
  "(\<And>e. grows (f e)) \<Longrightarrow> (\<And>y. grows (g y)) \<Longrightarrow> grows (case x of Inl e \<Rightarrow> f e | Inr y \<Rightarrow> g y)"
  by (cases x) simp_all

lemma grows_case_prod [grows_intros]: "(\<And>a b. grows (f a b)) \<Longrightarrow> grows (case p of (a, b) \<Rightarrow> f a b)"
  by (cases p) simp

lemma grows_encodeSK [grows_intros]: "grows (encodeSK W ex fl mid inner)"
  unfolding encodeSK_def encodeWith_def Let_def
  by (intro grows_intros) (simp add: putSA_def split: ctxRef.split)

lemma grows_jitteredDeadline [grows_intros]: "grows (jitteredDeadline W base l)"
  unfolding jitteredDeadline_def randFraction_def randBytes_def by (intro grows_intros)

lemma grows_sendChildDelete [grows_intros]: "grows (sendChildDelete W inSPI)"
  unfolding sendChildDelete_def by (intro grows_intros) simp

section \<open>The initiator completes\<close>

lemma wp_completeChildRekey:
  assumes "childRekeyResponse (s_cfg u) inner = Ok (pp, suite, nr, ke)" "be_Uint32 (pr_SPI pp) = (Ok out :: (sess_err, u32) res)"
    "pe_child p = Some c" "s_ikeSA u = Some sa" "childRekeyKeys W sa c pp suite nr ke = Ok keys" "s_dataPlane u"
  shows "wp (completeChildRekey W inner p) (\<lambda>r. emitted (s_out u @ [Install
       \<lparr>cu_NewInSPI = cr_newInSPI c, cu_NewOutSPI = out, cu_OldInSPI = cr_oldInSPI c, cu_Suite = su_id suite,
        cu_OutEncr = EncrIR keys, cu_OutInteg = IntegIR keys, cu_InEncr = EncrRI keys, cu_InInteg = IntegRI keys\<rparr>])) u"
  unfolding completeChildRekey_def
  apply (simp only: wp_readS wp_bindS [of "liftS _"] wp_liftS assms res.case prod.case wp_derefS option.case)
  apply (rule wp_then_grows)
   apply (simp add: InstallChildSA_call_def wp_simps assms(6) emitted_def)
  by (intro grows_intros) simp

lemma rekey_keys:
  assumes dhs: "peer_dh W' dh dhs"
    and agree: "\<And>d d' k. dh = Some d \<Longrightarrow> dhs = Some (d', k) \<Longrightarrow> Shared (w_curve W) d (dh_Public d') = Ok k"
    and c: "cr_dh c = dh" "cr_ni c = ni"
  shows "childRekeyKeys W sa c (buildProposalForSuite n suite spi (case dh_of dhs of Some d \<Rightarrow> [dh_Group d] | None \<Rightarrow> [])) suite nr
       (map_option (\<lambda>d. (dh_Group d, dh_Public d)) (dh_of dhs)) =
     wrapR ErrIKESA (deriveChildKeys (w_prims W) sa (secret_of dhs) ni nr (su_encrKeyLen suite) (su_integKeyLen suite))"
proof (cases dh)
  case None
  then have "dhs = None" using dhs by (simp add: peer_dh_def)
  then show ?thesis using None c by (simp add: childRekeyKeys_def dh_of_def secret_of_def DeriveChildKeys_def)
next
  case (Some d)
  then obtain d' k where d': "dhs = Some (d', k)" "generated W' (dh_Group d) d'"
    using dhs by (auto simp: peer_dh_def)
  then have "dh_Group d' = dh_Group d" by (auto simp: generated_def dest: NewDH_ok)
  then show ?thesis using agree [OF Some d'(1)] d' Some c
    by (simp add: childRekeyKeys_def dh_of_def secret_of_def DeriveChildKeysPFS_def)
qed

lemma mirrors_skSeq [simp]: "ike_mirrors b (sa\<lparr>skSeq := q\<rparr>) \<longleftrightarrow> ike_mirrors b sa"
  by (simp add: ike_mirrors_def inboundIntegKey_def inboundEncrKey_def)

lemma wp_tryS_grows: "wp m (\<lambda>r. emitted o') s \<Longrightarrow> wp (tryS m) (\<lambda>r. emitted o') s"
  unfolding wp_tryS by (auto elim!: wp_mono split: res.splits)

lemma wp_response:
  assumes t: "awaiting W s sa child re spi ni dh raw t" "s_dataPlane s"
    and raw': "carries (w_prims W) b raw' ExchangeCreateChildSA (responseFlags b) (s_messageID s)
       (rekeyResponse n suite spi' nr (dh_of dhs) ts)" "ike_mirrors b sa" "length spi' = 4" "length nr = 32"
    and suite: "suite \<in> set (enabledESPSuites (s_cfg s))"
    and dhs: "peer_dh W' dh dhs"
      "\<And>d d' k. dh = Some d \<Longrightarrow> dhs = Some (d', k) \<Longrightarrow> Shared (w_curve W) d (dh_Public d') = Ok k"
    and keys: "deriveChildKeys (w_prims W) sa (secret_of dhs) ni nr (su_encrKeyLen suite) (su_integKeyLen suite) = Ok keys"
  shows "wp (handleInbound W raw') (\<lambda>r. emitted (s_out t @ [Install
       \<lparr>cu_NewInSPI = Uint32 spi, cu_NewOutSPI = Uint32 spi', cu_OldInSPI = ch_InitiatorSPI child, cu_Suite = su_id suite,
        cu_OutEncr = EncrIR keys, cu_OutInteg = IntegIR keys, cu_InEncr = EncrRI keys, cu_InInteg = IntegRI keys\<rparr>])) t"
proof -
  define inner where "inner = rekeyResponse n suite spi' nr (dh_of dhs) ts"
  define c where "c = \<lparr>cr_newInSPI = Uint32 spi, cr_oldInSPI = ch_InitiatorSPI child, cr_ni = ni, cr_reestablish = re, cr_dh = dh\<rparr>"
  obtain q p where t': "s_ikeSA t = Some (sa\<lparr>skSeq := q\<rparr>)" "s_pending t = Some p" "s_cfg t = s_cfg s" "s_dataPlane t"
    and p: "pe_kind p = exChildRekey" "pe_msgID p = s_messageID s" "pe_child p = Some c"
  proof -
    obtain q x k nx where "t = s\<lparr>s_ikeSA := Some (sa\<lparr>skSeq := q\<rparr>), s_messageID := s_messageID s + 1,
        s_pending := Some \<lparr>pe_kind = exChildRekey, pe_msgID = s_messageID s, pe_raw = raw, pe_attempts = 1, pe_nextRetransmit = nx,
          pe_child = Some c, pe_ike = None, pe_fast = False\<rparr>,
        s_out := s_out s @ [Sent x], s_n := k\<rparr>"
      using t(1) unfolding awaiting_def c_def by blast
    then show thesis by (intro that [of q "the (s_pending t)"]) (simp_all add: t(2))
  qed
  obtain m where m: "decodeSKWith (w_prims W) (sa\<lparr>skSeq := q\<rparr>) raw' = (Ok (m, inner), True)"
    "Exchange m = ExchangeCreateChildSA" "MFlags m = responseFlags b" "MessageID m = s_messageID s"
    using raw'(1) raw'(2) mirrors_skSeq [of b q sa] unfolding carries_def inner_def by blast
  have resp: "childRekeyResponse (s_cfg s) inner =
     Ok (buildProposalForSuite n suite spi' (case dh_of dhs of Some d \<Rightarrow> [dh_Group d] | None \<Rightarrow> []), suite, nr,
         map_option (\<lambda>d. (dh_Group d, dh_Public d)) (dh_of dhs))"
    using response_payloads [OF suite raw'(3), of nr n "dh_of dhs" ts] raw'(4) unfolding inner_def by fastforce
  have spi': "be_Uint32 (pr_SPI (buildProposalForSuite n suite spi' gs)) = Ok (Uint32 spi')" for gs
    using raw'(3) by (simp add: buildProposalForSuite_def be_Uint32_def)
  have kk: "childRekeyKeys W (sa\<lparr>skSeq := q\<rparr>) c
       (buildProposalForSuite n suite spi' (case dh_of dhs of Some d \<Rightarrow> [dh_Group d] | None \<Rightarrow> [])) suite nr
       (map_option (\<lambda>d. (dh_Group d, dh_Public d)) (dh_of dhs)) = Ok keys"
    using rekey_keys [OF dhs, of c ni "sa\<lparr>skSeq := q\<rparr>" n suite spi' nr] keys by (simp add: c_def)
  let ?u = "t\<lparr>s_n := Suc (Suc (s_n t)), s_lastInbound := w_now W (Suc (s_n t)), s_pending := None\<rparr>"
  have comp: "wp (completeChildRekey W inner p) (\<lambda>r. emitted (s_out t @ [Install
       \<lparr>cu_NewInSPI = Uint32 spi, cu_NewOutSPI = Uint32 spi', cu_OldInSPI = ch_InitiatorSPI child, cu_Suite = su_id suite,
        cu_OutEncr = EncrIR keys, cu_OutInteg = IntegIR keys, cu_InEncr = EncrRI keys, cu_InInteg = IntegRI keys\<rparr>])) ?u"
    using wp_completeChildRekey [of ?u inner _ suite nr _ "Uint32 spi'" p c "sa\<lparr>skSeq := q\<rparr>" W keys, OF _ spi' p(3) _ kk] t' resp
    by (simp add: c_def)
  have cm: "wp (completeMatchingRekey W (s_messageID s) inner False) (\<lambda>r. emitted (s_out t @ [Install
       \<lparr>cu_NewInSPI = Uint32 spi, cu_NewOutSPI = Uint32 spi', cu_OldInSPI = ch_InitiatorSPI child, cu_Suite = su_id suite,
        cu_OutEncr = EncrIR keys, cu_OutInteg = IntegIR keys, cu_InEncr = EncrRI keys, cu_InInteg = IntegRI keys\<rparr>]))
      (t\<lparr>s_n := Suc (Suc (s_n t)), s_lastInbound := w_now W (Suc (s_n t))\<rparr>)"
    unfolding completeMatchingRekey_def
    using t' p
    by (auto simp: wp_readS wp_bindS [of "modS _"] wp_modS intro!: wp_then_grows wp_tryS_grows comp grows_intros)
  have d: "dispatch W m inner Cur = thenS (completeMatchingRekey W (s_messageID s) inner False) (retS False)"
    by (simp add: dispatch_def m Let_def)
  show ?thesis
    unfolding handleInbound_def
    by (simp add: wp_bindS [of "tryS _"] wp_tryS wp_decodeS_cur [OF t'(1) m(1)] wp_bindS [of "nowS _"] wp_nowS
        wp_bindS [of "modS _"] wp_modS d) (rule wp_then_grows [OF cm grows_retS])
qed

section \<open>Both ends together\<close>

definition mirrored_updates :: "ChildSAUpdate \<Rightarrow> ChildSAUpdate \<Rightarrow> bool" where
  "mirrored_updates u v \<longleftrightarrow>
     cu_Suite u = cu_Suite v \<and> cu_NewInSPI u = cu_NewOutSPI v \<and> cu_NewOutSPI u = cu_NewInSPI v \<and>
     cu_OutEncr u = cu_InEncr v \<and> cu_OutInteg u = cu_InInteg v \<and> cu_InEncr u = cu_OutEncr v \<and> cu_InInteg u = cu_OutInteg v"

text \<open>The association the data plane builds from an update.\<close>

definition update_SA :: "ChildSAUpdate \<Rightarrow> u32 \<Rightarrow> (esp_err, SA) res" where
  "update_SA u w =
     NewSA (cu_Suite u) (cu_NewOutSPI u) (cu_NewInSPI u) (cu_OutEncr u) (cu_OutInteg u) (cu_InEncr u) (cu_InInteg u) w"

text \<open>PFS works between the two: every pair of generated keys agrees on a secret.\<close>

definition pfs_works :: "world \<Rightarrow> world \<Rightarrow> u16 \<Rightarrow> bool" where
  "pfs_works W W' g \<longleftrightarrow> supportedDHGroup g \<and> keygen_ok W g \<and> keygen_ok W' g \<and>
     (\<forall>d d'. generated W g d \<longrightarrow> generated W' g d' \<longrightarrow>
        (\<exists>k. Shared (w_curve W) d (dh_Public d') = Ok k) \<and> (\<exists>k. Shared (w_curve W') d' (dh_Public d) = Ok k))"

lemma NewSA_keys_ok: "keys_ok sid oe og ie ig \<Longrightarrow> \<exists>sa. NewSA sid so si oe og ie ig n = Ok sa"
  by (auto simp: keys_ok_def espSuites_def NewSA_cbc_iff NewSA_gcm_iff NewSA_chacha_iff)

lemma mirrored_updates_SA:
  assumes "mirrored_updates u v" "update_ok u"
  obtains x y where "update_SA u w = Ok x" "update_SA v w' = Ok y" "mirrors x y"
proof -
  have "keys_ok (cu_Suite u) (cu_InEncr u) (cu_InInteg u) (cu_OutEncr u) (cu_OutInteg u)"
    using assms(2) by (auto simp: update_ok_def keys_ok_def)
  then obtain x y where xy: "update_SA u w = Ok x" "update_SA v w' = Ok y"
    using NewSA_keys_ok assms unfolding update_SA_def update_ok_def mirrored_updates_def by metis
  moreover have "mirrors x y"
    using NewSA_mirrors xy assms(1) unfolding update_SA_def mirrored_updates_def by metis
  ultimately show thesis by (rule that)
qed

lemma generated_group: "generated W g d \<Longrightarrow> dh_Group d = g"
  by (auto simp: generated_def dest: NewDH_ok)

lemma usable_of_pfs:
  assumes "s_childPFS A \<Longrightarrow> pfs_works W W' (childRekeyGroup A)" "own_dh W A dh"
  shows "usable W' dh"
  unfolding usable_def
proof (intro allI impI)
  fix d assume "dh = Some d"
  then have d: "s_childPFS A" "generated W (childRekeyGroup A) d" using assms(2) by (auto simp: own_dh_def split: if_splits)
  have "dh_Group d = childRekeyGroup A" using d(2) by (rule generated_group)
  then show "supportedDHGroup (dh_Group d) \<and> keygen_ok W' (dh_Group d) \<and>
      (\<forall>d'. generated W' (dh_Group d) d' \<longrightarrow> (\<exists>k. Shared (w_curve W') d' (dh_Public d) = Ok k))"
    using assms(1) d unfolding pfs_works_def by metis
qed

lemma secrets_agree:
  assumes "w_curve W = w_curve W'" "curve_ok (w_curve W)" "s_childPFS A \<Longrightarrow> pfs_works W W' (childRekeyGroup A)"
    "own_dh W A dh" "peer_dh W' dh dhs" "dh = Some d" "dhs = Some (d', k)"
  shows "Shared (w_curve W) d (dh_Public d') = Ok k"
proof -
  have d: "generated W (childRekeyGroup A) d" "s_childPFS A" using assms(4,6) by (auto simp: own_dh_def split: if_splits)
  then have "dh_Group d = childRekeyGroup A" by (simp add: generated_group)
  with assms(5-7) have d': "generated W' (childRekeyGroup A) d'" "Shared (w_curve W') d' (dh_Public d) = Ok k"
    by (auto simp: peer_dh_def)
  then obtain k' where "Shared (w_curve W) d (dh_Public d') = Ok k'" using assms(3) d by (auto simp: pfs_works_def)
  moreover have "k' = k"
    using dh_agree [OF assms(2)] d(1) d' calculation assms(1) unfolding generated_def by metis
  ultimately show ?thesis by simp
qed


lemma awaitingD:
  assumes "awaiting W s sa child re spi ni dh raw t"
  obtains p x where "s_pending t = Some p" "pe_raw p = raw" "s_out t = s_out s @ [Sent x]" "own_dh W s dh"
    "length spi = 4" "length ni = 32"
    "carries (w_prims W) sa raw ExchangeCreateChildSA (requestFlags sa) (s_messageID s)
       (rekeyRequest (s_cfg s) (ch_InitiatorSPI child) re spi ni dh)"
proof -
  obtain q x k nx p where "t = s\<lparr>s_ikeSA := Some (sa\<lparr>skSeq := q\<rparr>), s_messageID := s_messageID s + 1,
        s_pending := Some p, s_out := s_out s @ [Sent x], s_n := k\<rparr>" "pe_raw p = raw"
    using assms unfolding awaiting_def by (elim conjE exE) auto
  then show thesis using assms by (intro that [of p x]) (simp_all add: awaiting_def)
qed

text \<open>
  C4 (functional).  Two endpoints with mirrored IKE SAs that share a suite complete a Child SA
  rekey: the request one sends is answered by the other, the answer completes the exchange, and
  the Child SAs they hand to their data planes mirror each other - same suite, SPIs crossed,
  keys of each direction equal - so that ESP associations can be built on both ends and each
  decrypts what the other encrypts.  With or without PFS, for a rekey or a re-establishment.
\<close>

theorem child_rekey_agreement:
  assumes outside: "prims_ok (w_prims WA)" "w_prims WB = w_prims WA" "w_curve WA = w_curve WB" "curve_ok (w_curve WA)"
      "rand_ok WA" "rand_ok WB"
    and ends: "session_ok A" "session_ok B" "s_ikeSA A = Some a" "s_ikeSA B = Some b"
      "ike_mirrors a b" "ike_mirrors b a" "SKd a = SKd b"
    and A: "s_child A \<noteq> None" "length (enabledESPSuites (s_cfg A)) \<le> 60"
    and B: "s_child B \<noteq> None" "s_pending B = None" "\<not> (dd_set (s_peer B) \<and> s_messageID A \<le> dd_msgID (s_peer B))"
    and common: "set (enabledESPSuites (s_cfg A)) \<inter> set (enabledESPSuites (s_cfg B)) \<noteq> {}"
    and pfs: "s_childPFS A \<Longrightarrow> pfs_works WA WB (childRekeyGroup A)"
    and run: "initiateChildRekey WA reestablish A = (rA, A1)"
  shows "\<exists>p B1 raw A2 u v x y xs.
     s_pending A1 = Some p \<and>
     snd ((handleInbound WB (pe_raw p) :: (Session, sess_err, bool) go) B) = B1 \<and> dd_resp (s_peer B1) = Some raw \<and>
     snd ((handleInbound WA raw :: (Session, sess_err, bool) go) A1) = A2 \<and>
     s_out A2 = s_out A @ Sent x # Install u # xs \<and> s_out B1 = s_out B @ [Install v, Sent y] \<and>
     mirrored_updates u v \<and>
     (\<forall>w w'. \<exists>saA saB. update_SA u w = Ok saA \<and> update_SA v w' = Ok saB \<and> mirrors saA saB \<and> mirrors saB saA)"
proof -
  have ok: "ike_ok a" "ike_ok b" "s_dataPlane A" "s_dataPlane B" using ends(1-4) by (auto simp: session_ok_def ikes_ok_def)
  obtain ca cb where c: "s_child A = Some ca" "s_child B = Some cb" using A(1) B(1) by auto
  obtain s0 where s0: "s0 \<in> set (enabledESPSuites (s_cfg A))" "s0 \<in> set (enabledESPSuites (s_cfg B))" using common by blast
  obtain spi ni dh raw0 where aw: "awaiting WA A a ca reestablish spi ni dh raw0 A1"
    using wpD [OF wp_initiateChildRekey [OF outside(1,5) _ ends(3) ok(1) c(1) A(2), of reestablish] run] pfs
    unfolding pfs_works_def by blast
  obtain p x where p: "s_pending A1 = Some p" "pe_raw p = raw0" "s_out A1 = s_out A @ [Sent x]" "own_dh WA A dh"
    "length spi = 4" "length ni = 32"
    "carries (w_prims WA) a raw0 ExchangeCreateChildSA (requestFlags a) (s_messageID A)
       (rekeyRequest (s_cfg A) (ch_InitiatorSPI ca) reestablish spi ni dh)"
    by (rule awaitingD [OF aw])
  define B1 where "B1 = snd ((handleInbound WB raw0 :: (Session, sess_err, bool) go) B)"
  have "wp (handleInbound WB raw0 :: (Session, sess_err, bool) go) (\<lambda>r t. r \<noteq> Panic \<and> (\<exists>suite spi' nr dhs keys raw' x.
     suite \<in> set (enabledESPSuites (s_cfg A)) \<and> suite \<in> set espSuites \<and>
     answered WB B b (s_messageID A) spi ni dh suite spi' nr dhs keys raw' x t)) B"
    using outside p(7)
    by (intro wp_request [OF _ outside(6) usable_of_pfs [OF pfs p(4)] ends(4) ok(2) c(2) ok(4) B(2,3) _ ends(5) p(5,6) s0]) simp_all
  then obtain suite spi' nr dhs keys raw y where suite: "suite \<in> set (enabledESPSuites (s_cfg A))" "suite \<in> set espSuites"
    and ans: "answered WB B b (s_messageID A) spi ni dh suite spi' nr dhs keys raw y B1"
    unfolding wp_def B1_def by blast
  have keys: "deriveChildKeys (w_prims WA) a (secret_of dhs) ni nr (su_encrKeyLen suite) (su_integKeyLen suite) = Ok keys"
    using ans outside(2) ends(7) by (simp add: answered_def deriveChildKeys_def)
  obtain n ts where car: "carries (w_prims WA) b raw ExchangeCreateChildSA (responseFlags b) (s_messageID A)
      (rekeyResponse n suite spi' nr (dh_of dhs) ts)" "length spi' = 4" "length nr = 32" "peer_dh WB dh dhs"
    using ans outside(2) by (auto simp: answered_def)
  define u where "u = \<lparr>cu_NewInSPI = Uint32 spi, cu_NewOutSPI = Uint32 spi', cu_OldInSPI = ch_InitiatorSPI ca, cu_Suite = su_id suite,
        cu_OutEncr = EncrIR keys, cu_OutInteg = IntegIR keys, cu_InEncr = EncrRI keys, cu_InInteg = IntegRI keys\<rparr>"
  define v where "v = \<lparr>cu_NewInSPI = Uint32 spi', cu_NewOutSPI = Uint32 spi, cu_OldInSPI = ch_InitiatorSPI cb, cu_Suite = su_id suite,
        cu_OutEncr = EncrRI keys, cu_OutInteg = IntegRI keys, cu_InEncr = EncrIR keys, cu_InInteg = IntegIR keys\<rparr>"
  have "emitted (s_out A1 @ [Install u]) (snd ((handleInbound WA raw :: (Session, sess_err, bool) go) A1))"
    using wp_response [OF aw ok(3) car(1) ends(6) car(2,3) suite(1) car(4) secrets_agree [OF outside(3,4) pfs p(4) car(4)] keys]
    unfolding wp_def u_def .
  then obtain xs where "s_out (snd ((handleInbound WA raw :: (Session, sess_err, bool) go) A1)) = s_out A @ Sent x # Install u # xs"
    by (auto simp: emitted_def p(3))
  moreover have "s_out B1 = s_out B @ [Install v, Sent y]" "dd_resp (s_peer B1) = Some raw"
    using ans c(2) by (simp_all add: answered_def v_def)
  moreover have mu: "mirrored_updates u v" "mirrored_updates v u" by (simp_all add: mirrored_updates_def u_def v_def)
  moreover have up: "update_ok u" "update_ok v"
    by (rule deriveChildKeys_suite [OF outside(1) suite(2), of a "secret_of dhs" ni nr]; simp add: keys update_ok_def u_def v_def)+
  moreover have "\<exists>saA saB. update_SA u w = Ok saA \<and> update_SA v w' = Ok saB \<and> mirrors saA saB \<and> mirrors saB saA" for w w'
    by (rule mirrored_updates_SA [OF mu(1) up(1), of w w'], rule mirrored_updates_SA [OF mu(2) up(2), of w' w]) simp
  ultimately show ?thesis
    using p(1,2) B1_def by blast
qed


theorem child_rekey_agreement_witness:
  "\<exists>A B A1 rA p u v. s_childPFS A \<and> session_ok A \<and> session_ok B \<and> initiateChildRekey plain_world False A = (rA, A1) \<and>
     s_pending A1 = Some p \<and>
     Install v \<in> set (s_out (snd ((handleInbound plain_world (pe_raw p) :: (Session, sess_err, bool) go) B))) \<and>
     mirrored_updates u v"
proof -
  obtain a where a: "deriveFromSKEYSEED plain_prims 1 Initiator 1 2 [] [] [] = Ok a"
    using deriveFromSKEYSEED_Ok [OF plain_prims_ok] by blast
  obtain b where b: "deriveFromSKEYSEED plain_prims 1 Responder 1 2 [] [] [] = Ok b"
    using deriveFromSKEYSEED_Ok [OF plain_prims_ok] by blast
  note ab = deriveFromSKEYSEED_mirrors [OF plain_prims_ok a b]
  define ch where "ch = \<lparr>ch_InitiatorSPI = 1, ch_ResponderSPI = 2, ch_Suite = 1,
     ch_Keys = \<lparr>EncrIR = zeros 36, IntegIR = [], EncrRI = zeros 36, IntegRI = []\<rparr>\<rparr>"
  define S where "S sa = (New_session plain_cfg)\<lparr>s_ikeSA := Some sa, s_dataPlane := True, s_child := Some ch,
     s_childPFS := True, s_ikeDHGroup := 31\<rparr>" for sa
  have ok: "session_ok (S sa)" if "ike_ok sa" for sa
    using that by (auto simp: S_def session_ok_def ikes_ok_def New_session_def child_ok_def ch_def keys_ok_def espSuites_def)
  have W: "prims_ok (w_prims plain_world)" "curve_ok (w_curve plain_world)" "rand_ok plain_world"
    by (simp_all add: plain_world_def plain_prims_ok plain_curve_ok rand_ok_def)
  have pfs: "pfs_works plain_world plain_world 31"
    by (auto simp: pfs_works_def supportedDHGroup_def preferredDHGroups_def keygen_ok_def generated_def NewDH_def Shared_def
        plain_world_def plain_curve_def)
  obtain rA A1 where run: "initiateChildRekey plain_world False (S a) = (rA, A1)" by (metis surj_pair)
  have "length (enabledESPSuites plain_cfg) \<le> 60" "set (enabledESPSuites plain_cfg) \<noteq> {}"
    by (simp_all add: enabledESPSuites_def enabledSuites_def plain_cfg_def espSuites_def)
  then obtain p B1 v u y where "s_pending A1 = Some p"
    "snd ((handleInbound plain_world (pe_raw p) :: (Session, sess_err, bool) go) (S b)) = B1"
    "s_out B1 = s_out (S b) @ [Install v, Sent y]" "mirrored_updates u v"
    using child_rekey_agreement [OF W(1) refl refl W(2,3,3) ok [OF ab(1)] ok [OF ab(2)] _ _ ab(3,4,5) _ _ _ _ _ _ _ run] pfs
    by (auto simp: S_def New_session_def emptyDedup_def childRekeyGroup_def)
  then show ?thesis using run ok ab(1,2)
    by (intro exI [of _ "S a"] exI [of _ "S b"] exI [of _ A1] exI [of _ rA] exI [of _ p] exI [of _ u] exI [of _ v])
       (simp add: S_def)
qed

end
