(* ===== verification/Netstack.thy ===== *)
theory Netstack
  imports Go_State
begin

text \<open>
  The network stack of a client (\<open>netstack\<close>, \<open>DialContext\<close> and \<open>Net\<close> of \<open>ipsec.go\<close>), built on
  first use, against a \<open>Close\<close> that runs at the same time.  A stack is known by a number;
  \<open>tun2net.New\<close> returns any stack or fails.
\<close>

section \<open>The stack of a client\<close>

datatype netOnce = NetIdle | NetBuilt "nat option" | NetDone

datatype net_err = NetErrClosed | NetErrNew

record netclient =
  nc_once :: netOnce
  nc_net :: "nat option"
  nc_netErr :: "net_err option"
  nc_closed :: bool
  nc_down :: bool
  nc_built :: "nat list"
  nc_shut :: "nat list"

definition netclient_new :: netclient where
  "netclient_new =
     \<lparr>nc_once = NetIdle, nc_net = None, nc_netErr = None, nc_closed = False, nc_down = False, nc_built = [], nc_shut = []\<rparr>"

text \<open>The function of the \<open>sync.Once\<close>: building outside the lock, then publishing under it.\<close>

definition netstack_build :: "nat option \<Rightarrow> netclient \<Rightarrow> netclient" where
  "netstack_build n c = c\<lparr>nc_once := NetBuilt n, nc_built := nc_built c @ (case n of Some k \<Rightarrow> [k] | None \<Rightarrow> [])\<rparr>"

definition netstack_publish :: "nat option \<Rightarrow> netclient \<Rightarrow> netclient" where
  "netstack_publish n c =
     (if nc_closed c then
        c\<lparr>nc_once := NetDone, nc_netErr := Some NetErrClosed,
          nc_shut := nc_shut c @ (case n of Some k \<Rightarrow> [k] | None \<Rightarrow> [])\<rparr>
      else c\<lparr>nc_once := NetDone, nc_net := n, nc_netErr := (if n = None then Some NetErrNew else None)\<rparr>)"

text \<open>What \<open>netstack\<close> returns once the \<open>sync.Once\<close> is done.\<close>

definition netstack_result :: "netclient \<Rightarrow> (net_err, nat) res" where
  "netstack_result c =
     (if nc_closed c then Err NetErrClosed
      else (case (nc_netErr c, nc_net c) of
              (Some e, _) \<Rightarrow> Err e
            | (None, Some k) \<Rightarrow> Ok k
            | (None, None) \<Rightarrow> Panic))"

text \<open>\<open>Close\<close> marks the client closed first, and tears the stack down after the workers have gone.\<close>

definition close_mark :: "netclient \<Rightarrow> netclient" where
  "close_mark c = c\<lparr>nc_closed := True\<rparr>"

definition close_net :: "netclient \<Rightarrow> netclient" where
  "close_net c = c\<lparr>nc_down := True, nc_shut := nc_shut c @ (case nc_net c of Some k \<Rightarrow> [k] | None \<Rightarrow> [])\<rparr>"

inductive netstack_run :: "netclient \<Rightarrow> bool" where
  net_new: "netstack_run netclient_new"
| net_build: "netstack_run c \<Longrightarrow> nc_once c = NetIdle \<Longrightarrow> netstack_run (netstack_build n c)"
| net_publish: "netstack_run c \<Longrightarrow> nc_once c = NetBuilt n \<Longrightarrow> netstack_run (netstack_publish n c)"
| net_mark: "netstack_run c \<Longrightarrow> netstack_run (close_mark c)"
| net_down: "netstack_run c \<Longrightarrow> nc_closed c \<Longrightarrow> \<not> nc_down c \<Longrightarrow> netstack_run (close_net c)"

lemma netstack_invariant:
  assumes "netstack_run c"
  shows "(case nc_once c of
      NetIdle \<Rightarrow> nc_built c = [] \<and> nc_net c = None \<and> nc_shut c = []
    | NetBuilt n \<Rightarrow> nc_built c = (case n of Some k \<Rightarrow> [k] | None \<Rightarrow> []) \<and> nc_net c = None \<and> nc_shut c = []
    | NetDone \<Rightarrow>
        (if nc_net c = None then nc_shut c = nc_built c
         else nc_built c = [the (nc_net c)] \<and> nc_shut c = (if nc_down c then nc_built c else [])) \<and>
        (nc_netErr c = None \<longrightarrow> nc_net c \<noteq> None)) \<and>
    (nc_down c \<longrightarrow> nc_closed c)"
  using assms
proof induction
  case (net_publish c n)
  then show ?case by (cases n) (auto simp: netstack_publish_def)
next
  case (net_down c)
  then show ?case by (auto simp: close_net_def split: netOnce.splits option.splits if_splits)
qed (auto simp: netclient_new_def netstack_build_def close_mark_def split: netOnce.splits option.splits)

text \<open>
  C19 (safety).  Closing a client while its network stack is being built leaks nothing.  In every
  interleaving at most one stack is built; once the build and \<open>Close\<close> are both over, it has been closed
  exactly once; a caller gets a stack only if the client is not closed, and then one that is running.
\<close>

theorem netstack_not_leaked:
  assumes "netstack_run c" "nc_once c = NetDone"
  shows "length (nc_built c) \<le> 1 \<and> (nc_down c \<longrightarrow> nc_shut c = nc_built c) \<and> netstack_result c \<noteq> Panic \<and>
    (nc_closed c \<longrightarrow> netstack_result c = Err NetErrClosed) \<and>
    (\<forall>k. netstack_result c = Ok k \<longrightarrow> nc_built c = [k] \<and> k \<notin> set (nc_shut c))"
proof -
  note i = netstack_invariant [OF assms(1)]
  have "length (nc_built c) \<le> 1"
    using assms by induction
      (use netstack_invariant in \<open>fastforce simp: netclient_new_def netstack_build_def netstack_publish_def close_mark_def close_net_def split: option.splits\<close>)+
  then show ?thesis
    using i assms(2) by (auto simp: netstack_result_def split: if_splits option.splits)
qed

theorem netstack_not_leaked_witness:
  "netstack_run (close_net (netstack_publish (Some 7) (close_mark (netstack_build (Some 7) netclient_new)))) \<and>
   nc_shut (close_net (netstack_publish (Some 7) (close_mark (netstack_build (Some 7) netclient_new)))) = [7]"
proof -
  have run: "netstack_run (close_net (netstack_publish (Some 7) (close_mark (netstack_build (Some 7) netclient_new))))"
    by (intro netstack_run.intros)
      (simp_all add: netclient_new_def netstack_build_def close_mark_def netstack_publish_def)
  then show ?thesis
    using netstack_not_leaked [OF run]
    by (simp add: netclient_new_def netstack_build_def close_mark_def netstack_publish_def close_net_def)
qed

end
