(* ===== verification/Transport.thy ===== *)
theory Transport
  imports Net_Text
begin

text \<open>
  The datagram channels under the session (\<open>internal/transport\<close>): the UDP socket bound to one peer,
  with its deadlines and its port migration, and the pair of in-memory channels.  What the socket
  returns from its reads, and how an address prints, are parameters.
\<close>

section \<open>The UDP channel\<close>

record UDPAddr =
  ua_IP :: bytes
  ua_Port :: int
  ua_Zone :: string

datatype NetAddr = UDPNet UDPAddr | OtherNet string

datatype deadline = NoDeadline | DeadlineAt int | LongTimeAgo

datatype transport_err = ErrClosed | ErrCtx | ErrSocket | ErrResolve | ErrDialPacket

definition maxDatagram :: nat where [simp]: "maxDatagram = 65535"

record udpConn =
  u_remote :: UDPAddr
  u_closed :: bool
  u_readDeadline :: deadline
  u_writeDeadline :: deadline
  u_sent :: "(bytes \<times> UDPAddr) list"

definition IP_Equal :: "bytes \<Rightarrow> bytes \<Rightarrow> bool" where
  "IP_Equal ip x =
     (if length ip = length x then ip = x
      else if length ip = 4 \<and> length x = 16 then take 12 x = zeros 10 @ [0xFF, 0xFF] \<and> ip = drop 12 x
      else if length ip = 16 \<and> length x = 4 then take 12 ip = zeros 10 @ [0xFF, 0xFF] \<and> drop 12 ip = x
      else False)"

text \<open>A failed split leaves the host empty.\<close>

definition hostOf :: "(UDPAddr \<Rightarrow> string) \<Rightarrow> NetAddr \<Rightarrow> string" where
  "hostOf str a =
     (case SplitHostPort (case a of UDPNet u \<Rightarrow> str u | OtherNet s \<Rightarrow> s) of Inr (host, _) \<Rightarrow> host | Inl _ \<Rightarrow> [])"

definition sameHost :: "(UDPAddr \<Rightarrow> string) \<Rightarrow> NetAddr \<Rightarrow> NetAddr \<Rightarrow> bool" where
  "sameHost str a b =
     (case (a, b) of
        (UDPNet ua, UDPNet ub) \<Rightarrow> IP_Equal (ua_IP ua) (ua_IP ub)
      | _ \<Rightarrow> hostOf str a = hostOf str b)"

definition MigrateToPort :: "int \<Rightarrow> udpConn \<Rightarrow> udpConn" where
  "MigrateToPort port u =
     u\<lparr>u_remote := \<lparr>ua_IP = ua_IP (u_remote u), ua_Port = port, ua_Zone = ua_Zone (u_remote u)\<rparr>\<rparr>"

definition DialUDP :: "UDPAddr option \<Rightarrow> bool \<Rightarrow> (transport_err, udpConn) res" where
  "DialUDP resolved opened =
     (case resolved of
        None \<Rightarrow> Err ErrResolve
      | Some remote \<Rightarrow>
          if \<not> opened then Err ErrDialPacket
          else Ok \<lparr>u_remote = remote, u_closed = False, u_readDeadline = NoDeadline, u_writeDeadline = NoDeadline, u_sent = []\<rparr>)"

text \<open>
  A context is its deadline.  \<open>wrote\<close> is the outcome of \<open>WriteTo\<close>, and \<open>cancelled\<close> and \<open>closed\<close> are what
  the context and the channel have come to by then.
\<close>

definition set_deadline :: "int option \<Rightarrow> deadline" where
  "set_deadline ctx = (case ctx of Some dl \<Rightarrow> DeadlineAt dl | None \<Rightarrow> NoDeadline)"

definition io_err :: "bool \<Rightarrow> bool \<Rightarrow> transport_err" where
  "io_err cancelled closed = (if cancelled then ErrCtx else if closed then ErrClosed else ErrSocket)"

definition udp_Send_begin :: "int option \<Rightarrow> udpConn \<Rightarrow> udpConn" where
  "udp_Send_begin ctx u = u\<lparr>u_writeDeadline := set_deadline ctx\<rparr>"

definition udp_Send :: "int option \<Rightarrow> bytes \<Rightarrow> bool \<Rightarrow> bool \<Rightarrow> bool \<Rightarrow> udpConn \<Rightarrow> (transport_err, unit) res \<times> udpConn" where
  "udp_Send ctx p wrote cancelled closed u =
     (if u_closed u then (Err ErrClosed, u)
      else
        let u1 = udp_Send_begin ctx u in
        if wrote then (Ok (), u1\<lparr>u_sent := u_sent u1 @ [(p, u_remote u1)], u_writeDeadline := NoDeadline\<rparr>)
        else (Err (io_err cancelled closed), u1\<lparr>u_writeDeadline := NoDeadline\<rparr>))"

text \<open>
  What the socket's reads return: a datagram with its source, or an error.  The loop takes them one
  by one and skips those from another host; without a further one the call is still blocked (\<open>None\<close>).
\<close>

datatype read_result = Datagram bytes NetAddr | ReadFailed bool bool

fun udp_recv_loop :: "(UDPAddr \<Rightarrow> string) \<Rightarrow> UDPAddr \<Rightarrow> read_result list \<Rightarrow> ((transport_err, bytes) res \<times> read_result list) option" where
  "udp_recv_loop str remote [] = None"
| "udp_recv_loop str remote (ReadFailed cancelled closed # rest) = Some (Err (io_err cancelled closed), rest)"
| "udp_recv_loop str remote (Datagram p src # rest) =
     (if \<not> sameHost str src (UDPNet remote) then udp_recv_loop str remote rest else Some (Ok (take maxDatagram p), rest))"

definition udp_Recv_begin :: "int option \<Rightarrow> udpConn \<Rightarrow> udpConn" where
  "udp_Recv_begin ctx u = u\<lparr>u_readDeadline := set_deadline ctx\<rparr>"

definition udp_Recv :: "(UDPAddr \<Rightarrow> string) \<Rightarrow> int option \<Rightarrow> read_result list \<Rightarrow> udpConn \<Rightarrow>
     ((transport_err, bytes) res \<times> read_result list \<times> udpConn) option" where
  "udp_Recv str ctx reads u =
     (if u_closed u then Some (Err ErrClosed, reads, u)
      else
        let u1 = udp_Recv_begin ctx u in
        case udp_recv_loop str (u_remote u1) reads of
          None \<Rightarrow> None
        | Some (r, rest) \<Rightarrow> Some (r, rest, u1\<lparr>u_readDeadline := NoDeadline\<rparr>))"

definition udp_Close :: "udpConn \<Rightarrow> udpConn" where
  "udp_Close u = u\<lparr>u_closed := True\<rparr>"

text \<open>The function that the cancellation of a context runs.\<close>

definition afterFunc :: "udpConn \<Rightarrow> udpConn" where
  "afterFunc u = u\<lparr>u_readDeadline := LongTimeAgo\<rparr>"

definition expired :: "int \<Rightarrow> deadline \<Rightarrow> bool" where
  "expired now dl = (case dl of NoDeadline \<Rightarrow> False | DeadlineAt t \<Rightarrow> t \<le> now | LongTimeAgo \<Rightarrow> True)"

lemma recv_skips:
  assumes "\<forall>e \<in> set strays. \<exists>p src. e = Datagram p src \<and> \<not> sameHost str src (UDPNet remote)"
  shows "udp_recv_loop str remote (strays @ reads) = udp_recv_loop str remote reads"
  using assms by (induction strays) auto

text \<open>
  The deadlines.  Whatever an earlier call has left behind, a receive begins with the deadline of its
  own context.  But the function of an earlier, cancelled context that runs only now expires it all the
  same: stopping it does not wait for one that has already been started.
\<close>

lemma deadline_reset: "expired now (u_readDeadline (udp_Recv_begin ctx (afterFunc u))) \<longleftrightarrow> (\<exists>dl. ctx = Some dl \<and> dl \<le> now)"
  by (auto simp: expired_def udp_Recv_begin_def afterFunc_def set_deadline_def split: option.splits)

lemma deadline_late: "expired now (u_readDeadline (afterFunc (udp_Recv_begin ctx u)))"
  by (simp add: expired_def afterFunc_def)

section \<open>The in-memory pair\<close>

datatype memSide = memA | memB

fun peer :: "memSide \<Rightarrow> memSide" where
  "peer memA = memB"
| "peer memB = memA"

record memoryConn =
  m_q :: "bytes list"
  m_closed :: bool

type_synonym memoryPair = "memSide \<Rightarrow> memoryConn"

definition newMemoryConn :: memoryConn where
  "newMemoryConn = \<lparr>m_q = [], m_closed = False\<rparr>"

definition MemoryPair :: memoryPair where
  "MemoryPair = (\<lambda>_. newMemoryConn)"

text \<open>Go's \<open>select\<close> takes any one of the cases that are ready, and blocks if there is none.\<close>

definition select :: "nat \<Rightarrow> 'a option list \<Rightarrow> 'a option" where
  "select pick cases =
     (case filter (\<lambda>c. c \<noteq> None) cases of [] \<Rightarrow> None | ready \<Rightarrow> ready ! (pick mod length ready))"

definition ready_if :: "bool \<Rightarrow> 'a \<Rightarrow> 'a option" where
  "ready_if c x = (if c then Some x else None)"

definition mem_Send :: "memSide \<Rightarrow> bytes \<Rightarrow> bool \<Rightarrow> nat \<Rightarrow> memoryPair \<Rightarrow> ((transport_err, unit) res \<times> memoryPair) option" where
  "mem_Send m p cancelled pick st =
     (if m_closed (st m) \<or> m_closed (st (peer m)) then Some (Err ErrClosed, st)
      else select pick
        [ready_if (length (m_q (st (peer m))) < 256) (Ok (), st(peer m := (st (peer m))\<lparr>m_q := m_q (st (peer m)) @ [p]\<rparr>)),
         ready_if (m_closed (st (peer m))) (Err ErrClosed, st),
         ready_if (m_closed (st m)) (Err ErrClosed, st),
         ready_if cancelled (Err ErrCtx, st)])"

definition mem_Recv :: "memSide \<Rightarrow> bool \<Rightarrow> nat \<Rightarrow> memoryPair \<Rightarrow> ((transport_err, bytes) res \<times> memoryPair) option" where
  "mem_Recv m cancelled pick st =
     select pick
       [ready_if (m_q (st m) \<noteq> []) (Ok (hd (m_q (st m))), st(m := (st m)\<lparr>m_q := tl (m_q (st m))\<rparr>)),
        ready_if (m_closed (st m)) (Err ErrClosed, st),
        ready_if cancelled (Err ErrCtx, st)]"

definition mem_Close :: "memSide \<Rightarrow> memoryPair \<Rightarrow> memoryPair" where
  "mem_Close m st = st(m := (st m)\<lparr>m_closed := True\<rparr>)"

text \<open>A run of the pair: the states it reaches, with what each side has sent and received.\<close>

inductive mem_run :: "memoryPair \<Rightarrow> (memSide \<Rightarrow> bytes list) \<Rightarrow> (memSide \<Rightarrow> bytes list) \<Rightarrow> bool" where
  mem_init: "mem_run MemoryPair (\<lambda>_. []) (\<lambda>_. [])"
| mem_sent: "mem_run st sent got \<Longrightarrow> mem_Send m p c k st = Some (Ok (), st') \<Longrightarrow> mem_run st' (sent(m := sent m @ [p])) got"
| mem_unsent: "mem_run st sent got \<Longrightarrow> mem_Send m p c k st = Some (Err e, st') \<Longrightarrow> mem_run st' sent got"
| mem_received: "mem_run st sent got \<Longrightarrow> mem_Recv m c k st = Some (Ok p, st') \<Longrightarrow> mem_run st' sent (got(m := got m @ [p]))"
| mem_unreceived: "mem_run st sent got \<Longrightarrow> mem_Recv m c k st = Some (Err e, st') \<Longrightarrow> mem_run st' sent got"
| mem_closed: "mem_run st sent got \<Longrightarrow> mem_run (mem_Close m st) sent got"

lemma select_mem: "select pick cases = Some x \<Longrightarrow> Some x \<in> set cases"
proof -
  assume s: "select pick cases = Some x"
  define ready where "ready = filter (\<lambda>c. c \<noteq> None) cases"
  have sel: "select pick cases = (case ready of [] \<Rightarrow> None | _ \<Rightarrow> ready ! (pick mod length ready))"
    unfolding select_def ready_def by (auto split: list.splits)
  then have ne: "ready \<noteq> []" using s by auto
  then have "Some x = ready ! (pick mod length ready)" using s sel by (cases ready) auto
  then have "Some x \<in> set ready" using ne by simp
  then show ?thesis by (simp add: ready_def)
qed

lemma mem_Send_cases:
  assumes "mem_Send m p c k st = Some (r, st')"
  shows "(\<exists>e. r = Err e) \<and> st' = st \<or>
    r = Ok () \<and> length (m_q (st (peer m))) < 256 \<and> st' = st(peer m := (st (peer m))\<lparr>m_q := m_q (st (peer m)) @ [p]\<rparr>)"
  using assms unfolding mem_Send_def by (auto split: if_splits dest!: select_mem simp: ready_if_def)

lemma mem_Recv_cases:
  assumes "mem_Recv m c k st = Some (r, st')"
  shows "(\<exists>e. r = Err e) \<and> st' = st \<or>
    (\<exists>p q. m_q (st m) = p # q \<and> r = Ok p \<and> st' = st(m := (st m)\<lparr>m_q := q\<rparr>))"
  using assms unfolding mem_Recv_def by (auto split: if_splits dest!: select_mem simp: ready_if_def neq_Nil_conv)

text \<open>Every datagram one side has sent was received by the other, in order, or is still queued there.\<close>

lemma memory_fifo:
  assumes "mem_run st sent got"
  shows "sent m = got (peer m) @ m_q (st (peer m)) \<and> length (m_q (st (peer m))) \<le> 256"
  using assms
proof (induction arbitrary: m)
  case (mem_sent st sent got m' p c k st')
  then show ?case using mem_Send_cases [OF mem_sent.hyps(2)] mem_sent.IH [of m] by (cases m; cases m') auto
next
  case (mem_received st sent got m' c k p st')
  then show ?case using mem_Recv_cases [OF mem_received.hyps(2)] mem_received.IH [of m] by (cases m; cases m') auto
next
  case (mem_unsent st sent got m' p c k e st')
  then show ?case using mem_Send_cases [OF mem_unsent.hyps(2)] by auto
next
  case (mem_unreceived st sent got m' c k e st')
  then show ?case using mem_Recv_cases [OF mem_unreceived.hyps(2)] by auto
qed (auto simp: MemoryPair_def newMemoryConn_def mem_Close_def)

section \<open>The interface\<close>

text \<open>A sequence of sends that ran to its end, with the datagrams that were reported as sent.\<close>

fun sends :: "(bytes \<Rightarrow> 's \<Rightarrow> ((transport_err, unit) res \<times> 's) option) \<Rightarrow> bytes list \<Rightarrow> 's \<Rightarrow> (bytes list \<times> 's) option" where
  "sends send [] s = Some ([], s)"
| "sends send (p # ps) s =
     (case send p s of
        None \<Rightarrow> None
      | Some (r, s') \<Rightarrow>
          (case sends send ps s' of
             None \<Rightarrow> None
           | Some (reported, s'') \<Rightarrow> Some (if r = Ok () then p # reported else reported, s'')))"

text \<open>
  What the session relies on in the interface \<open>Conn\<close>: closing is for good, a closed channel refuses
  to send and changes nothing, and exactly the datagrams reported as sent go out.
\<close>

locale datagram_channel =
  fixes send :: "bytes \<Rightarrow> 's \<Rightarrow> ((transport_err, unit) res \<times> 's) option"
    and close :: "'s \<Rightarrow> 's" and closed :: "'s \<Rightarrow> bool" and out :: "'s \<Rightarrow> bytes list"
  assumes close_closed: "closed (close s)" and close_out: "out (close s) = out s"
    and closed_send: "closed s \<Longrightarrow> send p s = Some (Err ErrClosed, s)"
    and send_out: "send p s = Some (r, s') \<Longrightarrow> out s' = out s @ (if r = Ok () then [p] else [])"
begin

lemma sends_out: "sends send ps s = Some (reported, s') \<Longrightarrow> out s' = out s @ reported"
proof (induction ps arbitrary: s reported)
  case (Cons p ps)
  then obtain r s1 reported1 where "send p s = Some (r, s1)" "sends send ps s1 = Some (reported1, s')"
      "reported = (if r = Ok () then p # reported1 else reported1)"
    by (auto split: option.splits)
  then show ?case using Cons.IH [of s1 reported1] send_out [of p s r s1] by simp
qed simp

lemma closed_sends: "closed s \<Longrightarrow> sends send ps s = Some ([], s)"
  by (induction ps) (simp_all add: closed_send)

lemma nothing_after_close: "sends send ps s = Some (reported, s') \<Longrightarrow> sends send qs (close s') = Some ([], close s') \<and> out (close s') = out s @ reported"
  by (simp add: sends_out close_out closed_sends close_closed)

end

interpretation udp: datagram_channel "\<lambda>p u. Some (udp_Send ctx p wrote cancelled clos u)" udp_Close u_closed "\<lambda>u. map fst (u_sent u)"
  for ctx wrote cancelled clos
  by unfold_locales (auto simp: udp_Close_def udp_Send_def udp_Send_begin_def Let_def split: if_splits)

lemma peer_other [simp]: "peer m \<noteq> m"
  by (cases m) simp_all

interpretation memory: datagram_channel "\<lambda>p. mem_Send m p c k" "mem_Close m" "\<lambda>st. m_closed (st m)" "\<lambda>st. m_q (st (peer m))"
  for m c k
proof unfold_locales
  show "m_q (st' (peer m)) = m_q (st (peer m)) @ (if r = Ok () then [p] else [])" if "mem_Send m p c k st = Some (r, st')" for p st r st'
    using mem_Send_cases [OF that] by auto
qed (simp_all add: mem_Close_def mem_Send_def)

text \<open>
  A closed in-memory channel may still hand out a datagram: the \<open>select\<close> of its receive finds both the
  queue and the end ready, and takes either.
\<close>

lemma memory_recv_after_close:
  assumes "m_q (st m) = p # q"
  shows "\<exists>st'. mem_Recv m False 0 (mem_Close m st) = Some (Ok p, st')" "\<exists>st'. mem_Recv m False 1 (mem_Close m st) = Some (Err ErrClosed, st')"
  using assms by (simp_all add: mem_Recv_def mem_Close_def select_def ready_if_def)

text \<open>What a receive returns, and what it has skipped.\<close>

lemma udp_recv_loop_Ok:
  assumes "udp_recv_loop str remote reads = Some (Ok p, rest)"
  shows "\<exists>strays q src. reads = strays @ Datagram q src # rest \<and> p = take maxDatagram q \<and> sameHost str src (UDPNet remote) \<and>
      (\<forall>e \<in> set strays. \<exists>p src. e = Datagram p src \<and> \<not> sameHost str src (UDPNet remote))"
  using assms
proof (induction str remote reads rule: udp_recv_loop.induct)
  case (3 str remote q src tail)
  show ?case
  proof (cases "sameHost str src (UDPNet remote)")
    case True
    then show ?thesis using 3(2) by (intro exI [of _ "[] :: read_result list"] exI [of _ q] exI [of _ src]) auto
  next
    case False
    then obtain strays q' src' where "tail = strays @ Datagram q' src' # rest" "p = take maxDatagram q'"
      "sameHost str src' (UDPNet remote)" "\<forall>e \<in> set strays. \<exists>p src. e = Datagram p src \<and> \<not> sameHost str src (UDPNet remote)"
      using 3 by auto
    then show ?thesis using False by (intro exI [of _ "Datagram q src # strays"] exI [of _ q'] exI [of _ src']) auto
  qed
qed simp_all

text \<open>
  C20 (safety).  A channel talks to one peer.  Every datagram it sends goes to the peer's host, before
  and after a migration of the port; a receive hands out the first datagram that comes from that host,
  from whichever port, and no datagram from another; after \<open>Close\<close> every receive and every send fails.
\<close>

theorem transport_single_peer:
  assumes "udp_Recv str ctx reads (MigrateToPort port u) = Some (Ok p, rest, u')"
  shows "\<not> u_closed u \<and> u' = (MigrateToPort port u)\<lparr>u_readDeadline := NoDeadline\<rparr> \<and>
    (\<exists>strays q src. reads = strays @ Datagram q src # rest \<and> p = take maxDatagram q \<and> sameHost str src (UDPNet (u_remote u')) \<and>
      (\<forall>e \<in> set strays. \<exists>p src. e = Datagram p src \<and> \<not> sameHost str src (UDPNet (u_remote u')))) \<and>
    udp_Send ctx p True cancelled clos u' =
      (Ok (), u'\<lparr>u_sent := u_sent u @ [(p, (u_remote u)\<lparr>ua_Port := port\<rparr>)], u_writeDeadline := NoDeadline\<rparr>) \<and>
    udp_Recv str ctx reads (udp_Close u') = Some (Err ErrClosed, reads, udp_Close u') \<and>
    udp_Send ctx p True cancelled clos (udp_Close u') = (Err ErrClosed, udp_Close u') \<and>
    sends (\<lambda>p u. Some (udp_Send ctx p wrote cancelled clos u)) qs (udp_Close u') = Some ([], udp_Close u')"
proof -
  have up: "\<not> u_closed u" using assms by (auto simp: udp_Recv_def MigrateToPort_def)
  then have r: "udp_recv_loop str (u_remote (MigrateToPort port u)) reads = Some (Ok p, rest)"
      "u' = (MigrateToPort port u)\<lparr>u_readDeadline := NoDeadline\<rparr>"
    using assms by (auto simp: udp_Recv_def udp_Recv_begin_def MigrateToPort_def Let_def split: option.splits)
  have shut: "sends (\<lambda>p u. Some (udp_Send ctx p wrote cancelled clos u)) qs (udp_Close u') = Some ([], udp_Close u')"
    by (rule udp.closed_sends [OF udp.close_closed])
  have "u_remote u' = u_remote (MigrateToPort port u)" by (simp add: r(2))
  then show ?thesis
    using up r udp_recv_loop_Ok [OF r(1)] shut
    by (simp add: udp_Send_def udp_Send_begin_def Let_def udp_Recv_def udp_Close_def MigrateToPort_def)
qed

definition example_udp :: udpConn where
  "example_udp =
     \<lparr>u_remote = \<lparr>ua_IP = [192, 0, 2, 1], ua_Port = 500, ua_Zone = []\<rparr>, u_closed = False, u_readDeadline = LongTimeAgo,
      u_writeDeadline = NoDeadline, u_sent = []\<rparr>"

theorem transport_single_peer_witness:
  "\<exists>u'. udp_Recv (\<lambda>_. []) None [Datagram [9] (UDPNet \<lparr>ua_IP = [192, 0, 2, 9], ua_Port = 4500, ua_Zone = []\<rparr>),
       Datagram [1] (UDPNet \<lparr>ua_IP = zeros 10 @ [255, 255, 192, 0, 2, 1], ua_Port = 500, ua_Zone = []\<rparr>)] (MigrateToPort 4500 example_udp) =
       Some (Ok [1], [], u') \<and>
     fst (udp_Send None [1] True False False u') = Ok () \<and>
     map (ua_Port \<circ> snd) (u_sent (snd (udp_Send None [1] True False False u'))) = [4500]"
proof -
  have run: "udp_Recv (\<lambda>_. []) None [Datagram [9] (UDPNet \<lparr>ua_IP = [192, 0, 2, 9], ua_Port = 4500, ua_Zone = []\<rparr>),
       Datagram [1] (UDPNet \<lparr>ua_IP = zeros 10 @ [255, 255, 192, 0, 2, 1], ua_Port = 500, ua_Zone = []\<rparr>)] (MigrateToPort 4500 example_udp) =
       Some (Ok [1], [], (MigrateToPort 4500 example_udp)\<lparr>u_readDeadline := NoDeadline\<rparr>)"
    by (simp add: udp_Recv_def udp_Recv_begin_def MigrateToPort_def example_udp_def sameHost_def IP_Equal_def)
  show ?thesis
    using run transport_single_peer [OF run, of False False] by (simp add: example_udp_def)
qed

end
