(* ===== verification/Socks.thy ===== *)
theory Socks
  imports Net_Text
begin

text \<open>
  The SOCKS5 server of the proxy command (\<open>cmd/ipsec2socks/socks5.go\<close>): the negotiation, the
  request and the connection through the tunnel, up to the start of the relay.

  A client connection is the octets it will still deliver before it ends or its deadline passes,
  the writes made to it, and which writes succeed.  The dialer, the resolver and the printing and
  parsing of IP addresses are parameters.
\<close>

section \<open>Negotiation\<close>

definition socksVersion :: byte where [simp]: "socksVersion = 0x05"
definition authVersion :: byte where [simp]: "authVersion = 0x01"
definition methodNoAuth :: byte where [simp]: "methodNoAuth = 0x00"
definition methodUserPass :: byte where [simp]: "methodUserPass = 0x02"
definition methodNoneOK :: byte where [simp]: "methodNoneOK = 0xFF"
definition cmdConnect :: byte where [simp]: "cmdConnect = 0x01"
definition atypIPv4 :: byte where [simp]: "atypIPv4 = 0x01"
definition atypDomain :: byte where [simp]: "atypDomain = 0x03"
definition atypIPv6 :: byte where [simp]: "atypIPv6 = 0x04"
definition repSuccess :: byte where [simp]: "repSuccess = 0x00"
definition repHostUnreach :: byte where [simp]: "repHostUnreach = 0x04"
definition repConnRefused :: byte where [simp]: "repConnRefused = 0x05"
definition repCommandNotSupport :: byte where [simp]: "repCommandNotSupport = 0x07"
definition repAddrNotSupport :: byte where [simp]: "repAddrNotSupport = 0x08"

text \<open>
  An error of the dialer is known by whether it is a context deadline and whether it is a
  \<open>net.Error\<close> that timed out.
\<close>

record dial_error =
  de_Deadline :: bool
  de_Timeout :: bool

record network =
  n_dial :: "string \<Rightarrow> dial_error option"
  n_lookup :: "string \<Rightarrow> string \<Rightarrow> Addr list option"
  n_IPString :: "bytes \<Rightarrow> string"
  n_AddrString :: "Addr \<Rightarrow> string"
  n_ParseIP :: "string \<Rightarrow> bytes option"

record socksServer =
  authUser :: bytes
  authPass :: bytes
  authOn :: bool
  maxConns :: int
  idle :: duration

record sconn =
  k_in :: bytes
  k_out :: "bytes list"
  k_wok :: "nat \<Rightarrow> bool"
  k_dials :: "string list"

datatype socks_err =
    ErrShortRead | ErrWriteFailed | ErrSocksVersion byte | ErrNoMethod | ErrAuthVersion | ErrBadCredentials
  | ErrRequestVersion | ErrCommand byte | ErrAddrType byte | ErrLookup | ErrNoAddresses | ErrUnroutable string

definition ReadFullC :: "nat \<Rightarrow> (sconn, socks_err, bytes) go" where
  "ReadFullC n = (\<lambda>s.
     if n \<le> length (k_in s) then (Ok (take n (k_in s)), s\<lparr>k_in := drop n (k_in s)\<rparr>)
     else (Err ErrShortRead, s\<lparr>k_in := []\<rparr>))"

definition WriteC :: "bytes \<Rightarrow> (sconn, socks_err, unit) go" where
  "WriteC b = (\<lambda>s.
     (if k_wok s (length (k_out s)) then Ok () else Err ErrWriteFailed, s\<lparr>k_out := k_out s @ [b]\<rparr>))"

text \<open>The two comparisons run in constant time and both always run; their result is equality.\<close>

definition checkUserPass :: "socksServer \<Rightarrow> (sconn, socks_err, unit) go" where
  "checkUserPass srv =
     bindS (ReadFullC 2) (\<lambda>hdr.
     case hdr of
       [v, ulen] \<Rightarrow>
         guardS (v \<noteq> authVersion) ErrAuthVersion
         (bindS (ReadFullC (unat ulen)) (\<lambda>user.
          bindS (ReadFullC 1) (\<lambda>plenBuf.
          case plenBuf of
            [plen] \<Rightarrow>
              bindS (ReadFullC (unat plen)) (\<lambda>pass.
              if user = authUser srv \<and> pass = authPass srv then WriteC [authVersion, 0x00]
              else thenS (ignoreS (WriteC [authVersion, 0x01])) (failS ErrBadCredentials))
          | _ \<Rightarrow> liftS Panic)))
     | _ \<Rightarrow> liftS Panic)"

definition negotiate :: "socksServer \<Rightarrow> (sconn, socks_err, unit) go" where
  "negotiate srv =
     bindS (ReadFullC 2) (\<lambda>hdr.
     case hdr of
       [v, n] \<Rightarrow>
         guardS (v \<noteq> socksVersion) (ErrSocksVersion v)
         (bindS (ReadFullC (unat n)) (\<lambda>methods.
          let want = (if authOn srv then methodUserPass else methodNoAuth) in
          if want \<notin> set methods then thenS (ignoreS (WriteC [socksVersion, methodNoneOK])) (failS ErrNoMethod)
          else
            thenS (WriteC [socksVersion, want])
            (if want = methodUserPass then checkUserPass srv else retS ())))
     | _ \<Rightarrow> liftS Panic)"

section \<open>The request\<close>

definition writeReply :: "byte \<Rightarrow> (sconn, socks_err, unit) go" where
  "writeReply code = WriteC [socksVersion, code, 0x00, atypIPv4, 0, 0, 0, 0, 0, 0]"

definition dialReplyCode :: "dial_error \<Rightarrow> byte" where
  "dialReplyCode e =
     (if de_Deadline e then repHostUnreach else if de_Timeout e then repHostUnreach else repConnRefused)"

text \<open>The methods of \<open>net.IP\<close> on its octets.\<close>

definition To4 :: "bytes \<Rightarrow> bytes option" where
  "To4 ip =
     (if length ip = 4 then Some ip
      else if length ip = 16 \<and> take 12 ip = zeros 10 @ [0xFF, 0xFF] then Some (drop 12 ip)
      else None)"

definition IsUnspecified :: "bytes \<Rightarrow> bool" where
  "IsUnspecified ip \<longleftrightarrow> To4 ip = Some [0, 0, 0, 0] \<or> ip = zeros 16"

definition IsLinkLocalUnicast :: "bytes \<Rightarrow> bool" where
  "IsLinkLocalUnicast ip \<longleftrightarrow>
     (case To4 ip of
        Some ip4 \<Rightarrow> ip4 ! 0 = 169 \<and> ip4 ! 1 = 254
      | None \<Rightarrow> length ip = 16 \<and> ip ! 0 = 0xFE \<and> and (ip ! 1) 0xC0 = 0x80)"

definition IsMulticast :: "bytes \<Rightarrow> bool" where
  "IsMulticast ip \<longleftrightarrow>
     (case To4 ip of
        Some ip4 \<Rightarrow> and (ip4 ! 0) 0xF0 = 0xE0
      | None \<Rightarrow> length ip = 16 \<and> ip ! 0 = 0xFF)"

definition isUnroutableTarget :: "network \<Rightarrow> string \<Rightarrow> bool" where
  "isUnroutableTarget N host =
     (case n_ParseIP N host of
        None \<Rightarrow> False
      | Some ip \<Rightarrow> IsUnspecified ip \<or> IsLinkLocalUnicast ip \<or> IsMulticast ip)"

definition addr_Unmap :: "Addr \<Rightarrow> Addr" where
  "addr_Unmap a = (case a of Addr4 b \<Rightarrow> Addr4 b | Addr16 b \<Rightarrow> Unmap b)"

definition resolveHost :: "network \<Rightarrow> string \<Rightarrow> (socks_err, string) res" where
  "resolveHost N name =
     (let first = (\<lambda>ips. case ips of [] \<Rightarrow> Err ErrNoAddresses | a # _ \<Rightarrow> Ok (n_AddrString N (addr_Unmap a))) in
      case n_lookup N ''ip4'' name of
        Some (a # as) \<Rightarrow> first (a # as)
      | _ \<Rightarrow> (case n_lookup N ''ip'' name of None \<Rightarrow> Err ErrLookup | Some ips \<Rightarrow> first ips))"

text \<open>\<open>readAddress\<close> is the switch on the address type: the host or the domain.\<close>

definition readAddress :: "network \<Rightarrow> byte \<Rightarrow> (sconn, socks_err, string + string) go" where
  "readAddress N atyp =
     (if atyp = atypIPv4 then bindS (ReadFullC 4) (\<lambda>b. retS (Inl (n_IPString N b)))
      else if atyp = atypIPv6 then bindS (ReadFullC 16) (\<lambda>b. retS (Inl (n_IPString N b)))
      else if atyp = atypDomain then
        bindS (ReadFullC 1) (\<lambda>lb.
        case lb of
          [len] \<Rightarrow> bindS (ReadFullC (unat len)) (\<lambda>name. retS (Inr (map (\<lambda>b. char_of (unat b)) name)))
        | _ \<Rightarrow> liftS Panic)
      else thenS (ignoreS (writeReply repAddrNotSupport)) (failS (ErrAddrType atyp)))"

definition readRequest :: "network \<Rightarrow> (sconn, socks_err, string) go" where
  "readRequest N =
     bindS (ReadFullC 4) (\<lambda>hdr.
     case hdr of
       [v, cmd, _, atyp] \<Rightarrow>
         guardS (v \<noteq> socksVersion) ErrRequestVersion
         (if cmd \<noteq> cmdConnect then thenS (ignoreS (writeReply repCommandNotSupport)) (failS (ErrCommand cmd))
          else
            bindS (readAddress N atyp) (\<lambda>addr.
            bindS (ReadFullC 2) (\<lambda>portBuf.
            let port = Itoa (unat (Uint16 portBuf)) in
            bindS (case addr of
                     Inl host \<Rightarrow> retS host
                   | Inr domain \<Rightarrow>
                       (case resolveHost N domain of
                          Ok host \<Rightarrow> retS host
                        | Err e \<Rightarrow> thenS (ignoreS (writeReply repHostUnreach)) (failS e)
                        | Panic \<Rightarrow> liftS Panic)) (\<lambda>host.
            let target = JoinHostPort host port in
            if isUnroutableTarget N host then thenS (ignoreS (writeReply repHostUnreach)) (failS (ErrUnroutable target))
            else retS target))))
     | _ \<Rightarrow> liftS Panic)"

text \<open>
  \<open>handle\<close> up to the relay: the target of the connection it relays, or \<open>None\<close> if it closes the
  client before.
\<close>

definition handle :: "network \<Rightarrow> socksServer \<Rightarrow> (sconn, socks_err, string option) go" where
  "handle N srv =
     bindS (tryS (negotiate srv)) (\<lambda>r.
     case r of
       Inl (_ :: socks_err) \<Rightarrow> retS None
     | Inr _ \<Rightarrow>
         bindS (tryS (readRequest N)) (\<lambda>r.
         case r of
           Inl (_ :: socks_err) \<Rightarrow> retS None
         | Inr target \<Rightarrow>
             thenS (modS (\<lambda>s. s\<lparr>k_dials := k_dials s @ [target]\<rparr>))
             (case n_dial N target of
                Some e \<Rightarrow> thenS (ignoreS (writeReply (dialReplyCode e))) (retS None)
              | None \<Rightarrow>
                  bindS (tryS (writeReply repSuccess)) (\<lambda>r.
                  case r of
                    Inl (_ :: socks_err) \<Rightarrow> retS None
                  | Inr _ \<Rightarrow> retS (Some target)))))"

section \<open>Reading and writing\<close>

lemma ReadFullC_run: "k_in s = b @ rest \<Longrightarrow> length b = n \<Longrightarrow> ReadFullC n s = (Ok b, s\<lparr>k_in := rest\<rparr>)"
  by (simp add: ReadFullC_def)

lemma ReadFullC_Ok: "ReadFullC n s = (Ok b, s') \<Longrightarrow> length b = n \<and> k_in s = b @ k_in s' \<and> k_dials s' = k_dials s"
  by (auto simp: ReadFullC_def split: if_splits)

lemma WriteC_Ok: "WriteC b s = (Ok (), s') \<Longrightarrow> k_in s' = k_in s \<and> k_dials s' = k_dials s"
  by (auto simp: WriteC_def split: if_splits)

lemma bindS_OkE:
  assumes "bindS m f s = (Ok x, s')"
  obtains y s1 where "m s = (Ok y, s1)" "f y s1 = (Ok x, s')"
  using assms by (auto simp: bindS_def split: prod.splits res.splits)

lemma guardS_OkE:
  assumes "guardS c e m s = (Ok x, s')"
  obtains "\<not> c" "m s = (Ok x, s')"
  using assms by (auto simp: guardS_def failS_def split: if_splits)

lemma readE:
  assumes "bindS (ReadFullC n) f s = (Ok r, s')"
  obtains b s1 where "length b = n" "k_in s = b @ k_in s1" "k_dials s1 = k_dials s" "f b s1 = (Ok r, s')"
  using assms ReadFullC_Ok by (elim bindS_OkE) blast

lemma read1E:
  assumes "bindS (ReadFullC 1) (\<lambda>b. case b of [x] \<Rightarrow> f x | _ \<Rightarrow> liftS Panic) s = (Ok r, s')"
  obtains x s1 where "k_in s = x # k_in s1" "k_dials s1 = k_dials s" "f x s1 = (Ok r, s')"
  using assms by (elim readE) (auto simp: length_Suc_conv)

lemma read2E:
  assumes "bindS (ReadFullC 2) (\<lambda>b. case b of [x, y] \<Rightarrow> f x y | _ \<Rightarrow> liftS Panic) s = (Ok r, s')"
  obtains x y s1 where "k_in s = x # y # k_in s1" "k_dials s1 = k_dials s" "f x y s1 = (Ok r, s')"
  using assms by (elim readE) (auto simp: length_Suc_conv numeral_2_eq_2)

text \<open>What a client that authenticated has sent.\<close>

lemma checkUserPass_Ok:
  assumes "checkUserPass srv s = (Ok (), s')"
  shows "\<exists>ulen plen. k_in s = [authVersion, ulen] @ authUser srv @ [plen] @ authPass srv @ k_in s' \<and>
     unat ulen = length (authUser srv) \<and> unat plen = length (authPass srv) \<and> k_dials s' = k_dials s"
proof -
  have verdict: "user = authUser srv \<and> pass = authPass srv \<and> WriteC [authVersion, 0x00] s4 = (Ok (), s')"
    if "(if user = authUser srv \<and> pass = authPass srv then WriteC [authVersion, 0x00]
       else thenS (ignoreS (WriteC [authVersion, 0x01])) (failS ErrBadCredentials)) s4 = (Ok (), s')" for user pass s4
    using that by (auto simp: failS_def elim!: bindS_OkE split: if_splits)
  show ?thesis
    using assms unfolding checkUserPass_def
    by - (erule read2E, erule guardS_OkE, erule readE, erule read1E, erule readE, drule verdict, elim conjE, drule WriteC_Ok, auto)
qed

text \<open>A stream that begins with a greeting offering the user/password method and with these credentials.\<close>

definition presented :: "bytes \<Rightarrow> bytes \<Rightarrow> bytes \<Rightarrow> bool" where
  "presented user pass b \<longleftrightarrow>
     (\<exists>n methods ulen plen rest.
        b = [socksVersion, n] @ methods @ [authVersion, ulen] @ user @ [plen] @ pass @ rest \<and>
        length methods = unat n \<and> methodUserPass \<in> set methods \<and> unat ulen = length user \<and> unat plen = length pass)"

lemma negotiate_Ok:
  assumes "negotiate srv s = (Ok (), s')" "authOn srv"
  shows "presented (authUser srv) (authPass srv) (k_in s)"
proof -
  have verdict: "methodUserPass \<in> set methods \<and> (\<exists>s2. WriteC [socksVersion, methodUserPass] s1 = (Ok (), s2) \<and> checkUserPass srv s2 = (Ok (), s'))"
    if "(let want = (if authOn srv then methodUserPass else methodNoAuth) in
          if want \<notin> set methods then thenS (ignoreS (WriteC [socksVersion, methodNoneOK])) (failS ErrNoMethod)
          else thenS (WriteC [socksVersion, want]) (if want = methodUserPass then checkUserPass srv else retS ())) s1 = (Ok (), s')"
    for methods s1
    using that assms(2) by (auto simp: failS_def elim!: bindS_OkE split: if_splits)
  have "\<exists>n methods s1. k_in s = [socksVersion, n] @ methods @ k_in s1 \<and> length methods = unat n \<and> k_dials s1 = k_dials s \<and>
      methodUserPass \<in> set methods \<and> (\<exists>s2. WriteC [socksVersion, methodUserPass] s1 = (Ok (), s2) \<and> checkUserPass srv s2 = (Ok (), s'))"
    using assms(1) unfolding negotiate_def
    by - (erule read2E, erule guardS_OkE, erule readE, drule verdict, simp only: append.simps not_not, blast)
  then obtain n methods s1 s2 where r: "k_in s = [socksVersion, n] @ methods @ k_in s1" "length methods = unat n" "k_dials s1 = k_dials s"
      "methodUserPass \<in> set methods"
    and w: "WriteC [socksVersion, methodUserPass] s1 = (Ok (), s2)" "checkUserPass srv s2 = (Ok (), s')"
    by blast
  obtain ulen plen where "k_in s2 = [authVersion, ulen] @ authUser srv @ [plen] @ authPass srv @ k_in s'"
     "unat ulen = length (authUser srv)" "unat plen = length (authPass srv)" "k_dials s' = k_dials s2"
    using checkUserPass_Ok [OF w(2)] by blast
  then show ?thesis
    unfolding presented_def using r WriteC_Ok [OF w(1)]
    by (intro exI [of _ n] exI [of _ methods] exI [of _ ulen] exI [of _ plen] exI [of _ "k_in s'"]) simp
qed

section \<open>What the handshake leaves alone\<close>

text \<open>Until the request is read nothing is dialled, and no octet a client sends makes the server panic.\<close>

abbreviation undialled :: "string list \<Rightarrow> sconn \<Rightarrow> bool" where
  "undialled d s \<equiv> k_dials s = d"

lemma wp_ReadFullC [wp_simps]:
  "wp (ReadFullC n) Q s \<longleftrightarrow>
     (if n \<le> length (k_in s) then Q (Ok (take n (k_in s))) (s\<lparr>k_in := drop n (k_in s)\<rparr>)
      else Q (Err ErrShortRead) (s\<lparr>k_in := []\<rparr>))"
  by (simp add: wp_def ReadFullC_def)

lemma wp_WriteC [wp_simps]:
  "wp (WriteC b) Q s \<longleftrightarrow>
     Q (if k_wok s (length (k_out s)) then Ok () else Err ErrWriteFailed) (s\<lparr>k_out := k_out s @ [b]\<rparr>)"
  by (simp add: wp_def WriteC_def)

lemma undialled_read:
  "(\<And>b. length b = n \<Longrightarrow> holds (undialled d) (f b) (undialled d)) \<Longrightarrow> keeps (undialled d) (bindS (ReadFullC n) f)"
  by (auto simp: holds_def wp_bindS wp_ReadFullC)

lemma undialled_read1:
  assumes "\<And>x. keeps (undialled d) (f x)"
  shows "keeps (undialled d) (bindS (ReadFullC 1) (\<lambda>b. case b of [x] \<Rightarrow> f x | _ \<Rightarrow> liftS Panic))"
  by (rule undialled_read) (auto simp: length_Suc_conv assms)

lemma undialled_read2:
  assumes "\<And>x y. keeps (undialled d) (f x y)"
  shows "keeps (undialled d) (bindS (ReadFullC 2) (\<lambda>b. case b of [x, y] \<Rightarrow> f x y | _ \<Rightarrow> liftS Panic))"
  by (rule undialled_read) (auto simp: length_Suc_conv numeral_2_eq_2 assms)

lemma undialled_read4:
  assumes "\<And>x y z w. keeps (undialled d) (f x y z w)"
  shows "keeps (undialled d) (bindS (ReadFullC 4) (\<lambda>b. case b of [x, y, z, w] \<Rightarrow> f x y z w | _ \<Rightarrow> liftS Panic))"
proof (rule undialled_read)
  fix b :: bytes assume "length b = 4"
  then obtain x y z w where "b = [x, y, z, w]" by (auto simp: length_Suc_conv numeral_eq_Suc)
  then show "keeps (undialled d) (case b of [x, y, z, w] \<Rightarrow> f x y z w | _ \<Rightarrow> liftS Panic)" by (simp add: assms)
qed

lemma undialled_WriteC: "keeps (undialled d) (WriteC b)"
  by (simp add: holds_def wp_WriteC)

lemmas undialled_intros = undialled_read1 undialled_read2 undialled_read4 undialled_WriteC holds_intros

lemma undialled_checkUserPass: "keeps (undialled d) (checkUserPass srv)"
  unfolding checkUserPass_def by (intro undialled_intros undialled_read)

lemma undialled_negotiate: "keeps (undialled d) (negotiate srv)"
  unfolding negotiate_def by (intro undialled_intros undialled_read undialled_checkUserPass)

lemma undialled_readAddress: "keeps (undialled d) (readAddress N atyp)"
  unfolding readAddress_def writeReply_def by (intro undialled_intros undialled_read; assumption?)

lemma resolveHost_panic_free: "resolveHost N name \<noteq> Panic"
  by (auto simp: resolveHost_def Let_def split: option.splits list.splits)

lemma undialled_resolve:
  "keeps (undialled d) (case resolveHost N name of Ok host \<Rightarrow> retS host
     | Err e \<Rightarrow> thenS (ignoreS (writeReply repHostUnreach)) (failS e) | Panic \<Rightarrow> liftS Panic)"
  using resolveHost_panic_free [of N name]
  by (cases "resolveHost N name") (auto simp: writeReply_def intro!: undialled_intros)

lemma undialled_readRequest: "keeps (undialled d) (readRequest N)"
  unfolding readRequest_def
  by (intro undialled_intros undialled_read undialled_readAddress undialled_resolve; (unfold writeReply_def; intro undialled_intros)?)

section \<open>A client that follows the protocol\<close>

text \<open>
  The octets of a greeting (with the credentials, if the server wants them) and of a
  \<open>CONNECT\<close> request.
\<close>

datatype socks_target = T4 bytes | T6 bytes | TName bytes

fun target_ok :: "socks_target \<Rightarrow> bool" where
  "target_ok (T4 ip) = (length ip = 4)"
| "target_ok (T6 ip) = (length ip = 16)"
| "target_ok (TName name) = (length name < 256)"

definition sized :: "bytes \<Rightarrow> bytes" where
  "sized b = word_of_nat (length b) # b"

definition greeting :: "socksServer \<Rightarrow> bytes \<Rightarrow> bytes" where
  "greeting srv methods =
     socksVersion # sized methods @
     (if authOn srv then authVersion # sized (authUser srv) @ sized (authPass srv) else [])"

definition connect_request :: "socks_target \<Rightarrow> u16 \<Rightarrow> bytes" where
  "connect_request t port =
     [socksVersion, cmdConnect, 0] @
     (case t of T4 ip \<Rightarrow> atypIPv4 # ip | T6 ip \<Rightarrow> atypIPv6 # ip | TName name \<Rightarrow> atypDomain # sized name) @
     PutUint16 port"

text \<open>What becomes of a request: the reply code, the addresses dialled, and the connection relayed.\<close>

definition requested_host :: "network \<Rightarrow> socks_target \<Rightarrow> (socks_err, string) res" where
  "requested_host N t =
     (case t of
        T4 ip \<Rightarrow> Ok (n_IPString N ip)
      | T6 ip \<Rightarrow> Ok (n_IPString N ip)
      | TName name \<Rightarrow> resolveHost N (map (\<lambda>b. char_of (unat b)) name))"

definition outcome :: "network \<Rightarrow> socks_target \<Rightarrow> u16 \<Rightarrow> byte \<times> string list \<times> string option" where
  "outcome N t port =
     (case requested_host N t of
        Ok host \<Rightarrow>
          (let target = JoinHostPort host (Itoa (unat port)) in
           if isUnroutableTarget N host then (repHostUnreach, [], None)
           else (case n_dial N target of
                   Some e \<Rightarrow> (dialReplyCode e, [target], None)
                 | None \<Rightarrow> (repSuccess, [target], Some target)))
      | _ \<Rightarrow> (repHostUnreach, [], None))"

definition reply :: "byte \<Rightarrow> bytes" where
  "reply code = [socksVersion, code, 0x00, atypIPv4, 0, 0, 0, 0, 0, 0]"

lemma unat_count [simp]: "length (b :: bytes) < 256 \<Longrightarrow> unat (word_of_nat (length b) :: byte) = length b"
  by (simp add: unat_of_nat take_bit_eq_mod)

lemma read_run:
  "k_in s = b @ rest \<Longrightarrow> length b = n \<Longrightarrow> bindS (ReadFullC n) f s = f b (s\<lparr>k_in := rest\<rparr>)"
  by (simp add: bindS_def ReadFullC_run)

lemma WriteC_run:
  "k_wok s (length (k_out s)) \<Longrightarrow> thenS (WriteC b) m s = m (s\<lparr>k_out := k_out s @ [b]\<rparr>)"
  by (simp add: bindS_def WriteC_def)

lemma ignored_write_run: "thenS (ignoreS (WriteC b)) m s = m (s\<lparr>k_out := k_out s @ [b]\<rparr>)"
  by (auto simp: bindS_def ignoreS_def tryS_def retS_def WriteC_def)

lemma checkUserPass_run:
  assumes "length (authUser srv) < 256" "length (authPass srv) < 256" "k_wok s (length (k_out s))"
    "k_in s = authVersion # sized (authUser srv) @ sized (authPass srv) @ rest"
  shows "checkUserPass srv s = (Ok (), s\<lparr>k_in := rest, k_out := k_out s @ [[authVersion, 0]]\<rparr>)"
  unfolding checkUserPass_def using assms
  by (simp add: bindS_def ReadFullC_def WriteC_def guardS_def sized_def)

lemma negotiate_run:
  assumes "length methods < 256" "length (authUser srv) < 256" "length (authPass srv) < 256" "\<forall>n. k_wok s n"
    "(if authOn srv then methodUserPass else methodNoAuth) \<in> set methods"
    "k_in s = greeting srv methods @ rest"
  shows "negotiate srv s = (Ok (), s\<lparr>k_in := rest, k_out := k_out s @
     (if authOn srv then [[socksVersion, methodUserPass], [authVersion, 0]] else [[socksVersion, methodNoAuth]])\<rparr>)"
  unfolding negotiate_def using assms
  by (auto simp: bindS_def ReadFullC_def WriteC_def guardS_def sized_def greeting_def checkUserPass_run retS_def)

lemma readAddress_run:
  "length ip = 4 \<Longrightarrow> k_in s = ip @ rest \<Longrightarrow> readAddress N atypIPv4 s = (Ok (Inl (n_IPString N ip)), s\<lparr>k_in := rest\<rparr>)"
  "length ip = 16 \<Longrightarrow> k_in s = ip @ rest \<Longrightarrow> readAddress N atypIPv6 s = (Ok (Inl (n_IPString N ip)), s\<lparr>k_in := rest\<rparr>)"
  "length name < 256 \<Longrightarrow> k_in s = sized name @ rest \<Longrightarrow>
     readAddress N atypDomain s = (Ok (Inr (map (\<lambda>b. char_of (unat b)) name)), s\<lparr>k_in := rest\<rparr>)"
  by (simp_all add: readAddress_def bindS_def ReadFullC_def retS_def sized_def)

lemma unreachable_run:
  "thenS (ignoreS (writeReply code)) (failS e) s = (Err e, s\<lparr>k_out := k_out s @ [reply code]\<rparr>)"
  by (simp add: writeReply_def reply_def ignored_write_run failS_def)

lemma port_run:
  "k_in s = PutUint16 port @ rest \<Longrightarrow> bindS (ReadFullC 2) f s = f (PutUint16 port) (s\<lparr>k_in := rest\<rparr>)"
  by (rule read_run) simp_all

lemma host_run:
  "bindS (case a of
            Inl host \<Rightarrow> retS host
          | Inr domain \<Rightarrow>
              (case resolveHost N domain of
                 Ok host \<Rightarrow> retS host
               | Err e \<Rightarrow> thenS (ignoreS (writeReply repHostUnreach)) (failS e)
               | Panic \<Rightarrow> liftS Panic)) f s =
     (case (case a of Inl host \<Rightarrow> Ok host | Inr domain \<Rightarrow> resolveHost N domain) of
        Ok host \<Rightarrow> f host s
      | Err e \<Rightarrow> (Err e, s\<lparr>k_out := k_out s @ [reply repHostUnreach]\<rparr>)
      | Panic \<Rightarrow> (Panic, s))"
  by (auto simp: unreachable_run bindS_def [of "case_sum _ _ _"] bindS_def [of "case_res _ _ _ _"] retS_def liftS_def split: sum.split res.split)

lemma request_address:
  assumes "target_ok t" "k_in s = connect_request t port @ rest"
  obtains atyp body where "k_in s = [socksVersion, cmdConnect, 0, atyp] @ body @ PutUint16 port @ rest"
    "\<And>s'. k_in s' = body @ PutUint16 port @ rest \<Longrightarrow> \<exists>a. readAddress N atyp s' = (Ok a, s'\<lparr>k_in := PutUint16 port @ rest\<rparr>) \<and>
       (case a of Inl host \<Rightarrow> Ok host | Inr domain \<Rightarrow> resolveHost N domain) = requested_host N t"
proof (cases t)
  case (T4 ip)
  then show ?thesis
    using assms that [of atypIPv4 ip] readAddress_run(1) [of ip] by (simp add: connect_request_def requested_host_def del: atypIPv4_def)
next
  case (T6 ip)
  then show ?thesis
    using assms that [of atypIPv6 ip] readAddress_run(2) [of ip] by (simp add: connect_request_def requested_host_def del: atypIPv6_def)
next
  case (TName name)
  then show ?thesis
    using assms that [of atypDomain "sized name"] readAddress_run(3) [of name]
    by (simp add: connect_request_def requested_host_def del: atypDomain_def)
qed

lemma readRequest_run:
  assumes "target_ok t" "k_in s = connect_request t port @ rest"
  shows "readRequest N s =
     (case requested_host N t of
        Ok host \<Rightarrow>
          (let target = JoinHostPort host (Itoa (unat port)) in
           if isUnroutableTarget N host
           then (Err (ErrUnroutable target), s\<lparr>k_in := rest, k_out := k_out s @ [reply repHostUnreach]\<rparr>)
           else (Ok target, s\<lparr>k_in := rest\<rparr>))
      | Err e \<Rightarrow> (Err e, s\<lparr>k_in := rest, k_out := k_out s @ [reply repHostUnreach]\<rparr>)
      | Panic \<Rightarrow> (Panic, s\<lparr>k_in := rest\<rparr>))"
proof -
  obtain atyp body where b: "k_in s = [socksVersion, cmdConnect, 0, atyp] @ body @ PutUint16 port @ rest"
    and run: "\<And>s'. k_in s' = body @ PutUint16 port @ rest \<Longrightarrow> \<exists>a. readAddress N atyp s' = (Ok a, s'\<lparr>k_in := PutUint16 port @ rest\<rparr>) \<and>
       (case a of Inl host \<Rightarrow> Ok host | Inr domain \<Rightarrow> resolveHost N domain) = requested_host N t"
    using request_address [OF assms] by metis
  define s1 where "s1 = s\<lparr>k_in := body @ PutUint16 port @ rest\<rparr>"
  obtain a where a: "readAddress N atyp s1 = (Ok a, s1\<lparr>k_in := PutUint16 port @ rest\<rparr>)"
      "(case a of Inl host \<Rightarrow> Ok host | Inr domain \<Rightarrow> resolveHost N domain) = requested_host N t"
    using run [of s1] unfolding s1_def by auto
  have addr: "bindS (readAddress N atyp) f s1 = f a (s1\<lparr>k_in := PutUint16 port @ rest\<rparr>)" for f :: "string + string \<Rightarrow> (sconn, socks_err, string) go"
    by (simp add: bindS_def a(1))
  have head: "bindS (ReadFullC 4) f s = f [socksVersion, cmdConnect, 0, atyp] s1" for f :: "bytes \<Rightarrow> (sconn, socks_err, string) go"
    unfolding s1_def using b by (rule read_run) simp
  have s1: "s1\<lparr>k_in := x\<rparr> = s\<lparr>k_in := x\<rparr>" for x by (simp add: s1_def)
  show ?thesis
    unfolding readRequest_def head
    by (simp add: guardS_def addr port_run host_run a(2) unreachable_run retS_def Let_def s1 split: res.split
        del: repHostUnreach_def)
qed

section \<open>The handler\<close>

text \<open>A connection through the tunnel comes after a completed negotiation, and there is at most one.\<close>

lemma handle_dials:
  assumes "handle N srv s = (r, s')"
  shows "\<exists>relay. r = Ok relay \<and>
     (relay = None \<and> k_dials s' = k_dials s \<or>
      (\<exists>target s1. negotiate srv s = (Ok (), s1) \<and> (relay = None \<or> relay = Some target \<and> n_dial N target = None) \<and>
        k_dials s' = k_dials s @ [target]))"
proof -
  obtain r1 s1 where n: "negotiate srv s = (r1, s1)" by (metis surj_pair)
  have d1: "r1 \<noteq> Panic \<and> k_dials s1 = k_dials s" using holdsD [OF undialled_negotiate refl n] .
  obtain r2 s2 where q: "readRequest N s1 = (r2, s2)" by (metis surj_pair)
  have d2: "r2 \<noteq> Panic \<and> k_dials s2 = k_dials s" using holdsD [OF undialled_readRequest refl q] d1 by simp
  show ?thesis
    using assms d1 d2 unfolding handle_def
    by (cases r1; cases r2) (auto simp: bindS_def tryS_def n q retS_def modS_def ignoreS_def writeReply_def WriteC_def
        split: option.splits if_splits)
qed

lemma handle_serves:
  assumes "length methods < 256" "length (authUser srv) < 256" "length (authPass srv) < 256" "\<forall>n. k_wok s n"
    "(if authOn srv then methodUserPass else methodNoAuth) \<in> set methods" "target_ok t"
    "k_in s = greeting srv methods @ connect_request t port @ rest" "outcome N t port = (code, dials, relay)"
  shows "handle N srv s =
     (Ok relay, s\<lparr>k_in := rest,
        k_out := k_out s @ (if authOn srv then [[socksVersion, methodUserPass], [authVersion, 0]] else [[socksVersion, methodNoAuth]]) @ [reply code],
        k_dials := k_dials s @ dials\<rparr>)"
proof -
  define s1 where "s1 = s\<lparr>k_in := connect_request t port @ rest, k_out := k_out s @
     (if authOn srv then [[socksVersion, methodUserPass], [authVersion, 0]] else [[socksVersion, methodNoAuth]])\<rparr>"
  have n: "negotiate srv s = (Ok (), s1)" unfolding s1_def by (rule negotiate_run [OF assms(1-5,7)])
  have "k_in s1 = connect_request t port @ rest" by (simp add: s1_def)
  note q = readRequest_run [OF assms(6) this, of N]
  have w: "k_wok s1 n" for n using assms(4) by (simp add: s1_def)
  have np: "requested_host N t \<noteq> Panic"
    using resolveHost_panic_free by (cases t) (auto simp: requested_host_def)
  have "handle N srv s = (Ok relay, s1\<lparr>k_in := rest, k_out := k_out s1 @ [reply code], k_dials := k_dials s1 @ dials\<rparr>)"
    unfolding handle_def using assms(8) w np
    by (cases "requested_host N t")
      (auto simp: bindS_def tryS_def n q retS_def modS_def ignoreS_def writeReply_def WriteC_def outcome_def Let_def reply_def
        split: option.splits if_splits)
  then show ?thesis by (simp add: s1_def)
qed

text \<open>
  C14 (safety).  A server that has credentials opens no connection through the tunnel for a client
  that did not present them: whatever a client sends, if the handler dialled at all then the client's
  stream began with a greeting that offers the user/password method, followed by exactly the
  configured user name and password, each as one counted field.  The handler dials at most once,
  relays only a connection that was established, and never panics.
\<close>

theorem socks_auth:
  assumes "handle N srv s = (r, s')"
  shows "(\<exists>relay. r = Ok relay \<and> (\<forall>target. relay = Some target \<longrightarrow> k_dials s' = k_dials s @ [target] \<and> n_dial N target = None)) \<and>
    (k_dials s' = k_dials s \<or> (\<exists>target. k_dials s' = k_dials s @ [target])) \<and>
    (authOn srv \<and> k_dials s' \<noteq> k_dials s \<longrightarrow> presented (authUser srv) (authPass srv) (k_in s))"
  using handle_dials [OF assms] negotiate_Ok by fastforce

definition example_network :: network where
  "example_network =
     \<lparr>n_dial = (\<lambda>t. if t = ''a:80'' then None else Some \<lparr>de_Deadline = False, de_Timeout = True\<rparr>),
      n_lookup = (\<lambda>fam name. if fam = ''ip4'' \<and> name = ''x'' then Some [Addr4 [10, 0, 0, 1]] else None),
      n_IPString = (\<lambda>ip. ''a''), n_AddrString = (\<lambda>a. ''a''), n_ParseIP = (\<lambda>h. Some [10, 0, 0, 1])\<rparr>"

definition example_server :: socksServer where
  "example_server = \<lparr>authUser = [117], authPass = [112, 58], authOn = True, maxConns = 2, idle = 600 * Second\<rparr>"

definition example_conn :: sconn where
  "example_conn =
     \<lparr>k_in = greeting example_server [0, 2] @ connect_request (TName [120]) 80 @ [71, 69, 84],
      k_out = [], k_wok = (\<lambda>_. True), k_dials = []\<rparr>"

lemma example_outcome: "outcome example_network (TName [120]) 80 = (repSuccess, [''a:80''], Some ''a:80'')"
  by code_simp

lemma example_handled: "handle example_network example_server example_conn =
     (Ok (Some ''a:80''), example_conn\<lparr>k_in := [71, 69, 84],
        k_out := [[socksVersion, methodUserPass], [authVersion, 0], reply repSuccess], k_dials := [''a:80'']\<rparr>)"
  using handle_serves [of "[0, 2]" example_server example_conn "TName [120]" 80 "[71, 69, 84]" example_network repSuccess "[''a:80'']" "Some ''a:80''"]
  by (simp add: example_outcome example_server_def example_conn_def)

theorem socks_auth_witness:
  "\<exists>r s'. handle example_network example_server example_conn = (r, s') \<and> k_dials s' = [''a:80''] \<and>
     presented [117] [112, 58] (k_in example_conn)"
proof -
  obtain r s' where run: "handle example_network example_server example_conn = (r, s')" by (metis surj_pair)
  have d: "k_dials s' = [''a:80'']" using example_handled run by simp
  then have "authOn example_server \<and> k_dials s' \<noteq> k_dials example_conn" by (simp add: example_server_def example_conn_def)
  from mp [OF conjunct2 [OF conjunct2 [OF socks_auth [OF run]]] this] show ?thesis using run d by (auto simp: example_server_def)
qed

text \<open>
  C15 (functional).  A client that follows the protocol gets what it asks for.  After its greeting,
  and its credentials if the server wants them, an IPv4, IPv6 or domain name target is dialled at the
  host the request names or the name resolves to, with the requested port.  The client is told of
  success, of a refused connection or of an unreachable host; targets that can never be routed are
  not dialled.  Everything the client sent after the request is left for the relay.
\<close>

theorem socks_serves:
  assumes "length methods < 256" "length (authUser srv) < 256" "length (authPass srv) < 256" "\<forall>n. k_wok s n"
    "(if authOn srv then methodUserPass else methodNoAuth) \<in> set methods" "target_ok t"
    "k_in s = greeting srv methods @ connect_request t port @ rest" "outcome N t port = (code, dials, relay)"
  shows "handle N srv s =
     (Ok relay, s\<lparr>k_in := rest,
        k_out := k_out s @ (if authOn srv then [[socksVersion, methodUserPass], [authVersion, 0]] else [[socksVersion, methodNoAuth]]) @ [reply code],
        k_dials := k_dials s @ dials\<rparr>)"
  by (rule handle_serves [OF assms])

theorem socks_serves_witness:
  "handle example_network example_server example_conn =
     (Ok (Some ''a:80''), example_conn\<lparr>k_in := [71, 69, 84],
        k_out := [[socksVersion, methodUserPass], [authVersion, 0], reply repSuccess], k_dials := [''a:80'']\<rparr>)"
  using socks_serves [of "[0, 2]" example_server example_conn "TName [120]" 80 "[71, 69, 84]" example_network repSuccess "[''a:80'']" "Some ''a:80''"]
  by (simp add: example_outcome example_server_def example_conn_def)

end
