(* ===== verification/Socks_Relay.thy ===== *)
theory Socks_Relay
  imports Socks "HOL-Library.Sublist"
begin

text \<open>
  What the SOCKS5 server (\<open>cmd/ipsec2socks/socks5.go\<close>) does around a request: the relay between the
  client and the far end with its idle watchdog, and the accept loop with its limit on clients.
\<close>

section \<open>The relay\<close>

text \<open>
  \<open>splice\<close> runs a pump for each direction and, if an idle timeout is set, a watchdog.  \<open>Up\<close> is the
  pump from the client to the far end, \<open>Down\<close> the one back.  The state has the shared time of the
  last activity, the octets each pump has written, whether it has half-closed its destination and
  whether it has returned; whether both connections are closed; and whether the watchdog still runs.
\<close>

datatype way = Up | Down

record splice =
  lastNanos :: int
  sp_wrote :: "way \<Rightarrow> bytes"
  sp_fin :: "way \<Rightarrow> bool"
  sp_returned :: "way \<Rightarrow> bool"
  sp_closed :: bool
  sp_watch :: bool

definition stop :: "splice \<Rightarrow> splice" where
  "stop s = s\<lparr>sp_closed := True\<rparr>"

definition pump_returns :: "way \<Rightarrow> splice \<Rightarrow> splice" where
  "pump_returns d s = s\<lparr>sp_returned := (sp_returned s)(d := True)\<rparr>"

text \<open>
  One iteration of a pump: what \<open>Read\<close> returned, with its error; what came of the \<open>Write\<close>, either
  success or the octets it got out before it failed; and the time.  \<open>cw\<close> says whether a destination can
  close its write side alone.
\<close>

definition pump :: "socksServer \<Rightarrow> (way \<Rightarrow> bool) \<Rightarrow> way \<Rightarrow> bytes \<Rightarrow> bool \<Rightarrow> nat option \<Rightarrow> int \<Rightarrow> splice \<Rightarrow> splice" where
  "pump srv cw d data err werr now s =
     (let s1 = (if data = [] then s
                else s\<lparr>lastNanos := now,
                       sp_wrote := (sp_wrote s)(d := sp_wrote s d @ (case werr of None \<Rightarrow> data | Some n \<Rightarrow> take n data))\<rparr>) in
      if data \<noteq> [] \<and> werr \<noteq> None then pump_returns d (stop s1)
      else if err then
        pump_returns d (if cw d \<and> idle srv > 0 then s1\<lparr>sp_fin := (sp_fin s1)(d := True)\<rparr> else stop s1)
      else s1)"

definition watchdog :: "socksServer \<Rightarrow> int \<Rightarrow> splice \<Rightarrow> splice" where
  "watchdog srv now s = (if now - lastNanos s \<ge> idle srv then (stop s)\<lparr>sp_watch := False\<rparr> else s)"

definition splice_start :: "socksServer \<Rightarrow> int \<Rightarrow> splice" where
  "splice_start srv now =
     \<lparr>lastNanos = now, sp_wrote = (\<lambda>_. []), sp_fin = (\<lambda>_. False), sp_returned = (\<lambda>_. False), sp_closed = False,
      sp_watch = (idle srv > 0)\<rparr>"

text \<open>\<open>wg.Wait\<close> is over when both pumps have returned; then the watchdog ends and both connections close.\<close>

definition splice_returns :: "splice \<Rightarrow> splice" where
  "splice_returns s = (stop s)\<lparr>sp_watch := False\<rparr>"

datatype splice_event = Pumped way bytes bool "nat option" int | Ticked int | Returned

inductive splice_run :: "socksServer \<Rightarrow> (way \<Rightarrow> bool) \<Rightarrow> int \<Rightarrow> splice_event list \<Rightarrow> splice \<Rightarrow> bool"
  for srv cw t0 where
  started: "splice_run srv cw t0 [] (splice_start srv t0)"
| pumped: "splice_run srv cw t0 es s \<Longrightarrow> \<not> sp_returned s d \<Longrightarrow> length data \<le> 32 * 1024 \<Longrightarrow>
     splice_run srv cw t0 (es @ [Pumped d data err werr now]) (pump srv cw d data err werr now s)"
| ticked: "splice_run srv cw t0 es s \<Longrightarrow> sp_watch s \<Longrightarrow>
     splice_run srv cw t0 (es @ [Ticked now]) (watchdog srv now s)"
| returned: "splice_run srv cw t0 es s \<Longrightarrow> sp_returned s Up \<Longrightarrow> sp_returned s Down \<Longrightarrow>
     splice_run srv cw t0 (es @ [Returned]) (splice_returns s)"

text \<open>What a pump has read in a run, and the times at which either pump read something.\<close>

fun relayed1 :: "way \<Rightarrow> splice_event \<Rightarrow> bytes" where
  "relayed1 d (Pumped d' data _ _ _) = (if d = d' then data else [])"
| "relayed1 _ _ = []"

definition relayed :: "way \<Rightarrow> splice_event list \<Rightarrow> bytes" where
  "relayed d es = concat (map (relayed1 d) es)"

fun activity1 :: "splice_event \<Rightarrow> int list" where
  "activity1 (Pumped _ data _ _ now) = (if data = [] then [] else [now])"
| "activity1 _ = []"

definition activity :: "splice_event list \<Rightarrow> int list" where
  "activity es = concat (map activity1 es)"

lemma relayed_snoc [simp]: "relayed d (es @ [e]) = relayed d es @ relayed1 d e" "relayed d [] = []"
  by (simp_all add: relayed_def)

lemma activity_snoc [simp]: "activity (es @ [e]) = activity es @ activity1 e" "activity [] = []"
  by (simp_all add: activity_def)

lemmas splice_defs = pump_def pump_returns_def stop_def watchdog_def splice_start_def splice_returns_def


lemma splice_watched:
  assumes "splice_run srv cw t0 es s"
  shows "(idle srv > 0 \<longrightarrow> sp_closed s \<or> sp_watch s) \<and> (idle srv \<le> 0 \<and> sp_returned s d \<longrightarrow> sp_closed s)"
  using assms by induction (auto simp: splice_defs Let_def split: option.splits)

lemma splice_last:
  assumes "splice_run srv cw t0 es s"
  shows "lastNanos s = last (t0 # activity es)"
  using assms by induction (auto simp: splice_defs Let_def split: option.splits)


definition example_relay :: "splice_event list" where
  "example_relay =
     [Pumped Up [71, 69, 84] False None 5, Pumped Up [] True None 6, Pumped Down [79, 75] False None 700]"

lemma example_relay_run:
  "\<exists>s. splice_run example_server (\<lambda>_. True) 0 example_relay s \<and> sp_fin s Up \<and> \<not> sp_closed s"
proof -
  have s0: "splice_run example_server (\<lambda>_. True) 0 [] (splice_start example_server 0)" by (rule started)
  have s1: "splice_run example_server (\<lambda>_. True) 0 ([] @ [Pumped Up [71, 69, 84] False None 5])
      (pump example_server (\<lambda>_. True) Up [71, 69, 84] False None 5 (splice_start example_server 0))"
    by (rule pumped [OF s0]) (simp_all add: splice_defs)
  have s2: "splice_run example_server (\<lambda>_. True) 0 (([] @ [Pumped Up [71, 69, 84] False None 5]) @ [Pumped Up [] True None 6])
      (pump example_server (\<lambda>_. True) Up [] True None 6
        (pump example_server (\<lambda>_. True) Up [71, 69, 84] False None 5 (splice_start example_server 0)))"
    by (rule pumped [OF s1]) (simp_all add: splice_defs)
  have "splice_run example_server (\<lambda>_. True) 0 example_relay
      (pump example_server (\<lambda>_. True) Down [79, 75] False None 700
        (pump example_server (\<lambda>_. True) Up [] True None 6
          (pump example_server (\<lambda>_. True) Up [71, 69, 84] False None 5 (splice_start example_server 0))))" (is "splice_run _ _ _ _ ?s")
    using pumped [OF s2, of Down "[79, 75]" False None 700] by (simp add: example_relay_def splice_defs example_server_def)
  moreover have "sp_fin ?s Up" "\<not> sp_closed ?s" by (simp_all add: splice_defs example_server_def)
  ultimately show ?thesis by blast
qed


text \<open>
  C17 (liveness).  The idle timeout is one of the whole connection.  A tick of the watchdog closes it
  exactly if neither direction has carried anything for the idle time, so a transfer in one direction
  only is never cut; the connection is watched until it is closed, also while it is half-closed; and
  without an idle timeout the end of either direction closes both.
\<close>

theorem splice_idle:
  assumes "splice_run srv cw t0 es s" "sorted (t0 # activity es)"
  shows "(\<not> sp_closed s \<longrightarrow> (sp_closed (watchdog srv now s) \<longleftrightarrow> (\<forall>t \<in> set (t0 # activity es). now - t \<ge> idle srv))) \<and>
    (idle srv > 0 \<and> \<not> sp_closed s \<longrightarrow> sp_watch s) \<and> (idle srv \<le> 0 \<and> sp_returned s d \<longrightarrow> sp_closed s)"
proof -
  define ts where "ts = t0 # activity es"
  have "ts \<noteq> []" "sorted ts" using assms(2) by (auto simp: ts_def)
  then have "last ts \<in> set ts" "\<forall>t \<in> set ts. t \<le> last ts"
    by simp (auto simp: \<open>ts \<noteq> []\<close> in_set_conv_nth last_conv_nth intro!: sorted_nth_mono [OF \<open>sorted ts\<close>])
  then have "(now - last ts \<ge> idle srv) \<longleftrightarrow> (\<forall>t \<in> set ts. now - t \<ge> idle srv)" by force
  then show ?thesis
    using splice_watched [OF assms(1), of d] splice_last [OF assms(1)] unfolding ts_def by (auto simp: watchdog_def stop_def)
qed

theorem splice_idle_witness:
  "\<exists>s. splice_run example_server (\<lambda>_. True) 0 example_relay s \<and> sorted (0 # activity example_relay) \<and>
     \<not> sp_closed (watchdog example_server (600 * Second) s) \<and> sp_closed (watchdog example_server (600 * Second + 700) s)"
proof -
  obtain s where run: "splice_run example_server (\<lambda>_. True) 0 example_relay s" and s: "\<not> sp_closed s"
    using example_relay_run by blast
  have sorted: "sorted (0 # activity example_relay)" by (simp add: activity_def example_relay_def)
  show ?thesis
    using run s sorted splice_idle [OF run sorted, of "600 * Second"] splice_idle [OF run sorted, of "600 * Second + 700"]
    by (intro exI [of _ s]) (simp add: example_relay_def activity_def example_server_def)
qed

section \<open>The accept loop\<close>

text \<open>
  \<open>serveListener\<close>: how many slots are taken, the handlers running, whether a connection has been
  accepted and waits for its slot, how many connections were closed unserved, and the result once the
  loop has returned.
\<close>

datatype serve_result = ServeNil | ServeAcceptErr

record listener =
  sem :: nat
  handlers :: nat
  pending :: bool
  dropped :: nat
  served :: nat
  result :: "serve_result option"

datatype accept_event = Accepted | AcceptFailed | SlotFree | CtxDone | HandlerDone

definition listen_start :: listener where
  "listen_start = \<lparr>sem = 0, handlers = 0, pending = False, dropped = 0, served = 0, result = None\<rparr>"

definition spawn :: "listener \<Rightarrow> listener" where
  "spawn l = l\<lparr>pending := False, handlers := handlers l + 1\<rparr>"

text \<open>
  A turn of the loop or of a handler, if it can be taken: \<open>sem\<close> is a buffered channel, so its send
  waits while \<open>maxConns\<close> slots are taken.  \<open>cancelled\<close> says whether the context is done.
\<close>

fun serveListener :: "socksServer \<Rightarrow> bool \<Rightarrow> accept_event \<Rightarrow> listener \<Rightarrow> listener option" where
  "serveListener srv cancelled Accepted l =
     (if result l \<noteq> None \<or> pending l then None
      else if maxConns srv > 0 then Some (l\<lparr>pending := True\<rparr>)
      else Some (spawn l))"
| "serveListener srv cancelled AcceptFailed l =
     (if result l \<noteq> None \<or> pending l then None
      else Some (l\<lparr>result := Some (if cancelled then ServeNil else ServeAcceptErr)\<rparr>))"
| "serveListener srv cancelled SlotFree l =
     (if result l = None \<and> pending l \<and> int (sem l) < maxConns srv then Some (spawn (l\<lparr>sem := sem l + 1\<rparr>)) else None)"
| "serveListener srv cancelled CtxDone l =
     (if result l = None \<and> pending l \<and> cancelled
      then Some (l\<lparr>pending := False, dropped := dropped l + 1, result := Some ServeNil\<rparr>)
      else None)"
| "serveListener srv cancelled HandlerDone l =
     (if handlers l = 0 then None
      else Some (l\<lparr>handlers := handlers l - 1, served := served l + 1, sem := (if maxConns srv > 0 then sem l - 1 else sem l)\<rparr>))"

fun serve_run :: "socksServer \<Rightarrow> (bool \<times> accept_event) list \<Rightarrow> listener \<Rightarrow> listener option" where
  "serve_run srv [] l = Some l"
| "serve_run srv ((cancelled, ev) # es) l =
     (case serveListener srv cancelled ev l of None \<Rightarrow> None | Some l' \<Rightarrow> serve_run srv es l')"

definition listener_ok :: "socksServer \<Rightarrow> listener \<Rightarrow> bool" where
  "listener_ok srv l \<longleftrightarrow> (maxConns srv > 0 \<longrightarrow> sem l = handlers l \<and> int (handlers l) \<le> maxConns srv)"

lemma serveListener_ok: "serveListener srv c ev l = Some l' \<Longrightarrow> listener_ok srv l \<Longrightarrow> listener_ok srv l'"
  by (cases ev) (auto simp: listener_ok_def spawn_def split: if_splits)

lemma serveListener_count:
  "serveListener srv c ev l = Some l' \<Longrightarrow>
     handlers l' + of_bool (pending l') + dropped l' + served l' =
     handlers l + of_bool (pending l) + dropped l + served l + of_bool (ev = Accepted)"
  by (cases ev) (auto simp: spawn_def split: if_splits)

lemma serve_run_ok:
  "serve_run srv es l = Some l' \<Longrightarrow> listener_ok srv l \<Longrightarrow>
     listener_ok srv l' \<and> handlers l' + of_bool (pending l') + dropped l' + served l' =
       handlers l + of_bool (pending l) + dropped l + served l + length (filter (\<lambda>(_, ev). ev = Accepted) es)"
proof (induction es arbitrary: l)
  case (Cons e es)
  obtain c ev where e: "e = (c, ev)" by (metis surj_pair)
  then obtain l1 where "serveListener srv c ev l = Some l1" "serve_run srv es l1 = Some l'"
    using Cons.prems(1) by (auto split: option.splits)
  then show ?case using Cons.IH [of l1] serveListener_ok Cons.prems(2) serveListener_count e by fastforce
qed simp

text \<open>
  C18 (bounds).  The accept loop serves at most \<open>maxConns\<close> clients at a time, if that is positive,
  and holds at most one more connection, the one that waits for a slot.  No connection is lost: every
  one accepted is being served, waits, has been served, or was closed because the proxy shut down.
\<close>

theorem serve_bounded:
  assumes "serve_run srv es listen_start = Some l"
  shows "(maxConns srv > 0 \<longrightarrow> int (handlers l) \<le> maxConns srv) \<and>
    length (filter (\<lambda>(_, ev). ev = Accepted) es) = handlers l + of_bool (pending l) + dropped l + served l"
  using serve_run_ok [OF assms] by (auto simp: listener_ok_def listen_start_def)

theorem serve_bounded_witness:
  "\<exists>l. serve_run example_server [(False, Accepted), (False, SlotFree), (False, Accepted), (False, SlotFree), (False, Accepted)] listen_start = Some l \<and>
     pending l \<and> int (handlers l) \<le> 2 \<and> serveListener example_server False SlotFree l = None"
  using serve_bounded [of example_server "[(False, Accepted), (False, SlotFree), (False, Accepted), (False, SlotFree), (False, Accepted)]"]
  by (simp add: example_server_def listen_start_def spawn_def)

end
