(* ===== verification/Handshake_Auth.thy ===== *)
theory Handshake_Auth
  imports Handshake Session_Run
begin

text \<open>
  What a completed handshake guarantees: the keys come from the two IKE\_SA\_INIT datagrams
  that the AUTH values cover, the responder has proved that it holds the shared secret (and,
  with EAP, the certificate and the password), and the session is ready for the control loop.
\<close>

section \<open>Triples\<close>

text \<open>
  \<open>triple P m Q\<close>: from a state with \<open>P\<close> the computation \<open>m\<close> does not panic, and if it returns
  \<open>x\<close> the state has \<open>Q x\<close>.
\<close>

named_theorems triple_intros \<open>rules for triples\<close>

definition triple :: "('s \<Rightarrow> bool) \<Rightarrow> ('s, 'e, 'a) go \<Rightarrow> ('a \<Rightarrow> 's \<Rightarrow> bool) \<Rightarrow> bool" where
  "triple P m Q \<longleftrightarrow> (\<forall>s. P s \<longrightarrow> wp m (\<lambda>r s'. r \<noteq> Panic \<and> (\<forall>x. r = Ok x \<longrightarrow> Q x s')) s)"

lemma tripleI: "(\<And>s. P s \<Longrightarrow> wp m (\<lambda>r s'. r \<noteq> Panic \<and> (\<forall>x. r = Ok x \<longrightarrow> Q x s')) s) \<Longrightarrow> triple P m Q"
  by (simp add: triple_def)

lemma tripleD: "triple P m Q \<Longrightarrow> P s \<Longrightarrow> m s = (r, s') \<Longrightarrow> r \<noteq> Panic \<and> (\<forall>x. r = Ok x \<longrightarrow> Q x s')"
  by (auto simp: triple_def wp_def)

lemma triple_bind:
  "triple P m R \<Longrightarrow> (\<And>x. triple (R x) (f x) Q) \<Longrightarrow> triple P (bindS m f) Q"
  unfolding triple_def wp_bindS by (fastforce elim!: wp_mono split: res.splits)

lemma triple_ret [triple_intros]: "(\<And>s. P s \<Longrightarrow> Q x s) \<Longrightarrow> triple P (retS x) Q"
  by (simp add: triple_def wp_simps)

lemma triple_fail [triple_intros]: "triple P (failS e) Q"
  by (simp add: triple_def wp_simps)

lemma triple_lift [triple_intros]:
  "panic_free r \<Longrightarrow> (\<And>x s. P s \<Longrightarrow> r = Ok x \<Longrightarrow> Q x s) \<Longrightarrow> triple P (liftS r) Q"
  by (simp add: triple_def wp_simps panic_free_def)

lemma triple_mod [triple_intros]: "(\<And>s. P s \<Longrightarrow> Q () (f s)) \<Longrightarrow> triple P (modS f) Q"
  by (simp add: triple_def wp_simps)

lemma triple_read: "(\<And>t. P t \<Longrightarrow> triple (\<lambda>s. s = t) (k (f t)) Q) \<Longrightarrow> triple P (readS f k) Q"
  by (simp add: triple_def wp_simps)

lemma triple_read_any [triple_intros]: "(\<And>t. P t \<Longrightarrow> triple P (k (f t)) Q) \<Longrightarrow> triple P (readS f k) Q"
  by (simp add: triple_def wp_simps)

lemma triple_guard [triple_intros]: "(\<not> c \<Longrightarrow> triple P k Q) \<Longrightarrow> triple P (guardS c e k) Q"
  by (simp add: guardS_def triple_fail)

lemma triple_deref [triple_intros]:
  "x \<noteq> None \<Longrightarrow> (\<And>y. x = Some y \<Longrightarrow> triple P (k y) Q) \<Longrightarrow> triple P (derefS x k) Q"
  by (auto simp: derefS_def)

lemma triple_if [triple_intros]:
  "(c \<Longrightarrow> triple P m Q) \<Longrightarrow> (\<not> c \<Longrightarrow> triple P n Q) \<Longrightarrow> triple P (if c then m else n) Q"
  by simp

lemma triple_option [triple_intros]:
  "(x = None \<Longrightarrow> triple P m Q) \<Longrightarrow> (\<And>y. x = Some y \<Longrightarrow> triple P (f y) Q) \<Longrightarrow>
   triple P (case x of None \<Rightarrow> m | Some y \<Rightarrow> f y) Q"
  by (cases x) simp_all

lemma triple_prod [triple_intros]:
  "(\<And>a b. p = (a, b) \<Longrightarrow> triple P (f a b) Q) \<Longrightarrow> triple P (case p of (a, b) \<Rightarrow> f a b) Q"
  by (cases p) simp

lemma triple_sum [triple_intros]:
  "(\<And>e. x = Inl e \<Longrightarrow> triple P (f e) Q) \<Longrightarrow> (\<And>y. x = Inr y \<Longrightarrow> triple P (g y) Q) \<Longrightarrow>
   triple P (case x of Inl e \<Rightarrow> f e | Inr y \<Rightarrow> g y) Q"
  by (cases x) simp_all

lemma triple_weaken: "triple P m Q \<Longrightarrow> (\<And>s. P' s \<Longrightarrow> P s) \<Longrightarrow> (\<And>x s. Q x s \<Longrightarrow> Q' x s) \<Longrightarrow> triple P' m Q'"
  unfolding triple_def by (blast intro: wp_mono)

lemma triple_pre: "(\<And>s. P s \<Longrightarrow> C) \<Longrightarrow> (C \<Longrightarrow> triple P m Q) \<Longrightarrow> triple P m Q"
  unfolding triple_def by blast

lemma triple_holds: "keeps P m \<Longrightarrow> triple P m (\<lambda>_. P)"
  unfolding triple_def holds_def by (blast intro: wp_mono)

section \<open>Receiving\<close>

text \<open>A message that was received, wrapped or not.\<close>

definition received :: "world \<Rightarrow> bytes \<Rightarrow> bool" where
  "received W raw \<longleftrightarrow> (\<exists>n. raw \<in> set (w_recv W n) \<or> WrapIKE raw \<in> set (w_recv W n))"

lemma Classify_KindIKE:
  assumes "Classify d = (KindIKE, p)"
  shows "d = WrapIKE p"
proof -
  have d: "4 \<le> length d" "Uint32 (take 4 d) = 0" "p = drop 4 d"
    using assms by (auto simp: Classify_def split: if_splits)
  have "get_be (take 4 d) < 2 ^ 32" using get_be_less [of "take 4 d"] d(1) by simp
  then have "unat (word_of_nat (get_be (take 4 d)) :: u32) = get_be (take 4 d)"
    by (simp add: unat_of_nat take_bit_nat_eq_self)
  then have z: "get_be (take 4 d) = 0" using d(2) by (simp add: Uint32_def)
  have l: "length (take 4 d) = 4" using d(1) by simp
  have "put_be 4 0 = take 4 d" using put_get_be [of "take 4 d"] unfolding l z .
  moreover have "length nonESPMarker = 4" "get_be nonESPMarker = 0" by (simp_all add: get_be_def)
  then have "put_be 4 0 = nonESPMarker" by (metis put_get_be)
  ultimately have "take 4 d = nonESPMarker" by simp
  then show ?thesis unfolding WrapIKE_def d(3) by (metis append_take_drop_id)
qed

lemma recvDatagram_from:
  "recvDatagram b inp = Some (Inr raw, rest) \<Longrightarrow>
   (Inr raw \<in> set inp \<or> Inr (WrapIKE raw) \<in> set inp) \<and> set rest \<subseteq> set inp"
  by (induction b inp rule: recvDatagram.induct)
     (auto split: if_splits prod.splits Kind.splits dest!: Classify_KindIKE)

lemma recv_loop_step:
  assumes "recv_loop b mid inp = Ok raw"
  obtains raw1 rest where "recvDatagram b inp = Some (Inr raw1, rest)"
    "recv_loop b mid rest = Ok raw \<or>
     raw1 = raw \<and> (\<exists>hdr. Parse raw = Ok hdr \<and> MessageID hdr = mid \<and> IsResponse (MFlags hdr))"
proof -
  obtain raw1 rest where r: "recvDatagram b inp = Some (Inr raw1, rest)"
    using assms by (subst (asm) recv_loop.simps) (auto split: option.splits prod.splits sum.splits)
  moreover have "recv_loop b mid rest = Ok raw \<or>
     raw1 = raw \<and> (\<exists>hdr. Parse raw = Ok hdr \<and> MessageID hdr = mid \<and> IsResponse (MFlags hdr))"
    using assms r by (subst (asm) recv_loop.simps) (auto split: res.splits if_splits)
  ultimately show ?thesis by (rule that)
qed

lemma recv_loop_Ok:
  "recv_loop b mid inp = Ok raw \<Longrightarrow>
   (Inr raw \<in> set inp \<or> Inr (WrapIKE raw) \<in> set inp) \<and>
   (\<exists>hdr. Parse raw = Ok hdr \<and> MessageID hdr = mid \<and> IsResponse (MFlags hdr))"
proof (induction "length inp" arbitrary: inp rule: less_induct)
  case less
  from less.prems obtain raw1 rest where r: "recvDatagram b inp = Some (Inr raw1, rest)"
    "recv_loop b mid rest = Ok raw \<or>
     raw1 = raw \<and> (\<exists>hdr. Parse raw = Ok hdr \<and> MessageID hdr = mid \<and> IsResponse (MFlags hdr))"
    by (rule recv_loop_step)
  then show ?case using recvDatagram_from [OF r(1)] less.hyps [OF recvDatagram_shorter [OF r(1)]] by blast
qed

lemma recv_loop_total [no_panic]: "panic_free (recv_loop b mid inp)"
proof (induction b mid inp rule: recv_loop.induct)
  case (1 b mid inp)
  show ?case using 1 Parse_panic_free
    by (subst recv_loop.simps) (auto simp: panic_free_def split: option.splits prod.splits sum.splits res.splits)
qed

text \<open>A computation that only asks questions and sends.\<close>

definition silent :: "Session \<Rightarrow> Session \<Rightarrow> bool" where
  "silent s s' \<longleftrightarrow> (\<exists>k ds. s' = s\<lparr>s_n := k, s_out := s_out s @ map Sent ds\<rparr>)"

lemma silentI: "s' = s\<lparr>s_n := k, s_out := s_out s @ map Sent ds\<rparr> \<Longrightarrow> silent s s'"
  unfolding silent_def by blast

lemma silent_trans: "silent s t \<Longrightarrow> silent t u \<Longrightarrow> silent s u"
  unfolding silent_def by (elim exE) (rule_tac x = ka in exI, rule_tac x = "ds @ dsa" in exI, simp)

lemma silent_refl: "silent s s"
  by (rule silentI [where k = "s_n s" and ds = "[]"]) simp

lemma silent_n: "silent s (s\<lparr>s_n := k\<rparr>)"
  by (rule silentI [where k = k and ds = "[]"]) simp

lemma silent_sent: "silent s (s\<lparr>s_out := s_out s @ [Sent d], s_n := k\<rparr>)"
  by (rule silentI [where k = k and ds = "[d]"]) simp

lemma silent_quiet: "silent s s' \<Longrightarrow> quiet s s'"
  unfolding silent_def
  by (elim exE, rule_tac k = k and sa = "s_ikeSA s" and old = "s_oldIKE s" and ds = ds in quietI) simp_all

text \<open>The header of the message that answers request \<open>mid\<close>.\<close>

definition answers :: "u32 \<Rightarrow> bytes \<Rightarrow> bool" where
  "answers mid raw \<longleftrightarrow> (\<exists>hdr. Parse raw = Ok hdr \<and> MessageID hdr = mid \<and> IsResponse (MFlags hdr))"

lemma wp_recvMatching:
  "wp (recvMatching W mid)
     (\<lambda>r s'. r \<noteq> Panic \<and> s' = s\<lparr>s_n := Suc (s_n s)\<rparr> \<and> (\<forall>raw. r = Ok raw \<longrightarrow> received W raw \<and> answers mid raw)) s"
  using recv_loop_total [of "s_nattMode s" mid] recv_loop_Ok [of "s_nattMode s" mid "map Inr (w_recv W (s_n s)) @ [Inl ErrRecv]"]
  by (fastforce simp: recvMatching_def wp_simps panic_free_def received_def answers_def)

lemma wp_exchange_loop:
  "wp (exchange_loop W req mid k)
     (\<lambda>r s'. r \<noteq> Panic \<and> silent s s' \<and> (\<forall>raw. r = Ok raw \<longrightarrow> received W raw \<and> answers mid raw)) s"
proof (induction k arbitrary: s)
  case 0
  show ?case by (simp add: wp_simps silent_refl)
next
  case (Suc k)
  define s1 where "s1 = s\<lparr>s_out := s_out s @ [Sent (sendDatagram (s_nattMode s) req)], s_n := Suc (s_n s)\<rparr>"
  have s1: "silent s s1" unfolding s1_def by (rule silent_sent)
  have s2: "silent s (s1\<lparr>s_n := j\<rparr>)" for j by (rule silent_trans [OF s1 silent_n])
  have rec: "wp (exchange_loop W req mid k)
     (\<lambda>r s'. r \<noteq> Panic \<and> silent s s' \<and> (\<forall>raw. r = Ok raw \<longrightarrow> received W raw \<and> answers mid raw)) (s1\<lparr>s_n := j\<rparr>)" for j
    by (rule wp_mono [OF Suc.IH]) (use silent_trans [OF s2] in blast)
  have "wp (recvMatching W mid)
     (\<lambda>r s'. r \<noteq> Panic \<and> s' = s1\<lparr>s_n := Suc (s_n s1)\<rparr> \<and> (\<forall>raw. r = Ok raw \<longrightarrow> received W raw \<and> answers mid raw)) s1"
    by (rule wp_recvMatching)
  then have "wp (bindS (tryS (recvMatching W mid)) (\<lambda>r.
      case r of Inr raw \<Rightarrow> retS raw
      | Inl _ \<Rightarrow> bindS tickS (\<lambda>n. guardS (w_cancelled W n) ErrCancelled (exchange_loop W req mid k))))
     (\<lambda>r s'. r \<noteq> Panic \<and> silent s s' \<and> (\<forall>raw. r = Ok raw \<longrightarrow> received W raw \<and> answers mid raw)) s1"
    unfolding wp_bindS wp_tryS
    by (rule wp_mono) (auto simp: wp_simps s2 rec split: res.splits)
  then show ?case using s1 unfolding exchange_loop.simps wp_bindS wp_sendIKE s1_def [symmetric]
    by (simp add: wp_bindS wp_tryS)
qed

lemma wp_exchange:
  "wp (exchange W req mid)
     (\<lambda>r s'. r \<noteq> Panic \<and> silent s s' \<and> (\<forall>raw. r = Ok raw \<longrightarrow> received W raw \<and> answers mid raw)) s"
  by (simp add: exchange_def wp_simps wp_exchange_loop)

lemma triple_exchange:
  assumes "\<And>s s' raw. P s \<Longrightarrow> silent s s' \<Longrightarrow> received W raw \<Longrightarrow> answers mid raw \<Longrightarrow> Q raw s'"
  shows "triple P (exchange W req mid) Q"
  by (rule tripleI, rule wp_mono [OF wp_exchange]) (use assms in blast)

section \<open>IKE\_SA\_INIT\<close>

text \<open>The request that was sent last carries the SPI, the public value and the nonce of the session.\<close>

definition offered :: "world \<Rightarrow> DH \<Rightarrow> Session \<Rightarrow> bool" where
  "offered W dh s \<longleftrightarrow>
     (\<exists>req. Marshal req = Ok (s_initSAInitReq s) \<and> InitiatorSPI req = s_initiatorSPI s \<and> ResponderSPI req = 0 \<and>
        Exchange req = ExchangeIKESAInit \<and> MFlags req = FlagInitiator \<and> MessageID req = 0 \<and>
        SAPayload (buildProposals [] (enabledIKESuites (s_cfg s)) [DH_X25519, DH_MODP2048]) \<in> set (MPayloads req) \<and>
        KEPayload (dh_Group dh) (dh_Public dh) \<in> set (MPayloads req) \<and> NoncePayload (s_nonceI s) \<in> set (MPayloads req))"

text \<open>What the handshake has not touched yet.\<close>

definition pristine :: "Session \<Rightarrow> bool" where
  "pristine s \<longleftrightarrow> s_ikeSA s = None \<and> s_oldIKE s = None \<and> s_pending s = None \<and> s_child s = None \<and>
     \<not> s_established s \<and> (\<forall>u. Install u \<notin> set (s_out s)) \<and> s_oldIKEDelete s = None"

definition keyed_dh :: "world \<Rightarrow> DH \<Rightarrow> Session \<Rightarrow> bool" where
  "keyed_dh W dh s \<longleftrightarrow> s_dh s = Some dh \<and> generated W (dh_Group dh) dh \<and> supportedDHGroup (dh_Group dh)"

text \<open>The session before a request, and after the response to it.\<close>

definition ready :: "world \<Rightarrow> SessionConfig \<Rightarrow> Session \<Rightarrow> bool" where
  "ready W cfg s \<longleftrightarrow> s_cfg s = cfg \<and> s_conn s \<and> pristine s \<and> length (s_nonceI s) = nonceLen \<and> (\<exists>dh. keyed_dh W dh s)"

definition replied :: "world \<Rightarrow> SessionConfig \<Rightarrow> Session \<Rightarrow> bool" where
  "replied W cfg s \<longleftrightarrow> ready W cfg s \<and> offered W (the (s_dh s)) s \<and> received W (s_initSAInitRsp s)"

lemma silent_ready: "silent s s' \<Longrightarrow> ready W cfg s \<Longrightarrow> ready W cfg s'"
  unfolding silent_def ready_def pristine_def keyed_dh_def by auto

lemma silent_offered: "silent s s' \<Longrightarrow> offered W dh s \<Longrightarrow> offered W dh s'"
  unfolding silent_def offered_def by auto

lemma silent_dh: "silent s s' \<Longrightarrow> s_dh s' = s_dh s"
  unfolding silent_def by auto

lemma appendNATDetection_set: "set c \<subseteq> set (appendNATDetection h a b l r c)"
  by (cases "addrPort l"; cases "addrPort r") (auto simp: appendNATDetection_def Let_def)

lemma triple_buildSAInit:
  "triple (ready W cfg) (buildSAInit W cookie)
     (\<lambda>raw s. ready W cfg s \<and> (\<exists>dh. keyed_dh W dh s \<and> offered W dh (s\<lparr>s_initSAInitReq := raw\<rparr>)))"
proof (rule tripleI)
  fix s assume s: "ready W cfg s"
  then obtain dh where dh: "keyed_dh W dh s" by (auto simp: ready_def)
  define ps where "ps = appendNATDetection (w_sha1 W) (s_initiatorSPI s) (s_responderSPI s) (s_localAddr s) (s_remoteAddr s)
    ((if length cookie > 0 then [NotifyPayload 0 NotifyCookie [] cookie] else []) @
              [SAPayload (buildProposals [] (enabledIKESuites (s_cfg s)) [DH_X25519, DH_MODP2048]),
               KEPayload (dh_Group dh) (dh_Public dh), NoncePayload (s_nonceI s)])"
  define req where "req = \<lparr>InitiatorSPI = s_initiatorSPI s, ResponderSPI = 0, Exchange = ExchangeIKESAInit,
        MFlags = FlagInitiator, MessageID = 0, MPayloads = ps\<rparr>"
  have b: "buildSAInit W cookie s = (wrapR ErrEncodeRequest (Marshal req), s)"
    using dh by (simp add: buildSAInit_def readS_def derefS_def liftS_def keyed_dh_def req_def ps_def Let_def)
  have "set [SAPayload (buildProposals [] (enabledIKESuites (s_cfg s)) [DH_X25519, DH_MODP2048]),
      KEPayload (dh_Group dh) (dh_Public dh), NoncePayload (s_nonceI s)] \<subseteq> set ps"
    unfolding ps_def by (rule subset_trans [OF _ appendNATDetection_set]) auto
  then have "offered W dh (s\<lparr>s_initSAInitReq := raw\<rparr>)" if "Marshal req = Ok raw" for raw
    using that unfolding offered_def by (intro exI [of _ req]) (simp add: req_def)
  moreover have "Marshal req \<noteq> Panic" using Marshal_panic_free [of req] by (simp add: panic_free_def)
  ultimately show "wp (buildSAInit W cookie) (\<lambda>r s'. r \<noteq> Panic \<and> (\<forall>x. r = Ok x \<longrightarrow>
      ready W cfg s' \<and> (\<exists>dh. keyed_dh W dh s' \<and> offered W dh (s'\<lparr>s_initSAInitReq := x\<rparr>)))) s"
    using s dh by (auto simp: wp_def b)
qed

lemma ready_frame [simp]:
  "ready W cfg (s\<lparr>s_initSAInitReq := b\<rparr>) = ready W cfg s" "ready W cfg (s\<lparr>s_initSAInitRsp := b\<rparr>) = ready W cfg s"
  "ready W cfg (s\<lparr>s_peerDHPub := b\<rparr>) = ready W cfg s" "ready W cfg (s\<lparr>s_nonceR := b\<rparr>) = ready W cfg s"
  "ready W cfg (s\<lparr>s_responderSPI := i\<rparr>) = ready W cfg s" "ready W cfg (s\<lparr>s_natDetected := c\<rparr>) = ready W cfg s"
  by (simp_all add: ready_def pristine_def keyed_dh_def)

lemma offered_frame [simp]:
  "offered W dh (s\<lparr>s_initSAInitRsp := b\<rparr>) = offered W dh s" "offered W dh (s\<lparr>s_peerDHPub := b\<rparr>) = offered W dh s"
  "offered W dh (s\<lparr>s_nonceR := b\<rparr>) = offered W dh s" "offered W dh (s\<lparr>s_responderSPI := i\<rparr>) = offered W dh s"
  "offered W dh (s\<lparr>s_natDetected := c\<rparr>) = offered W dh s"
  by (simp_all add: offered_def)

lemma triple_sendSAInit:
  "triple (ready W cfg) (sendSAInit W cookie) (\<lambda>rsp s. replied W cfg s \<and> s_initSAInitRsp s = rsp)"
proof -
  define A where "A s \<longleftrightarrow> ready W cfg s \<and> offered W (the (s_dh s)) s" for s
  have A: "A s'" if "A s" "silent s s'" for s s'
    using that silent_ready silent_offered [of s s' W "the (s_dh s)"] silent_dh [of s s'] by (auto simp: A_def)
  have A': "replied W cfg (s\<lparr>s_initSAInitRsp := rsp\<rparr>)" if "A s" "received W rsp" for s rsp
    using that by (simp add: A_def replied_def)
  have A0: "A (s\<lparr>s_initSAInitReq := raw\<rparr>)"
    if "ready W cfg s" "keyed_dh W dh s" "offered W dh (s\<lparr>s_initSAInitReq := raw\<rparr>)" for s raw dh
    using that by (simp add: A_def keyed_dh_def)
  show ?thesis unfolding sendSAInit_def
  proof (rule triple_bind [OF triple_buildSAInit], rule triple_bind [where R = "\<lambda>_. A"], goal_cases)
    case (1 raw)
    show ?case by (rule triple_mod) (use A0 in blast)
  next
    case (2 raw u)
    show ?case
      by (rule triple_bind [where R = "\<lambda>rsp s. A s \<and> received W rsp"], rule triple_exchange, use A in blast,
          rule triple_bind [where R = "\<lambda>_ s. replied W cfg s \<and> s_initSAInitRsp s = x" for x])
         (auto intro!: triple_intros A')
  qed
qed

lemma replied_ready: "replied W cfg s \<Longrightarrow> ready W cfg s"
  by (simp add: replied_def)

lemma triple_assign:
  "triple P m (\<lambda>x s. R (put x s)) \<Longrightarrow> triple P (assignS put z m) (\<lambda>_. R)"
  unfolding triple_def assignS_def wp_bindS wp_onErrS wp_modS
  by (fastforce elim!: wp_mono split: res.splits)

lemma triple_tick [triple_intros]: "(\<And>s. P s \<Longrightarrow> Q (s_n s) (s\<lparr>s_n := Suc (s_n s)\<rparr>)) \<Longrightarrow> triple P tickS Q"
  by (simp add: triple_def wp_simps)

lemma triple_randBytes:
  "(\<And>s n x. P s \<Longrightarrow> length x = k \<Longrightarrow> x = take k (w_rand W n) \<Longrightarrow> Q x (s\<lparr>s_n := Suc (s_n s)\<rparr>)) \<Longrightarrow> triple P (randBytes W k) Q"
  unfolding randBytes_def triple_def by (auto simp: wp_simps ReadFull_def)

lemma triple_randUint64:
  "(\<And>s x. P s \<Longrightarrow> Q x (s\<lparr>s_n := Suc (s_n s)\<rparr>)) \<Longrightarrow> triple P (randUint64 W) Q"
  unfolding randUint64_def
  by (rule triple_bind [where R = "\<lambda>x s. \<exists>t. P t \<and> s = t\<lparr>s_n := Suc (s_n t)\<rparr>"], rule triple_randBytes)
     (auto intro!: triple_intros)

lemma NewDH_dh_Group: "NewDH C ri xk g = Ok d \<Longrightarrow> dh_Group d = g"
  by (auto simp: NewDH_def Let_def split: if_splits option.splits)

lemma triple_newDHS:
  assumes "\<And>s d. P s \<Longrightarrow> generated W g d \<Longrightarrow> dh_Group d = g \<Longrightarrow> Q d (s\<lparr>s_n := Suc (s_n s)\<rparr>)"
  shows "triple P (newDHS W g) Q"
  unfolding newDHS_def triple_def
proof (intro allI impI)
  fix s assume "P s"
  then show "wp (bindS tickS (\<lambda>n. liftS (wrapR ErrIKESA (NewDH (w_curve W) (w_rint W n) (w_xkey W n) g))))
     (\<lambda>r s'. r \<noteq> Panic \<and> (\<forall>x. r = Ok x \<longrightarrow> Q x s')) s"
    using NewDH_panic_free [of "w_curve W" "w_rint W (s_n s)" "w_xkey W (s_n s)" g]
      assms [of s] NewDH_dh_Group [of "w_curve W" "w_rint W (s_n s)" "w_xkey W (s_n s)" g]
    unfolding generated_def by (fastforce simp: wp_simps panic_free_def)
qed

definition dialled :: "SessionConfig \<Rightarrow> Session \<Rightarrow> bool" where
  "dialled cfg s \<longleftrightarrow> s_cfg s = cfg \<and> s_conn s \<and> pristine s"

lemma dialled_frame [simp]:
  "dialled cfg (s\<lparr>s_n := k\<rparr>) = dialled cfg s" "dialled cfg (s\<lparr>s_dh := d\<rparr>) = dialled cfg s"
  "dialled cfg (s\<lparr>s_initiatorSPI := i\<rparr>) = dialled cfg s" "dialled cfg (s\<lparr>s_nonceI := b\<rparr>) = dialled cfg s"
  by (simp_all add: dialled_def pristine_def)

lemma supported_groups: "supportedDHGroup DH_X25519" "supportedDHGroup DH_MODP2048"
  by (simp_all add: supportedDHGroup_def preferredDHGroups_def)

lemma triple_sainit_fresh: "triple (dialled cfg) (sainit_fresh W) (\<lambda>_. ready W cfg)"
  unfolding sainit_fresh_def
proof (rule triple_bind [where R = "\<lambda>_. dialled cfg"], goal_cases)
  case 1
  show ?case by (rule triple_assign, rule triple_randUint64) simp
next
  case 2
  show ?case
  proof (rule triple_bind [where R = "\<lambda>_ s. dialled cfg s \<and> (\<exists>dh. keyed_dh W dh s)"], goal_cases)
    case 1
    show ?case
      by (rule triple_assign, rule triple_bind [where R = "\<lambda>d s. dialled cfg s \<and> generated W DH_X25519 d \<and> dh_Group d = DH_X25519"],
          rule triple_newDHS, simp, rule triple_ret)
         (use supported_groups in \<open>auto simp: keyed_dh_def\<close>)
  next
    case 2
    show ?case
      by (rule triple_assign, rule triple_randBytes)
         (auto simp: ready_def dialled_def keyed_dh_def pristine_def)
  qed
qed

lemma triple_sainit_dial:
  "triple (\<lambda>s. s_cfg s = cfg \<and> pristine s) (sainit_dial E) (\<lambda>_. dialled cfg)"
  unfolding sainit_dial_def
  by (rule tripleI) (auto simp: wp_simps dialled_def pristine_def split: option.splits prod.splits)

lemma saInitCookie_total [no_panic]: "panic_free (saInitCookie raw)"
  and saInitInvalidKE_total [no_panic]: "panic_free (saInitInvalidKE raw)"
  using Parse_panic_free [of raw]
  by (auto simp: saInitCookie_def saInitInvalidKE_def panic_free_def split: res.splits)

text \<open>After the exchanges of IKE\_SA\_INIT the stored response is the answer to the stored request.\<close>

lemma triple_resend:
  "triple (replied W cfg) (sendSAInit W c) (\<lambda>rsp s. replied W cfg s \<and> s_initSAInitRsp s = rsp)"
  by (rule triple_weaken [OF triple_sendSAInit]) (auto simp: replied_ready)

lemma triple_sainit_first: "triple (ready W cfg) (sainit_first W) (\<lambda>_. replied W cfg)"
  unfolding sainit_first_def
  by (rule triple_bind [OF triple_sendSAInit], rule triple_bind [where R = "\<lambda>_. replied W cfg"])
     (auto intro!: triple_intros no_panic intro: triple_bind [OF triple_resend])

lemma triple_sainit_group: "triple (replied W cfg) (sainit_group W rsp cookie) (\<lambda>_. replied W cfg)"
proof -
  have new: "triple (replied W cfg) (assignS (\<lambda>x s. s\<lparr>s_dh := x\<rparr>) None (bindS (newDHS W g) (\<lambda>d. retS (Some d)))) (\<lambda>_. ready W cfg)"
    if "supportedDHGroup g" for g
    by (rule triple_assign, rule triple_bind [where R = "\<lambda>d s. ready W cfg s \<and> generated W g d \<and> dh_Group d = g"],
        rule triple_newDHS)
       (use that in \<open>auto intro!: triple_intros simp: replied_def ready_def pristine_def keyed_dh_def\<close>)
  have dh: "s_dh t \<noteq> None" if "replied W cfg t" for t
    using that by (auto simp: replied_def ready_def keyed_dh_def)
  show ?thesis unfolding sainit_group_def
    by (rule triple_bind [where R = "\<lambda>_. replied W cfg"])
       (auto intro!: triple_intros no_panic dh intro: triple_bind [OF new] triple_bind [OF triple_sendSAInit]
          triple_bind [where R = "\<lambda>_. replied W cfg"] triple_bind [OF triple_resend])
qed

text \<open>What the loop over the response's payloads \<open>M\<close> has found so far comes from \<open>M\<close>.\<close>

definition chosen :: "SessionConfig \<Rightarrow> DH \<Rightarrow> Payloads \<Rightarrow> transformSuite \<Rightarrow> bool" where
  "chosen cfg dh M suite \<longleftrightarrow>
     (\<exists>props. SAPayload props \<in> set M \<and> props \<noteq> [] \<and>
        selectedSuite (props ! 0) (enabledIKESuites cfg) = Some suite \<and> selectedDHGroup (props ! 0) = dh_Group dh)"

definition from_response :: "SessionConfig \<Rightarrow> DH \<Rightarrow> Payloads \<Rightarrow> saInitAcc \<Rightarrow> Session \<Rightarrow> bool" where
  "from_response cfg dh M acc s \<longleftrightarrow>
     (\<forall>suite. ac_suite acc = Some suite \<longrightarrow> chosen cfg dh M suite) \<and>
     (ac_gotKE acc \<longrightarrow> (\<exists>g. KEPayload g (s_peerDHPub s) \<in> set M)) \<and>
     (ac_gotNonce acc \<longrightarrow> NoncePayload (s_nonceR s) \<in> set M)"

definition responding :: "world \<Rightarrow> SessionConfig \<Rightarrow> DH \<Rightarrow> Message \<Rightarrow> Session \<Rightarrow> bool" where
  "responding W cfg dh m s \<longleftrightarrow>
     replied W cfg s \<and> s_dh s = Some dh \<and> Parse (s_initSAInitRsp s) = Ok m \<and>
     Exchange m = ExchangeIKESAInit \<and> IsResponse (MFlags m) \<and> InitiatorSPI m = s_initiatorSPI s \<and> MessageID m = 0 \<and>
     ResponderSPI m = s_responderSPI s \<and> s_responderSPI s \<noteq> 0"

lemma replied_frame [simp]:
  "replied W cfg (s\<lparr>s_peerDHPub := b\<rparr>) = replied W cfg s" "replied W cfg (s\<lparr>s_nonceR := b\<rparr>) = replied W cfg s"
  "replied W cfg (s\<lparr>s_responderSPI := i\<rparr>) = replied W cfg s" "replied W cfg (s\<lparr>s_natDetected := c\<rparr>) = replied W cfg s"
  by (simp_all add: replied_def)

lemma responding_frame [simp]:
  "responding W cfg dh m (s\<lparr>s_peerDHPub := b\<rparr>) = responding W cfg dh m s"
  "responding W cfg dh m (s\<lparr>s_nonceR := b\<rparr>) = responding W cfg dh m s"
  "responding W cfg dh m (s\<lparr>s_natDetected := c\<rparr>) = responding W cfg dh m s"
  by (simp_all add: responding_def)

lemma responding_fields:
  "responding W cfg dh m s \<Longrightarrow> s_dh s = Some dh" "responding W cfg dh m s \<Longrightarrow> s_cfg s = cfg"
  by (simp_all add: responding_def replied_def ready_def)

lemma from_response_mono:
  "from_response cfg dh M acc s \<Longrightarrow> set M \<subseteq> set N \<Longrightarrow> from_response cfg dh N acc s"
  unfolding from_response_def chosen_def by blast

lemma triple_sainit_payload:
  assumes "p \<in> set M"
  shows "triple (\<lambda>s. responding W cfg dh m s \<and> from_response cfg dh M acc s) (sainit_payload p acc)
     (\<lambda>acc s. responding W cfg dh m s \<and> from_response cfg dh M acc s)"
proof -
  have sel: "triple (\<lambda>s. responding W cfg dh m s \<and> from_response cfg dh M acc s)
      (case selectedSuite (props ! 0) (enabledIKESuites (s_cfg t)) of
         None \<Rightarrow> failS ErrBadProposal
       | Some suite \<Rightarrow>
           derefS (s_dh t) (\<lambda>dh.
           let g = selectedDHGroup (props ! 0) in
           guardS (g \<noteq> dh_Group dh) (ErrDHGroupSelected g (dh_Group dh)) (retS (acc\<lparr>ac_suite := Some suite\<rparr>))))
      (\<lambda>acc s. responding W cfg dh m s \<and> from_response cfg dh M acc s)"
    if "responding W cfg dh m t" "p = SAPayload props" "length props \<noteq> 0" for t props
    using that assms responding_fields [OF that(1)] unfolding Let_def
    by (intro triple_intros) (auto simp: from_response_def chosen_def)
  show ?thesis
  proof (cases p)
    case (SAPayload props)
    show ?thesis unfolding SAPayload sainit_payload_def payload.case
      by (rule triple_guard, rule triple_read_any, rule sel) (simp_all add: SAPayload)
  next
    case (KEPayload g d)
    then show ?thesis using assms
      by (auto simp: sainit_payload_def from_response_def
           intro!: triple_bind [where R = "\<lambda>_ s. responding W cfg dh m s \<and> from_response cfg dh M (acc\<lparr>ac_gotKE := True\<rparr>) s"] triple_intros)
  next
    case (NoncePayload d)
    then show ?thesis using assms
      by (auto simp: sainit_payload_def from_response_def
           intro!: triple_bind [where R = "\<lambda>_ s. responding W cfg dh m s \<and> from_response cfg dh M (acc\<lparr>ac_gotNonce := True\<rparr>) s"] triple_intros)
  qed (auto simp: sainit_payload_def from_response_def Let_def intro!: triple_intros split: option.split)
qed

lemma triple_sainit_loop:
  "set ps \<subseteq> set M \<Longrightarrow>
   triple (\<lambda>s. responding W cfg dh m s \<and> from_response cfg dh M acc s) (sainit_loop ps acc)
     (\<lambda>acc s. responding W cfg dh m s \<and> from_response cfg dh M acc s)"
proof (induction ps arbitrary: acc)
  case Nil
  show ?case by (auto intro: triple_intros)
next
  case (Cons p ps)
  show ?case unfolding sainit_loop.simps
    by (rule triple_bind [OF triple_sainit_payload Cons.IH]) (use Cons.prems in auto)
qed

text \<open>The keys of a session are those of its IKE\_SA\_INIT exchange.\<close>

definition sa_init_done :: "world \<Rightarrow> SessionConfig \<Rightarrow> Session \<Rightarrow> bool" where
  "sa_init_done W cfg s \<longleftrightarrow>
     (\<exists>dh m suite g shared sa.
        s_cfg s = cfg \<and> s_dh s = Some dh \<and> generated W (dh_Group dh) dh \<and> supportedDHGroup (dh_Group dh) \<and>
        offered W dh s \<and>
        received W (s_initSAInitRsp s) \<and> Parse (s_initSAInitRsp s) = Ok m \<and> Exchange m = ExchangeIKESAInit \<and>
        IsResponse (MFlags m) \<and> MessageID m = 0 \<and> InitiatorSPI m = s_initiatorSPI s \<and>
        ResponderSPI m = s_responderSPI s \<and> s_responderSPI s \<noteq> 0 \<and>
        chosen cfg dh (MPayloads m) suite \<and> KEPayload g (s_peerDHPub s) \<in> set (MPayloads m) \<and>
        NoncePayload (s_nonceR s) \<in> set (MPayloads m) \<and>
        Shared (w_curve W) dh (s_peerDHPub s) = Ok shared \<and>
        Derive (w_prims W) (su_id suite) Initiator (s_initiatorSPI s) (s_responderSPI s) (s_nonceI s) (s_nonceR s) shared = Ok sa \<and>
        s_ikeSA s = Some sa \<and> s_ikeDHGroup s = dh_Group dh)"

lemma Derive_total:
  assumes "prims_ok P"
  shows "panic_free (Derive P suite role spii spir ni nr sh)"
    and "Derive P suite role spii spir ni nr sh = Ok sa \<Longrightarrow> ike_ok sa \<and> ik_Role sa = role"
proof -
  have K: "panic_free (deriveFromSKEYSEED P suite role spii spir ni nr K)"
    "deriveFromSKEYSEED P suite role spii spir ni nr K = Ok sa \<Longrightarrow> ike_ok sa \<and> ik_Role sa = role" for K
    by (rule deriveFromSKEYSEED_Ok [OF assms, of suite role spii spir ni nr K]; simp add: panic_free_def)+
  show "panic_free (Derive P suite role spii spir ni nr sh)"
    by (auto simp: Derive_def Let_def K intro!: no_panic)
  show "Derive P suite role spii spir ni nr sh = Ok sa \<Longrightarrow> ike_ok sa \<and> ik_Role sa = role"
    by (auto simp: Derive_def Let_def dest: K(2) split: if_splits)
qed

text \<open>What the rest of the handshake starts from.\<close>

definition fresh_sa :: "Session \<Rightarrow> bool" where
  "fresh_sa s \<longleftrightarrow> (\<exists>sa. s_ikeSA s = Some sa \<and> ike_ok sa \<and> ik_Role sa = Initiator) \<and> s_conn s \<and>
     s_oldIKE s = None \<and> s_pending s = None \<and> s_child s = None \<and> \<not> s_established s \<and>
     (\<forall>u. Install u \<notin> set (s_out s)) \<and> s_oldIKEDelete s = None"

lemma triple_at: "(\<And>s. P s \<Longrightarrow> triple (\<lambda>t. t = s) m Q) \<Longrightarrow> triple P m Q"
  by (simp add: triple_def)

lemma sa_init_doneI:
  assumes "responding W cfg dh m s" "chosen cfg dh (MPayloads m) suite" "KEPayload g (s_peerDHPub s) \<in> set (MPayloads m)"
    and "NoncePayload (s_nonceR s) \<in> set (MPayloads m)" "Shared (w_curve W) dh (s_peerDHPub s) = Ok k"
    and "Derive (w_prims W) (su_id suite) Initiator (s_initiatorSPI s) (s_responderSPI s) (s_nonceI s) (s_nonceR s) k = Ok sa"
    and "ike_ok sa" "ik_Role sa = Initiator"
  shows "sa_init_done W cfg (s\<lparr>s_ikeSA := Some sa, s_ikeDHGroup := dh_Group dh\<rparr>) \<and>
     fresh_sa (s\<lparr>s_ikeSA := Some sa, s_ikeDHGroup := dh_Group dh\<rparr>)"
proof
  have r: "s_cfg s = cfg" "s_dh s = Some dh" "generated W (dh_Group dh) dh" "supportedDHGroup (dh_Group dh)" "offered W dh s"
    "received W (s_initSAInitRsp s)" "s_conn s" "pristine s"
    using assms(1) by (auto simp: responding_def replied_def ready_def keyed_dh_def)
  have "offered W dh (s\<lparr>s_ikeSA := Some sa, s_ikeDHGroup := dh_Group dh\<rparr>)" using r(5) by (simp add: offered_def)
  with r assms show "sa_init_done W cfg (s\<lparr>s_ikeSA := Some sa, s_ikeDHGroup := dh_Group dh\<rparr>)"
    unfolding sa_init_done_def responding_def
    by (intro exI [of _ dh] exI [of _ m] exI [of _ suite] exI [of _ g] exI [of _ k] exI [of _ sa]) simp
  show "fresh_sa (s\<lparr>s_ikeSA := Some sa, s_ikeDHGroup := dh_Group dh\<rparr>)"
    using r assms(7,8) by (simp add: fresh_sa_def pristine_def)
qed

lemma responding_dh:
  assumes "responding W cfg dh m s"
  shows "dh_ok dh"
proof -
  have "generated W (dh_Group dh) dh" using assms by (auto simp: responding_def replied_def ready_def keyed_dh_def)
  then show ?thesis unfolding generated_def using NewDH_ok by blast
qed

lemma triple_sainit_keys:
  assumes "prims_ok (w_prims W)"
  shows "triple (\<lambda>s. responding W cfg dh m s \<and> from_response cfg dh (MPayloads m) acc s) (sainit_keys W acc)
     (\<lambda>_ s. sa_init_done W cfg s \<and> fresh_sa s)"
proof (rule triple_at)
  fix s assume s: "responding W cfg dh m s \<and> from_response cfg dh (MPayloads m) acc s"
  have dh: "dh_ok dh" using s responding_dh by blast
  define s1 where "s1 = s\<lparr>s_natDetected := processNATDetection (w_sha1 W) (s_initiatorSPI s) (s_responderSPI s)
                (s_localAddr s) (s_remoteAddr s) (ac_nats acc) (s_natDetected s)\<rparr>"
  have s1: "responding W cfg dh m s1" "from_response cfg dh (MPayloads m) acc s1"
    using s by (simp_all add: s1_def from_response_def)
  have "triple (\<lambda>t. t = s) (thenS (modS (\<lambda>s. s\<lparr>s_natDetected := processNATDetection (w_sha1 W) (s_initiatorSPI s) (s_responderSPI s)
                (s_localAddr s) (s_remoteAddr s) (ac_nats acc) (s_natDetected s)\<rparr>))
             (readS (\<lambda>s. s) (\<lambda>s.
              derefS (s_dh s) (\<lambda>dh.
              bindS (liftS (wrapR ErrIKESA (Shared (w_curve W) dh (s_peerDHPub s)))) (\<lambda>shared.
              bindS (liftS (wrapR ErrIKESA (Derive (w_prims W) (su_id suite) Initiator (s_initiatorSPI s) (s_responderSPI s)
                (s_nonceI s) (s_nonceR s) shared))) (\<lambda>sa.
              modS (\<lambda>s. s\<lparr>s_ikeSA := Some sa, s_ikeDHGroup := dh_Group dh\<rparr>)))))))
     (\<lambda>_ s. sa_init_done W cfg s \<and> fresh_sa s)"
    if su: "ac_suite acc = Some suite" "ac_gotKE acc" "ac_gotNonce acc" for suite
  proof -
    obtain g where g: "chosen cfg dh (MPayloads m) suite" "KEPayload g (s_peerDHPub s1) \<in> set (MPayloads m)"
      "NoncePayload (s_nonceR s1) \<in> set (MPayloads m)" using s1(2) su by (auto simp: from_response_def)
    have d1: "s_dh s1 = Some dh" by (rule responding_fields(1) [OF s1(1)])
    define sh where "sh = Shared (w_curve W) dh (s_peerDHPub s1)"
    define dv where "dv = Derive (w_prims W) (su_id suite) Initiator (s_initiatorSPI s1) (s_responderSPI s1) (s_nonceI s1) (s_nonceR s1)"
    have pf: "panic_free sh" "panic_free (dv k)" for k
      using Shared_panic_free [OF dh] Derive_total(1) [OF assms] by (simp_all add: sh_def dv_def)
    have fin: "sa_init_done W cfg (s1\<lparr>s_ikeSA := Some sa, s_ikeDHGroup := dh_Group dh\<rparr>) \<and>
        fresh_sa (s1\<lparr>s_ikeSA := Some sa, s_ikeDHGroup := dh_Group dh\<rparr>)" if "sh = Ok k" "dv k = Ok sa" for k sa
      using that Derive_total(2) [OF assms that(2) [unfolded dv_def]] sa_init_doneI [OF s1(1) g, of k sa] by (simp add: sh_def dv_def)
    have "triple (\<lambda>t. t = s1) (bindS (liftS (wrapR ErrIKESA sh)) (\<lambda>k. bindS (liftS (wrapR ErrIKESA (dv k))) (\<lambda>sa.
        modS (\<lambda>s. s\<lparr>s_ikeSA := Some sa, s_ikeDHGroup := dh_Group dh\<rparr>))))
      (\<lambda>_ s. sa_init_done W cfg s \<and> fresh_sa s)"
    proof (rule triple_bind [where R = "\<lambda>k t. t = s1 \<and> sh = Ok k"], goal_cases)
      case 1
      show ?case by (rule triple_lift) (use pf in \<open>auto intro: no_panic\<close>)
    next
      case (2 k)
      show ?case
      proof (rule triple_bind [where R = "\<lambda>sa t. t = s1 \<and> sh = Ok k \<and> dv k = Ok sa"], goal_cases)
        case 1
        show ?case by (rule triple_lift) (use pf in \<open>auto intro: no_panic\<close>)
      next
        case (2 sa)
        show ?case by (rule triple_mod) (use fin in blast)
      qed
    qed
    then have run: "triple (\<lambda>t. t = s1) (readS (\<lambda>s. s) (\<lambda>s. derefS (s_dh s) (\<lambda>dh.
              bindS (liftS (wrapR ErrIKESA (Shared (w_curve W) dh (s_peerDHPub s)))) (\<lambda>shared.
              bindS (liftS (wrapR ErrIKESA (Derive (w_prims W) (su_id suite) Initiator (s_initiatorSPI s) (s_responderSPI s)
                (s_nonceI s) (s_nonceR s) shared))) (\<lambda>sa.
              modS (\<lambda>s. s\<lparr>s_ikeSA := Some sa, s_ikeDHGroup := dh_Group dh\<rparr>))))))
      (\<lambda>_ s. sa_init_done W cfg s \<and> fresh_sa s)"
      by (intro triple_read) (simp add: derefS_def d1 sh_def dv_def)
    show ?thesis
      by (rule triple_bind [where R = "\<lambda>_ t. t = s1"], rule triple_mod, simp add: s1_def, rule run)
  qed
  then show "triple (\<lambda>t. t = s) (sainit_keys W acc) (\<lambda>_ s. sa_init_done W cfg s \<and> fresh_sa s)"
    unfolding sainit_keys_def by (intro triple_intros) auto
qed

lemma triple_handleSAInitResponse:
  assumes "prims_ok (w_prims W)"
  shows "triple (\<lambda>s. replied W cfg s \<and> s_initSAInitRsp s = raw) (handleSAInitResponse W raw)
     (\<lambda>_ s. sa_init_done W cfg s \<and> fresh_sa s)"
proof (rule triple_at)
  fix s assume s: "replied W cfg s \<and> s_initSAInitRsp s = raw"
  then obtain dh where dh: "s_dh s = Some dh" by (auto simp: replied_def ready_def keyed_dh_def)
  have main: "triple (\<lambda>t. t = s) (thenS (modS (\<lambda>s. s\<lparr>s_responderSPI := ResponderSPI m\<rparr>))
      (bindS (sainit_loop (MPayloads m)
         \<lparr>ac_suite = None, ac_gotKE = False, ac_gotNonce = False, ac_nats = [], ac_err = None\<rparr>)
       (sainit_keys W))) (\<lambda>_ s. sa_init_done W cfg s \<and> fresh_sa s)"
    if m: "Parse raw = Ok m" "Exchange m = ExchangeIKESAInit" "IsResponse (MFlags m)" "InitiatorSPI m = s_initiatorSPI s"
      "MessageID m = 0" "ResponderSPI m \<noteq> 0" for m
    by (rule triple_bind [where R = "\<lambda>_ t. responding W cfg dh m t \<and> from_response cfg dh (MPayloads m)
          \<lparr>ac_suite = None, ac_gotKE = False, ac_gotNonce = False, ac_nats = [], ac_err = None\<rparr> t"],
        rule triple_mod, use s m dh in \<open>simp add: responding_def from_response_def\<close>,
        rule triple_bind [OF triple_sainit_loop triple_sainit_keys [OF assms]], rule subset_refl)
  show "triple (\<lambda>t. t = s) (handleSAInitResponse W raw) (\<lambda>_ s. sa_init_done W cfg s \<and> fresh_sa s)"
    unfolding handleSAInitResponse_def
  proof (rule triple_bind [where R = "\<lambda>m t. t = s \<and> Parse raw = Ok m"], goal_cases)
    case 1
    show ?case by (rule triple_lift) (auto intro!: no_panic)
  next
    case (2 m)
    show ?case
      by (rule triple_pre [where C = "Parse raw = Ok m"], simp,
          intro triple_guard triple_read_any, rule triple_weaken [OF main]) auto
  qed
qed

lemma triple_IKESAInit:
  assumes "prims_ok (w_prims W)"
  shows "triple (\<lambda>s. s_cfg s = cfg \<and> pristine s) (IKESAInit W E)
     (\<lambda>_ s. sa_init_done W cfg s \<and> fresh_sa s \<and> s_messageID s = 1)"
proof -
  have fin: "sa_init_done W cfg (s\<lparr>s_nattMode := b, s_messageID := 1\<rparr>) = sa_init_done W cfg s"
    "fresh_sa (s\<lparr>s_nattMode := b, s_messageID := 1\<rparr>) = fresh_sa s" for s b
    by (simp_all add: sa_init_done_def fresh_sa_def offered_def)
  have last: "triple (replied W cfg) (readS s_initSAInitRsp (\<lambda>rsp. thenS (handleSAInitResponse W rsp)
           (modS (\<lambda>s. s\<lparr>s_nattMode := migrateNATT (s_canMigrate s) (s_nattMode s), s_messageID := 1\<rparr>))))
     (\<lambda>_ s. sa_init_done W cfg s \<and> fresh_sa s \<and> s_messageID s = 1)"
    by (rule triple_read, rule triple_bind [where R = "\<lambda>_ s. sa_init_done W cfg s \<and> fresh_sa s"],
        rule triple_weaken [OF triple_handleSAInitResponse [OF assms]]) (auto intro!: triple_mod simp: fin)
  show ?thesis unfolding IKESAInit_def
    by (intro triple_read_any triple_sum triple_fail triple_bind [OF triple_sainit_dial]
        triple_bind [OF triple_sainit_fresh] triple_bind [OF triple_sainit_first] triple_prod
        triple_bind [OF triple_sainit_group] last)
qed

lemma pristine_New: "pristine (New_session cfg)"
  by (simp add: pristine_def New_session_def)

lemma New_cfg: "s_cfg (New_session cfg) = cfg"
  by (simp add: New_session_def)

section \<open>IKE\_AUTH\<close>

text \<open>
  During IKE\_AUTH the session keeps what IKE\_SA\_INIT left in \<open>s0\<close>; only the sequence number
  of its IKE SA advances.
\<close>

definition authing :: "Session \<Rightarrow> IKESA \<Rightarrow> Session \<Rightarrow> bool" where
  "authing s0 sa s \<longleftrightarrow>
     (\<exists>q. s_ikeSA s = Some (sa\<lparr>skSeq := q\<rparr>)) \<and> ike_ok sa \<and> ik_Role sa = Initiator \<and>
     s_cfg s = s_cfg s0 \<and> s_nonceI s = s_nonceI s0 \<and> s_nonceR s = s_nonceR s0 \<and>
     s_initSAInitReq s = s_initSAInitReq s0 \<and> s_initSAInitRsp s = s_initSAInitRsp s0 \<and>
     s_conn s \<and> s_oldIKE s = None \<and> s_pending s = None \<and> s_child s = None \<and> \<not> s_established s \<and>
     (\<forall>u. Install u \<notin> set (s_out s)) \<and> s_oldIKEDelete s = None"

lemma authing_refl: "fresh_sa s \<Longrightarrow> s_ikeSA s = Some sa \<Longrightarrow> authing s sa s"
  by (auto simp: fresh_sa_def authing_def intro: exI [of _ "skSeq sa"])

lemma quiet_authing:
  assumes "quiet s s'" "authing s0 sa s"
  shows "authing s0 sa s'"
proof -
  obtain k sa' old ds where s': "s' = s\<lparr>s_n := k, s_ikeSA := sa', s_oldIKE := old, s_out := s_out s @ map Sent ds\<rparr>"
    "rel_option same_keys (s_ikeSA s) sa'" "rel_option same_ctx (s_oldIKE s) old"
    using assms(1) unfolding quiet_def by blast
  obtain q where q: "s_ikeSA s = Some (sa\<lparr>skSeq := q\<rparr>)" using assms(2) by (auto simp: authing_def)
  obtain q' where "sa' = Some (sa\<lparr>skSeq := q'\<rparr>)" using s'(2) q by (auto simp: option_rel_Some1 same_keys_def)
  moreover have "old = None" using s'(3) assms(2) by (simp add: authing_def)
  ultimately show ?thesis using s'(1) assms(2) by (auto simp: authing_def)
qed

lemma authing_ikes: "authing s0 sa s \<Longrightarrow> ikes_ok s"
  by (auto simp: authing_def ikes_ok_def)

lemma authing_sa: "authing s0 sa s \<Longrightarrow> s_ikeSA s \<noteq> None"
  by (auto simp: authing_def)

lemma authing_frame [simp]:
  "authing s0 sa (s\<lparr>s_n := k\<rparr>) = authing s0 sa s" "authing s0 sa (s\<lparr>s_messageID := i\<rparr>) = authing s0 sa s"
  "authing s0 sa (s\<lparr>s_remoteIDr := w\<rparr>) = authing s0 sa s" "authing s0 sa (s\<lparr>s_childInitiatorSPI := j\<rparr>) = authing s0 sa s"
  by (simp_all add: authing_def)

text \<open>An inner payload chain that came in an answer to request \<open>mid\<close> and authenticated under the IKE SA.\<close>

definition heard :: "world \<Rightarrow> IKESA \<Rightarrow> Payloads \<Rightarrow> bool" where
  "heard W sa inner \<longleftrightarrow>
     (\<exists>raw mid m. received W raw \<and> answers mid raw \<and> decodeSKWith (w_prims W) sa raw = (Ok (m, inner), True))"

lemma keys_frame:
  "inboundIntegKey (sa\<lparr>skSeq := q\<rparr>) = inboundIntegKey sa" "inboundEncrKey (sa\<lparr>skSeq := q\<rparr>) = inboundEncrKey sa"
  by (simp_all add: inboundIntegKey_def inboundEncrKey_def)

lemma OpenSK_frame: "OpenSK P (sa\<lparr>skSeq := q\<rparr>) raw d = OpenSK P sa raw d"
proof -
  have "verifyChecksum P (sa\<lparr>skSeq := q\<rparr>) = verifyChecksum P sa" "decryptSK P (sa\<lparr>skSeq := q\<rparr>) = decryptSK P sa"
    by (simp_all add: verifyChecksum_def decryptSK_def keys_frame fun_eq_iff)
  moreover have "ik_Suite (sa\<lparr>skSeq := q\<rparr>) = ik_Suite sa" "ik_inAEAD (sa\<lparr>skSeq := q\<rparr>) = ik_inAEAD sa"
    "ik_inSalt (sa\<lparr>skSeq := q\<rparr>) = ik_inSalt sa" by simp_all
  ultimately show ?thesis unfolding OpenSK_def keys_frame by (simp only:)
qed

lemma decodeSKWith_frame: "decodeSKWith P (sa\<lparr>skSeq := q\<rparr>) raw = decodeSKWith P sa raw"
  unfolding decodeSKWith_def OpenSK_frame ..

lemma decodeSKWith_icv: "decodeSKWith P sa raw = (Ok x, b) \<Longrightarrow> b"
  by (auto simp: decodeSKWith_def Let_def split: res.splits option.splits prod.splits)

lemma triple_decodeS:
  assumes "prims_ok (w_prims W)" "received W raw" "answers mid raw"
  shows "triple (authing s0 sa) (decodeS W raw) (\<lambda>(m, inner, d) s. authing s0 sa s \<and> heard W sa inner)"
proof (rule tripleI)
  fix s assume s: "authing s0 sa s"
  then obtain q where q: "s_ikeSA s = Some (sa\<lparr>skSeq := q\<rparr>)" "s_oldIKE s = None" "ike_ok (sa\<lparr>skSeq := q\<rparr>)"
    by (auto simp: authing_def)
  define cur where "cur = \<lparr>cx_sa = sa\<lparr>skSeq := q\<rparr>, cx_spii = s_initiatorSPI s, cx_spir = s_responderSPI s\<rparr>"
  define dr where "dr = decodeIKE (w_prims W) cur None (s_oldIKEUntil s) (w_now W (s_n s)) raw"
  have run: "decodeS W raw s = (wrapR ErrProt dr, s\<lparr>s_n := Suc (s_n s)\<rparr>)"
    by (simp add: decodeS_def readS_def derefS_def bindS_def nowS_def tickS_def retS_def liftS_def curCtx_Some [OF q(1)] q(2) dr_def cur_def)
  have "dr \<noteq> Panic" using decodeIKE_total [OF assms(1), of cur None] q(3) by (simp add: dr_def cur_def panic_free_def)
  moreover have "heard W sa inner" if "dr = Ok (m, inner, d)" for m inner d
  proof -
    have "fst (decodeSKWith (w_prims W) sa raw) = Ok (m, inner)"
      using that by (auto simp: dr_def decodeIKE_def cur_def Let_def decodeSKWith_frame split: prod.splits res.splits)
    then have "decodeSKWith (w_prims W) sa raw = (Ok (m, inner), True)"
      using decodeSKWith_icv [of "w_prims W" sa raw] by (cases "decodeSKWith (w_prims W) sa raw") auto
    then show ?thesis using assms(2,3) unfolding heard_def by blast
  qed
  ultimately show "wp (decodeS W raw) (\<lambda>r s'. r \<noteq> Panic \<and> (\<forall>x. r = Ok x \<longrightarrow>
      (case x of (m, inner, d) \<Rightarrow> \<lambda>s. authing s0 sa s \<and> heard W sa inner) s')) s"
    using s by (auto simp: wp_def run)
qed

lemma triple_quiet: "quietS Cur m \<Longrightarrow> triple (authing s0 sa) m (\<lambda>_. authing s0 sa)"
  unfolding quietS_def triple_def by (blast intro: wp_mono quiet_authing authing_ikes)

lemma triple_exchangeSK:
  assumes "prims_ok (w_prims W)"
  shows "triple (authing s0 sa) (exchangeSK W ex mid inner) (\<lambda>ps s. authing s0 sa s \<and> heard W sa ps)"
  unfolding exchangeSK_def
proof (rule triple_bind [OF triple_quiet [OF quietS_encodeSK [OF assms]]], goal_cases)
  case (1 req)
  show ?case
  proof (rule triple_bind [where R = "\<lambda>raw s. authing s0 sa s \<and> received W raw \<and> answers mid raw"], goal_cases)
    case 1
    show ?case by (rule triple_exchange) (use quiet_authing silent_quiet in blast)
  next
    case (2 raw)
    show ?case
      by (rule triple_pre [where C = "received W raw \<and> answers mid raw"], blast,
          rule triple_bind [where R = "\<lambda>(m, inner, d) s. authing s0 sa s \<and> heard W sa inner"],
          rule triple_weaken [OF triple_decodeS [OF assms]])
         (auto intro!: triple_intros)
  qed
qed

subsection \<open>The EAP conversation\<close>

text \<open>\<open>expects\<close>: the proof the server owes for its challenge \<open>ach\<close> and the client's random octets.\<close>

definition expects :: "radius \<Rightarrow> bytes \<Rightarrow> bytes \<Rightarrow> bytes \<Rightarrow> bytes \<Rightarrow> bytes \<Rightarrow> bool" where
  "expects R user pass rnd ach resp \<longleftrightarrow>
     (\<exists>nt. r_GenerateNTResponse R ach (take peerChallengeLen rnd) user pass = Some nt \<and>
        r_GenerateAuthenticatorResponse R ach (take peerChallengeLen rnd) nt user pass = Some resp)"

text \<open>An EAP request in which the server delivers that proof.\<close>

definition proves :: "Packet \<Rightarrow> bytes \<Rightarrow> bool" where
  "proves pk resp \<longleftrightarrow> pk_Type pk = TypeMSCHAPv2 \<and> resp \<noteq> [] \<and>
     (\<exists>rest. messageBody (pk_Data pk) = (Ok (resp @ rest) :: (eap_err, bytes) res) \<and> pk_Data pk ! 0 = opSuccess)"

text \<open>The master session key comes from the password and a challenge of this conversation.\<close>

definition msk_inputs :: "world \<Rightarrow> radius \<Rightarrow> bytes \<Rightarrow> bytes \<Rightarrow> bytes \<Rightarrow> bytes \<Rightarrow> bool" where
  "msk_inputs W R user pass phh nt \<longleftrightarrow>
     (\<exists>n ach ucs2. r_GenerateNTResponse R ach (take peerChallengeLen (w_rand W n)) user pass = Some nt \<and>
        r_ToUTF16 R pass = Some ucs2 \<and> phh = r_NTPasswordHash R (r_NTPasswordHash R ucs2))"

definition mschap_inv :: "world \<Rightarrow> radius \<Rightarrow> bytes \<Rightarrow> bytes \<Rightarrow> (Packet \<Rightarrow> bool) \<Rightarrow> MSCHAPv2 \<Rightarrow> bool" where
  "mschap_inv W R user pass H m \<longleftrightarrow>
     ms_Username m = user \<and> ms_Password m = pass \<and>
     (ms_authResponse m \<noteq> [] \<longrightarrow> (\<exists>n ach. expects R user pass (w_rand W n) ach (ms_authResponse m))) \<and>
     (ms_passwordHashHash m \<noteq> [] \<and> ms_ntResponse m \<noteq> [] \<longrightarrow>
        msk_inputs W R user pass (ms_passwordHashHash m) (ms_ntResponse m)) \<and>
     (ms_authChecked m \<longrightarrow> (\<exists>n ach resp pk. expects R user pass (w_rand W n) ach resp \<and> H pk \<and> proves pk resp))"

lemma mschap_inv_New: "mschap_inv W R user pass H (NewMSCHAPv2 user pass)"
  by (simp add: mschap_inv_def NewMSCHAPv2_def)

lemma HandleChallenge_Ok:
  assumes "HandleChallenge R rnd req m = (Ok p, m')"
  obtains ach nt ucs2 resp where
    "r_GenerateNTResponse R ach (take peerChallengeLen rnd) (ms_Username m) (ms_Password m) = Some nt"
    "r_ToUTF16 R (ms_Password m) = Some ucs2"
    "r_GenerateAuthenticatorResponse R ach (take peerChallengeLen rnd) nt (ms_Username m) (ms_Password m) = Some resp"
    "m' = m\<lparr>ms_authChallenge := ach, ms_peerChallenge := take peerChallengeLen rnd, ms_ntResponse := nt,
       ms_passwordHashHash := r_NTPasswordHash R (r_NTPasswordHash R ucs2), ms_authResponse := resp\<rparr>"
  using assms
  by (auto simp: HandleChallenge_def guardS_def failS_def bindS_def modS_def liftS_def readS_def retS_def ReadFull_def Let_def
      split: if_splits option.splits res.splits)

lemma HandleSuccess_Ok:
  assumes "HandleSuccess req m = (Ok p, m')"
  shows "proves req (ms_authResponse m)" "m' = m\<lparr>ms_authChecked := True\<rparr>"
proof -
  obtain msg where msg: "messageBody (pk_Data req) = (Ok msg :: (eap_err, bytes) res)" "ms_authResponse m \<noteq> []"
    "take (length (ms_authResponse m)) msg = ms_authResponse m" "pk_Type req = TypeMSCHAPv2" "pk_Data req ! 0 = opSuccess"
    and m': "m' = m\<lparr>ms_authChecked := True\<rparr>"
    using assms
    by (auto simp: HandleSuccess_def guardS_def failS_def bindS_def modS_def liftS_def readS_def retS_def Let_def
        split: if_splits res.splits)
  have "messageBody (pk_Data req) = (Ok (ms_authResponse m @ drop (length (ms_authResponse m)) msg) :: (eap_err, bytes) res)"
    using msg(1) append_take_drop_id [of "length (ms_authResponse m)" msg] unfolding msg(3) by simp
  then show "proves req (ms_authResponse m)" using msg unfolding proves_def by blast
  show "m' = m\<lparr>ms_authChecked := True\<rparr>" by (rule m')
qed

lemma buildEAPResponse_inv:
  assumes "mschap_inv W R user pass H m" "H req" "buildEAPResponse R (w_rand W n) req m = (Ok p, m')"
  shows "mschap_inv W R user pass H m'"
proof -
  consider (challenge) "HandleChallenge R (w_rand W n) req m = (Ok p, m')" | (success) "HandleSuccess req m = (Ok p, m')" | (other) "m' = m"
    using assms(3)
    by (auto simp: buildEAPResponse_def guardS_def failS_def readS_def retS_def Let_def split: if_splits)
  then show ?thesis
  proof cases
    case challenge
    then show ?thesis
    proof (rule HandleChallenge_Ok, goal_cases)
      case (1 ach nt ucs2 resp)
      moreover have "expects R user pass (w_rand W n) ach resp" "msk_inputs W R user pass (r_NTPasswordHash R (r_NTPasswordHash R ucs2)) nt"
        using 1(1-3) assms(1) by (auto simp: expects_def msk_inputs_def mschap_inv_def)
      ultimately show ?thesis using assms(1) unfolding mschap_inv_def by auto
    qed
  next
    case success
    from HandleSuccess_Ok [OF this] have "proves req (ms_authResponse m)" "m' = m\<lparr>ms_authChecked := True\<rparr>" by auto
    moreover from this have "ms_authResponse m \<noteq> []" by (simp add: proves_def)
    ultimately show ?thesis using assms(1,2) unfolding mschap_inv_def by auto
  qed (use assms(1) in simp)
qed

lemma buildEAPResponse_total: "buildEAPResponse R rnd req m = (r, m') \<Longrightarrow> r \<noteq> Panic"
  using holdsD [OF keeps_buildEAPResponse] by blast

subsection \<open>The final response\<close>

text \<open>The responder's shared-secret AUTH over the IKE\_SA\_INIT response, our nonce and its identity.\<close>

definition responder_auth :: "world \<Rightarrow> Session \<Rightarrow> IKESA \<Rightarrow> bytes \<Rightarrow> WireID \<Rightarrow> Payloads \<Rightarrow> bool" where
  "responder_auth W s0 sa secret idr inner \<longleftrightarrow>
     AuthPayload MethodSharedKeyMIC (SharedSecretAuth (prf_HMAC (w_prims W)) secret
       (responderSignedOctets W s0 sa (MarshalIDBody (wi_Type idr) (wi_Data idr)))) \<in> set inner \<and>
     (wi_Type idr \<noteq> 0 \<or> wi_Data idr \<noteq> [])"

text \<open>The Child SA that comes of it.\<close>

definition first_child :: "world \<Rightarrow> Session \<Rightarrow> IKESA \<Rightarrow> Payloads \<Rightarrow> Session \<Rightarrow> bool" where
  "first_child W s0 sa inner s \<longleftrightarrow>
     (\<exists>props suite keys. SAPayload props \<in> set inner \<and> props \<noteq> [] \<and>
        selectedSuite (props ! 0) (enabledESPSuites (s_cfg s0)) = Some suite \<and> length (pr_SPI (props ! 0)) = 4 \<and>
        DeriveChildKeys (w_prims W) sa (s_nonceI s0) (s_nonceR s0) (su_encrKeyLen suite) (su_integKeyLen suite) = Ok keys \<and>
        s_child s = Some \<lparr>ch_InitiatorSPI = s_childInitiatorSPI s, ch_ResponderSPI = Uint32 (pr_SPI (props ! 0)),
          ch_Suite = su_id suite, ch_Keys = keys\<rparr>)"

definition completed :: "world \<Rightarrow> Session \<Rightarrow> IKESA \<Rightarrow> bytes \<Rightarrow> Payloads \<Rightarrow> Session \<Rightarrow> bool" where
  "completed W s0 sa secret inner s \<longleftrightarrow>
     s_established s \<and> responder_auth W s0 sa secret (s_remoteIDr s) inner \<and> first_child W s0 sa inner s \<and>
     (\<exists>q. s_ikeSA s = Some (sa\<lparr>skSeq := q\<rparr>)) \<and> session_ok (s\<lparr>s_dataPlane := True\<rparr>) \<and> s_conn s"

lemma final_loop_from:
  "final_loop ps acc = Ok acc' \<Longrightarrow>
   (\<forall>m a. fa_auth acc' = Some (m, a) \<longrightarrow> fa_auth acc = Some (m, a) \<or> AuthPayload m a \<in> set ps) \<and>
   (\<forall>props. fa_sa acc' = Some props \<longrightarrow> fa_sa acc = Some props \<or> SAPayload props \<in> set ps)"
proof (induction ps arbitrary: acc)
  case (Cons p ps)
  then show ?case by (cases p) (fastforce split: option.splits)+
qed simp

lemma final_loop_total [no_panic]: "panic_free (final_loop ps acc)"
  by (induction ps arbitrary: acc) (auto simp: panic_free_def split: payload.split option.split)

lemma deriveChildKeys_frame: "deriveChildKeys P (sa\<lparr>skSeq := q\<rparr>) = deriveChildKeys P sa"
  by (simp add: deriveChildKeys_def fun_eq_iff)

lemma signed_frame: "authing s0 sa s \<Longrightarrow> responderSignedOctets W s (sa\<lparr>skSeq := q\<rparr>) x = responderSignedOctets W s0 sa x"
  by (simp add: responderSignedOctets_def authing_def)

lemma triple_final_install:
  assumes W: "prims_ok (w_prims W)" and acc: "\<And>props. fa_sa acc = Some props \<Longrightarrow> SAPayload props \<in> set inner"
    and auth: "responder_auth W s0 sa secret idr inner"
  shows "triple (\<lambda>s. authing s0 sa s \<and> s_remoteIDr s = idr) (final_install W acc) (\<lambda>_. completed W s0 sa secret inner)"
proof (rule triple_at)
  fix s assume s: "authing s0 sa s \<and> s_remoteIDr s = idr"
  then obtain q where q: "s_ikeSA s = Some (sa\<lparr>skSeq := q\<rparr>)" by (auto simp: authing_def)
  have fin: "completed W s0 sa secret inner (t\<lparr>s_established := True\<rparr>)"
    if t: "t = s\<lparr>s_child := Some \<lparr>ch_InitiatorSPI = s_childInitiatorSPI s, ch_ResponderSPI = Uint32 spi,
          ch_Suite = su_id suite, ch_Keys = keys\<rparr>, s_assigned := a\<rparr>"
      and p: "SAPayload props \<in> set inner" "props \<noteq> []" "selectedSuite (props ! 0) (enabledESPSuites (s_cfg s)) = Some suite"
      "spi = pr_SPI (props ! 0)" "length spi = 4"
      and k: "DeriveChildKeys (w_prims W) sa (s_nonceI s) (s_nonceR s) (su_encrKeyLen suite) (su_integKeyLen suite) = Ok keys"
    for t spi suite keys a props
  proof -
    have "suite \<in> set espSuites"
      using selectedSuite_in [OF p(3)] enabledSuites_subset unfolding enabledESPSuites_def by blast
    then have "child_ok \<lparr>ch_InitiatorSPI = s_childInitiatorSPI s, ch_ResponderSPI = Uint32 spi, ch_Suite = su_id suite, ch_Keys = keys\<rparr>"
      using k deriveChildKeys_suite [OF W, of suite sa "[]" "s_nonceI s" "s_nonceR s"]
      by (auto simp: child_ok_def DeriveChildKeys_def)
    moreover have "first_child W s0 sa inner (t\<lparr>s_established := True\<rparr>)"
      using p k s unfolding first_child_def t authing_def
      by (intro exI [of _ props] exI [of _ suite] exI [of _ keys]) simp
    ultimately show ?thesis using s q auth
      by (auto simp: completed_def t session_ok_def ikes_ok_def authing_def)
  qed
  show "triple (\<lambda>t. t = s) (final_install W acc) (\<lambda>_. completed W s0 sa secret inner)"
  proof (cases "\<exists>props suite. fa_sa acc = Some props \<and> props \<noteq> [] \<and>
      selectedSuite (props ! 0) (enabledESPSuites (s_cfg s)) = Some suite \<and> length (pr_SPI (props ! 0)) = 4")
    case False
    then show ?thesis by (auto simp: triple_def final_install_def wp_simps Let_def split: option.split)
  next
    case True
    then obtain props suite where p: "fa_sa acc = Some props" "props \<noteq> []"
      "selectedSuite (props ! 0) (enabledESPSuites (s_cfg s)) = Some suite" "length (pr_SPI (props ! 0)) = 4" by blast
    define dk where "dk = DeriveChildKeys (w_prims W) sa (s_nonceI s) (s_nonceR s) (su_encrKeyLen suite) (su_integKeyLen suite)"
    have dk: "DeriveChildKeys (w_prims W) (sa\<lparr>skSeq := q\<rparr>) (s_nonceI s) (s_nonceR s) (su_encrKeyLen suite) (su_integKeyLen suite) = dk"
      by (simp add: dk_def DeriveChildKeys_def deriveChildKeys_frame)
    have "suite \<in> set espSuites"
      using selectedSuite_in [OF p(3)] enabledSuites_subset unfolding enabledESPSuites_def by blast
    then obtain keys where keys: "dk = Ok keys"
      using deriveChildKeys_suite [OF W, of suite sa "[]" "s_nonceI s" "s_nonceR s"] by (auto simp: dk_def DeriveChildKeys_def)
    define ch where "ch = \<lparr>ch_InitiatorSPI = s_childInitiatorSPI s, ch_ResponderSPI = Uint32 (pr_SPI (props ! 0)),
      ch_Suite = su_id suite, ch_Keys = keys\<rparr>"
    define as where "as = (case fa_cp acc of None \<Rightarrow> s_assigned s | Some attrs \<Rightarrow> parseCPReply attrs)"
    have "final_install W acc s = (Ok (), s\<lparr>s_child := Some ch, s_assigned := as, s_established := True\<rparr>)"
      using p q by (cases "fa_cp acc")
        (simp_all add: final_install_def guardS_def readS_def derefS_def bindS_def liftS_def modS_def retS_def be_Uint32_def
           dk keys ch_def as_def Let_def)
    moreover have "completed W s0 sa secret inner (s\<lparr>s_child := Some ch, s_assigned := as, s_established := True\<rparr>)"
      using fin [OF refl acc [OF p(1)] p(2,3) refl p(4), of keys as] keys by (simp add: ch_def dk_def)
    ultimately show ?thesis by (simp add: triple_def wp_def)
  qed
qed

lemma triple_handleFinalAuthResponse:
  assumes W: "prims_ok (w_prims W)"
  shows "triple (authing s0 sa) (handleFinalAuthResponse W inner secret) (\<lambda>_. completed W s0 sa secret inner)"
proof -
  have tail: "triple (authing s0 sa) (readS (\<lambda>s. s) (\<lambda>s.
          let r = s_remoteIDr s in
          guardS (wi_Type r = 0 \<and> length (wi_Data r) = 0) ErrMissingIDr
          (derefS (s_ikeSA s) (\<lambda>sa.
           let respSigned = responderSignedOctets W s sa (MarshalIDBody (wi_Type r) (wi_Data r));
               want = SharedSecretAuth (prf_HMAC (w_prims W)) secret respSigned in
           guardS (meth \<noteq> MethodSharedKeyMIC \<or> \<not> constTimeEqual a want) ErrAuthFailed
           (final_install W acc))))) (\<lambda>_. completed W s0 sa secret inner)"
    if acc: "final_loop inner emptyFinal = Ok acc" "fa_auth acc = Some (meth, a)" for acc meth a
  proof (rule triple_read)
    fix t assume t: "authing s0 sa t"
    then obtain q where q: "s_ikeSA t = Some (sa\<lparr>skSeq := q\<rparr>)" by (auto simp: authing_def)
    have m: "AuthPayload meth a \<in> set inner" "\<And>props. fa_sa acc = Some props \<Longrightarrow> SAPayload props \<in> set inner"
      using final_loop_from [OF acc(1)] acc(2) by (auto simp: emptyFinal_def)
    show "triple (\<lambda>s. s = t) (let r = s_remoteIDr t in
          guardS (wi_Type r = 0 \<and> length (wi_Data r) = 0) ErrMissingIDr
          (derefS (s_ikeSA t) (\<lambda>sa.
           let respSigned = responderSignedOctets W t sa (MarshalIDBody (wi_Type r) (wi_Data r));
               want = SharedSecretAuth (prf_HMAC (w_prims W)) secret respSigned in
           guardS (meth \<noteq> MethodSharedKeyMIC \<or> \<not> constTimeEqual a want) ErrAuthFailed
           (final_install W acc)))) (\<lambda>_. completed W s0 sa secret inner)"
      unfolding Let_def q derefS_def option.case signed_frame [OF t]
      by (intro triple_guard triple_weaken [OF triple_final_install [OF W m(2)]])
         (use t m(1) in \<open>auto simp: responder_auth_def\<close>)
  qed
  show ?thesis unfolding handleFinalAuthResponse_def
  proof (rule triple_bind [where R = "\<lambda>acc s. authing s0 sa s \<and> final_loop inner emptyFinal = Ok acc"], goal_cases)
    case 1
    show ?case by (rule triple_lift) (auto intro: no_panic)
  next
    case (2 acc)
    show ?case
    proof (rule triple_pre [where C = "final_loop inner emptyFinal = Ok acc"], simp, intro triple_option triple_fail triple_prod,
        rule triple_bind [where R = "\<lambda>_. authing s0 sa"], goal_cases)
      case (1 y meth a)
      then show ?case by (auto intro!: triple_intros split: option.split)
    next
      case (2 y meth a)
      then show ?case using tail [of acc meth a] by simp
    qed
  qed
qed

subsection \<open>Authentication by certificate and by password\<close>

text \<open>
  The responder's certificate chain was verified for the configured name, and its key signed
  the octets of this exchange.
\<close>

definition cert_auth :: "world \<Rightarrow> env \<Rightarrow> Session \<Rightarrow> IKESA \<Rightarrow> Payloads \<Rightarrow> bool" where
  "cert_auth W E s0 sa inner \<longleftrightarrow>
     (\<exists>certs leaf n meth a t d. set certs \<subseteq> {c. \<exists>e. CertPayload e c \<in> set inner} \<and>
        IDrPayload t d \<in> set inner \<and> AuthPayload meth a \<in> set inner \<and>
        trusted (e_x509 E) (cf_RootCAs (s_cfg s0)) (peerName (cf_RemoteID (s_cfg s0))) (w_wall W n) certs leaf \<and>
        VerifyCertAuth (e_x509 E) meth a (responderSignedOctets W s0 sa (MarshalIDBody t d)) leaf = Ok ())"

lemma auth_loop_from:
  "auth_loop ps acc = Ok acc' \<Longrightarrow>
   (\<forall>t d. aa_idr acc' = Some (t, d) \<longrightarrow> aa_idr acc = Some (t, d) \<or> IDrPayload t d \<in> set ps) \<and>
   (\<forall>m a. aa_auth acc' = Some (m, a) \<longrightarrow> aa_auth acc = Some (m, a) \<or> AuthPayload m a \<in> set ps) \<and>
   set (aa_certs acc') \<subseteq> set (aa_certs acc) \<union> {c. \<exists>e. CertPayload e c \<in> set ps}"
proof (induction ps arbitrary: acc)
  case (Cons p ps)
  then show ?case by (cases p) (fastforce split: option.splits)+
qed simp

lemma auth_loop_total [no_panic]: "panic_free (auth_loop ps acc)"
  by (induction ps arbitrary: acc) (auto simp: panic_free_def split: payload.split option.split)

lemma firstEAP_total [no_panic]: "panic_free (firstEAP ps)"
  by (induction ps rule: firstEAP.induct) (auto intro!: no_panic)

lemma triple_clock_bind:
  "(\<And>n. triple P (f (w_now W n, w_wall W n)) Q) \<Longrightarrow> (\<And>s k. P s \<Longrightarrow> P (s\<lparr>s_n := k\<rparr>)) \<Longrightarrow> triple P (bindS (clockS W) f) Q"
  by (simp add: triple_def wp_simps)

lemma triple_handleAuthResponse:
  "triple (authing s0 sa) (handleAuthResponse W E inner)
     (\<lambda>pk s. authing s0 sa s \<and> cert_auth W E s0 sa inner \<and> firstEAP inner = Ok (Some pk))"
proof -
  define init where "init = \<lparr>aa_idr = None, aa_auth = None, aa_certs = []\<rparr>"
  have tail: "triple (authing s0 sa) (readS (\<lambda>s. s) (\<lambda>s.
          bindS (liftS (wrapR ErrServerChain (VerifyServerChain (e_x509 E) (aa_certs acc) (cf_RootCAs (s_cfg s))
            (peerName (cf_RemoteID (s_cfg s))) (w_wall W n)))) (\<lambda>leaf.
          case aa_auth acc of
            None \<Rightarrow> failS ErrMissingAuth
          | Some (meth, a) \<Rightarrow>
              derefS (s_ikeSA s) (\<lambda>sa.
              bindS (liftS (wrapR ErrCertAuth (VerifyCertAuth (e_x509 E) meth a
                (responderSignedOctets W s sa (MarshalIDBody t d)) leaf))) (\<lambda>_.
              bindS (liftS (firstEAP inner)) (\<lambda>eapReq.
              case eapReq of None \<Rightarrow> failS ErrMissingEAP | Some p \<Rightarrow> retS p))))))
     (\<lambda>pk s. authing s0 sa s \<and> cert_auth W E s0 sa inner \<and> firstEAP inner = Ok (Some pk))"
    if acc: "auth_loop inner init = Ok acc" "aa_idr acc = Some (t, d)" for acc t d n
  proof (rule triple_read)
    fix s assume s: "authing s0 sa s"
    then obtain q where q: "s_ikeSA s = Some (sa\<lparr>skSeq := q\<rparr>)" and cfg: "s_cfg s = s_cfg s0" by (auto simp: authing_def)
    define vc where "vc = VerifyServerChain (e_x509 E) (aa_certs acc) (cf_RootCAs (s_cfg s0)) (peerName (cf_RemoteID (s_cfg s0))) (w_wall W n)"
    define va where "va = (\<lambda>meth a. VerifyCertAuth (e_x509 E) meth a (responderSignedOctets W s0 sa (MarshalIDBody t d)))"
    have pf: "panic_free vc" "panic_free (va meth a leaf)" for meth a leaf
      by (simp_all add: vc_def va_def VerifyServerChain_total VerifyCertAuth_total)
    have ev: "cert_auth W E s0 sa inner" if "vc = Ok leaf" "aa_auth acc = Some (meth, a)" "va meth a leaf = Ok ()" for leaf meth a
      unfolding cert_auth_def using that auth_loop_from [OF acc(1)] acc(2)
      by (intro exI [of _ "aa_certs acc"] exI [of _ leaf] exI [of _ n] exI [of _ meth] exI [of _ a] exI [of _ t] exI [of _ d])
         (auto simp: init_def vc_def va_def VerifyServerChain_iff)
    have "triple (\<lambda>t. t = s) (bindS (liftS (wrapR ErrServerChain vc)) (\<lambda>leaf.
          case aa_auth acc of
            None \<Rightarrow> failS ErrMissingAuth
          | Some (meth, a) \<Rightarrow>
              bindS (liftS (wrapR ErrCertAuth (va meth a leaf))) (\<lambda>_.
              bindS (liftS (firstEAP inner)) (\<lambda>eapReq.
              case eapReq of None \<Rightarrow> failS ErrMissingEAP | Some p \<Rightarrow> retS p))))
        (\<lambda>pk s. authing s0 sa s \<and> cert_auth W E s0 sa inner \<and> firstEAP inner = Ok (Some pk))"
      using s ev pf firstEAP_total [of inner]
      by (auto simp: triple_def wp_simps panic_free_def split: res.splits option.splits prod.splits)
    then show "triple (\<lambda>t. t = s) (bindS (liftS (wrapR ErrServerChain (VerifyServerChain (e_x509 E) (aa_certs acc) (cf_RootCAs (s_cfg s))
            (peerName (cf_RemoteID (s_cfg s))) (w_wall W n)))) (\<lambda>leaf.
          case aa_auth acc of
            None \<Rightarrow> failS ErrMissingAuth
          | Some (meth, a) \<Rightarrow>
              derefS (s_ikeSA s) (\<lambda>sa.
              bindS (liftS (wrapR ErrCertAuth (VerifyCertAuth (e_x509 E) meth a
                (responderSignedOctets W s sa (MarshalIDBody t d)) leaf))) (\<lambda>_.
              bindS (liftS (firstEAP inner)) (\<lambda>eapReq.
              case eapReq of None \<Rightarrow> failS ErrMissingEAP | Some p \<Rightarrow> retS p)))))
        (\<lambda>pk s. authing s0 sa s \<and> cert_auth W E s0 sa inner \<and> firstEAP inner = Ok (Some pk))"
      unfolding q derefS_def option.case signed_frame [OF s] cfg vc_def va_def .
  qed
  show ?thesis unfolding handleAuthResponse_def init_def [symmetric]
  proof (rule triple_bind [where R = "\<lambda>acc s. authing s0 sa s \<and> auth_loop inner init = Ok acc"], goal_cases)
    case 1
    show ?case by (rule triple_lift) (auto intro: no_panic)
  next
    case (2 acc)
    show ?case
    proof (rule triple_pre [where C = "auth_loop inner init = Ok acc"], simp, intro triple_option triple_fail triple_prod,
        rule triple_bind [where R = "\<lambda>_. authing s0 sa"], goal_cases)
      case 1
      show ?case by (auto intro!: triple_intros)
    next
      case (2 y t d u)
      show ?case
        by (rule triple_clock_bind, unfold prod.case, rule tail) (use 2 in simp_all)
    qed
  qed
qed

text \<open>
  The responder has proved in this conversation that it knows the password, and the secret is
  the master session key of the password and a challenge of this conversation.
\<close>

definition eap_heard :: "world \<Rightarrow> IKESA \<Rightarrow> Packet \<Rightarrow> bool" where
  "eap_heard W sa pk \<longleftrightarrow> (\<exists>inner. heard W sa inner \<and> firstEAP inner = Ok (Some pk))"

definition password_auth :: "world \<Rightarrow> env \<Rightarrow> SessionConfig \<Rightarrow> IKESA \<Rightarrow> bytes \<Rightarrow> bool" where
  "password_auth W E cfg sa secret \<longleftrightarrow>
     (\<exists>phh nt. msk_inputs W (e_radius E) (cf_EAPUser cfg) (cf_EAPPass cfg) phh nt \<and> DeriveMSK (e_radius E) phh nt = Ok secret) \<and>
     (\<exists>n ach resp pk. expects (e_radius E) (cf_EAPUser cfg) (cf_EAPPass cfg) (w_rand W n) ach resp \<and>
        eap_heard W sa pk \<and> proves pk resp)"

definition eap_done :: "world \<Rightarrow> env \<Rightarrow> SessionConfig \<Rightarrow> IKESA \<Rightarrow> MSCHAPv2 \<Rightarrow> bool" where
  "eap_done W E cfg sa m \<longleftrightarrow>
     mschap_inv W (e_radius E) (cf_EAPUser cfg) (cf_EAPPass cfg) (eap_heard W sa) m \<and>
     (ms_passwordHashHash m \<noteq> [] \<and> ms_ntResponse m \<noteq> [] \<longrightarrow> ms_authChecked m)"

lemma triple_nextMessageID: "triple (authing s0 sa) nextMessageID (\<lambda>_. authing s0 sa)"
  unfolding nextMessageID_def by (rule triple_mod) simp

lemma triple_round:
  assumes "prims_ok (w_prims W)" "\<And>resp. heard W sa resp \<Longrightarrow> triple (authing s0 sa) (k resp) Q"
  shows "triple (authing s0 sa) (bindS (exchangeSK W ex mid inner) (\<lambda>resp. thenS nextMessageID (k resp))) Q"
proof (rule triple_bind [OF triple_exchangeSK [OF assms(1)]], goal_cases)
  case (1 resp)
  show ?case
    by (rule triple_pre [where C = "heard W sa resp"], simp, rule triple_bind [where R = "\<lambda>_. authing s0 sa"],
        rule triple_weaken [OF triple_nextMessageID]) (auto intro: assms(2))
qed

lemma triple_eap_loop:
  assumes W: "prims_ok (w_prims W)"
  shows "mschap_inv W (e_radius E) (cf_EAPUser cfg) (cf_EAPPass cfg) (eap_heard W sa) m \<Longrightarrow> eap_heard W sa req \<Longrightarrow>
     triple (authing s0 sa) (eap_loop W E k m req) (\<lambda>m s. authing s0 sa s \<and> eap_done W E cfg sa m)"
proof (induction k arbitrary: m req)
  case 0
  show ?case by (simp add: triple_fail)
next
  case (Suc k)
  have step: "triple (authing s0 sa)
        (readS s_messageID (\<lambda>mid.
         bindS (exchangeSK W ExchangeIKEAuth mid [EAPPayload (eap_Marshal p)]) (\<lambda>resp.
         thenS nextMessageID
         (case firstNotifyError resp of
            Some e \<Rightarrow> failS e
          | None \<Rightarrow>
              bindS (liftS (firstEAP resp)) (\<lambda>nxt.
              case nxt of None \<Rightarrow> failS ErrMissingEAP | Some p \<Rightarrow> eap_loop W E k m' p)))))
      (\<lambda>m s. authing s0 sa s \<and> eap_done W E cfg sa m)"
    if m': "mschap_inv W (e_radius E) (cf_EAPUser cfg) (cf_EAPPass cfg) (eap_heard W sa) m'" for m' p
    by (rule triple_read_any, rule triple_round [OF W], intro triple_option triple_fail,
        rule_tac R = "\<lambda>nxt s. authing s0 sa s \<and> firstEAP resp = Ok nxt" in triple_bind,
        rule triple_lift [OF firstEAP_total], simp, rule_tac C = "firstEAP resp = Ok x" in triple_pre, simp,
        intro triple_option triple_fail, rule triple_weaken [OF Suc.IH [OF m']])
       (auto simp: eap_heard_def)
  have build: "triple (authing s0 sa)
       (case buildEAPResponse (e_radius E) (w_rand W n) req m of (r, m') \<Rightarrow>
         bindS (liftS (wrapR ErrEAP r)) (\<lambda>p.
         readS s_messageID (\<lambda>mid.
         bindS (exchangeSK W ExchangeIKEAuth mid [EAPPayload (eap_Marshal p)]) (\<lambda>resp.
         thenS nextMessageID
         (case firstNotifyError resp of
            Some e \<Rightarrow> failS e
          | None \<Rightarrow>
              bindS (liftS (firstEAP resp)) (\<lambda>nxt.
              case nxt of None \<Rightarrow> failS ErrMissingEAP | Some p \<Rightarrow> eap_loop W E k m' p))))))
      (\<lambda>m s. authing s0 sa s \<and> eap_done W E cfg sa m)" for n
  proof (rule triple_prod)
    fix r m' assume b: "buildEAPResponse (e_radius E) (w_rand W n) req m = (r, m')"
    show "triple (authing s0 sa)
         (bindS (liftS (wrapR ErrEAP r)) (\<lambda>p.
         readS s_messageID (\<lambda>mid.
         bindS (exchangeSK W ExchangeIKEAuth mid [EAPPayload (eap_Marshal p)]) (\<lambda>resp.
         thenS nextMessageID
         (case firstNotifyError resp of
            Some e \<Rightarrow> failS e
          | None \<Rightarrow>
              bindS (liftS (firstEAP resp)) (\<lambda>nxt.
              case nxt of None \<Rightarrow> failS ErrMissingEAP | Some p \<Rightarrow> eap_loop W E k m' p))))))
      (\<lambda>m s. authing s0 sa s \<and> eap_done W E cfg sa m)"
    proof (cases r)
      case (Ok p)
      then show ?thesis using step [OF buildEAPResponse_inv [OF Suc.prems b [unfolded Ok]], of p]
        by (simp add: bindS_def liftS_def)
    qed (use buildEAPResponse_total [OF b] in \<open>auto simp: triple_def wp_simps\<close>)
  qed
  show ?case unfolding eap_loop.simps
  proof (rule triple_if, goal_cases)
    case 1
    then show ?case using Suc.prems by (auto simp: MSKInputs_def Verified_def eap_done_def intro!: triple_intros)
  next
    case 2
    show ?case
      by (rule triple_guard, rule triple_bind [where R = "\<lambda>_. authing s0 sa"], rule triple_tick, simp, rule build)
  qed
qed

lemma triple_eap_finish:
  assumes W: "prims_ok (w_prims W)" and m: "eap_done W E (s_cfg s0) sa m"
  shows "triple (authing s0 sa) (eap_finish W E m)
     (\<lambda>_ s. \<exists>secret inner. heard W sa inner \<and> completed W s0 sa secret inner s \<and> password_auth W E (s_cfg s0) sa secret)"
proof -
  define msk where "msk = DeriveMSK (e_radius E) (ms_passwordHashHash m) (ms_ntResponse m)"
  have ev: "password_auth W E (s_cfg s0) sa secret" if "msk = Ok secret" for secret
  proof -
    have "ms_passwordHashHash m \<noteq> []" "ms_ntResponse m \<noteq> []"
      using that by (auto simp: msk_def DeriveMSK_def)
    then show ?thesis using m that unfolding eap_done_def mschap_inv_def password_auth_def msk_def by blast
  qed
  show ?thesis unfolding eap_finish_def MSKInputs_def prod.case msk_def [symmetric]
  proof (rule triple_bind [where R = "\<lambda>x s. authing s0 sa s \<and> msk = Ok x"], goal_cases)
    case 1
    show ?case by (rule triple_lift) (auto simp: msk_def intro: no_panic)
  next
    case (2 secret)
    have "triple (authing s0 sa) (readS (\<lambda>s. s) (\<lambda>s. derefS (s_ikeSA s) (\<lambda>sa.
      bindS (exchangeSK W ExchangeIKEAuth (s_messageID s)
        [AuthPayload MethodSharedKeyMIC (computeInitiatorAuth W s sa secret)]) (\<lambda>finalResp.
      thenS nextMessageID (handleFinalAuthResponse W finalResp secret)))))
      (\<lambda>_ s. \<exists>inner. heard W sa inner \<and> completed W s0 sa secret inner s)"
      by (intro triple_read_any triple_deref triple_round [OF W] triple_weaken [OF triple_handleFinalAuthResponse [OF W]])
         (auto simp: authing_sa)
    then show ?case
      by (rule_tac C = "msk = Ok secret" in triple_pre, simp) (erule triple_weaken, simp, use ev in blast)
  qed
qed

lemma triple_allocChildSPI:
  "triple (authing s0 sa) (allocChildSPI W) (\<lambda>_. authing s0 sa)"
  unfolding allocChildSPI_def
  by (rule triple_bind [where R = "\<lambda>_. authing s0 sa"], rule triple_randBytes, simp,
      rule triple_bind [where R = "\<lambda>_. authing s0 sa"]) (auto intro!: triple_intros)

text \<open>Which secret the responder's final AUTH is keyed by, and what vouches for it.\<close>

definition vouched :: "world \<Rightarrow> env \<Rightarrow> Session \<Rightarrow> IKESA \<Rightarrow> bytes \<Rightarrow> bool" where
  "vouched W E s0 sa secret \<longleftrightarrow>
     (if cf_PSK (s_cfg s0) \<noteq> [] then secret = cf_PSK (s_cfg s0)
      else password_auth W E (s_cfg s0) sa secret \<and> (\<exists>inner. heard W sa inner \<and> cert_auth W E s0 sa inner))"

lemma triple_ikeAuthPSK:
  assumes W: "prims_ok (w_prims W)"
  shows "triple (authing s0 sa) (ikeAuthPSK W)
     (\<lambda>_ s. \<exists>inner. heard W sa inner \<and> completed W s0 sa (cf_PSK (s_cfg s0)) inner s)"
proof -
  have "triple (authing s0 sa) (handleFinalAuthResponse W resp (cf_PSK (s_cfg t)))
     (\<lambda>_ s. \<exists>inner. heard W sa inner \<and> completed W s0 sa (cf_PSK (s_cfg s0)) inner s)"
    if "heard W sa resp" "authing s0 sa t" for resp t
    by (rule triple_weaken [OF triple_handleFinalAuthResponse [OF W]]) (use that in \<open>auto simp: authing_def\<close>)
  then show ?thesis unfolding ikeAuthPSK_def Let_def
    by (intro triple_bind [OF triple_allocChildSPI] triple_read_any triple_deref triple_round [OF W] triple_option triple_fail)
       (auto simp: authing_sa)
qed

lemma triple_ikeAuthEAP:
  assumes W: "prims_ok (w_prims W)"
  shows "triple (authing s0 sa) (ikeAuthEAP W E)
     (\<lambda>_ s. \<exists>secret inner. heard W sa inner \<and> completed W s0 sa secret inner s \<and>
        password_auth W E (s_cfg s0) sa secret \<and> (\<exists>inner. heard W sa inner \<and> cert_auth W E s0 sa inner))"
proof -
  have "triple (authing s0 sa) (bindS (handleAuthResponse W E resp) (\<lambda>eapReq.
      bindS (eap_loop W E maxEAPRounds (NewMSCHAPv2 (cf_EAPUser (s_cfg t)) (cf_EAPPass (s_cfg t))) eapReq) (\<lambda>m. eap_finish W E m)))
    (\<lambda>_ s. \<exists>secret inner. heard W sa inner \<and> completed W s0 sa secret inner s \<and>
        password_auth W E (s_cfg s0) sa secret \<and> (\<exists>inner. heard W sa inner \<and> cert_auth W E s0 sa inner))"
    if resp: "heard W sa resp" and t: "authing s0 sa t" for resp t
  proof (rule triple_bind [OF triple_handleAuthResponse], goal_cases)
    case (1 req)
    show ?case
    proof (rule triple_pre [where C = "cert_auth W E s0 sa resp \<and> firstEAP resp = Ok (Some req)"], simp, goal_cases)
      case 1
      have "s_cfg t = s_cfg s0" using t by (simp add: authing_def)
      then have loop: "triple (authing s0 sa)
          (eap_loop W E maxEAPRounds (NewMSCHAPv2 (cf_EAPUser (s_cfg t)) (cf_EAPPass (s_cfg t))) req)
          (\<lambda>m s. authing s0 sa s \<and> eap_done W E (s_cfg s0) sa m)"
        using 1 resp by (auto intro!: triple_eap_loop [OF W] mschap_inv_New simp: eap_heard_def)
      have fin: "triple (\<lambda>s. authing s0 sa s \<and> eap_done W E (s_cfg s0) sa m) (eap_finish W E m)
        (\<lambda>_ s. \<exists>secret inner. heard W sa inner \<and> completed W s0 sa secret inner s \<and>
          password_auth W E (s_cfg s0) sa secret \<and> (\<exists>inner. heard W sa inner \<and> cert_auth W E s0 sa inner))" for m
        by (rule triple_pre [where C = "eap_done W E (s_cfg s0) sa m"], simp, rule triple_weaken [OF triple_eap_finish [OF W]])
           (use 1 resp in blast)+
      show ?case by (rule triple_bind [OF triple_weaken [OF loop] fin]) auto
    qed
  qed
  then show ?thesis unfolding ikeAuthEAP_def Let_def
    by (intro triple_bind [OF triple_allocChildSPI] triple_read_any triple_round [OF W])
qed

lemma triple_IKEAuth:
  assumes W: "prims_ok (w_prims W)"
  shows "triple (authing s0 sa) (IKEAuth W E)
     (\<lambda>_ s. \<exists>secret inner. heard W sa inner \<and> completed W s0 sa secret inner s \<and> vouched W E s0 sa secret)"
  unfolding IKEAuth_def
proof (intro triple_read_any triple_guard triple_if, goal_cases)
  case (1 t)
  then show ?case by (intro triple_weaken [OF triple_ikeAuthPSK [OF W]]) (auto simp: vouched_def authing_def)
next
  case (2 t)
  then show ?case by (intro triple_weaken [OF triple_ikeAuthEAP [OF W]]) (auto simp: vouched_def authing_def)
qed

end
