(* ===== verification/Handshake_Run.thy ===== *)
theory Handshake_Run
  imports Handshake_Auth
begin

text \<open>
  Handshakes that complete.  The run of IKE\_SA\_INIT and of IKE\_AUTH with a pre-shared key is
  computed symbolically against a responder that answers both requests; the last section holds
  the properties of the handshake.
\<close>

section \<open>A handshake that completes\<close>

text \<open>What the outside has to do for a handshake without losses.\<close>

definition able :: "world \<Rightarrow> bool" where
  "able W \<longleftrightarrow> prims_ok (w_prims W) \<and> rand_ok W \<and> curve_ok (w_curve W) \<and> (\<forall>n. w_send W n) \<and>
     (\<forall>x. length (w_sha1 W x) = 20) \<and> keygen_ok W DH_X25519"

lemma run_bind: "m s = (Ok x, s') \<Longrightarrow> bindS m f s = f x s'"
  by (simp add: bindS_def)

lemmas run_defs = retS_def liftS_def modS_def readS_def guardS_def derefS_def

lemma retransmitTries_Suc: "\<exists>k. nat (retransmitTries cfg) = Suc k"
proof -
  have "0 < retransmitTries cfg" by (simp add: retransmitTries_def)
  then have "0 < nat (retransmitTries cfg)" by simp
  then show ?thesis by (cases "nat (retransmitTries cfg)") auto
qed

lemma recv_loop_delivered:
  assumes "Parse raw = Ok hdr" "MessageID hdr = mid" "IsResponse (MFlags hdr)"
  shows "recv_loop b mid (Inr (sendDatagram b raw) # rest) = Ok raw"
  by (subst recv_loop.simps) (use assms in \<open>auto simp: sendDatagram_def Classify_WrapIKE\<close>)

lemma exchange_delivered:
  assumes "w_send W (s_n s)" "w_recv W (Suc (s_n s)) = [sendDatagram (s_nattMode s) raw]"
    and "Parse raw = Ok hdr" "MessageID hdr = mid" "IsResponse (MFlags hdr)"
  shows "exchange W req mid s =
     (Ok raw, s\<lparr>s_out := s_out s @ [Sent (sendDatagram (s_nattMode s) req)], s_n := Suc (Suc (s_n s))\<rparr>)"
proof -
  obtain k where k: "nat (retransmitTries (s_cfg s)) = Suc k" using retransmitTries_Suc by blast
  have "sendIKE W req s = (Ok (), s\<lparr>s_out := s_out s @ [Sent (sendDatagram (s_nattMode s) req)], s_n := Suc (s_n s)\<rparr>)"
    using assms(1) by (simp add: sendIKE_def emitS_def tickS_def run_defs bindS_def)
  moreover have "recvMatching W mid t = (Ok raw, t\<lparr>s_n := Suc (s_n t)\<rparr>)"
    if "s_n t = Suc (s_n s)" "s_nattMode t = s_nattMode s" for t
    using assms that by (simp add: recvMatching_def tickS_def run_defs bindS_def recv_loop_delivered)
  ultimately show ?thesis by (simp add: exchange_def run_defs k run_bind tryS_def)
qed

lemma Marshal_sendable:
  assumes "sendable ps"
  shows "\<exists>raw. Marshal \<lparr>InitiatorSPI = a, ResponderSPI = b, Exchange = ex, MFlags = fl, MessageID = mid, MPayloads = ps\<rparr> = Ok raw \<and>
     Parse raw = Ok \<lparr>InitiatorSPI = a, ResponderSPI = b, Exchange = ex, MFlags = fl, MessageID = mid, MPayloads = ps\<rparr>"
proof -
  obtain first pt where p: "MarshalPayloads ps = Ok (first, pt)" "length pt \<le> 65483" "chain_ok ps"
    using assms by (auto simp: sendable_def)
  let ?m = "\<lparr>InitiatorSPI = a, ResponderSPI = b, Exchange = ex, MFlags = fl, MessageID = mid, MPayloads = ps\<rparr>"
  obtain raw where raw: "Marshal ?m = Ok raw" "length raw < 2 ^ 32"
    using p(1,2) by (simp add: Marshal_def del: of_nat_add)
  show ?thesis using raw Parse_Marshal [OF raw(1) _ raw(2)] p(3) by auto
qed

text \<open>What the client offers fits a datagram.\<close>

lemma enabled_loop_length: "length (enabled_loop ids table) \<le> length ids"
  by (induction ids) (auto split: option.split)

lemma enabledSuites_length: "length ids \<le> 50 \<Longrightarrow> length table \<le> 50 \<Longrightarrow> length (enabledSuites ids table) \<le> 60"
  using enabled_loop_length [of ids table] by (simp add: enabledSuites_def)

definition small_cfg :: "SessionConfig \<Rightarrow> bool" where
  "small_cfg cfg \<longleftrightarrow> length (cf_ESPSuites cfg) \<le> 50 \<and> length (cf_IKESuites cfg) \<le> 50 \<and> length (wi_Data (cf_LocalID cfg)) \<le> 5000"

lemma small_enabled:
  assumes "small_cfg cfg"
  shows "length (enabledIKESuites cfg) \<le> 60" "length (enabledESPSuites cfg) \<le> 60"
proof -
  have "length espSuites \<le> 50" "length ikeSuites \<le> 50" by (simp_all add: espSuites_def ikeSuites_def)
  then show "length (enabledIKESuites cfg) \<le> 60" "length (enabledESPSuites cfg) \<le> 60"
    using assms by (auto simp: small_cfg_def enabledIKESuites_def enabledESPSuites_def intro: enabledSuites_length)
qed

text \<open>The responder's IKE\_SA\_INIT answer: one suite in group 31, its public value, its nonce.\<close>

definition init_response :: "u64 \<Rightarrow> u64 \<Rightarrow> transformSuite \<Rightarrow> bytes \<Rightarrow> bytes \<Rightarrow> Message" where
  "init_response spii spir suite pub nr =
     \<lparr>InitiatorSPI = spii, ResponderSPI = spir, Exchange = ExchangeIKESAInit, MFlags = FlagResponse, MessageID = 0,
      MPayloads = [SAPayload [buildProposalForSuite 1 suite [] [DH_X25519]], KEPayload DH_X25519 pub, NoncePayload nr]\<rparr>"

lemma selected_built:
  assumes "set enabled \<subseteq> set espSuites \<or> set enabled \<subseteq> set ikeSuites" "s \<in> set enabled" "length groups \<le> 1"
  shows "selectedSuite (buildProposalForSuite n s spi groups) enabled = Some s"
  using assms isSelectionFor_built [OF assms(3)] esp_table.selectedSuite_iff ike_table.selectedSuite_iff by blast

lemma selectedDHGroup_built: "selectedDHGroup (buildProposalForSuite n s spi [g]) = g"
  by (simp add: selectedDHGroup_def buildProposalForSuite_def ByType_def comp_def)

lemma enabledIKE_subset: "set (enabledIKESuites cfg) \<subseteq> set ikeSuites"
  unfolding enabledIKESuites_def by (rule enabledSuites_subset)

lemma enabledESP_subset: "set (enabledESPSuites cfg) \<subseteq> set espSuites"
  unfolding enabledESPSuites_def by (rule enabledSuites_subset)

lemma buildSAInit_run:
  assumes "s_dh s = Some dh" "length (dh_Public dh) \<le> 256" "small_cfg (s_cfg s)" "length (s_nonceI s) = 32"
    "\<forall>x. length (w_sha1 W x) = 20"
  shows "\<exists>raw. buildSAInit W [] s = (Ok raw, s)"
proof -
  define ps where "ps = appendNATDetection (w_sha1 W) (s_initiatorSPI s) (s_responderSPI s) (s_localAddr s) (s_remoteAddr s)
    [SAPayload (buildProposals [] (enabledIKESuites (s_cfg s)) [DH_X25519, DH_MODP2048]),
     KEPayload (dh_Group dh) (dh_Public dh), NoncePayload (s_nonceI s)]"
  have "fits 6000 (SAPayload (buildProposals [] (enabledIKESuites (s_cfg s)) [DH_X25519, DH_MODP2048]))"
    by (rule fits_buildProposals) (use small_enabled(1) [OF assms(3)] in auto)
  then have "sendable ps" using assms
    unfolding ps_def appendNATDetection_def Let_def
    by (intro sendableI) (auto simp: DetectionHash_def split: prod.splits)
  then obtain raw where "Marshal \<lparr>InitiatorSPI = s_initiatorSPI s, ResponderSPI = 0, Exchange = ExchangeIKESAInit,
        MFlags = FlagInitiator, MessageID = 0, MPayloads = ps\<rparr> = Ok raw" using Marshal_sendable by blast
  then show ?thesis using assms(1) by (auto simp: buildSAInit_def run_defs ps_def Let_def)
qed

lemma sainit_response_run:
  assumes "s_dh s = Some dh" "dh_Group dh = DH_X25519" "suite \<in> set (enabledIKESuites (s_cfg s))"
    and "Parse rsp = Ok (init_response (s_initiatorSPI s) spir suite pub nr)" "spir \<noteq> 0"
    and "Shared (w_curve W) dh pub = Ok k"
    and "Derive (w_prims W) (su_id suite) Initiator (s_initiatorSPI s) spir (s_nonceI s) nr k = Ok sa"
  shows "handleSAInitResponse W rsp s =
     (Ok (), s\<lparr>s_responderSPI := spir, s_peerDHPub := pub, s_nonceR := nr, s_ikeSA := Some sa, s_ikeDHGroup := DH_X25519\<rparr>)"
proof -
  have sel: "selectedSuite (buildProposalForSuite 1 suite [] [DH_X25519]) (enabledIKESuites (s_cfg s)) = Some suite"
    by (rule selected_built) (use assms(3) enabledIKE_subset in auto)
  have nat: "processNATDetection a b c d e [] f = f" for a b c d e f by (simp add: processNATDetection_def)
  have resp: "IsResponse FlagResponse" by (simp add: IsResponse_def)
  show ?thesis
    unfolding handleSAInitResponse_def
    using assms sel resp
    by (simp add: init_response_def bindS_def run_defs sainit_payload_def sainit_keys_def selectedDHGroup_built nat Let_def
        del: DH_X25519_def)
qed

text \<open>
  The client's values at its first questions: the SPI, the key pair, the nonce, and the SPI of
  its Child SA.
\<close>

abbreviation spii_of :: "world \<Rightarrow> u64" where
  "spii_of W \<equiv> Uint64 (take 8 (w_rand W 1))"

abbreviation ni_of :: "world \<Rightarrow> bytes" where
  "ni_of W \<equiv> take nonceLen (w_rand W 3)"

lemma sainit_fresh_run:
  assumes "able W" "NewDH (w_curve W) (w_rint W (Suc (s_n s))) (w_xkey W (Suc (s_n s))) DH_X25519 = Ok dh"
  shows "sainit_fresh W s =
     (Ok (), s\<lparr>s_n := Suc (Suc (Suc (s_n s))), s_initiatorSPI := Uint64 (take 8 (w_rand W (s_n s))), s_dh := Some dh,
        s_nonceI := take nonceLen (w_rand W (Suc (Suc (s_n s))))\<rparr>)"
proof -
  have len: "32 \<le> length (w_rand W n)" for n using assms(1) by (simp add: able_def rand_ok_def)
  have r: "\<not> length (w_rand W n) < 8" "\<not> length (w_rand W n) < 32" for n using len [of n] by simp_all
  show ?thesis using assms(2)
    by (simp add: sainit_fresh_def assignS_def onErrS_def tryS_def bindS_def run_defs randUint64_def randBytes_def newDHS_def
        tickS_def ReadFull_def r del: DH_X25519_def)
qed

lemma sendSAInit_run:
  assumes "able W" "s_dh s = Some dh" "length (dh_Public dh) \<le> 256" "small_cfg (s_cfg s)" "length (s_nonceI s) = 32"
    and "w_recv W (Suc (s_n s)) = [sendDatagram (s_nattMode s) rsp]" "Parse rsp = Ok m" "MessageID m = 0" "IsResponse (MFlags m)"
  shows "\<exists>req. sendSAInit W [] s = (Ok rsp, s\<lparr>s_initSAInitReq := req,
     s_out := s_out s @ [Sent (sendDatagram (s_nattMode s) req)], s_n := Suc (Suc (s_n s)), s_initSAInitRsp := rsp\<rparr>)"
proof -
  have W: "w_send W n" "\<forall>x. length (w_sha1 W x) = 20" for n using assms(1) by (simp_all add: able_def)
  obtain req where req: "buildSAInit W [] s = (Ok req, s)" using buildSAInit_run [OF assms(2-5) W(2)] by blast
  have "exchange W req 0 (s\<lparr>s_initSAInitReq := req\<rparr>) =
     (Ok rsp, s\<lparr>s_initSAInitReq := req, s_out := s_out s @ [Sent (sendDatagram (s_nattMode s) req)], s_n := Suc (Suc (s_n s))\<rparr>)"
    using exchange_delivered [of W "s\<lparr>s_initSAInitReq := req\<rparr>" rsp m 0 req] W(1) assms(6-9) by simp
  then show ?thesis using req by (auto simp: sendSAInit_def run_bind run_defs intro!: exI [of _ req])
qed

lemma IKESAInit_run:
  assumes W: "able W" and cfg: "small_cfg cfg" "checkConfiguredSuites (cf_ESPSuites cfg) (cf_IKESuites cfg) = Inr ()"
    and dial: "e_dial E (withDefaultPort (cf_Server cfg)) 0 = Some (l, r, mig)"
    and suite: "suite \<in> set (enabledIKESuites cfg)"
    and dh: "NewDH (w_curve W) (w_rint W 2) (w_xkey W 2) DH_X25519 = Ok dh" "length (dh_Public dh) \<le> 256"
    and rsp: "w_recv W 5 = [rsp]" "Parse rsp = Ok (init_response (spii_of W) spir suite pub nr)" "spir \<noteq> 0"
    and key: "Shared (w_curve W) dh pub = Ok k"
      "Derive (w_prims W) (su_id suite) Initiator (spii_of W) spir (ni_of W) nr k = Ok sa"
  obtains s where "IKESAInit W E (New_session cfg) = (Ok (), s)" "s_n s = 6" "s_cfg s = cfg" "s_ikeSA s = Some sa"
    "s_nonceI s = ni_of W" "s_nonceR s = nr" "s_initSAInitRsp s = rsp" "s_initiatorSPI s = spii_of W" "s_responderSPI s = spir"
    "s_nattMode s = mig" "s_messageID s = 1" "s_oldIKE s = None" "s_remoteIDr s = \<lparr>wi_Type = 0, wi_Data = []\<rparr>"
proof -
  have g: "dh_Group dh = DH_X25519" by (rule NewDH_dh_Group [OF dh(1)])
  define s1 where "s1 = (New_session cfg)\<lparr>s_n := 1, s_conn := True, s_localAddr := l, s_remoteAddr := r, s_canMigrate := mig\<rparr>"
  have dialr: "sainit_dial E (New_session cfg) = (Ok (), s1)"
    using dial by (simp add: sainit_dial_def run_defs bindS_def tickS_def New_session_def s1_def)
  define s2 where "s2 = s1\<lparr>s_n := 4, s_initiatorSPI := spii_of W, s_dh := Some dh, s_nonceI := ni_of W\<rparr>"
  have fresh: "sainit_fresh W s1 = (Ok (), s2)"
    using sainit_fresh_run [OF W, of s1 dh] dh(1) by (simp add: s1_def s2_def eval_nat_numeral)
  have rl: "32 \<le> length (w_rand W n)" for n using W by (simp add: able_def rand_ok_def)
  have len: "length (s_nonceI s2) = 32" using rl [of 3] by (simp add: s2_def)
  have resp: "IsResponse FlagResponse" by (simp add: IsResponse_def)
  have sent: "\<exists>req. sendSAInit W [] s2 = (Ok rsp, s2\<lparr>s_initSAInitReq := req,
     s_out := s_out s2 @ [Sent (sendDatagram (s_nattMode s2) req)], s_n := Suc (Suc (s_n s2)), s_initSAInitRsp := rsp\<rparr>)"
    by (rule sendSAInit_run [OF W, where dh = dh and m = "init_response (spii_of W) spir suite pub nr"])
       (use rsp cfg(1) dh(2) len resp in \<open>simp_all add: s2_def s1_def New_session_def sendDatagram_def init_response_def\<close>)
  then obtain req where req: "sendSAInit W [] s2 = (Ok rsp, s2\<lparr>s_initSAInitReq := req,
     s_out := s_out s2 @ [Sent (sendDatagram (s_nattMode s2) req)], s_n := Suc (Suc (s_n s2)), s_initSAInitRsp := rsp\<rparr>)" by blast
  define s3 where "s3 = s2\<lparr>s_initSAInitReq := req,
     s_out := s_out s2 @ [Sent (sendDatagram (s_nattMode s2) req)], s_n := 6, s_initSAInitRsp := rsp\<rparr>"
  have none: "saInitCookie rsp = Ok None" "saInitInvalidKE rsp = Ok None"
    using rsp(2) by (simp_all add: saInitCookie_def saInitInvalidKE_def init_response_def)
  have n6: "Suc (Suc (s_n s2)) = 6" by (simp add: s2_def)
  have first: "sainit_first W s2 = (Ok (rsp, []), s3)"
    using req none by (simp add: sainit_first_def run_bind run_defs s3_def n6)
  have grp: "sainit_group W rsp [] s3 = (Ok (), s3)"
    using none by (simp add: sainit_group_def run_bind run_defs)
  define s4 where "s4 = s3\<lparr>s_responderSPI := spir, s_peerDHPub := pub, s_nonceR := nr, s_ikeSA := Some sa, s_ikeDHGroup := DH_X25519\<rparr>"
  have fields: "s_dh s3 = Some dh" "s_cfg s3 = cfg" "s_initiatorSPI s3 = spii_of W" "s_nonceI s3 = ni_of W" "s_initSAInitRsp s3 = rsp"
    by (simp_all add: s3_def s2_def s1_def New_session_def)
  have hand: "handleSAInitResponse W rsp s3 = (Ok (), s4)"
    unfolding s4_def by (rule sainit_response_run [OF fields(1) g]) (use fields suite rsp key in simp_all)
  define s5 where "s5 = s4\<lparr>s_nattMode := migrateNATT (s_canMigrate s4) (s_nattMode s4), s_messageID := 1\<rparr>"
  have "IKESAInit W E (New_session cfg) = (Ok (), s5)"
    using cfg(2) by (simp add: IKESAInit_def readS_def New_cfg bindS_def dialr fresh first grp fields(5) hand modS_def s5_def)
  then show thesis
    by (rule that) (simp_all add: s5_def s4_def s3_def s2_def s1_def New_session_def migrateNATT_def)
qed

text \<open>The responder's IKE\_AUTH answer with a pre-shared key.\<close>

definition psk_response ::
  "prims \<Rightarrow> IKESA \<Rightarrow> bytes \<Rightarrow> bytes \<Rightarrow> bytes \<Rightarrow> WireID \<Rightarrow> transformSuite \<Rightarrow> bytes \<Rightarrow> ConfigAttr list \<Rightarrow> Payloads" where
  "psk_response P saR psk rsp ni idr esuite spi attrs =
     [IDrPayload (wi_Type idr) (wi_Data idr),
      AuthPayload MethodSharedKeyMIC (SharedSecretAuth (prf_HMAC P) psk
        (SignedOctets (prf_HMAC P) rsp ni (MarshalIDBody (wi_Type idr) (wi_Data idr)) (SKpr saR))),
      SAPayload [buildProposalForSuite 1 esuite spi []],
      ConfigPayload ConfigReply attrs]"

lemma fits_auth [simp]:
  "fits n (IDiPayload t d) \<longleftrightarrow> 4 + length d \<le> n" "fits n (IDrPayload t d) \<longleftrightarrow> 4 + length d \<le> n"
  "fits n (AuthPayload m d) \<longleftrightarrow> 4 + length d \<le> n"
  by (auto simp: fits_def MarshalIDBody_def)

lemma length_prf [simp]: "prims_ok P \<Longrightarrow> length (prf_HMAC P k d) = 32"
  by (simp add: prf_HMAC_def prims_ok_def)

lemma fits_cp_request: "fits 6000 (ConfigPayload ConfigRequest
    ([\<lparr>ca_Type = ConfigAttrInternalIP4Address, ca_Value = []\<rparr>, \<lparr>ca_Type = ConfigAttrInternalIP4Netmask, ca_Value = []\<rparr>,
      \<lparr>ca_Type = ConfigAttrInternalIP4DNS, ca_Value = []\<rparr>] @
     (if v6 then [\<lparr>ca_Type = ConfigAttrInternalIP6Address, ca_Value = []\<rparr>, \<lparr>ca_Type = ConfigAttrInternalIP6DNS, ca_Value = []\<rparr>] else [])))"
  by (auto simp: fits_def marshalConfigAttr_def)

lemma sendable_psk_request:
  assumes "prims_ok P" "small_cfg cfg" "length spi = 4" "length a = 32"
  shows "sendable (auth_request cfg spi [IDiPayload t (wi_Data (cf_LocalID cfg)), AuthPayload m a])"
  using assms(2-4) fits_full_selectors [of "cf_RequestIPv6 cfg"] fits_cp_request [of "cf_RequestIPv6 cfg"]
    fits_buildProposals [of spi preferredDHGroups "enabledESPSuites cfg"] small_enabled(2) [OF assms(2)]
  unfolding auth_request_def buildCPRequest_def appendTrafficSelectors_def Let_def
  by (intro sendableI) (auto simp: small_cfg_def preferredDHGroups_def)

lemma encodeSK_run:
  assumes "prims_ok (w_prims W)" "rand_ok W" "s_ikeSA s = Some sa" "ike_ok sa" "sendable inner"
  obtains raw q where "encodeSK W ex fl mid inner s = (Ok raw, s\<lparr>s_n := Suc (s_n s), s_ikeSA := Some (sa\<lparr>skSeq := q\<rparr>)\<rparr>)"
proof -
  have "wp (encodeSK W ex fl mid inner) (\<lambda>r s'. \<exists>raw q. r = Ok raw \<and> s' = s\<lparr>s_n := Suc (s_n s), s_ikeSA := Some (sa\<lparr>skSeq := q\<rparr>)\<rparr>) s"
    by (rule wp_encodeSK [OF assms]) blast
  then show thesis using that by (cases "encodeSK W ex fl mid inner s") (auto simp: wp_def)
qed

lemma decodeSKWith_Parse: "decodeSKWith P sa raw = (Ok (m, inner), b) \<Longrightarrow> Parse raw = Ok m"
  by (auto simp: decodeSKWith_def Let_def split: res.splits option.splits prod.splits)

lemma exchangeSK_run:
  assumes W: "able W" and s: "s_ikeSA s = Some sa" "ike_ok sa" "s_oldIKE s = None" "sendable inner"
    and rsp: "w_recv W (Suc (Suc (s_n s))) = [sendDatagram (s_nattMode s) rsp]"
      "decodeSKWith (w_prims W) sa rsp = (Ok (m, ps), True)" "MessageID m = mid" "IsResponse (MFlags m)"
  obtains q outs where "exchangeSK W ex mid inner s =
     (Ok ps, s\<lparr>s_n := Suc (Suc (Suc (Suc (s_n s)))), s_ikeSA := Some (sa\<lparr>skSeq := q\<rparr>), s_out := outs\<rparr>)"
proof -
  have P: "prims_ok (w_prims W)" "rand_ok W" "w_send W n" for n using W by (simp_all add: able_def)
  obtain raw q where enc: "encodeSK W ex requestFlags mid inner s =
      (Ok raw, s\<lparr>s_n := Suc (s_n s), s_ikeSA := Some (sa\<lparr>skSeq := q\<rparr>)\<rparr>)"
    by (rule encodeSK_run [OF P(1,2) s(1,2,4)])
  define s1 where "s1 = s\<lparr>s_n := Suc (s_n s), s_ikeSA := Some (sa\<lparr>skSeq := q\<rparr>)\<rparr>"
  define outs where "outs = s_out s @ [Sent (sendDatagram (s_nattMode s) raw)]"
  have ex: "exchange W raw mid s1 = (Ok rsp, s1\<lparr>s_out := outs, s_n := Suc (Suc (s_n s1))\<rparr>)"
    using exchange_delivered [of W s1 rsp m mid raw] P(3) rsp decodeSKWith_Parse [OF rsp(2)] by (simp add: s1_def outs_def)
  define s2 where "s2 = s1\<lparr>s_out := outs, s_n := Suc (Suc (s_n s1))\<rparr>"
  have s2: "s_ikeSA s2 = Some (sa\<lparr>skSeq := q\<rparr>)" "s_oldIKE s2 = None" using s(3) by (simp_all add: s2_def s1_def)
  have dec: "decodeS W rsp s2 = (Ok (m, ps, Cur), s2\<lparr>s_n := Suc (s_n s2)\<rparr>)"
    using rsp(2) by (simp add: decodeS_def run_defs bindS_def nowS_def tickS_def curCtx_Some [OF s2(1)] s2(2) decodeIKE_def decodeSKWith_frame)
  have "exchangeSK W ex mid inner s =
     (Ok ps, s\<lparr>s_n := Suc (Suc (Suc (Suc (s_n s)))), s_ikeSA := Some (sa\<lparr>skSeq := q\<rparr>), s_out := outs\<rparr>)"
    by (simp add: exchangeSK_def bindS_def enc [folded s1_def] ex [folded s2_def] dec retS_def) (simp add: s2_def s1_def)
  then show thesis by (rule that)
qed

lemma allocChildSPI_run:
  assumes "rand_ok W"
  shows "allocChildSPI W s = (Ok (take 4 (w_rand W (s_n s))),
     s\<lparr>s_n := Suc (s_n s), s_childInitiatorSPI := Uint32 (take 4 (w_rand W (s_n s)))\<rparr>)"
proof -
  have "32 \<le> length (w_rand W (s_n s))" using assms unfolding rand_ok_def by blast
  then show ?thesis by (simp add: allocChildSPI_def randBytes_def bindS_def tickS_def run_defs ReadFull_def)
qed

lemma final_response_run:
  assumes P: "prims_ok (w_prims W)"
    and s: "s_ikeSA s = Some sa" "SKpr sa = SKpr saR" "SKd sa = SKd saR" "s_initSAInitRsp s = rsp" "s_nonceI s = ni"
    and idr: "wi_Type idr \<noteq> 0 \<or> wi_Data idr \<noteq> []"
    and child: "esuite \<in> set (enabledESPSuites (s_cfg s))" "length spi = 4"
      "DeriveChildKeys (w_prims W) saR ni (s_nonceR s) (su_encrKeyLen esuite) (su_integKeyLen esuite) = Ok keys"
  shows "handleFinalAuthResponse W (psk_response (w_prims W) saR psk rsp ni idr esuite spi attrs) psk s =
     (Ok (), s\<lparr>s_remoteIDr := idr, s_child := Some \<lparr>ch_InitiatorSPI = s_childInitiatorSPI s, ch_ResponderSPI = Uint32 spi,
        ch_Suite = su_id esuite, ch_Keys = keys\<rparr>, s_assigned := parseCPReply attrs, s_established := True\<rparr>)"
proof -
  have sel: "selectedSuite (buildProposalForSuite 1 esuite spi []) (enabledESPSuites (s_cfg s)) = Some esuite"
    by (rule selected_built) (use child(1) enabledESP_subset in auto)
  have keys: "DeriveChildKeys (w_prims W) sa ni (s_nonceR s) (su_encrKeyLen esuite) (su_integKeyLen esuite) = Ok keys"
    using child(3) s(3) by (simp add: DeriveChildKeys_def deriveChildKeys_def)
  have spi: "pr_SPI (buildProposalForSuite 1 esuite spi []) = spi" by (simp add: buildProposalForSuite_def)
  have loop: "final_loop (psk_response (w_prims W) saR psk rsp ni idr esuite spi attrs) emptyFinal =
     Ok (emptyFinal\<lparr>fa_idr := Some (wi_Type idr, wi_Data idr), fa_auth := Some (MethodSharedKeyMIC, SharedSecretAuth (prf_HMAC (w_prims W)) psk
        (SignedOctets (prf_HMAC (w_prims W)) rsp ni (MarshalIDBody (wi_Type idr) (wi_Data idr)) (SKpr saR))),
        fa_sa := Some [buildProposalForSuite 1 esuite spi []], fa_cp := Some attrs\<rparr>)"
    by (simp add: psk_response_def)
  have idr': "\<lparr>wi_Type = wi_Type idr, wi_Data = wi_Data idr\<rparr> = idr" by (cases idr) simp
  have idr0: "\<not> (wi_Type idr = 0 \<and> wi_Data idr = [])" using idr by blast
  show ?thesis
    using s child(2) sel keys spi
    by (simp add: handleFinalAuthResponse_def loop bindS_def run_defs responderSignedOctets_def final_install_def be_Uint32_def Let_def idr')
       (use idr0 in blast)
qed

lemma psk_auth_run:
  assumes W: "able W"
    and s: "s_n s = 6" "s_ikeSA s = Some sa" "ike_ok sa" "s_oldIKE s = None" "s_messageID s = 1" "small_cfg (s_cfg s)" "cf_PSK (s_cfg s) \<noteq> []"
    and saR: "ike_mirrors saR sa" "SKpr sa = SKpr saR" "SKd sa = SKd saR"
    and idr: "wi_Type idr \<noteq> 0 \<or> wi_Data idr \<noteq> []"
    and child: "esuite \<in> set (enabledESPSuites (s_cfg s))" "length spi = 4"
      "DeriveChildKeys (w_prims W) saR (s_nonceI s) (s_nonceR s) (su_encrKeyLen esuite) (su_integKeyLen esuite) = Ok keys"
    and rsp: "w_recv W 9 = [sendDatagram (s_nattMode s) rsp]" "IsResponse fl"
      "carries (w_prims W) saR rsp ExchangeIKEAuth fl 1
         (psk_response (w_prims W) saR (cf_PSK (s_cfg s)) (s_initSAInitRsp s) (s_nonceI s) idr esuite spi attrs)"
  obtains s' where "IKEAuth W E s = (Ok (), s')" "s_established s'" "s_remoteIDr s' = idr" "s_assigned s' = parseCPReply attrs"
    "s_child s' = Some \<lparr>ch_InitiatorSPI = Uint32 (take 4 (w_rand W 6)), ch_ResponderSPI = Uint32 spi, ch_Suite = su_id esuite, ch_Keys = keys\<rparr>"
proof -
  have P: "prims_ok (w_prims W)" "rand_ok W" using W by (simp_all add: able_def)
  define inner where "inner = psk_response (w_prims W) saR (cf_PSK (s_cfg s)) (s_initSAInitRsp s) (s_nonceI s) idr esuite spi attrs"
  obtain m where m: "decodeSKWith (w_prims W) sa rsp = (Ok (m, inner), True)" "MFlags m = fl" "MessageID m = 1"
    using rsp(3) saR(1) unfolding carries_def inner_def by blast
  define s1 where "s1 = s\<lparr>s_n := 7, s_childInitiatorSPI := Uint32 (take 4 (w_rand W 6))\<rparr>"
  have alloc: "allocChildSPI W s = (Ok (take 4 (w_rand W 6)), s1)" using allocChildSPI_run [OF P(2), of s] s(1) by (simp add: s1_def)
  define l where "l = cf_LocalID (s_cfg s)"
  define req where "req = auth_request (s_cfg s) (take 4 (w_rand W 6))
     [IDiPayload (wi_Type l) (wi_Data l), AuthPayload MethodSharedKeyMIC (computeInitiatorAuth W s1 sa (cf_PSK (s_cfg s)))]"
  have "length (take 4 (w_rand W 6)) = 4" using rand_ok_length [OF P(2), of 4 6] by simp
  then have send: "sendable req" unfolding req_def l_def
    by (rule sendable_psk_request [OF P(1) s(6)]) (simp add: computeInitiatorAuth_def SharedSecretAuth_def P(1))
  obtain q outs where ex: "exchangeSK W ExchangeIKEAuth 1 req s1 =
     (Ok inner, s1\<lparr>s_n := Suc (Suc (Suc (Suc (s_n s1)))), s_ikeSA := Some (sa\<lparr>skSeq := q\<rparr>), s_out := outs\<rparr>)"
    by (rule exchangeSK_run [OF W, of s1 sa req rsp m inner 1 ExchangeIKEAuth])
       (use s m rsp send in \<open>simp_all add: s1_def eval_nat_numeral\<close>)
  define s2 where "s2 = s1\<lparr>s_n := Suc (Suc (Suc (Suc (s_n s1)))), s_ikeSA := Some (sa\<lparr>skSeq := q\<rparr>), s_out := outs\<rparr>"
  define s3 where "s3 = s2\<lparr>s_messageID := s_messageID s2 + 1\<rparr>"
  have f: "s_ikeSA s1 = Some sa" "s_cfg s1 = s_cfg s" "s_messageID s1 = 1" using s by (simp_all add: s1_def)
  have none: "firstNotifyError inner = None" by (simp add: inner_def psk_response_def)
  have fin: "handleFinalAuthResponse W inner (cf_PSK (s_cfg s)) s3 =
     (Ok (), s3\<lparr>s_remoteIDr := idr, s_child := Some \<lparr>ch_InitiatorSPI = s_childInitiatorSPI s3, ch_ResponderSPI = Uint32 spi,
        ch_Suite = su_id esuite, ch_Keys = keys\<rparr>, s_assigned := parseCPReply attrs, s_established := True\<rparr>)"
    unfolding inner_def
    by (rule final_response_run [OF P(1), where sa = "sa\<lparr>skSeq := q\<rparr>"])
       (use saR idr child in \<open>simp_all add: s3_def s2_def s1_def\<close>)
  have "IKEAuth W E s = (Ok (), s3\<lparr>s_remoteIDr := idr, s_child := Some \<lparr>ch_InitiatorSPI = s_childInitiatorSPI s3, ch_ResponderSPI = Uint32 spi,
        ch_Suite = su_id esuite, ch_Keys = keys\<rparr>, s_assigned := parseCPReply attrs, s_established := True\<rparr>)"
    using s(2,7) ex [folded s2_def, unfolded req_def l_def]
    by (simp add: IKEAuth_def ikeAuthPSK_def bindS_def readS_def guardS_def derefS_def alloc f Let_def
        nextMessageID_def modS_def s3_def [symmetric] none fin)
  then show thesis by (rule that) (simp_all add: s3_def s2_def s1_def)
qed

section \<open>Properties\<close>

lemma sendable_init_response:
  assumes "length pub \<le> 256" "16 \<le> length nr" "length nr \<le> 256"
  shows "sendable (MPayloads (init_response spii spir suite pub nr))"
proof -
  have "fits 6000 (SAPayload [buildProposalForSuite 1 suite [] [DH_X25519]])"
    using marshalProposal_built [of "[]" "[DH_X25519]" False 1 suite] by (auto simp: fits_def)
  then show ?thesis unfolding init_response_def using assms by (intro sendableI) auto
qed

lemma init_response_Parse:
  assumes "length pub \<le> 256" "16 \<le> length nr" "length nr \<le> 256"
  shows "\<exists>raw. Marshal (init_response spii spir suite pub nr) = Ok raw \<and> Parse raw = Ok (init_response spii spir suite pub nr)"
  using Marshal_sendable [OF sendable_init_response [OF assms], of spii spir ExchangeIKESAInit FlagResponse 0 spii spir suite]
  by (simp add: init_response_def)

lemma psk_handshake_run:
  assumes W: "able W" and cfg: "small_cfg cfg" "cf_PSK cfg \<noteq> []" "checkConfiguredSuites (cf_ESPSuites cfg) (cf_IKESuites cfg) = Inr ()"
    and dial: "e_dial E (withDefaultPort (cf_Server cfg)) 0 = Some (l, r, mig)"
    and dh: "NewDH (w_curve W) (w_rint W 2) (w_xkey W 2) DH_X25519 = Ok dh" "NewDH (w_curve W) ri xk DH_X25519 = Ok dhR"
      "length (dh_Public dhR) \<le> 256" "Shared (w_curve W) dh (dh_Public dhR) = Ok k" "Shared (w_curve W) dhR (dh_Public dh) = Ok kR" "k \<noteq> []"
    and ike: "suite \<in> set (enabledIKESuites cfg)" "spir \<noteq> 0" "16 \<le> length nr" "length nr \<le> 256"
      "Derive (w_prims W) (su_id suite) Responder (spii_of W) spir (ni_of W) nr kR = Ok saR"
    and m1: "Marshal (init_response (spii_of W) spir suite (dh_Public dhR) nr) = Ok rsp1" "w_recv W 5 = [rsp1]"
    and child: "esuite \<in> set (enabledESPSuites cfg)" "length spi = 4" "wi_Type idr \<noteq> 0 \<or> wi_Data idr \<noteq> []"
      "DeriveChildKeys (w_prims W) saR (ni_of W) nr (su_encrKeyLen esuite) (su_integKeyLen esuite) = Ok keys"
    and m2: "sendable (psk_response (w_prims W) saR (cf_PSK cfg) rsp1 (ni_of W) idr esuite spi attrs)" "16 \<le> length rnd"
      "encodeSKWith (w_prims W) saR rnd (spii_of W) spir ExchangeIKEAuth (responseFlags saR) 1
         (psk_response (w_prims W) saR (cf_PSK cfg) rsp1 (ni_of W) idr esuite spi attrs) = (Ok rsp2, saR')"
      "w_recv W 9 = [sendDatagram mig rsp2]"
  shows "\<exists>s s'. IKESAInit W E (New_session cfg) = (Ok (), s) \<and> IKEAuth W E s = (Ok (), s') \<and> s_established s' \<and>
     s_remoteIDr s' = idr \<and> s_assigned s' = parseCPReply attrs \<and>
     s_child s' = Some \<lparr>ch_InitiatorSPI = Uint32 (take 4 (w_rand W 6)), ch_ResponderSPI = Uint32 spi, ch_Suite = su_id esuite, ch_Keys = keys\<rparr>"
proof -
  have P: "prims_ok (w_prims W)" "rand_ok W" "curve_ok (w_curve W)" "keygen_ok W DH_X25519" using W by (simp_all add: able_def)
  have kR: "kR = k" using dh_agree [OF P(3) dh(1,2,4,5)] by simp
  have pub: "length (dh_Public dh) \<le> 256" using P(4) dh(1) unfolding keygen_ok_def by (metis res.inject(1))
  have ni: "16 \<le> length (ni_of W)" using rand_ok_length [OF P(2), of 32 3] by simp
  obtain sa where sa: "Derive (w_prims W) (su_id suite) Initiator (spii_of W) spir (ni_of W) nr k = Ok sa"
    "ike_ok sa" "ike_ok saR" "ike_mirrors saR sa" "SKd sa = SKd saR" "SKpr sa = SKpr saR"
  proof -
    let ?K = "prf_HMAC (w_prims W) (ni_of W @ nr) k"
    obtain a where a: "deriveFromSKEYSEED (w_prims W) (su_id suite) Initiator (spii_of W) spir (ni_of W) nr ?K = Ok a"
      using deriveFromSKEYSEED_Ok [OF P(1)] by blast
    have b: "deriveFromSKEYSEED (w_prims W) (su_id suite) Responder (spii_of W) spir (ni_of W) nr ?K = Ok saR"
      using ike(5) kR Derive_unfold(1) [OF ni ike(3) dh(6)] by simp
    show thesis using that [of a] deriveFromSKEYSEED_mirrors [OF P(1) a b] a Derive_unfold(1) [OF ni ike(3) dh(6)] by simp
  qed
  obtain raw where "Marshal (init_response (spii_of W) spir suite (dh_Public dhR) nr) = Ok raw"
      "Parse raw = Ok (init_response (spii_of W) spir suite (dh_Public dhR) nr)"
    using init_response_Parse [OF dh(3) ike(3,4)] by blast
  then have parse: "Parse rsp1 = Ok (init_response (spii_of W) spir suite (dh_Public dhR) nr)" using m1(1) by simp
  obtain s where s: "IKESAInit W E (New_session cfg) = (Ok (), s)" "s_n s = 6" "s_cfg s = cfg" "s_ikeSA s = Some sa"
    "s_nonceI s = ni_of W" "s_nonceR s = nr" "s_initSAInitRsp s = rsp1" "s_nattMode s = mig" "s_messageID s = 1" "s_oldIKE s = None"
    by (rule IKESAInit_run [OF W cfg(1,3) dial ike(1) dh(1) pub m1(2) parse ike(2) dh(4) sa(1)]) blast
  have carry: "carries (w_prims W) saR rsp2 ExchangeIKEAuth (responseFlags saR) 1
      (psk_response (w_prims W) saR (cf_PSK cfg) rsp1 (ni_of W) idr esuite spi attrs)"
    using encodeSKWith_Ok [OF P(1) sa(3) m2(2,1)] m2(3) by (metis prod.inject res.inject(1))
  have resp: "IsResponse (responseFlags saR)"
    by (cases "ik_Role saR"; simp add: responseFlags_def ikeRoleBit_def IsResponse_def)
  obtain s' where "IKEAuth W E s = (Ok (), s')" "s_established s'" "s_remoteIDr s' = idr" "s_assigned s' = parseCPReply attrs"
    "s_child s' = Some \<lparr>ch_InitiatorSPI = Uint32 (take 4 (w_rand W 6)), ch_ResponderSPI = Uint32 spi, ch_Suite = su_id esuite, ch_Keys = keys\<rparr>"
    by (rule psk_auth_run [OF W s(2,4) sa(2) s(10,9) _ _ sa(4,6,5) child(3) _ child(2) _ _ resp])
       (use s cfg child m2(4) carry in simp_all)
  then show ?thesis using s(1) by blast
qed

text \<open>
  A responder of the shared key, from the side of the wire.  It answers IKE\_SA\_INIT with an
  enabled suite and its half of the Diffie-Hellman exchange, derives its own IKE SA \<open>saR\<close>, and
  answers the first protected request with its identity, the proof that it holds the key, a
  Child SA and the addresses it assigns.  Both answers arrive at the first attempt.
\<close>

definition psk_peer ::
  "world \<Rightarrow> env \<Rightarrow> SessionConfig \<Rightarrow> IKESA \<Rightarrow> bytes \<Rightarrow> WireID \<Rightarrow> transformSuite \<Rightarrow> bytes \<Rightarrow> ConfigAttr list \<Rightarrow> bool" where
  "psk_peer W E cfg saR nr idr esuite spi attrs \<longleftrightarrow>
     (\<exists>l r mig dh ri xk dhR k kR suite spir rsp1 rnd rsp2 saR'.
        e_dial E (withDefaultPort (cf_Server cfg)) 0 = Some (l, r, mig) \<and>
        NewDH (w_curve W) (w_rint W 2) (w_xkey W 2) DH_X25519 = Ok dh \<and> NewDH (w_curve W) ri xk DH_X25519 = Ok dhR \<and>
        length (dh_Public dhR) \<le> 256 \<and> Shared (w_curve W) dh (dh_Public dhR) = Ok k \<and> k \<noteq> [] \<and>
        Shared (w_curve W) dhR (dh_Public dh) = Ok kR \<and>
        suite \<in> set (enabledIKESuites cfg) \<and> spir \<noteq> 0 \<and> 16 \<le> length nr \<and> length nr \<le> 256 \<and>
        Derive (w_prims W) (su_id suite) Responder (spii_of W) spir (ni_of W) nr kR = Ok saR \<and>
        Marshal (init_response (spii_of W) spir suite (dh_Public dhR) nr) = Ok rsp1 \<and> w_recv W 5 = [rsp1] \<and>
        esuite \<in> set (enabledESPSuites cfg) \<and> length spi = 4 \<and> (wi_Type idr \<noteq> 0 \<or> wi_Data idr \<noteq> []) \<and>
        sendable (psk_response (w_prims W) saR (cf_PSK cfg) rsp1 (ni_of W) idr esuite spi attrs) \<and> 16 \<le> length rnd \<and>
        encodeSKWith (w_prims W) saR rnd (spii_of W) spir ExchangeIKEAuth (responseFlags saR) 1
          (psk_response (w_prims W) saR (cf_PSK cfg) rsp1 (ni_of W) idr esuite spi attrs) = (Ok rsp2, saR') \<and>
        w_recv W 9 = [sendDatagram mig rsp2])"

lemma psk_peer_completes:
  assumes "able W" "small_cfg cfg" "cf_PSK cfg \<noteq> []" "checkConfiguredSuites (cf_ESPSuites cfg) (cf_IKESuites cfg) = Inr ()"
    and "psk_peer W E cfg saR nr idr esuite spi attrs"
  shows "\<exists>s s' keys. IKESAInit W E (New_session cfg) = (Ok (), s) \<and> IKEAuth W E s = (Ok (), s') \<and> s_established s' \<and>
     s_remoteIDr s' = idr \<and> s_assigned s' = parseCPReply attrs \<and>
     DeriveChildKeys (w_prims W) saR (ni_of W) nr (su_encrKeyLen esuite) (su_integKeyLen esuite) = Ok keys \<and>
     s_child s' = Some \<lparr>ch_InitiatorSPI = Uint32 (take 4 (w_rand W 6)), ch_ResponderSPI = Uint32 spi,
       ch_Suite = su_id esuite, ch_Keys = keys\<rparr>"
proof -
  have P: "prims_ok (w_prims W)" using assms(1) by (simp add: able_def)
  obtain keys where K: "DeriveChildKeys (w_prims W) saR (ni_of W) nr (su_encrKeyLen esuite) (su_integKeyLen esuite) = Ok keys"
    using assms(5) deriveChildKeys_suite [OF P enabledESP_in, of esuite cfg saR "[]" "ni_of W" nr] unfolding psk_peer_def DeriveChildKeys_def by metis
  obtain l r mig dh ri xk dhR k kR suite spir rsp1 rnd rsp2 saR' where
    "e_dial E (withDefaultPort (cf_Server cfg)) 0 = Some (l, r, mig)"
    "NewDH (w_curve W) (w_rint W 2) (w_xkey W 2) DH_X25519 = Ok dh" "NewDH (w_curve W) ri xk DH_X25519 = Ok dhR"
    "length (dh_Public dhR) \<le> 256" "Shared (w_curve W) dh (dh_Public dhR) = Ok k"
    "Shared (w_curve W) dhR (dh_Public dh) = Ok kR" "k \<noteq> []"
    "suite \<in> set (enabledIKESuites cfg)" "spir \<noteq> 0" "16 \<le> length nr" "length nr \<le> 256"
    "Derive (w_prims W) (su_id suite) Responder (spii_of W) spir (ni_of W) nr kR = Ok saR"
    "Marshal (init_response (spii_of W) spir suite (dh_Public dhR) nr) = Ok rsp1" "w_recv W 5 = [rsp1]"
    "esuite \<in> set (enabledESPSuites cfg)" "length spi = 4" "wi_Type idr \<noteq> 0 \<or> wi_Data idr \<noteq> []"
    "sendable (psk_response (w_prims W) saR (cf_PSK cfg) rsp1 (ni_of W) idr esuite spi attrs)" "16 \<le> length rnd"
    "encodeSKWith (w_prims W) saR rnd (spii_of W) spir ExchangeIKEAuth (responseFlags saR) 1
       (psk_response (w_prims W) saR (cf_PSK cfg) rsp1 (ni_of W) idr esuite spi attrs) = (Ok rsp2, saR')"
    "w_recv W 9 = [sendDatagram mig rsp2]"
    using assms(5) unfolding psk_peer_def by blast
  note peer = this
  show ?thesis
    using psk_handshake_run [OF assms(1-4) peer(1-17) K peer(18-21)] K by blast
qed

text \<open>
  A configuration, an outside and a responder for which all of this holds: the identity the
  responder presents is not the one the client was configured to expect.
\<close>

definition quiet_env :: env where
  "quiet_env = \<lparr>e_x509 = \<lparr>x_ParseCertificate = (\<lambda>_. None), x_Verify = (\<lambda>_ _ _ _. False), x_VerifyHostname = (\<lambda>_ _. False),
      x_CheckSignature = (\<lambda>_ _ _ _. False), x_AddrString = (\<lambda>_. []), x_UnmarshalAI = (\<lambda>_. None), x_UnmarshalPSS = (\<lambda>_. None)\<rparr>,
     e_radius = \<lparr>r_GenerateNTResponse = (\<lambda>_ _ _ _. None), r_ToUTF16 = Some, r_NTPasswordHash = id,
      r_GenerateAuthenticatorResponse = (\<lambda>_ _ _ _ _. None), r_GetMasterKey = (@), r_GetAsymmetricStartKey = (\<lambda>m _ _. Some m)\<rparr>,
     e_dial = (\<lambda>_ _. Some (OtherAddr, OtherAddr, False))\<rparr>"

definition scripted :: "bytes \<Rightarrow> bytes \<Rightarrow> world" where
  "scripted a b = plain_world\<lparr>w_recv := (\<lambda>n. if n = 5 then [a] else if n = 9 then [b] else [])\<rparr>"

lemma able_scripted: "able (scripted a b)"
proof -
  have "keygen_ok (scripted a b) DH_X25519"
    by (auto simp: scripted_def plain_world_def keygen_ok_def NewDH_def plain_curve_def)
  then show ?thesis by (auto simp: able_def scripted_def plain_world_def plain_prims_ok plain_curve_ok rand_ok_def)
qed

lemma scripted_parts:
  "w_prims (scripted a b) = plain_prims" "w_curve (scripted a b) = plain_curve" "w_rint (scripted a b) = Some"
  "w_xkey (scripted a b) n = Some (replicate 32 (of_nat n))" "w_rand (scripted a b) n = replicate 64 (of_nat n)"
  "w_recv (scripted a b) 5 = [a]" "w_recv (scripted a b) 9 = [b]"
  by (simp_all add: scripted_def plain_world_def fun_eq_iff)

lemma scripted_peer:
  assumes "idr = \<lparr>wi_Type = 2, wi_Data = [3]\<rparr>" and cfg: "cf_ESPSuites cfg = []" "cf_IKESuites cfg = []"
  obtains a b saR nr esuite spi where "psk_peer (scripted a b) quiet_env cfg saR nr idr esuite spi []"
proof -
  define D where "D b = \<lparr>dh_Group = DH_X25519, dh_Public = replicate 32 b, privModp = None, privX25519 = Some (replicate 32 b)\<rparr>" for b :: byte
  have D: "NewDH plain_curve ri (Some (replicate 32 b)) DH_X25519 = Ok (D b)" for ri b
    by (simp add: NewDH_def plain_curve_def D_def)
  have S: "Shared plain_curve (D a) (dh_Public (D b)) = Ok (replicate 32 (a + b))" for a b
    by (simp add: Shared_def plain_curve_def D_def map_replicate zip_replicate)
  define nr :: bytes where "nr = replicate 32 17"
  define suite where "suite = ikeSuites ! 0"
  define esuite where "esuite = espSuites ! 0"
  have suites: "suite \<in> set (enabledIKESuites cfg)" "esuite \<in> set (enabledESPSuites cfg)"
    by (simp_all add: suite_def esuite_def enabledIKESuites_def enabledESPSuites_def enabledSuites_def cfg espSuites_def ikeSuites_def)
  define spii ni where "spii = Uint64 (replicate 8 1)" and "ni = (replicate 32 3 :: bytes)"
  have len: "16 \<le> length ni" "16 \<le> length nr" "length nr \<le> 256" "length (dh_Public (D 5)) \<le> 256"
    by (simp_all add: ni_def nr_def D_def)
  obtain saR where saR: "Derive plain_prims (su_id suite) Responder spii 9 ni nr (replicate 32 7) = Ok saR" "ike_ok saR"
    using deriveFromSKEYSEED_Ok [OF plain_prims_ok, of "su_id suite" Responder spii 9 ni nr] Derive_unfold(1) [OF len(1,2)] by (metis length_replicate list.size(3) zero_neq_numeral)
  obtain rsp1 where rsp1: "Marshal (init_response spii 9 suite (dh_Public (D 5)) nr) = Ok rsp1"
    using init_response_Parse [OF len(4,2,3)] by blast
  define R where "R = psk_response plain_prims saR (cf_PSK cfg) rsp1 ni idr esuite [0, 0, 0, 5] []"
  have send: "sendable R"
  proof -
    have "fits 6000 (SAPayload [buildProposalForSuite 1 esuite [0, 0, 0, 5] []])" "fits 6000 (ConfigPayload ConfigReply [])"
      using marshalProposal_built [of "[0, 0, 0, 5]" "[]" False 1 esuite] by (auto simp: fits_def)
    then show ?thesis unfolding R_def psk_response_def
      using plain_prims_ok by (intro sendableI) (auto simp: assms SharedSecretAuth_def)
  qed
  obtain rsp2 saR' where rsp2: "encodeSKWith plain_prims saR (replicate 16 0) spii 9 ExchangeIKEAuth (responseFlags saR) 1 R = (Ok rsp2, saR')"
    by (rule encodeSKWith_Ok [OF plain_prims_ok saR(2) _ send, of "replicate 16 0"]) auto
  have "psk_peer (scripted rsp1 (sendDatagram False rsp2)) quiet_env cfg saR nr idr esuite [0, 0, 0, 5] []"
    unfolding psk_peer_def scripted_parts
    apply (rule exI [of _ OtherAddr], rule exI [of _ OtherAddr], rule exI [of _ False], rule exI [of _ "D 2"], rule exI [of _ None],
       rule exI [of _ "Some (replicate 32 5)"], rule exI [of _ "D 5"], rule exI [of _ "replicate 32 7"], rule exI [of _ "replicate 32 7"],
       rule exI [of _ suite], rule exI [of _ 9], rule exI [of _ rsp1], rule exI [of _ "replicate 16 0"], rule exI [of _ rsp2], rule exI [of _ saR'])
    using D S [of 2 5] S [of 5 2] suites len saR(1) rsp1 send rsp2
    by (simp add: quiet_env_def R_def spii_def ni_def nonceLen_def assms)
  then show thesis by (rule that)
qed

lemma plain_suites: "cf_ESPSuites plain_cfg = []" "cf_IKESuites plain_cfg = []"
  by (simp_all add: plain_cfg_def)

lemma plain_cfg_fine:
  "small_cfg plain_cfg" "cf_PSK plain_cfg \<noteq> []" "checkConfiguredSuites (cf_ESPSuites plain_cfg) (cf_IKESuites plain_cfg) = Inr ()"
  by (simp_all add: small_cfg_def plain_cfg_def checkConfiguredSuites_def)

text \<open>
  C2 (safety).  A handshake that completes is authentic.  When IKE\_SA\_INIT and then IKE\_AUTH return
  without an error, the keys come from this session's own Diffie-Hellman value and nonce and
  from a response that was received for this session's SPI, with a suite the configuration
  enables and the group whose key was sent; a message that opened under these keys carried the
  responder's proof over exactly that IKE\_SA\_INIT response, this session's nonce and the
  identity the session reports; the proof was made with the configured pre-shared key, or with
  the key of an EAP conversation that verified the password against a responder whose
  certificate had signed the same octets; and the Child SA is the suite and SPI that message
  carried, with the keys derived from this IKE SA.
\<close>

theorem handshake_authenticates:
  assumes "prims_ok (w_prims W)"
    and "IKESAInit W E (New_session cfg) = (Ok (), s)" "IKEAuth W E s = (Ok (), s')"
  shows "sa_init_done W cfg s \<and> s_established s' \<and>
    (\<exists>sa secret inner. s_ikeSA s = Some sa \<and> heard W sa inner \<and>
       responder_auth W s sa secret (s_remoteIDr s') inner \<and> vouched W E s sa secret \<and> first_child W s sa inner s')"
proof -
  have "sa_init_done W cfg s \<and> fresh_sa s"
    using wpD [OF triple_IKESAInit [OF assms(1), of cfg E, unfolded triple_def, rule_format] assms(2)]
    by (simp add: pristine_New New_cfg)
  then obtain sa where sa: "sa_init_done W cfg s" "s_ikeSA s = Some sa" "authing s sa s"
    using authing_refl by (auto simp: fresh_sa_def)
  then show ?thesis
    using wpD [OF triple_IKEAuth [OF assms(1), of s sa E, unfolded triple_def, rule_format, OF sa(3)] assms(3)]
    by (auto simp: completed_def)
qed

theorem handshake_authenticates_witness:
  "\<exists>W s s' sa inner. prims_ok (w_prims W) \<and> IKESAInit W quiet_env (New_session plain_cfg) = (Ok (), s) \<and>
     IKEAuth W quiet_env s = (Ok (), s') \<and> s_ikeSA s = Some sa \<and> heard W sa inner \<and>
     responder_auth W s sa (cf_PSK plain_cfg) (s_remoteIDr s') inner \<and> first_child W s sa inner s'"
proof -
  obtain a b saR nr esuite spi where "psk_peer (scripted a b) quiet_env plain_cfg saR nr \<lparr>wi_Type = 2, wi_Data = [3]\<rparr> esuite spi []"
    using scripted_peer [OF refl plain_suites] by blast
  then obtain s s' where run: "IKESAInit (scripted a b) quiet_env (New_session plain_cfg) = (Ok (), s)"
      "IKEAuth (scripted a b) quiet_env s = (Ok (), s')"
    using psk_peer_completes [OF able_scripted plain_cfg_fine] by blast
  have P: "prims_ok (w_prims (scripted a b))" by (simp add: scripted_parts plain_prims_ok)
  have "s_cfg s = plain_cfg"
    using handshake_authenticates [OF P run] by (auto simp: sa_init_done_def)
  then show ?thesis using handshake_authenticates [OF P run] run P
    by (auto simp: vouched_def plain_cfg_fine(2)) blast
qed

text \<open>
  C3 (liveness).  With a pre-shared key the handshake completes.  Against a responder that holds the key
  and answers both requests, IKE\_SA\_INIT and IKE\_AUTH return without an error; the session
  reports the identity the responder presented, whatever \<open>RemoteID\<close> the configuration names,
  and the addresses it assigned; and the Child SA has the keys the responder derives from its
  own side.
\<close>

theorem psk_handshake_completes:
  assumes "able W" "small_cfg cfg" "cf_PSK cfg \<noteq> []" "checkConfiguredSuites (cf_ESPSuites cfg) (cf_IKESuites cfg) = Inr ()"
    and "psk_peer W E cfg saR nr idr esuite spi attrs"
  shows "\<exists>s s' keys. IKESAInit W E (New_session cfg) = (Ok (), s) \<and> IKEAuth W E s = (Ok (), s') \<and> s_established s' \<and>
     s_remoteIDr s' = idr \<and> s_assigned s' = parseCPReply attrs \<and>
     DeriveChildKeys (w_prims W) saR (ni_of W) nr (su_encrKeyLen esuite) (su_integKeyLen esuite) = Ok keys \<and>
     s_child s' = Some \<lparr>ch_InitiatorSPI = Uint32 (take 4 (w_rand W 6)), ch_ResponderSPI = Uint32 spi,
       ch_Suite = su_id esuite, ch_Keys = keys\<rparr>"
  using assms by (rule psk_peer_completes)

theorem psk_handshake_completes_witness:
  "\<exists>W s s'. IKESAInit W quiet_env (New_session plain_cfg) = (Ok (), s) \<and> IKEAuth W quiet_env s = (Ok (), s') \<and>
     s_established s' \<and> s_remoteIDr s' \<noteq> cf_RemoteID plain_cfg"
proof -
  define idr where "idr = \<lparr>wi_Type = 2 :: 8 word, wi_Data = [3] :: bytes\<rparr>"
  then obtain a b saR nr esuite spi where peer: "psk_peer (scripted a b) quiet_env plain_cfg saR nr idr esuite spi []"
    using scripted_peer [OF _ plain_suites] by blast
  have "idr \<noteq> cf_RemoteID plain_cfg" by (simp add: plain_cfg_def idr_def)
  then show ?thesis using psk_handshake_completes [OF able_scripted plain_cfg_fine peer] by blast
qed

end
