(* ===== verification/Client_Safety.thy ===== *)
theory Client_Safety
  imports Client Handshake_Run Rekey_Agree
begin

text \<open>
  The client keeps itself in order: no turn of any of its goroutines panics, the registry knows
  every Child SA it may still need, and the association the tunnel sends with can always be
  answered.
\<close>

section \<open>The invariant\<close>

text \<open>
  Every association is well-formed.  A registered pointer is in the store and its association
  has the SPI it is registered under.  The tunnel sends with the newest association, and that
  one is registered; what a grace timer waits for is older.
\<close>

definition registry_ok :: "SA list \<Rightarrow> (u32 \<rightharpoonup> sa_ref) \<Rightarrow> bool" where
  "registry_ok sas m \<longleftrightarrow> (\<forall>spi r. m spi = Some r \<longrightarrow> r < length sas \<and> sa_inSPI (sas ! r) = spi)"

definition timers_ok :: "SA list \<Rightarrow> (nat \<times> u32 \<times> sa_ref option) list \<Rightarrow> bool" where
  "timers_ok sas ts \<longleftrightarrow> (\<forall>i spi r. (i, spi, Some r) \<in> set ts \<longrightarrow> Suc r < length sas)"

definition sending_ok :: "SA list \<Rightarrow> (u32 \<rightharpoonup> sa_ref) \<Rightarrow> Tunnel \<Rightarrow> bool" where
  "sending_ok sas m t \<longleftrightarrow>
     Suc (ec_sa (t_conn t)) = length sas \<and> m (sa_inSPI (sas ! ec_sa (t_conn t))) = Some (ec_sa (t_conn t))"

definition client_ok :: "Client \<Rightarrow> bool" where
  "client_ok c \<longleftrightarrow>
     (\<forall>sa\<in>set (h_sas c). sa_ok sa) \<and>
     (\<exists>m t. cl_inbound c = Some m \<and> cl_tun c = Some t \<and> registry_ok (h_sas c) m \<and> sending_ok (h_sas c) m t) \<and>
     timers_ok (h_sas c) (cl_graceTimers c) \<and> timers_ok (h_sas c) (cl_callbacks c) \<and>
     (\<exists>s. cl_session c = Some s \<and> session_ok s)"

definition outside_ok :: "outside \<Rightarrow> bool" where
  "outside_ok X \<longleftrightarrow> prims_ok (o_prims X) \<and> (\<forall>k. prims_ok (w_prims (fst (o_dial X k))))"

text \<open>
  A property \<open>S\<close> of the store that every change of it keeps: a fresh association, and the
  associations \<open>Encrypt\<close> and \<open>Decrypt\<close> leave behind.  \<open>writes\<close> and \<open>reads\<close> say which of the
  last two are covered.  What the client does is then within \<open>S\<close>.
\<close>

locale store_law =
  fixes P :: prims and S :: "SA list \<Rightarrow> bool" and writes :: bool and reads :: bool
  assumes fresh: "S sas \<Longrightarrow> NewSA suite so si oe og ie ig n = Ok sa \<Longrightarrow> S (sas @ [sa])"
    and enc: "writes \<Longrightarrow> S sas \<Longrightarrow> r < length sas \<Longrightarrow> Encrypt P (sas ! r) rnd p = (x, sa') \<Longrightarrow> S (sas[r := sa'])"
    and dec: "reads \<Longrightarrow> prims_ok P \<Longrightarrow> S sas \<Longrightarrow> r < length sas \<Longrightarrow> sa_ok (sas ! r) \<Longrightarrow> Decrypt P (sas ! r) p = (y, sa') \<Longrightarrow> S (sas[r := sa'])"

lemma Encrypt_frame: "Encrypt P sa rnd p = (r, sa') \<Longrightarrow> \<exists>q. sa' = sa\<lparr>sa_seq := q\<rparr>"
  using Encrypt_seqOf by (metis SA.surjective SA.update_convs(12))

lemma Decrypt_frame: "prims_ok P \<Longrightarrow> sa_ok sa \<Longrightarrow> Decrypt P sa p = (r, sa') \<Longrightarrow> \<exists>w. sa' = sa\<lparr>sa_replay := w\<rparr>"
  by (cases rule: Decrypt_shape [of P sa p]) (auto simp: acceptSeq_def split: res.splits prod.splits intro: exI [of _ "sa_replay sa"])

lemma Encrypt_no_panic:
  assumes "prims_ok P" "sa_ok sa"
  shows "fst (Encrypt P sa rnd p) \<noteq> Panic"
proof (cases "sa_seq sa = NOT 0")
  case True
  then show ?thesis by (simp add: Encrypt_def nextSeq_def)
next
  case False
  let ?b = "sa\<lparr>sa_inSPI := sa_outSPI sa, sa_inBlock := sa_outBlock sa, sa_inInteg := sa_outInteg sa,
    sa_inAEAD := sa_outAEAD sa, sa_inSalt := sa_outSalt sa\<rparr>"
  have full: "fst (Encrypt P sa rnd' p) \<noteq> Panic" if "16 \<le> length rnd'" for rnd'
    using encrypt_decrypt [OF assms, of ?b rnd' p] False that by (auto simp: mirrors_def)
  show ?thesis
  proof (cases "16 \<le> length rnd")
    case short: False
    show ?thesis
    proof (cases "sa_suite sa = 0")
      case True
      with short False show ?thesis by (simp add: Encrypt_def nextSeq_def encryptCBC_def ReadFull_def Let_def)
    next
      case aead: False
      then have "fst (Encrypt P sa rnd p) = fst (Encrypt P sa (zeros 16) p)" using False by (simp add: Encrypt_def nextSeq_def Let_def)
      then show ?thesis using full [of "zeros 16"] by simp
    qed
  qed (rule full)
qed

section \<open>What a change of the client keeps\<close>

text \<open>The parts of the state that the invariant does not look at.\<close>

lemma client_ok_frame [simp]:
  "client_ok (c\<lparr>h_out := o1\<rparr>) = client_ok c" "client_ok (c\<lparr>cl_attempts := n\<rparr>) = client_ok c"
  "client_ok (c\<lparr>cl_rxDrops := d\<rparr>) = client_ok c" "client_ok (c\<lparr>cl_lastDataInbound := l\<rparr>) = client_ok c"
  "client_ok (c\<lparr>cl_onRekey := k\<rparr>) = client_ok c" "client_ok (c\<lparr>cl_localIP := ip\<rparr>) = client_ok c"
  "client_ok (c\<lparr>cl_mgr := m\<rparr>) = client_ok c" "client_ok (c\<lparr>cl_inbox := q\<rparr>) = client_ok c"
  "client_ok (c\<lparr>cl_superCancelled := b\<rparr>) = client_ok c" "client_ok (c\<lparr>cl_super := p\<rparr>) = client_ok c"
  "client_ok (c\<lparr>cl_deathSig := b\<rparr>) = client_ok c" "client_ok (c\<lparr>cl_closed := b\<rparr>) = client_ok c"
  "client_ok (c\<lparr>cl_torndown := b\<rparr>) = client_ok c" "client_ok (c\<lparr>cl_teardown := b\<rparr>) = client_ok c"
  "client_ok (c\<lparr>cl_nextTimer := n\<rparr>) = client_ok c"
  by (simp_all add: client_ok_def)

lemma client_ok_session: "client_ok c \<Longrightarrow> session_ok s \<Longrightarrow> client_ok (c\<lparr>cl_session := Some s\<rparr>)"
  by (auto simp: client_ok_def)

lemma client_ok_timers: "client_ok c \<Longrightarrow> timers_ok (h_sas c) ts \<Longrightarrow> client_ok (c\<lparr>cl_graceTimers := ts\<rparr>)"
  by (auto simp: client_ok_def)

lemma client_ok_callbacks: "client_ok c \<Longrightarrow> timers_ok (h_sas c) ts \<Longrightarrow> client_ok (c\<lparr>cl_callbacks := ts\<rparr>)"
  by (auto simp: client_ok_def)

lemma timers_ok_subset: "timers_ok sas ts \<Longrightarrow> set ts' \<subseteq> set ts \<Longrightarrow> timers_ok sas ts'"
  by (auto simp: timers_ok_def)

lemma timers_ok_append [simp]: "timers_ok sas (ts @ ts') \<longleftrightarrow> timers_ok sas ts \<and> timers_ok sas ts'"
  by (auto simp: timers_ok_def)

lemma client_ok_tun:
  assumes "client_ok c" "\<And>t. ec_sa (t_conn (f t)) = ec_sa (t_conn t)"
  shows "client_ok (c\<lparr>cl_tun := map_option f (cl_tun c)\<rparr>)"
  using assms by (auto simp: client_ok_def sending_ok_def)

text \<open>An association replaced by one with the same SPI, and a fresh one that takes over.\<close>

lemma client_ok_update:
  assumes "client_ok c" "r < length (h_sas c)" "sa_ok sa" "sa_inSPI sa = sa_inSPI (h_sas c ! r)"
  shows "client_ok (c\<lparr>h_sas := (h_sas c)[r := sa]\<rparr>)"
proof -
  have spi: "sa_inSPI ((h_sas c)[r := sa] ! i) = sa_inSPI (h_sas c ! i)" if "i < length (h_sas c)" for i
    using that assms(2,4) by (cases "i = r") simp_all
  obtain m t where m: "cl_inbound c = Some m" "cl_tun c = Some t" "registry_ok (h_sas c) m" "sending_ok (h_sas c) m t"
    using assms(1) unfolding client_ok_def by blast
  have "registry_ok ((h_sas c)[r := sa]) m"
    using m(3) spi unfolding registry_ok_def by (metis length_list_update)
  moreover have "sending_ok ((h_sas c)[r := sa]) m t"
    using m(4) spi [of "ec_sa (t_conn t)"] unfolding sending_ok_def by simp
  moreover have "\<forall>x\<in>set ((h_sas c)[r := sa]). sa_ok x"
    using assms(1,3) set_update_subset_insert [of "h_sas c" r sa] unfolding client_ok_def by blast
  ultimately show ?thesis using assms(1) m unfolding client_ok_def timers_ok_def by simp
qed

lemma registry_ok_append:
  assumes "registry_ok sas m" "sa_inSPI sa = spi"
  shows "registry_ok (sas @ [sa]) (m(spi \<mapsto> length sas))"
  using assms unfolding registry_ok_def by (auto simp: nth_append less_Suc_eq)

lemma client_ok_install:
  assumes c: "\<forall>sa\<in>set (h_sas c). sa_ok sa" "registry_ok (h_sas c) m" "timers_ok (h_sas c) (cl_callbacks c)"
    and sa: "sa_ok sa" "sa_inSPI sa = spi"
    and new: "h_sas c' = h_sas c @ [sa]" "cl_inbound c' = Some (m(spi \<mapsto> length (h_sas c)))" "cl_tun c' = Some t'"
      "ec_sa (t_conn t') = length (h_sas c)" "cl_session c' = Some s" "session_ok s" "cl_callbacks c' = cl_callbacks c"
      "timers_ok (h_sas c @ [sa]) (cl_graceTimers c')"
  shows "client_ok c'"
proof -
  have reg: "registry_ok (h_sas c') (m(spi \<mapsto> length (h_sas c)))"
    using c sa(2) new(1) registry_ok_append [of "h_sas c" m sa spi] by simp
  have send: "sending_ok (h_sas c') (m(spi \<mapsto> length (h_sas c))) t'"
    using sa(2) new(1,4) by (simp add: sending_ok_def)
  have "timers_ok (h_sas c') (cl_callbacks c')"
    using c(3) new(1,7) unfolding timers_ok_def by fastforce
  moreover have "\<forall>x\<in>set (h_sas c'). sa_ok x" using c(1) sa(1) new(1) by auto
  ultimately show ?thesis using new reg send unfolding client_ok_def by auto
qed

definition within :: "(SA list \<Rightarrow> bool) \<Rightarrow> Client \<Rightarrow> bool" where
  "within S c \<longleftrightarrow> client_ok c \<and> S (h_sas c)"

lemma within_frame [simp]:
  "within S (c\<lparr>cl_inbox := q\<rparr>) = within S c" "within S (c\<lparr>cl_super := p\<rparr>) = within S c"
  "within S (c\<lparr>cl_deathSig := b\<rparr>) = within S c"
  by (simp_all add: within_def)

section \<open>Runs of the operations\<close>

lemma fire_hooks_run: "fire_hooks hs c = (Ok (), c\<lparr>h_out := h_out c @ map RekeyHook hs\<rparr>)"
  by (induction hs arbitrary: c) (simp_all add: run_defs bindS_def emitH_def)

lemma call_hooks_run: "call_hooks cfg hs c = (Ok (), c\<lparr>h_out := h_out c @ map (\<lambda>h. Reconf (snd h) cfg) hs\<rparr>)"
  by (induction hs arbitrary: c) (auto simp: run_defs bindS_def emitH_def)

lemma allocSA_run:
  "allocSA (Ok sa) h = (Ok (length (h_sas h)), h\<lparr>h_sas := h_sas h @ [sa]\<rparr>)"
  by (simp add: allocSA_def run_defs bindS_def)

lemma wrapS_run: "m s = (Ok x, s') \<Longrightarrow> wrapS g m s = (Ok x, s')"
  by (simp add: wrapS_def)

lemma update_NewSA:
  assumes "update_ok u"
  obtains sa where "NewSA (cu_Suite u) (cu_NewOutSPI u) (cu_NewInSPI u) (cu_OutEncr u) (cu_OutInteg u) (cu_InEncr u) (cu_InInteg u) n = Ok sa"
  using NewSA_keys_ok assms unfolding update_ok_def by blast

lemma InstallChildSA_run:
  assumes "cl_inbound c = Some m" "cl_tun c = Some t"
    and "NewSA (cu_Suite u) (cu_NewOutSPI u) (cu_NewInSPI u) (cu_OutEncr u) (cu_OutInteg u) (cu_InEncr u) (cu_InInteg u)
       (c_ReplayWindow (cl_cfg c)) = Ok sa"
  shows "InstallChildSA u c = (Ok (),
     let c' = c\<lparr>h_sas := h_sas c @ [sa], h_out := h_out c @ map RekeyHook (cl_onRekey c),
                cl_inbound := Some (m(cu_NewInSPI u \<mapsto> length (h_sas c))), cl_tun := Some (SwapSA (length (h_sas c)) t)\<rparr> in
     if cu_OldInSPI u \<noteq> 0 \<and> cu_OldInSPI u \<noteq> cu_NewInSPI u
     then c'\<lparr>cl_graceTimers := cl_graceTimers c @ [(cl_nextTimer c, cu_OldInSPI u, m (cu_OldInSPI u))], cl_nextTimer := cl_nextTimer c + 1\<rparr>
     else c')"
  using assms
  by (simp add: InstallChildSA_def bindS_def run_defs tryS_def wrapS_run [OF allocSA_run] fireRekey_def fire_hooks_run
      scheduleInboundRemoval_def Let_def)

text \<open>An invariant of the client that the driver keeps if the data plane calls do.\<close>

lemma holds_driverTurn:
  assumes X: "outside_ok X" and I: "\<And>c. I c \<Longrightarrow> client_ok c"
    and session: "\<And>c s. I c \<Longrightarrow> session_ok s \<Longrightarrow> I (c\<lparr>cl_session := Some s\<rparr>)"
    and calls: "\<And>es. \<forall>u. Install u \<in> set es \<longrightarrow> update_ok u \<Longrightarrow> keeps I (data_plane_calls es)"
    and exit: "keeps I (exitWorker driverWorker)"
  shows "keeps I (driverTurn X ev)"
  unfolding driverTurn_def
proof (rule holds_readS)
  fix c assume "I c"
  then obtain s where s: "cl_session c = Some s" "session_ok s" using I by (auto simp: client_ok_def)
  define W where "W = fst (o_dial X (cl_gen c))"
  have W: "prims_ok (w_prims W)" using X by (simp add: W_def outside_ok_def)
  obtain r s' where run: "driver_event W ev s = (r :: (client_err, bool) res, s')" by force
  have "r \<noteq> Panic \<and> session_ok s'"
    using holdsD [OF keeps_driver_event [OF W], of s ev r s'] s(2) run by (simp add: serving_session)
  then have r: "panic_free r" "session_ok s'" by (auto simp: panic_free_def)
  have upd: "\<forall>u. Install u \<in> set (drop (length (s_out s)) (s_out s')) \<longrightarrow> update_ok u"
    using r(2) by (auto simp: session_ok_def dest: in_set_dropD)
  show "keeps I (derefS (cl_session c) (\<lambda>s. case driver_event (fst (o_dial X (cl_gen c))) ev s of (r, s') \<Rightarrow>
     thenS (modS (\<lambda>c. c\<lparr>cl_session := Some s'\<rparr>))
     (thenS (data_plane_calls (drop (length (s_out s)) (s_out s')))
     (bindS (liftS r) (\<lambda>exit. if exit then exitWorker driverWorker else retS ())))))"
    unfolding s(1) derefS_def W_def [symmetric] option.case run prod.case
    by (intro holds_intros calls [OF upd] exit r(1)) (auto intro: session [OF _ r(2)])
qed

context store_law
begin

lemma keeps_modS:
  assumes "\<And>c. client_ok c \<Longrightarrow> client_ok (f c)" "\<And>c. h_sas (f c) = h_sas c"
  shows "keeps (within S) (modS f)"
  by (rule holds_modS) (use assms in \<open>auto simp: within_def\<close>)

lemma within_install:
  assumes "within S c" "update_ok u"
  shows "\<exists>c'. InstallChildSA u c = (Ok (), c') \<and> within S c'"
proof -
  obtain m t where m: "cl_inbound c = Some m" "cl_tun c = Some t" "registry_ok (h_sas c) m"
    using assms(1) by (auto simp: within_def client_ok_def)
  obtain sa where sa: "NewSA (cu_Suite u) (cu_NewOutSPI u) (cu_NewInSPI u) (cu_OutEncr u) (cu_OutInteg u) (cu_InEncr u) (cu_InInteg u)
       (c_ReplayWindow (cl_cfg c)) = Ok sa"
    using update_NewSA [OF assms(2)] by blast
  obtain c' where run: "InstallChildSA u c = (Ok (), c')" by (simp add: InstallChildSA_run [OF m(1,2) sa])
  have c': "h_sas c' = h_sas c @ [sa]" "cl_inbound c' = Some (m(cu_NewInSPI u \<mapsto> length (h_sas c)))"
    "cl_tun c' = Some (SwapSA (length (h_sas c)) t)" "cl_session c' = cl_session c" "cl_callbacks c' = cl_callbacks c"
    "set (cl_graceTimers c') \<subseteq> insert (cl_nextTimer c, cu_OldInSPI u, m (cu_OldInSPI u)) (set (cl_graceTimers c))"
    using run InstallChildSA_run [OF m(1,2) sa] by (auto simp: Let_def split: if_splits)
  have "timers_ok (h_sas c @ [sa]) (cl_graceTimers c')"
    unfolding timers_ok_def
  proof (intro allI impI)
    fix i spi r assume "(i, spi, Some r) \<in> set (cl_graceTimers c')"
    then have "(i, spi, Some r) \<in> set (cl_graceTimers c) \<or> Some r = m (cu_OldInSPI u)" using c'(6) by auto
    moreover have "timers_ok (h_sas c) (cl_graceTimers c)" using assms(1) by (simp add: within_def client_ok_def)
    ultimately show "Suc r < length (h_sas c @ [sa])"
      using m(3) unfolding timers_ok_def registry_ok_def by fastforce
  qed
  moreover obtain s where s: "cl_session c = Some s" "session_ok s" using assms(1) by (auto simp: within_def client_ok_def)
  moreover have "\<forall>x\<in>set (h_sas c). sa_ok x" "timers_ok (h_sas c) (cl_callbacks c)"
    using assms(1) by (simp_all add: within_def client_ok_def)
  moreover have "ec_sa (t_conn (SwapSA (length (h_sas c)) t)) = length (h_sas c)" by (simp add: SwapSA_def swapSA_def)
  ultimately have "client_ok c'"
    using m(3) NewSA_sa_ok(1,6) [OF sa] c' by (intro client_ok_install [of c m sa "cu_NewInSPI u" c']) simp_all
  moreover have "S (h_sas c')" using assms(1) c'(1) fresh [OF _ sa] by (simp add: within_def)
  ultimately show ?thesis using run by (simp add: within_def)
qed

lemma keeps_InstallChildSA: "update_ok u \<Longrightarrow> keeps (within S) (InstallChildSA u)"
  unfolding holds_def wp_def using within_install by fastforce

lemma keeps_onDead: "keeps (within S) onDead"
  unfolding onDead_def signalDeath_def by (intro holds_intros) (simp_all add: within_def)

lemma keeps_data_plane_calls: "\<forall>u. Install u \<in> set es \<longrightarrow> update_ok u \<Longrightarrow> keeps (within S) (data_plane_calls es)"
proof (induction es rule: data_plane_calls.induct)
  case (3 u es)
  then show ?case by (auto intro!: holds_bindS keeps_InstallChildSA)
next
  case (4 es)
  then show ?case by (auto intro!: holds_bindS keeps_onDead)
qed (auto intro: holds_retS)

lemma keeps_exitWorker: "keeps (within S) (exitWorker i)"
  unfolding exitWorker_def by (rule keeps_modS) simp_all

lemma keeps_driverTurn:
  assumes "outside_ok X"
  shows "keeps (within S) (driverTurn X ev)"
  by (rule holds_driverTurn [OF assms _ _ keeps_data_plane_calls keeps_exitWorker])
     (auto simp: within_def intro: client_ok_session)

end

lemma useSA_run:
  assumes "r < length (h_sas h)" "f (h_sas h ! r) = (x, sa)"
  shows "useSA f r h = (wrapR ErrESP x, h\<lparr>h_sas := (h_sas h)[r := sa]\<rparr>)"
  using assms by (simp add: useSA_def bindS_def run_defs)

lemma session_ok_Close: "session_ok (Session_Close s) = session_ok s"
  by (simp add: session_ok_def Session_Close_def ikes_ok_def)

lemma session_ok_dataPlane: "session_ok s \<Longrightarrow> session_ok (s\<lparr>s_dataPlane := True\<rparr>)"
  by (simp add: session_ok_def ikes_ok_def)

context store_law
begin

lemma within_decrypt:
  assumes "reads" "prims_ok P" "within S c" "r < length (h_sas c)" "Decrypt P (h_sas c ! r) p = (x, sa)"
  shows "x \<noteq> Panic" "within S (c\<lparr>h_sas := (h_sas c)[r := sa]\<rparr>)"
proof -
  have ok: "sa_ok (h_sas c ! r)" using assms(3,4) by (auto simp: within_def client_ok_def)
  show "x \<noteq> Panic" using Decrypt_sa_ok(1) [OF assms(2) ok, of p] assms(5) by simp
  have "sa_ok sa" using Decrypt_sa_ok(2) [OF assms(2) ok, of p] assms(5) by simp
  moreover have "sa_inSPI sa = sa_inSPI (h_sas c ! r)" using Decrypt_frame [OF assms(2) ok assms(5)] by auto
  ultimately show "within S (c\<lparr>h_sas := (h_sas c)[r := sa]\<rparr>)"
    using assms(3,4) dec [OF assms(1,2) _ assms(4) ok assms(5)] by (auto simp: within_def intro: client_ok_update)
qed

lemma within_encrypt:
  assumes "writes" "prims_ok P" "within S c" "r < length (h_sas c)" "Encrypt P (h_sas c ! r) rnd p = (x, sa)"
  shows "x \<noteq> Panic" "within S (c\<lparr>h_sas := (h_sas c)[r := sa]\<rparr>)"
proof -
  have ok: "sa_ok (h_sas c ! r)" using assms(3,4) by (auto simp: within_def client_ok_def)
  show "x \<noteq> Panic" using Encrypt_no_panic [OF assms(2) ok, of rnd p] assms(5) by simp
  obtain q where "sa = (h_sas c ! r)\<lparr>sa_seq := q\<rparr>" using Encrypt_frame [OF assms(5)] by blast
  then have "sa_ok sa" "sa_inSPI sa = sa_inSPI (h_sas c ! r)" using ok by (simp_all add: sa_ok_def)
  then show "within S (c\<lparr>h_sas := (h_sas c)[r := sa]\<rparr>)"
    using assms(3,4) enc [OF assms(1) _ assms(4) assms(5)] by (auto simp: within_def intro: client_ok_update)
qed

lemma keeps_rxDrop: "keeps (within S) rxDrop"
  unfolding rxDrop_def by (rule keeps_modS) simp_all

lemma keeps_DeliverInbound: "keeps (within S) (DeliverInbound t ip)"
  unfolding DeliverInbound_def emitH_def by (intro holds_intros keeps_modS) simp_all

lemma keeps_rxDemux_turn:
  assumes reads "prims_ok P" "o_prims X = P"
  shows "keeps (within S) (rxDemux_turn X raw now)"
proof -
  have esp: "keeps (within S)
      (readS (lookupInbound spi) (\<lambda>sa. case sa of None \<Rightarrow> rxDrop
        | Some sa \<Rightarrow> bindS (tryS (useSA (\<lambda>sa. Decrypt (o_prims X) sa payload) sa)) (\<lambda>r.
            case r of Inl (_ :: tun_err) \<Rightarrow> rxDrop
            | Inr inner \<Rightarrow> thenS (modS (\<lambda>c. c\<lparr>cl_lastDataInbound := now\<rparr>))
                (readS cl_tun (\<lambda>t. derefS t (\<lambda>t. DeliverInbound t inner))))))" (is "keeps _ (readS _ ?k)") for spi payload
    unfolding holds_def wp_readS
  proof (intro allI impI)
    fix c assume c: "within S c"
    show "wp (?k (lookupInbound spi c)) (\<lambda>r s'. r \<noteq> Panic \<and> within S s') c"
    proof (cases "lookupInbound spi c")
      case None
      then show ?thesis using keeps_rxDrop c by (simp add: holds_def)
    next
      case (Some r)
      then have r: "r < length (h_sas c)"
        using c by (auto simp: lookupInbound_def within_def client_ok_def registry_ok_def split: option.splits)
      obtain x sa where dec: "Decrypt P (h_sas c ! r) payload = (x, sa)" by force
      let ?c = "c\<lparr>h_sas := (h_sas c)[r := sa]\<rparr>"
      have c': "x \<noteq> Panic" "within S ?c" using within_decrypt [OF assms(1,2) c r dec] by simp_all
      have run: "useSA (\<lambda>sa. Decrypt (o_prims X) sa payload) r c = (wrapR ErrESP x, ?c)"
        by (rule useSA_run [OF r]) (simp add: assms(3) dec)
      have rest: "keeps (within S) (thenS (modS (\<lambda>c. c\<lparr>cl_lastDataInbound := now\<rparr>))
                (readS cl_tun (\<lambda>t. derefS t (\<lambda>t. DeliverInbound t inner))))" for inner
        by (intro holds_intros keeps_DeliverInbound) (auto simp: within_def client_ok_def)
      show ?thesis
        using c' keeps_rxDrop rest unfolding Some option.case wp_bindS
        by (cases x) (auto simp: wp_def tryS_def run holds_def)
    qed
  qed
  show ?thesis unfolding rxDemux_turn_def
    by (auto split: prod.split Kind.split intro!: keeps_rxDrop esp holds_retS keeps_modS)
qed

lemma keeps_tunnelWrite:
  assumes writes "prims_ok P" "o_prims X = P"
  shows "keeps (within S) (tunnelWrite X rnd sent late p)"
  unfolding holds_def tunnelWrite_def wp_readS
proof (intro allI impI)
  fix c assume c: "within S c"
  then obtain t where t: "cl_tun c = Some t" "ec_sa (t_conn t) < length (h_sas c)"
    by (auto simp: within_def client_ok_def sending_ok_def)
  obtain x sa where enc: "Encrypt P (h_sas c ! ec_sa (t_conn t)) rnd p = (x, sa)" by force
  let ?c = "c\<lparr>h_sas := (h_sas c)[ec_sa (t_conn t) := sa]\<rparr>"
  have c': "x \<noteq> Panic" "within S ?c" using within_encrypt [OF assms(1,2) c t(2) enc] by simp_all
  have run: "useSA (\<lambda>sa. Encrypt (o_prims X) sa rnd p) (ec_sa (t_conn t)) c = (wrapR ErrESP x, ?c)"
    by (rule useSA_run [OF t(2)]) (simp add: assms(3) enc)
  have rest: "keeps (within S) (bindS (tryS (sendESP sent pkt)) (\<lambda>r.
      case r of Inr _ \<Rightarrow> retS (length p) | Inl e \<Rightarrow> guardS late ErrNetClosed (failS e)))" for pkt
    unfolding sendESP_def emitH_def by (intro holds_intros keeps_modS) simp_all
  then show "wp (derefS (cl_tun c) (\<lambda>t. espConn_Write (o_prims X) rnd late (sendESP sent) (t_conn t) p)) (\<lambda>r s'. r \<noteq> Panic \<and> within S s') c"
    unfolding t(1) derefS_def option.case espConn_Write_def wp_guardS wp_bindS [of "useSA f r" for f r]
    using c c' by (cases x) (auto simp: wp_def run holds_def)
qed

end

text \<open>A dialled session has a Child SA whose association can be built.\<close>

definition dialled_ok :: "Session \<Rightarrow> bool" where
  "dialled_ok s \<longleftrightarrow> session_ok (s\<lparr>s_dataPlane := True\<rparr>) \<and> s_child s \<noteq> None"

lemma pristine_dial: "(\<lambda>s. s_cfg s = cfg \<and> pristine s) (New_session cfg)"
  by (simp add: pristine_New New_cfg)

lemma defaultDialSession_ok:
  assumes "prims_ok (w_prims W)" "defaultDialSession W E cfg = (r, s)"
  shows "r \<noteq> Panic" "r = Ok () \<Longrightarrow> dialled_ok s"
proof -
  let ?cfg = "toSessionConfig cfg"
  obtain r1 s1 where init: "IKESAInit W E (New_session ?cfg) = (r1, s1)" by force
  have r1: "r1 \<noteq> Panic" "r1 = Ok () \<Longrightarrow> fresh_sa s1"
    using wpD [OF triple_IKESAInit [OF assms(1), of ?cfg E, unfolded triple_def, rule_format, OF pristine_dial] init] by auto
  have "r \<noteq> Panic \<and> (r = Ok () \<longrightarrow> dialled_ok s)"
  proof (cases r1)
    case (Ok u)
    then obtain sa where sa: "authing s1 sa s1" using r1(2) authing_refl by (fastforce simp: fresh_sa_def)
    obtain r2 s2 where auth: "IKEAuth W E s1 = (r2, s2)" by force
    have r2: "r2 \<noteq> Panic" "r2 = Ok () \<Longrightarrow> \<exists>secret inner. completed W s1 sa secret inner s2"
      using wpD [OF triple_IKEAuth [OF assms(1), of s1 sa E, unfolded triple_def, rule_format, OF sa] auth] by auto
    have "dialled_ok s2" if "r2 = Ok ()" using r2(2) [OF that] by (auto simp: completed_def first_child_def dialled_ok_def)
    then show ?thesis using assms(2) init auth r2(1) Ok
      by (cases r2) (auto simp: defaultDialSession_def bindS_def onErrS_def tryS_def run_defs failS_def)
  next
    case (Err e)
    then show ?thesis using assms(2) init
      by (auto simp: defaultDialSession_def bindS_def onErrS_def tryS_def run_defs failS_def)
  qed (use r1 in simp)
  then show "r \<noteq> Panic" "r = Ok () \<Longrightarrow> dialled_ok s" by blast+
qed

lemma dialSession_run:
  assumes "outside_ok X" "dialSession X c = (r, c')"
  shows "c' = c\<lparr>cl_attempts := cl_attempts c + 1\<rparr>" "r \<noteq> Panic" "r = Ok s \<Longrightarrow> dialled_ok s"
proof -
  obtain W E where WE: "o_dial X (cl_attempts c) = (W, E)" by force
  then have W: "prims_ok (w_prims W)" using assms(1) unfolding outside_ok_def by (metis fst_conv)
  obtain r1 s1 where d: "defaultDialSession W E (cl_cfg c) = (r1, s1)" by force
  have "c' = c\<lparr>cl_attempts := cl_attempts c + 1\<rparr> \<and> r \<noteq> Panic \<and> (r = Ok s \<longrightarrow> dialled_ok s)"
    using assms(2) WE d defaultDialSession_ok [OF W d]
    by (cases r1) (auto simp: dialSession_def bindS_def run_defs)
  then show "c' = c\<lparr>cl_attempts := cl_attempts c + 1\<rparr>" "r \<noteq> Panic" "r = Ok s \<Longrightarrow> dialled_ok s" by blast+
qed

lemma child_NewSA:
  assumes "child_ok ch"
  obtains sa where "NewSA (ch_Suite ch) (ch_ResponderSPI ch) (ch_InitiatorSPI ch) (EncrIR (ch_Keys ch)) (IntegIR (ch_Keys ch))
     (EncrRI (ch_Keys ch)) (IntegRI (ch_Keys ch)) n = Ok sa"
  using NewSA_keys_ok assms unfolding child_ok_def by blast

lemma keeps_Driver_start: "keeps session_ok (Driver_start W)"
  unfolding serving_session [symmetric] Driver_start_def
  by (intro holds_intros) (auto simp: serving_def session_ok_def ikes_ok_def)

lemma sending_older:
  assumes "client_ok c" "cl_inbound c = Some m" "m spi = Some r" "\<And>w. want = Some w \<Longrightarrow> Suc w < length (h_sas c)" "Some r = want"
  shows "client_ok (c\<lparr>cl_inbound := Some (m(spi := None))\<rparr>)"
proof -
  obtain t where t: "cl_tun c = Some t" "registry_ok (h_sas c) m" "sending_ok (h_sas c) m t"
    using assms(1,2) by (auto simp: client_ok_def)
  have "sending_ok (h_sas c) (m(spi := None)) t"
    using t(3) assms(3-5) unfolding sending_ok_def by fastforce
  moreover have "registry_ok (h_sas c) (m(spi := None))" using t(2) by (simp add: registry_ok_def)
  ultimately show ?thesis using assms(1) t(1) by (simp add: client_ok_def)
qed

context store_law
begin

lemma within_callback:
  assumes "within S c" "cl_callbacks c = (i, spi, want) # rest"
  shows "\<exists>c'. timerRuns c = (Ok (), c') \<and> within S c'"
proof -
  obtain m where m: "cl_inbound c = Some m" using assms(1) by (auto simp: within_def client_ok_def)
  let ?c = "c\<lparr>cl_callbacks := rest\<rparr>"
  have ok: "client_ok ?c" using assms by (auto simp: within_def client_ok_def timers_ok_def intro!: client_ok_callbacks)
  have old: "\<And>w. want = Some w \<Longrightarrow> Suc w < length (h_sas ?c)"
    using assms by (auto simp: within_def client_ok_def timers_ok_def)
  let ?d = "if m spi \<noteq> None \<and> m spi = want then ?c\<lparr>cl_inbound := Some (m(spi := None))\<rparr> else ?c"
  have d: "client_ok ?d" "h_sas ?d = h_sas c" "cl_graceTimers ?d = cl_graceTimers c"
    using ok sending_older [OF ok _ _ old, of m spi] m by auto
  have run: "removeInbound spi want ?c = (Ok (), ?d)"
    using m by (auto simp: removeInbound_def run_defs split: option.split)
  let ?e = "?d\<lparr>cl_graceTimers := filter (\<lambda>t. fst t \<noteq> i) (cl_graceTimers ?d)\<rparr>"
  have "timers_ok (h_sas ?d) (filter (\<lambda>t. fst t \<noteq> i) (cl_graceTimers ?d))"
    using d(1) unfolding client_ok_def by (auto intro: timers_ok_subset)
  then have "within S ?e" using client_ok_timers [OF d(1)] assms(1) d(2) by (simp add: within_def)
  moreover have "timerRuns c = (Ok (), ?e)"
    using assms(2) run by (simp add: timerRuns_def bindS_def run_defs)
  ultimately show ?thesis by blast
qed

lemma keeps_timerRuns: "keeps (within S) timerRuns"
  unfolding holds_def
proof (intro allI impI)
  fix c assume c: "within S c"
  show "wp timerRuns (\<lambda>r s'. r \<noteq> Panic \<and> within S s') c"
  proof (cases "cl_callbacks c")
    case Nil
    then show ?thesis using c by (simp add: wp_def timerRuns_def run_defs)
  next
    case (Cons x rest)
    then show ?thesis using within_callback [OF c] by (cases x) (fastforce simp: wp_def)
  qed
qed

lemma keeps_timerFires: "keeps (within S) (timerFires i)"
  unfolding timerFires_def
proof (rule keeps_modS)
  fix c assume c: "client_ok c"
  have "timers_ok (h_sas c) (filter (\<lambda>t. fst t = i \<and> t \<notin> set (cl_callbacks c)) (cl_graceTimers c))"
    using c unfolding client_ok_def by (auto intro: timers_ok_subset)
  then show "client_ok (c\<lparr>cl_callbacks := cl_callbacks c @ filter (\<lambda>t. fst t = i \<and> t \<notin> set (cl_callbacks c)) (cl_graceTimers c)\<rparr>)"
    using c by (intro client_ok_callbacks) (auto simp: client_ok_def)
qed simp

lemma keeps_stopGraceTimers: "keeps (within S) stopGraceTimers"
  unfolding stopGraceTimers_def by (rule keeps_modS) (auto intro: client_ok_timers simp: timers_ok_def)

lemma keeps_onSession:
  assumes "keeps session_ok m"
  shows "keeps (within S) (onSession m)"
  unfolding holds_def
proof (intro allI impI)
  fix c assume c: "within S c"
  then obtain s where s: "cl_session c = Some s" "session_ok s" by (auto simp: within_def client_ok_def)
  obtain r s' where run: "m s = (r, s')" by force
  have "r \<noteq> Panic" "session_ok s'" using holdsD [OF assms s(2) run] by simp_all
  then show "wp (onSession m) (\<lambda>r s'. r \<noteq> Panic \<and> within S s') c"
    using c s run by (auto simp: wp_def onSession_def within_def intro: client_ok_session)
qed

lemma keeps_closeSession: "keeps (within S) closeSession"
  unfolding closeSession_def by (intro holds_intros keeps_onSession) (simp_all add: session_ok_Close)

lemma keeps_stopWorkers: "outside_ok X \<Longrightarrow> keeps (within S) (stopWorkers X)"
  unfolding stopWorkers_def by (intro holds_intros keeps_driverTurn keeps_modS) simp_all

lemma keeps_startWorkers: "keeps (within S) (startWorkers X)"
  unfolding startWorkers_def
  by (intro holds_intros keeps_onSession keeps_Driver_start keeps_modS) (simp_all add: session_ok_dataPlane)

lemma keeps_superCancel: "keeps (within S) superCancel"
  unfolding superCancel_def by (rule keeps_modS) simp_all

lemma keeps_fireRekey: "keeps (within S) fireRekey"
  by (simp add: holds_def wp_def fireRekey_def readS_def fire_hooks_run within_def)

end

lemma startWorkers_dataPlane:
  assumes "cl_session c = Some s"
  shows "startWorkers X c = startWorkers X (c\<lparr>cl_session := Some (s\<lparr>s_dataPlane := True\<rparr>)\<rparr>)"
  using assms by (simp add: startWorkers_def readS_def bindS_def onSession_def modS_def Let_def)

lemma espSAFromChild_run:
  assumes "NewSA (ch_Suite ch) (ch_ResponderSPI ch) (ch_InitiatorSPI ch) (EncrIR (ch_Keys ch)) (IntegIR (ch_Keys ch))
     (EncrRI (ch_Keys ch)) (IntegRI (ch_Keys ch)) (c_ReplayWindow (cl_cfg c)) = Ok sa"
  shows "espSAFromChild ch c = (Ok (length (h_sas c)), c\<lparr>h_sas := h_sas c @ [sa]\<rparr>)"
  using assms by (simp add: espSAFromChild_def readS_def wrapS_run [OF allocSA_run])

text \<open>The state in which the workers of a new generation start.\<close>

definition takeover :: "outside \<Rightarrow> Session \<Rightarrow> ChildSA \<Rightarrow> SA \<Rightarrow> Tunnel \<Rightarrow> Client \<Rightarrow> Client" where
  "takeover X s ch sa t c =
     (let n = length (h_sas c); cfg = tunConfig s (cl_cfg c) in
      c\<lparr>h_sas := h_sas c @ [sa],
        cl_super := Idle, cl_inbound := Some [ch_InitiatorSPI ch \<mapsto> n], cl_session := Some s, cl_gen := cl_attempts c - 1,
        cl_localIP := as_IP (s_assigned s), cl_tun := Some (reconfigured n cfg t),
        h_out := h_out c @ map (\<lambda>h. Reconf (snd h) cfg) (o_range X (t_reconfigure t)) @ map RekeyHook (cl_onRekey c)\<rparr>)"

lemma reconnect_finish_run:
  assumes "s_child s = Some ch" "cl_tun c = Some t"
    and "NewSA (ch_Suite ch) (ch_ResponderSPI ch) (ch_InitiatorSPI ch) (EncrIR (ch_Keys ch)) (IntegIR (ch_Keys ch))
       (EncrRI (ch_Keys ch)) (IntegRI (ch_Keys ch)) (c_ReplayWindow (cl_cfg c)) = Ok sa"
  shows "reconnect_finish X s c = startWorkers X (takeover X s ch sa t c)"
  using assms
  by (simp add: reconnect_finish_def derefS_def bindS_def tryS_def espSAFromChild_run modS_def resetInbound_def storeSession_def
      readS_def Reconfigure_def call_hooks_run fireRekey_def fire_hooks_run takeover_def Let_def)

context store_law
begin

lemma within_takeover:
  assumes "within S c" "dialled_ok s" "s_child s = Some ch" "cl_tun c = Some t"
    and sa: "NewSA (ch_Suite ch) (ch_ResponderSPI ch) (ch_InitiatorSPI ch) (EncrIR (ch_Keys ch)) (IntegIR (ch_Keys ch))
       (EncrRI (ch_Keys ch)) (IntegRI (ch_Keys ch)) n = Ok sa"
  shows "within S ((takeover X s ch sa t c)\<lparr>cl_session := Some (s\<lparr>s_dataPlane := True\<rparr>)\<rparr>)" (is "within S ?c")
proof -
  have c: "\<forall>x\<in>set (h_sas c). sa_ok x" "timers_ok (h_sas c) (cl_callbacks c)" "timers_ok (h_sas c) (cl_graceTimers c)" "S (h_sas c)"
    using assms(1) by (simp_all add: within_def client_ok_def)
  then have "timers_ok (h_sas c @ [sa]) (cl_graceTimers c)" unfolding timers_ok_def by fastforce
  then have "client_ok ?c"
    using c assms(2) NewSA_sa_ok(1,6) [OF sa]
    by (intro client_ok_install [of c Map.empty sa "ch_InitiatorSPI ch" ?c "reconfigured (length (h_sas c)) (tunConfig s (cl_cfg c)) t" "s\<lparr>s_dataPlane := True\<rparr>"])
       (simp_all add: takeover_def Let_def reconfigured_def swapSA_def dialled_ok_def registry_ok_def)
  then show ?thesis using c(4) fresh [OF _ sa] by (simp add: within_def takeover_def Let_def)
qed

lemma keeps_reconnect_finish:
  assumes "dialled_ok s"
  shows "keeps (within S) (reconnect_finish X s)"
  unfolding holds_def
proof (intro allI impI)
  fix c assume c: "within S c"
  obtain ch where ch: "s_child s = Some ch" "child_ok ch" using assms by (auto simp: dialled_ok_def session_ok_def)
  obtain t where t: "cl_tun c = Some t" using c by (auto simp: within_def client_ok_def)
  obtain sa where sa: "NewSA (ch_Suite ch) (ch_ResponderSPI ch) (ch_InitiatorSPI ch) (EncrIR (ch_Keys ch)) (IntegIR (ch_Keys ch))
     (EncrRI (ch_Keys ch)) (IntegRI (ch_Keys ch)) (c_ReplayWindow (cl_cfg c)) = Ok sa"
    using child_NewSA [OF ch(2)] by blast
  have "reconnect_finish X s c = startWorkers X ((takeover X s ch sa t c)\<lparr>cl_session := Some (s\<lparr>s_dataPlane := True\<rparr>)\<rparr>)"
    unfolding reconnect_finish_run [OF ch(1) t sa] by (rule startWorkers_dataPlane) (simp add: takeover_def Let_def)
  then show "wp (reconnect_finish X s) (\<lambda>r s'. r \<noteq> Panic \<and> within S s') c"
    using keeps_startWorkers within_takeover [OF c assms ch(1) t sa] unfolding holds_def wp_def by simp
qed

lemma keeps_redial_turn:
  assumes "outside_ok X"
  shows "keeps (within S) (redial_turn X rnd b)"
proof -
  have dial: "wp (tryS (dialSession X)) (\<lambda>r s'. r \<noteq> Panic \<and> within S s' \<and> (\<forall>x. r = Ok x \<longrightarrow> (\<forall>s. x = Inr s \<longrightarrow> dialled_ok s))) c"
    if "within S c" for c
  proof -
    obtain r c' where run: "dialSession X c = (r, c')" by force
    then show ?thesis using dialSession_run [OF assms run] that
      by (cases r) (auto simp: wp_def tryS_def within_def)
  qed
  have rest: "keeps (within S) (case r of
         Inr sess \<Rightarrow> reconnect_finish X sess
       | Inl (_ :: client_err) \<Rightarrow>
           readS isClosing (\<lambda>closing.
           if closing then modS (\<lambda>c. c\<lparr>cl_super := Idle\<rparr>)
           else
             thenS (emitH (Waited (o_jitter X b rnd)))
             (modS (\<lambda>c. c\<lparr>cl_super := Redialing (min (b * 2) (c_ReconnectBackoffMax (cl_cfg c)))\<rparr>))))"
    if "\<forall>s. r = Inr s \<longrightarrow> dialled_ok s" for r
    using that unfolding emitH_def by (intro holds_intros keeps_reconnect_finish keeps_modS) simp_all
  show ?thesis
    unfolding redial_turn_def
    by (rule holds_readS, rule holds_if, rule keeps_modS, simp, simp, rule holds_bindS_Ok [OF dial rest]) simp_all
qed

lemma keeps_reconnect_begin: "outside_ok X \<Longrightarrow> keeps (within S) (reconnect_begin X)"
  unfolding reconnect_begin_def
  by (intro holds_intros keeps_stopWorkers keeps_closeSession keeps_stopGraceTimers keeps_modS) simp_all

lemma keeps_Close: "outside_ok X \<Longrightarrow> keeps (within S) Close_begin" "outside_ok X \<Longrightarrow> keeps (within S) (Close_end X)"
  unfolding Close_begin_def Close_end_def
  by (intro holds_intros keeps_stopWorkers keeps_closeSession keeps_stopGraceTimers keeps_superCancel keeps_modS;
      simp add: client_ok_tun Tunnel_Close_def espConn_Close_def)+

lemma keeps_onTun: "(\<And>t. ec_sa (t_conn (f t)) = ec_sa (t_conn t)) \<Longrightarrow> keeps (within S) (onTun f)"
  unfolding onTun_def by (rule keeps_modS) (simp_all add: client_ok_tun)

lemma keeps_keepalive_turn: "keeps (within S) (keepalive_turn sent)"
  unfolding keepalive_turn_def emitH_def by (intro holds_intros keeps_exitWorker keeps_modS) simp_all

end

context store_law
begin

lemma keeps_client_event:
  assumes X: "outside_ok X" "o_prims X = P"
    and w: "\<And>p rnd sent late. ev = EvWrite p rnd sent late \<Longrightarrow> writes" and r: "\<And>raw now. ev = EvRx raw now \<Longrightarrow> reads"
  shows "keeps (within S) (client_event X ev)"
proof -
  have P: "prims_ok P" using X by (auto simp: outside_ok_def)
  note ops = keeps_driverTurn [OF X(1)] keeps_timerFires keeps_timerRuns keeps_keepalive_turn
    keeps_reconnect_begin [OF X(1)] keeps_redial_turn [OF X(1)] keeps_Close [OF X(1)] keeps_exitWorker
  show ?thesis
  proof (cases ev)
    case (EvWrite p rnd sent late)
    then show ?thesis using keeps_tunnelWrite [OF w P X(2)] by (simp add: client_event_def holds_intros)
  next
    case (EvRx raw now)
    then show ?thesis using keeps_rxDemux_turn [OF r P X(2)] by (auto simp: client_event_def whenS_def intro!: holds_intros)
  next
    case (EvRedial rnd)
    then show ?thesis using ops by (auto simp: client_event_def intro!: holds_readS holds_retS split: supervisor.split)
  next
    case (EvOnRekey h)
    then show ?thesis by (auto simp: client_event_def OnRekey_def intro!: keeps_modS split: option.split)
  qed (auto simp: client_event_def whenS_def SetInbound_def detachInbound_def OnReconfigure_def detachReconfigure_def Let_def
      intro!: holds_intros ops keeps_modS keeps_onTun)
qed

end

text \<open>With no property of the store beyond the invariant every turn is covered.\<close>

interpretation any_store: store_law P "\<lambda>_. True" True True for P
  by unfold_locales simp_all

lemma within_any: "within (\<lambda>_. True) = client_ok"
  by (simp add: within_def fun_eq_iff)

lemma keeps_client_run: "outside_ok X \<Longrightarrow> keeps client_ok (client_run X evs)"
  using any_store.keeps_client_event [of X "o_prims X"] unfolding within_any
  by (induction evs) (auto intro!: holds_intros)

lemma startDataPlane_run:
  assumes "cl_session c = Some s" "s_child s = Some ch"
    and "NewSA (ch_Suite ch) (ch_ResponderSPI ch) (ch_InitiatorSPI ch) (EncrIR (ch_Keys ch)) (IntegIR (ch_Keys ch))
       (EncrRI (ch_Keys ch)) (IntegRI (ch_Keys ch)) (c_ReplayWindow (cl_cfg c)) = Ok sa"
  shows "startDataPlane X c = startWorkers X
    (let c' = c\<lparr>h_sas := h_sas c @ [sa], cl_inbound := Some [ch_InitiatorSPI ch \<mapsto> length (h_sas c)],
                cl_tun := Some (Tunnel_New (length (h_sas c)) (tunConfig s (cl_cfg c)))\<rparr> in
     if autoReconnectEnabled (cl_cfg c) then c'\<lparr>cl_super := Idle\<rparr> else c')"
  using assms by (simp add: startDataPlane_def readS_def derefS_def bindS_def espSAFromChild_run resetInbound_def modS_def retS_def Let_def)

lemma Dial_run:
  assumes "outside_ok X"
  shows "fst (Dial X cfg) \<noteq> Panic" "Dial X cfg = (Ok (), c) \<Longrightarrow> client_ok c"
proof -
  have "fst (Dial X cfg) \<noteq> Panic \<and> (\<forall>c. Dial X cfg = (Ok (), c) \<longrightarrow> client_ok c)"
  proof (cases "validate cfg")
    case (Inl e)
    then show ?thesis by (simp add: Dial_def)
  next
    case (Inr cfg')
    obtain r c0 where dial: "dialSession X (newClient cfg') = (r, c0)" by force
    note d = dialSession_run [OF assms dial]
    show ?thesis
    proof (cases r)
      case (Ok s)
      then have s: "dialled_ok s" using d(3) by blast
      then obtain ch where ch: "s_child s = Some ch" "child_ok ch" by (auto simp: dialled_ok_def session_ok_def)
      let ?c1 = "c0\<lparr>cl_session := Some s, cl_gen := cl_attempts c0 - 1, cl_localIP := as_IP (s_assigned s)\<rparr>"
      obtain sa where sa: "NewSA (ch_Suite ch) (ch_ResponderSPI ch) (ch_InitiatorSPI ch) (EncrIR (ch_Keys ch)) (IntegIR (ch_Keys ch))
         (EncrRI (ch_Keys ch)) (IntegRI (ch_Keys ch)) (c_ReplayWindow (cl_cfg ?c1)) = Ok sa"
        using child_NewSA [OF ch(2)] by blast
      let ?t = "Tunnel_New (length (h_sas c0)) (tunConfig s (cl_cfg c0))"
      define c2 where "c2 = ?c1\<lparr>h_sas := h_sas c0 @ [sa], cl_inbound := Some [ch_InitiatorSPI ch \<mapsto> length (h_sas c0)], cl_tun := Some ?t\<rparr>"
      define c3 where "c3 = (if autoReconnectEnabled (cl_cfg c0) then c2\<lparr>cl_super := Idle\<rparr> else c2)"
      have start: "startDataPlane X ?c1 = startWorkers X c3"
        using startDataPlane_run [of ?c1 s ch sa X] ch(1) sa by (simp add: c2_def c3_def)
      let ?c4 = "c3\<lparr>cl_session := Some (s\<lparr>s_dataPlane := True\<rparr>)\<rparr>"
      have empty: "h_sas c0 = []" "cl_graceTimers c0 = []" "cl_callbacks c0 = []" using d(1) by (simp_all add: newClient_def)
      have "client_ok ?c4"
        using s NewSA_sa_ok(1,6) [OF sa] empty
        by (intro client_ok_install [of c0 Map.empty sa "ch_InitiatorSPI ch" ?c4 ?t "s\<lparr>s_dataPlane := True\<rparr>"])
           (simp_all add: c2_def c3_def Tunnel_New_def newESPConn_def dialled_ok_def registry_ok_def timers_ok_def)
      moreover have "cl_session c3 = Some s" by (simp add: c2_def c3_def)
      ultimately have "wp (startDataPlane X) (\<lambda>r c. r \<noteq> Panic \<and> client_ok c) ?c1"
        using any_store.keeps_startWorkers [of X] start startWorkers_dataPlane [of c3 s X] unfolding within_any holds_def wp_def by simp
      moreover obtain r4 c5 where run: "startDataPlane X ?c1 = (r4, c5)" by force
      ultimately have r4: "r4 \<noteq> Panic" "client_ok c5" by (simp_all add: wp_def)
      have "keeps client_ok (thenS closeSession superCancel)"
        using any_store.keeps_closeSession any_store.keeps_superCancel unfolding within_any by (intro holds_intros)
      then have close: "fst (thenS closeSession superCancel c5) \<noteq> Panic" using r4(2) unfolding holds_def wp_def by blast
      show ?thesis
        using Inr Ok dial run r4 close
        by (cases r4; cases "fst (thenS closeSession superCancel c5)")
           (auto simp: Dial_def bindS_def onErrS_def tryS_def retS_def failS_def storeSession_def modS_def split: prod.splits res.splits)
    next
      case (Err e)
      then show ?thesis using Inr dial by (auto simp: Dial_def bindS_def onErrS_def tryS_def superCancel_def modS_def failS_def)
    qed (use d(2) in simp)
  qed
  then show "fst (Dial X cfg) \<noteq> Panic" "Dial X cfg = (Ok (), c) \<Longrightarrow> client_ok c" by blast+
qed

section \<open>Every packet once\<close>

text \<open>
  What a turn of the receive loop takes from the wire: the association that decrypted a packet,
  the packet, and the datagram.
\<close>

definition takes :: "outside \<Rightarrow> Client \<Rightarrow> turn \<Rightarrow> (sa_ref \<times> bytes \<times> bytes) list" where
  "takes X c ev =
     (case ev of
        EvRx raw now \<Rightarrow>
          (case (Classify raw, lookupInbound (Uint32 (take 4 (snd (Classify raw)))) c) of
             ((KindESP, pkt), Some r) \<Rightarrow>
               (case fst (Decrypt (o_prims X) (h_sas c ! r) pkt) of
                  Ok inner \<Rightarrow> if workerRuns rxWorker c then [(r, pkt, inner)] else []
                | _ \<Rightarrow> [])
           | _ \<Rightarrow> [])
      | _ \<Rightarrow> [])"

fun taken :: "outside \<Rightarrow> turn list \<Rightarrow> Client \<Rightarrow> (sa_ref \<times> bytes \<times> bytes) list" where
  "taken X [] c = []"
| "taken X (ev # evs) c = takes X c ev @ taken X evs (snd (client_event X ev c))"

text \<open>The associations remember, each in its window, what has been taken.\<close>

definition remembered :: "(sa_ref \<times> u32) set \<Rightarrow> SA list \<Rightarrow> bool" where
  "remembered L sas \<longleftrightarrow>
     (\<forall>r q. (r, q) \<in> L \<longrightarrow> r < length sas) \<and>
     (\<forall>r<length sas. \<exists>H. tracks (sa_replay (sas ! r)) H \<and> (\<forall>q. (r, q) \<in> L \<longrightarrow> unat q \<in> H))"

lemma rememberedE:
  assumes "remembered L sas" "r < length sas"
  obtains H where "tracks (sa_replay (sas ! r)) H" "\<And>q. (r, q) \<in> L \<Longrightarrow> unat q \<in> H"
proof -
  have "\<exists>H. tracks (sa_replay (sas ! r)) H \<and> (\<forall>q. (r, q) \<in> L \<longrightarrow> unat q \<in> H)"
    using assms by (simp add: remembered_def)
  then obtain H where H: "tracks (sa_replay (sas ! r)) H" "\<forall>q. (r, q) \<in> L \<longrightarrow> unat q \<in> H" by (elim exE conjE)
  show thesis by (rule that [OF H(1)]) (use H(2) in simp)
qed

lemma remembered_append:
  assumes "remembered L sas" "tracks (sa_replay sa) {}"
  shows "remembered L (sas @ [sa])"
proof -
  have "\<exists>H. tracks (sa_replay ((sas @ [sa]) ! r)) H \<and> (\<forall>q. (r, q) \<in> L \<longrightarrow> unat q \<in> H)" if "r < Suc (length sas)" for r
  proof (cases "r < length sas")
    case True
    then show ?thesis using assms(1) by (simp add: remembered_def nth_append)
  next
    case False
    then have "r = length sas" using that by simp
    moreover have "(length sas, q) \<notin> L" for q using assms(1) by (auto simp: remembered_def)
    ultimately show ?thesis using assms(2) by (intro exI [of _ "{}"]) (simp add: nth_append)
  qed
  then show ?thesis using assms(1) unfolding remembered_def by auto
qed

lemma remembered_update:
  assumes "remembered L sas" "r < length sas" "tracks (sa_replay sa) H" "\<And>q. (r, q) \<in> L' \<Longrightarrow> unat q \<in> H"
    and "\<And>i q. i \<noteq> r \<Longrightarrow> (i, q) \<in> L' \<Longrightarrow> (i, q) \<in> L"
  shows "remembered L' (sas[r := sa])"
proof -
  have "\<exists>H. tracks (sa_replay (sas[r := sa] ! i)) H \<and> (\<forall>q. (i, q) \<in> L' \<longrightarrow> unat q \<in> H)" if bound: "i < length sas" for i
  proof (cases "i = r")
    case True
    then have "sas[r := sa] ! i = sa" using assms(2) by simp
    then show ?thesis using assms(3,4) True by auto
  next
    case False
    then have i: "sas[r := sa] ! i = sas ! i" by simp
    obtain K where "tracks (sa_replay (sas ! i)) K" "\<And>q. (i, q) \<in> L \<Longrightarrow> unat q \<in> K"
      using rememberedE [OF assms(1) bound] by blast
    then show ?thesis unfolding i using False assms(5) by blast
  qed
  moreover have "i < length sas" if "(i, q) \<in> L'" for i q
    using assms(1,2,5) that unfolding remembered_def by (cases "i = r") auto
  ultimately show ?thesis unfolding remembered_def length_list_update by blast
qed

interpretation windows: store_law P "remembered L" True False for P L
proof unfold_locales
  fix sas suite so si oe og ie ig n sa
  assume "remembered L sas" "NewSA suite so si oe og ie ig n = Ok sa"
  then show "remembered L (sas @ [sa])"
    using NewSA_sa_ok(4) tracks_NewReplayWindow by (intro remembered_append) simp_all
next
  fix sas r rnd p x sa'
  assume L: "remembered L sas" and r: "r < length sas" and e: "Encrypt P (sas ! r) rnd p = (x, sa')"
  obtain H where "tracks (sa_replay (sas ! r)) H" "\<And>q. (r, q) \<in> L \<Longrightarrow> unat q \<in> H"
    using rememberedE [OF L r] by blast
  then show "remembered L (sas[r := sa'])"
    using Encrypt_frame [OF e] by (intro remembered_update [OF L r]) auto
qed simp

lemma Decrypt_once:
  assumes "prims_ok P" "sa_ok sa" "tracks (sa_replay sa) H" "Decrypt P sa pkt = (x, sa')"
  obtains H' where "tracks (sa_replay sa') H'" "H \<subseteq> H'" "\<And>inner. x = Ok inner \<Longrightarrow> unat (seqOf pkt) \<in> H' \<and> unat (seqOf pkt) \<notin> H"
  using assms(1,2)
proof (cases rule: Decrypt_shape [where pkt = pkt])
  case (rejected e)
  then show ?thesis using that [of H] assms(3,4) by simp
next
  case (checked k)
  let ?n = "width (sa_replay sa)" and ?q = "unat (seqOf pkt)"
  obtain w where w: "acceptSeq sa (seqOf pkt) k = (if admits ?n H ?q then k else Err ErrReplay, sa\<lparr>sa_replay := w\<rparr>)"
    "tracks w (remember ?n H ?q)"
    using acceptSeq_spec [OF assms(3)] by blast
  have x: "x = (if admits ?n H ?q then k else Err ErrReplay)" "sa' = sa\<lparr>sa_replay := w\<rparr>"
    using w(1) checked(4) assms(4) by simp_all
  show ?thesis
  proof (rule that [of "remember ?n H ?q"])
    show "tracks (sa_replay sa') (remember ?n H ?q)" using w(2) x(2) by simp
    show "H \<subseteq> remember ?n H ?q" by (auto simp: remember_def)
    show "?q \<in> remember ?n H ?q \<and> ?q \<notin> H" if "x = Ok inner" for inner
    proof -
      have "admits ?n H ?q" using that x(1) by (cases "admits ?n H ?q") simp_all
      then show ?thesis by (simp add: remember_def admits_def)
    qed
  qed
qed

lemma Classify_ESP: "Classify raw = (KindESP, pkt) \<Longrightarrow> pkt = raw \<and> 4 \<le> length raw \<and> Uint32 (take 4 raw) \<noteq> 0"
  by (auto simp: Classify_def split: if_splits)

lemma lookup_bound: "client_ok c \<Longrightarrow> lookupInbound spi c = Some r \<Longrightarrow> r < length (h_sas c)"
  by (auto simp: lookupInbound_def client_ok_def registry_ok_def split: option.splits)

text \<open>A turn of the receive loop in which an association is found.\<close>

lemma rx_run:
  assumes "workerRuns rxWorker c" "Classify raw = (KindESP, pkt)" "lookupInbound (Uint32 (take 4 pkt)) c = Some r"
    and "r < length (h_sas c)" "Decrypt (o_prims X) (h_sas c ! r) pkt = (x, sa)" "x \<noteq> Panic" "cl_tun c = Some t"
  shows "client_event X (EvRx raw now) c =
    (let c' = c\<lparr>h_sas := (h_sas c)[r := sa]\<rparr> in
     case x of
       Ok inner \<Rightarrow> DeliverInbound t inner (c'\<lparr>cl_lastDataInbound := now\<rparr>)
     | _ \<Rightarrow> (Ok (), c'\<lparr>cl_rxDrops := cl_rxDrops c + 1\<rparr>))"
proof -
  have "useSA (\<lambda>sa. Decrypt (o_prims X) sa pkt) r c = (wrapR ErrESP x, c\<lparr>h_sas := (h_sas c)[r := sa]\<rparr>)"
    by (rule useSA_run [OF assms(4)]) (rule assms(5))
  then show ?thesis
    using assms Classify_ESP [OF assms(2)]
    by (cases x) (auto simp: client_event_def whenS_def rxDemux_turn_def readS_def bindS_def tryS_def rxDrop_def modS_def derefS_def Let_def)
qed

lemma rx_idle:
  assumes "\<not> (workerRuns rxWorker c \<and> (\<exists>pkt r. Classify raw = (KindESP, pkt) \<and> lookupInbound (Uint32 (take 4 pkt)) c = Some r))"
  shows "h_sas (snd (client_event X (EvRx raw now) c)) = h_sas c"
proof (cases "workerRuns rxWorker c")
  case False
  then show ?thesis by (simp add: client_event_def whenS_def readS_def retS_def)
next
  case True
  obtain k pkt where k: "Classify raw = (k, pkt)" by force
  show ?thesis
  proof (cases k)
    case KindESP
    then have "lookupInbound (Uint32 (take 4 pkt)) c = None" using assms True k by auto
    then show ?thesis using True k KindESP
      by (simp add: client_event_def whenS_def rxDemux_turn_def readS_def rxDrop_def modS_def)
  qed (use True k in \<open>simp_all add: client_event_def whenS_def rxDemux_turn_def readS_def modS_def retS_def\<close>)
qed

lemma DeliverInbound_run:
  "DeliverInbound t ip c = (Ok (), c\<lparr>h_out := h_out c @ (case t_inbound t of None \<Rightarrow> [] | Some fn \<Rightarrow> [Deliver fn ip])\<rparr>)"
  by (simp add: DeliverInbound_def emitH_def modS_def retS_def split: option.split)

lemma rx_store:
  assumes "workerRuns rxWorker c" "Classify raw = (KindESP, pkt)" "lookupInbound (Uint32 (take 4 pkt)) c = Some r"
    and "r < length (h_sas c)" "Decrypt (o_prims X) (h_sas c ! r) pkt = (x, sa)" "x \<noteq> Panic" "cl_tun c = Some t"
  shows "h_sas (snd (client_event X (EvRx raw now) c)) = (h_sas c)[r := sa]"
  unfolding rx_run [OF assms] using assms(6) by (cases x) (simp_all add: Let_def DeliverInbound_run)

text \<open>What a turn takes has not been taken before, and is remembered.\<close>

lemma takes_once:
  assumes X: "outside_ok X" and c: "within (remembered L) c"
  shows "within (remembered (L \<union> (\<lambda>(r, pkt, _). (r, seqOf pkt)) ` set (takes X c ev))) (snd (client_event X ev c))"
    and "(\<lambda>(r, pkt, _). (r, seqOf pkt)) ` set (takes X c ev) \<inter> L = {}" "length (takes X c ev) \<le> 1"
proof -
  have ok: "client_ok c" "remembered L (h_sas c)" using c by (simp_all add: within_def)
  have keep: "client_ok (snd (client_event X ev c))"
    using any_store.keeps_client_event [OF X refl, of ev] ok(1) unfolding within_any holds_def wp_def by blast
  show "length (takes X c ev) \<le> 1"
    by (auto simp: takes_def split: turn.split prod.split Kind.split option.split res.split)
  have "within (remembered (L \<union> (\<lambda>(r, pkt, _). (r, seqOf pkt)) ` set (takes X c ev))) (snd (client_event X ev c)) \<and>
     (\<lambda>(r, pkt, _). (r, seqOf pkt)) ` set (takes X c ev) \<inter> L = {}"
  proof (cases "\<exists>raw now. ev = EvRx raw now")
    case False
    then have "takes X c ev = []" by (cases ev) (auto simp: takes_def)
    moreover have "within (remembered L) (snd (client_event X ev c))"
      using windows.keeps_client_event [OF X refl, of ev L] False c unfolding holds_def wp_def by blast
    ultimately show ?thesis by simp
  next
    case True
    then obtain raw now where ev: "ev = EvRx raw now" by blast
    show ?thesis
    proof (cases "workerRuns rxWorker c \<and> (\<exists>pkt r. Classify raw = (KindESP, pkt) \<and> lookupInbound (Uint32 (take 4 pkt)) c = Some r)")
      case False
      then have "takes X c ev = []" by (auto simp: takes_def ev split: prod.split Kind.split option.split res.split)
      then show ?thesis using rx_idle [OF False, of X now] keep ok(2) by (simp add: within_def ev)
    next
      case True
      then obtain pkt r where p: "workerRuns rxWorker c" "Classify raw = (KindESP, pkt)" "lookupInbound (Uint32 (take 4 pkt)) c = Some r"
        by blast
      have r: "r < length (h_sas c)" by (rule lookup_bound [OF ok(1) p(3)])
      obtain x sa where dec: "Decrypt (o_prims X) (h_sas c ! r) pkt = (x, sa)" by force
      have P: "prims_ok (o_prims X)" using X by (simp add: outside_ok_def)
      have saok: "sa_ok (h_sas c ! r)" using ok(1) r by (simp add: client_ok_def)
      have x: "x \<noteq> Panic" using Decrypt_sa_ok(1) [OF P saok, of pkt] dec by simp
      obtain t where t: "cl_tun c = Some t" using ok(1) by (auto simp: client_ok_def)
      obtain H where H: "tracks (sa_replay (h_sas c ! r)) H" "\<And>q. (r, q) \<in> L \<Longrightarrow> unat q \<in> H"
        using rememberedE [OF ok(2) r] by blast
      obtain H' where H': "tracks (sa_replay sa) H'" "H \<subseteq> H'"
          "\<And>inner. x = Ok inner \<Longrightarrow> unat (seqOf pkt) \<in> H' \<and> unat (seqOf pkt) \<notin> H"
        using Decrypt_once [OF P saok H(1) dec] by blast
      have takes: "takes X c ev = (case x of Ok inner \<Rightarrow> [(r, pkt, inner)] | _ \<Rightarrow> [])"
        using p dec by (cases x) (simp_all add: takes_def ev)
      have new: "(\<lambda>(r, pkt, _). (r, seqOf pkt)) ` set (takes X c ev) = (case x of Ok inner \<Rightarrow> {(r, seqOf pkt)} | _ \<Rightarrow> {})"
        by (cases x) (simp_all add: takes)
      have "remembered (L \<union> (case x of Ok inner \<Rightarrow> {(r, seqOf pkt)} | _ \<Rightarrow> {})) ((h_sas c)[r := sa])"
        by (rule remembered_update [OF ok(2) r H'(1)]) (use H(2) H'(2,3) in \<open>auto split: res.splits\<close>)
      moreover have "(case x of Ok inner \<Rightarrow> {(r, seqOf pkt)} | _ \<Rightarrow> {}) \<inter> L = {}"
        using H(2) H'(3) by (auto split: res.splits)
      ultimately show ?thesis
        using keep rx_store [OF p r dec x t, of now] unfolding new within_def unfolding ev by simp
    qed
  qed
  then show "within (remembered (L \<union> (\<lambda>(r, pkt, _). (r, seqOf pkt)) ` set (takes X c ev))) (snd (client_event X ev c))"
    "(\<lambda>(r, pkt, _). (r, seqOf pkt)) ` set (takes X c ev) \<inter> L = {}" by simp_all
qed

lemma taken_distinct:
  assumes "outside_ok X" "within (remembered L) c"
  shows "distinct (map (\<lambda>(r, pkt, _). (r, seqOf pkt)) (taken X evs c)) \<and>
     (\<lambda>(r, pkt, _). (r, seqOf pkt)) ` set (taken X evs c) \<inter> L = {}"
  using assms(2)
proof (induction evs arbitrary: c L)
  case (Cons ev evs)
  define f :: "sa_ref \<times> bytes \<times> bytes \<Rightarrow> sa_ref \<times> u32" where "f = (\<lambda>(r, pkt, _). (r, seqOf pkt))"
  note t = takes_once [OF assms(1) Cons.prems, of ev, folded f_def]
  have "distinct (map f (takes X c ev))"
    using t(3) by (cases "takes X c ev") auto
  moreover have "distinct (map f (taken X evs (snd (client_event X ev c)))) \<and>
      f ` set (taken X evs (snd (client_event X ev c))) \<inter> (L \<union> f ` set (takes X c ev)) = {}"
    unfolding f_def by (rule Cons.IH) (use t(1) in \<open>simp add: f_def\<close>)
  ultimately have "distinct (map f (taken X (ev # evs) c)) \<and> f ` set (taken X (ev # evs) c) \<inter> L = {}"
    using t(2) unfolding taken.simps map_append distinct_append set_append set_map image_Un by blast
  then show ?case by (simp only: f_def)
qed simp

section \<open>Every sequence number once\<close>

text \<open>What a write of the network stack puts on the wire: the association and the packet.\<close>

definition emits :: "outside \<Rightarrow> Client \<Rightarrow> turn \<Rightarrow> (sa_ref \<times> bytes) list" where
  "emits X c ev =
     (case (ev, cl_tun c) of
        (EvWrite p rnd sent late, Some t) \<Rightarrow>
          (case fst (Encrypt (o_prims X) (h_sas c ! ec_sa (t_conn t)) rnd p) of
             Ok pkt \<Rightarrow> if ec_closed (t_conn t) then [] else [(ec_sa (t_conn t), pkt)]
           | _ \<Rightarrow> [])
      | _ \<Rightarrow> [])"

fun emitted :: "outside \<Rightarrow> turn list \<Rightarrow> Client \<Rightarrow> (sa_ref \<times> bytes) list" where
  "emitted X [] c = []"
| "emitted X (ev # evs) c = emits X c ev @ emitted X evs (snd (client_event X ev c))"

definition numbered :: "(sa_ref \<times> u32) set \<Rightarrow> SA list \<Rightarrow> bool" where
  "numbered L sas \<longleftrightarrow> (\<forall>r q. (r, q) \<in> L \<longrightarrow> r < length sas \<and> q \<le> sa_seq (sas ! r))"

lemma numbered_update:
  assumes "numbered L sas" "r < length sas" "sa_seq (sas ! r) \<le> sa_seq sa" "\<And>q. (r, q) \<in> L' \<Longrightarrow> (r, q) \<in> L \<or> q \<le> sa_seq sa"
    and "\<And>i q. i \<noteq> r \<Longrightarrow> (i, q) \<in> L' \<Longrightarrow> (i, q) \<in> L"
  shows "numbered L' (sas[r := sa])"
  unfolding numbered_def
proof (intro allI impI)
  fix i q assume i: "(i, q) \<in> L'"
  show "i < length (sas[r := sa]) \<and> q \<le> sa_seq (sas[r := sa] ! i)"
  proof (cases "i = r")
    case True
    then have "q \<le> sa_seq sa" using i assms(1,3,4) unfolding numbered_def by fastforce
    then show ?thesis using True assms(2) by simp
  next
    case False
    then have "(i, q) \<in> L" using i assms(5) by blast
    then show ?thesis using False assms(1) unfolding numbered_def by simp
  qed
qed

interpretation counters: store_law P "numbered L" False True for P L
proof unfold_locales
  fix sas suite so si oe og ie ig n sa
  assume "numbered L sas" "NewSA suite so si oe og ie ig n = Ok sa"
  then show "numbered L (sas @ [sa])" unfolding numbered_def by (auto simp: nth_append less_Suc_eq)
next
  fix sas r p y sa'
  assume L: "numbered L sas" and r: "r < length sas" and d: "prims_ok P" "sa_ok (sas ! r)" "Decrypt P (sas ! r) p = (y, sa')"
  show "numbered L (sas[r := sa'])"
    using Decrypt_frame [OF d] by (intro numbered_update [OF L r]) auto
qed simp

lemma snd_ignoreS: "snd (ignoreS m s) = snd (m s)"
  by (auto simp: ignoreS_def bindS_def tryS_def retS_def split: res.split prod.split)

lemma write_store:
  assumes "cl_tun c = Some t" "ec_sa (t_conn t) < length (h_sas c)" "Encrypt (o_prims X) (h_sas c ! ec_sa (t_conn t)) rnd p = (x, sa)"
  shows "h_sas (snd (client_event X (EvWrite p rnd sent late) c)) =
     (if ec_closed (t_conn t) then h_sas c else (h_sas c)[ec_sa (t_conn t) := sa])"
proof -
  have run: "useSA (\<lambda>sa. Encrypt (o_prims X) sa rnd p) (ec_sa (t_conn t)) c = (wrapR ErrESP x, c\<lparr>h_sas := (h_sas c)[ec_sa (t_conn t) := sa]\<rparr>)"
    by (rule useSA_run [OF assms(2)]) (rule assms(3))
  define K where "K pkt = bindS (tryS (sendESP sent pkt)) (\<lambda>r. case r of Inr _ \<Rightarrow> retS (length p) | Inl e \<Rightarrow> guardS late ErrNetClosed (failS e))" for pkt
  have send: "h_sas (snd (K pkt d)) = h_sas d" for pkt d
    by (auto simp: K_def sendESP_def bindS_def tryS_def readS_def emitH_def modS_def guardS_def retS_def failS_def split: option.split)
  have "h_sas (snd (tunnelWrite X rnd sent late p c)) = (if ec_closed (t_conn t) then h_sas c else (h_sas c)[ec_sa (t_conn t) := sa])"
    using assms(1) send unfolding tunnelWrite_def espConn_Write_def K_def [symmetric]
    by (cases x) (simp_all add: readS_def derefS_def guardS_def failS_def bindS_def run)
  then show ?thesis by (simp add: client_event_def snd_ignoreS)
qed

lemma emits_once:
  assumes X: "outside_ok X" and c: "within (numbered L) c"
  shows "within (numbered (L \<union> (\<lambda>(r, pkt). (r, seqOf pkt)) ` set (emits X c ev))) (snd (client_event X ev c))"
    and "(\<lambda>(r, pkt). (r, seqOf pkt)) ` set (emits X c ev) \<inter> L = {}" "length (emits X c ev) \<le> 1"
proof -
  have ok: "client_ok c" "numbered L (h_sas c)" using c by (simp_all add: within_def)
  have keep: "client_ok (snd (client_event X ev c))"
    using any_store.keeps_client_event [OF X refl, of ev] ok(1) unfolding within_any holds_def wp_def by blast
  show "length (emits X c ev) \<le> 1"
    by (auto simp: emits_def split: turn.split option.split res.split)
  have "within (numbered (L \<union> (\<lambda>(r, pkt). (r, seqOf pkt)) ` set (emits X c ev))) (snd (client_event X ev c)) \<and>
     (\<lambda>(r, pkt). (r, seqOf pkt)) ` set (emits X c ev) \<inter> L = {}"
  proof (cases "\<exists>p rnd sent late. ev = EvWrite p rnd sent late")
    case False
    then have "emits X c ev = []" by (cases ev) (auto simp: emits_def)
    moreover have "within (numbered L) (snd (client_event X ev c))"
      using counters.keeps_client_event [OF X refl, of ev L] False c unfolding holds_def wp_def by blast
    ultimately show ?thesis by simp
  next
    case True
    then obtain p rnd sent late where ev: "ev = EvWrite p rnd sent late" by blast
    obtain t where t: "cl_tun c = Some t" "ec_sa (t_conn t) < length (h_sas c)"
      using ok(1) by (auto simp: client_ok_def sending_ok_def)
    define r where "r = ec_sa (t_conn t)"
    obtain x sa where enc: "Encrypt (o_prims X) (h_sas c ! r) rnd p = (x, sa)" by force
    note store = write_store [OF t enc [unfolded r_def], of sent late, folded r_def ev]
    have new: "emits X c ev = (case x of Ok pkt \<Rightarrow> if ec_closed (t_conn t) then [] else [(r, pkt)] | _ \<Rightarrow> [])"
      using t(1) enc by (cases x) (simp_all add: emits_def ev r_def)
    have seq: "sa_seq (h_sas c ! r) \<le> sa_seq sa" "\<And>pkt. x = Ok pkt \<Longrightarrow> seqOf pkt = sa_seq sa \<and> sa_seq (h_sas c ! r) < sa_seq sa"
      using Encrypt_seqOf [OF enc] word_succ(2) [of "sa_seq (h_sas c ! r)"] by auto
    let ?N = "(\<lambda>(r, pkt). (r, seqOf pkt)) ` set (emits X c ev)"
    have N: "?N \<subseteq> {(r, sa_seq sa)}" "?N \<noteq> {} \<Longrightarrow> sa_seq (h_sas c ! r) < sa_seq sa \<and> \<not> ec_closed (t_conn t)"
      using seq(2) by (auto simp: new split: res.splits if_splits)
    have "?N \<inter> L = {}"
      using N ok(2) unfolding numbered_def by fastforce
    moreover have "numbered (L \<union> ?N) (h_sas (snd (client_event X ev c)))"
    proof (cases "ec_closed (t_conn t)")
      case True
      then have "emits X c ev = []" using N(2) by auto
      then show ?thesis using True store ok(2) by simp
    next
      case False
      have "numbered (L \<union> ?N) ((h_sas c)[r := sa])"
        by (rule numbered_update [OF ok(2) t(2) [folded r_def] seq(1)]) (use N(1) in auto)
      then show ?thesis using False store by simp
    qed
    ultimately show ?thesis using keep by (simp add: within_def)
  qed
  then show "within (numbered (L \<union> (\<lambda>(r, pkt). (r, seqOf pkt)) ` set (emits X c ev))) (snd (client_event X ev c))"
    "(\<lambda>(r, pkt). (r, seqOf pkt)) ` set (emits X c ev) \<inter> L = {}" by simp_all
qed

lemma emitted_distinct:
  assumes "outside_ok X" "within (numbered L) c"
  shows "distinct (map (\<lambda>(r, pkt). (r, seqOf pkt)) (emitted X evs c)) \<and>
     (\<lambda>(r, pkt). (r, seqOf pkt)) ` set (emitted X evs c) \<inter> L = {}"
  using assms(2)
proof (induction evs arbitrary: c L)
  case (Cons ev evs)
  define f :: "sa_ref \<times> bytes \<Rightarrow> sa_ref \<times> u32" where "f = (\<lambda>(r, pkt). (r, seqOf pkt))"
  note t = emits_once [OF assms(1) Cons.prems, of ev, folded f_def]
  have "distinct (map f (emits X c ev))"
    using t(3) by (cases "emits X c ev") auto
  moreover have "distinct (map f (emitted X evs (snd (client_event X ev c)))) \<and>
      f ` set (emitted X evs (snd (client_event X ev c))) \<inter> (L \<union> f ` set (emits X c ev)) = {}"
    unfolding f_def by (rule Cons.IH) (use t(1) in \<open>simp add: f_def\<close>)
  ultimately have "distinct (map f (emitted X (ev # evs) c)) \<and> f ` set (emitted X (ev # evs) c) \<inter> L = {}"
    using t(2) unfolding emitted.simps map_append distinct_append set_append set_map image_Un by blast
  then show ?case by (simp only: f_def)
qed simp

end
