(* ===== verification/Handshake_Bound.thy ===== *)
theory Handshake_Bound
  imports Handshake_Run
begin

text \<open>
  A bound on what a handshake sends, whatever the responder and the network do.
\<close>

section \<open>How much a handshake sends\<close>

text \<open>
  \<open>spends cfg n m\<close>: in a session of this configuration \<open>m\<close> sends at most \<open>n\<close> datagrams,
  whatever its outcome, and leaves the configuration alone.  The rules follow the text of \<open>m\<close>.
\<close>

named_theorems spends_intros \<open>what the statements of the handshake send\<close>

definition spends :: "SessionConfig \<Rightarrow> nat \<Rightarrow> (Session, 'e, 'a) go \<Rightarrow> bool" where
  "spends cfg n m \<longleftrightarrow> (\<forall>s. s_cfg s = cfg \<longrightarrow>
     s_cfg (snd (m s)) = cfg \<and> length (s_out (snd (m s))) \<le> length (s_out s) + n)"

lemma spends_mono: "spends cfg n m \<Longrightarrow> n \<le> k \<Longrightarrow> spends cfg k m"
  unfolding spends_def by fastforce

lemma spends_bind:
  assumes m: "spends cfg i m" and f: "\<And>x. spends cfg j (f x)"
  shows "spends cfg (i + j) (bindS m f)"
  unfolding spends_def
proof (intro allI impI)
  fix s :: Session assume s: "s_cfg s = cfg"
  obtain r s' where ms: "m s = (r, s')" by force
  then have s': "s_cfg s' = cfg" "length (s_out s') \<le> length (s_out s) + i"
    using m s by (auto simp: spends_def)
  have "s_cfg (snd (f x s')) = cfg \<and> length (s_out (snd (f x s'))) \<le> length (s_out s') + j" for x
    using f [of x] s'(1) by (simp add: spends_def)
  note F = this
  have "s_cfg (snd (f x s')) = cfg" "length (s_out (snd (f x s'))) \<le> length (s_out s) + (i + j)" for x
    using F [of x] s'(2) by simp_all
  then show "s_cfg (snd (bindS m f s)) = cfg \<and> length (s_out (snd (bindS m f s))) \<le> length (s_out s) + (i + j)"
    using ms s' by (cases r) (auto simp: bindS_def)
qed

lemma spends_step: "spends cfg i m \<Longrightarrow> (\<And>x. spends cfg j (f x)) \<Longrightarrow> i + j \<le> n \<Longrightarrow> spends cfg n (bindS m f)"
  by (rule spends_mono [OF spends_bind])

text \<open>Statements that send nothing, so that only the exchanges count.\<close>

lemma spends_quiet [spends_intros]:
  "spends cfg 0 (retS x)" "spends cfg 0 (failS e)" "spends cfg 0 (liftS r)" "spends cfg 0 tickS"
  by (simp_all add: spends_def retS_def failS_def liftS_def tickS_def)

lemma spends_modS [spends_intros]:
  "(\<And>s. s_cfg (g s) = s_cfg s) \<Longrightarrow> (\<And>s. s_out (g s) = s_out s) \<Longrightarrow> spends cfg 0 (modS g)"
  by (simp add: spends_def modS_def)

lemma spends_bind0 [spends_intros]: "spends cfg 0 m \<Longrightarrow> (\<And>x. spends cfg n (f x)) \<Longrightarrow> spends cfg n (bindS m f)"
  using spends_bind [of cfg 0 m n f] by simp

lemma spends_weak [spends_intros]:
  "spends cfg n (failS e)" "spends cfg n (retS x)" "spends cfg n (liftS r)"
  by (simp_all add: spends_def retS_def failS_def liftS_def)

lemma spends_readS [spends_intros]: "(\<And>x. spends cfg n (k x)) \<Longrightarrow> spends cfg n (readS f k)"
  by (simp add: spends_def readS_def)

lemma spends_read_cfg: "spends cfg n (k cfg) \<Longrightarrow> spends cfg n (readS s_cfg k)"
  by (simp add: spends_def readS_def)

lemma spends_guardS [spends_intros]: "spends cfg n k \<Longrightarrow> spends cfg n (guardS c e k)"
  by (simp add: guardS_def spends_weak)

lemma spends_derefS [spends_intros]: "(\<And>y. spends cfg n (k y)) \<Longrightarrow> spends cfg n (derefS x k)"
  by (simp add: derefS_def spends_weak split: option.split)

lemma spends_tryS [spends_intros]: "spends cfg n m \<Longrightarrow> spends cfg n (tryS m)"
  by (auto simp: spends_def tryS_def split: prod.split res.split)

lemma spends_cases [spends_intros]:
  "spends cfg n a \<Longrightarrow> (\<And>x. spends cfg n (b x)) \<Longrightarrow> spends cfg n (case o1 of None \<Rightarrow> a | Some x \<Rightarrow> b x)"
  "(\<And>x. spends cfg n (c x)) \<Longrightarrow> (\<And>y. spends cfg n (d y)) \<Longrightarrow> spends cfg n (case o2 of Inl x \<Rightarrow> c x | Inr y \<Rightarrow> d y)"
  "(\<And>x y. spends cfg n (e x y)) \<Longrightarrow> spends cfg n (case p of (x, y) \<Rightarrow> e x y)"
  "spends cfg n f \<Longrightarrow> spends cfg n g \<Longrightarrow> spends cfg n (if q then f else g)"
  by (auto split: option.split sum.split prod.split)

lemma spends_onErrS [spends_intros]: "spends cfg 0 m \<Longrightarrow> spends cfg 0 h \<Longrightarrow> spends cfg 0 (onErrS m h)"
  unfolding onErrS_def by (intro spends_intros)

lemma spends_world [spends_intros]:
  "spends cfg 0 (randBytes W k)" "spends cfg 0 (randUint64 W)" "spends cfg 0 (newDHS W g)" "spends cfg 0 (clockS W)" "spends cfg 0 (nowS W)"
  unfolding randBytes_def randUint64_def newDHS_def clockS_def nowS_def by (intro spends_intros)+

lemma spends_codec [spends_intros]: "spends cfg 0 (encodeSK W ex fl mid inner)" "spends cfg 0 (decodeS W raw)"
  unfolding encodeSK_def encodeWith_def decodeS_def Let_def
  by (intro spends_intros; simp add: putSA_def split: ctxRef.split)+

lemma spends_emitS: "spends cfg 1 (emitS x)"
  by (simp add: spends_def emitS_def modS_def)

lemma spends_sendIKE: "spends cfg 1 (sendIKE W ike)"
  unfolding sendIKE_def
  by (rule spends_readS, rule spends_step [OF spends_emitS, where j = 0]) (intro spends_intros, simp)

text \<open>An exchange.\<close>

lemma spends_recvMatching [spends_intros]: "spends cfg 0 (recvMatching W mid)"
  unfolding recvMatching_def by (intro spends_intros)

lemma spends_exchange_loop: "spends cfg k (exchange_loop W req mid k)"
proof (induction k)
  case (Suc k)
  show ?case unfolding exchange_loop.simps
    by (rule spends_step [OF spends_sendIKE, where j = k]) (intro spends_intros Suc.IH, simp)
qed (simp add: spends_intros)

lemma spends_exchange [spends_intros]: "spends cfg (nat (retransmitTries cfg)) (exchange W req mid)"
  unfolding exchange_def by (rule spends_read_cfg, rule spends_exchange_loop)

lemma spends_exchangeSK: "spends cfg (nat (retransmitTries cfg)) (exchangeSK W ex mid inner)"
  unfolding exchangeSK_def
  by (rule spends_bind0, rule spends_intros, rule spends_step [OF spends_exchange, where j = 0]) (intro spends_intros, simp)

text \<open>IKE\_SA\_INIT: the request, its retry with a cookie, and the same again with another group.\<close>

lemma spends_sendSAInit: "spends cfg (nat (retransmitTries cfg)) (sendSAInit W cookie)"
  unfolding sendSAInit_def buildSAInit_def Let_def
  by (rule spends_bind0, (intro spends_intros; simp), rule spends_bind0, (intro spends_intros; simp),
      rule spends_step [OF spends_exchange, where j = 0], (intro spends_intros; simp), simp)

lemma spends_IKESAInit: "spends cfg (4 * nat (retransmitTries cfg)) (IKESAInit W E)"
proof -
  let ?t = "nat (retransmitTries cfg)"
  have dial: "spends cfg 0 (sainit_dial E)"
    unfolding sainit_dial_def by (intro spends_intros; simp)
  have fresh: "spends cfg 0 (sainit_fresh W)"
    unfolding sainit_fresh_def assignS_def by (intro spends_intros; simp)
  have first: "spends cfg (2 * ?t) (sainit_first W)"
    unfolding sainit_first_def
    by (rule spends_step [OF spends_sendSAInit, where j = ?t])
       (auto intro!: spends_bind0 spends_intros spends_step [OF spends_sendSAInit, where j = 0])
  have group: "spends cfg (2 * ?t) (sainit_group W rsp cookie)" for rsp cookie
    unfolding sainit_group_def assignS_def
    apply (rule spends_bind0, rule spends_intros, rule spends_intros, rule spends_intros, rule spends_intros, rule spends_intros,
      rule spends_intros, rule spends_bind0, (intro spends_intros; simp))
    by (rule spends_step [OF spends_sendSAInit, where j = ?t])
       (auto intro!: spends_bind0 spends_intros spends_step [OF spends_sendSAInit, where j = 0])
  have payload: "spends cfg 0 (sainit_payload p acc)" for p acc
    unfolding sainit_payload_def Let_def by (cases p) (auto intro!: spends_intros)
  have loop: "spends cfg 0 (sainit_loop ps acc)" for ps acc
    by (induction ps arbitrary: acc) (auto intro!: spends_intros payload)
  have response: "spends cfg 0 (handleSAInitResponse W raw)" for raw
    unfolding handleSAInitResponse_def sainit_keys_def by (intro spends_intros loop; simp)
  show ?thesis
    unfolding IKESAInit_def
    apply (rule spends_read_cfg, rule spends_cases, rule spends_intros)
    apply (rule spends_bind0 [OF dial], rule spends_bind0 [OF fresh], rule spends_step [OF first, where j = "2 * ?t"])
     apply (rule spends_cases, rule spends_step [OF group, where j = 0])
      apply (intro spends_intros response; simp)
    by simp_all
qed

text \<open>IKE\_AUTH: the first request, the rounds of EAP, and the final one.\<close>

lemma spends_final [spends_intros]: "spends cfg 0 (handleFinalAuthResponse W ps secret)"
  unfolding handleFinalAuthResponse_def final_install_def Let_def by (intro spends_intros; simp)

lemma spends_eap_loop: "spends cfg (k * nat (retransmitTries cfg)) (eap_loop W E k m req)"
proof (induction k arbitrary: m req)
  case (Suc k)
  let ?t = "nat (retransmitTries cfg)"
  have rest: "spends cfg (Suc k * ?t) (bindS (exchangeSK W ExchangeIKEAuth mid ps) (\<lambda>resp.
         thenS nextMessageID
         (case firstNotifyError resp of
            Some e \<Rightarrow> failS e
          | None \<Rightarrow>
              bindS (liftS (firstEAP resp)) (\<lambda>nxt.
              case nxt of None \<Rightarrow> failS ErrMissingEAP | Some p \<Rightarrow> eap_loop W E k m' p))))" for mid ps m'
    unfolding nextMessageID_def
    by (rule spends_step [OF spends_exchangeSK, where j = "k * ?t"]) ((intro spends_intros Suc.IH; simp), simp)
  show ?case unfolding eap_loop.simps by (intro spends_intros rest)
qed (simp add: spends_intros)

lemma spends_IKEAuth: "spends cfg (34 * nat (retransmitTries cfg)) (IKEAuth W E)"
proof -
  let ?t = "nat (retransmitTries cfg)"
  have nxtid: "spends cfg 0 nextMessageID" unfolding nextMessageID_def by (intro spends_intros; simp)
  have psk: "spends cfg ?t (ikeAuthPSK W)"
    unfolding ikeAuthPSK_def allocChildSPI_def Let_def
    by (rule spends_bind0, (intro spends_intros; simp), rule spends_intros, rule spends_intros,
        rule spends_step [OF spends_exchangeSK, where j = 0], (intro spends_intros nxtid; simp), simp)
  have finish: "spends cfg ?t (eap_finish W E m)" for m
    unfolding eap_finish_def
    by (rule spends_cases, rule spends_bind0, rule spends_intros, rule spends_intros, rule spends_intros,
        rule spends_step [OF spends_exchangeSK, where j = 0], (intro spends_intros nxtid; simp), simp)
  have resp: "spends cfg 0 (handleAuthResponse W E ps)" for ps
    unfolding handleAuthResponse_def by (intro spends_intros; simp)
  have rounds: "spends cfg (33 * ?t) (bindS (eap_loop W E maxEAPRounds m req) (eap_finish W E))" for m req
    by (rule spends_step [OF spends_eap_loop finish]) (simp add: maxEAPRounds_def)
  have eap: "spends cfg (34 * ?t) (ikeAuthEAP W E)"
    unfolding ikeAuthEAP_def allocChildSPI_def Let_def
    by (rule spends_bind0, (intro spends_intros; simp), rule spends_intros,
        rule spends_step [OF spends_exchangeSK, where j = "33 * ?t"], rule spends_bind0 [OF nxtid], rule spends_bind0 [OF resp], rule rounds, simp)
  show ?thesis unfolding IKEAuth_def by (intro spends_intros eap spends_mono [OF psk]; simp)
qed

end
