(* ===== verification/Client_Life.thy ===== *)
theory Client_Life
  imports Client_Safety Handshake_Bound "HOL-Library.Sublist"
begin

text \<open>
  What the client achieves over its life: dialling, carrying datagrams across rekeys, and coming
  back after the peer has been declared dead.
\<close>

section \<open>Dialling\<close>

lemma randFraction_run: "\<exists>f k. randFraction W s = (Ok f, s\<lparr>s_n := k\<rparr>)"
  by (auto simp: randFraction_def randBytes_def bindS_def tryS_def tickS_def liftS_def ReadFull_def retS_def split: res.splits)

lemma jitteredDeadline_run: "\<exists>d k. (jitteredDeadline W t l :: (Session, 'e, time) go) s = (Ok d, s\<lparr>s_n := k\<rparr>)"
proof (cases "l \<le> 0")
  case True
  then show ?thesis by (auto simp: jitteredDeadline_def retS_def intro: exI [of _ "s_n s"])
next
  case False
  obtain f k where "(randFraction W :: (Session, 'e, u16) go) s = (Ok f, s\<lparr>s_n := k\<rparr>)" using randFraction_run by blast
  then show ?thesis using False by (auto simp: jitteredDeadline_def bindS_def retS_def)
qed

text \<open>What the start of the driver leaves alone.\<close>

definition same_tunnel :: "Session \<Rightarrow> Session \<Rightarrow> bool" where
  "same_tunnel s s' \<longleftrightarrow> s_child s' = s_child s \<and> s_assigned s' = s_assigned s \<and> s_established s' = s_established s \<and>
     s_ikeSA s' = s_ikeSA s \<and> s_out s' = s_out s \<and> s_remoteIDr s' = s_remoteIDr s"

lemma wp_jittered:
  assumes "\<And>d k. Q (Ok d) (s\<lparr>s_n := k\<rparr>)"
  shows "wp (jitteredDeadline W t l :: (Session, 'e, time) go) Q s"
proof -
  obtain d k where "(jitteredDeadline W t l :: (Session, 'e, time) go) s = (Ok d, s\<lparr>s_n := k\<rparr>)"
    using jitteredDeadline_run by blast
  then show ?thesis using assms by (simp add: wp_def)
qed

lemma Driver_start_run: "\<exists>s'. (Driver_start W :: (Session, 'e, unit) go) s = (Ok (), s') \<and> same_tunnel s s'"
proof -
  have "wp (Driver_start W :: (Session, 'e, unit) go) (\<lambda>r s'. r = Ok () \<and> same_tunnel s s') s"
    unfolding Driver_start_def wp_bindS wp_clockS res.case prod.case wp_modS wp_readS
    by (rule wp_jittered, unfold res.case, rule wp_jittered) (simp add: same_tunnel_def)
  then show ?thesis by (cases "(Driver_start W :: (Session, 'e, unit) go) s") (simp add: wp_def)
qed

text \<open>The workers of a generation run.\<close>

definition started :: "Client \<Rightarrow> bool" where
  "started c \<longleftrightarrow> workerRuns rxWorker c \<and> workerRuns driverWorker c"

lemma startWorkers_run:
  assumes "cl_session c = Some s"
  shows "\<exists>c' s'. startWorkers X c = (Ok (), c') \<and> started c' \<and> cl_session c' = Some s' \<and> same_tunnel s s' \<and>
     h_sas c' = h_sas c \<and> h_out c' = h_out c \<and> cl_inbound c' = cl_inbound c \<and> cl_tun c' = cl_tun c \<and> cl_super c' = cl_super c \<and>
     cl_graceTimers c' = cl_graceTimers c \<and> cl_callbacks c' = cl_callbacks c \<and> cl_cfg c' = cl_cfg c \<and> cl_localIP c' = cl_localIP c \<and> cl_superCancelled c' = cl_superCancelled c \<and>
     cl_inbox c' = []"
proof -
  obtain s' where d: "(Driver_start (fst (o_dial X (cl_gen c))) :: (Session, client_err, unit) go) (s\<lparr>s_dataPlane := True\<rparr>) = (Ok (), s')" "same_tunnel (s\<lparr>s_dataPlane := True\<rparr>) s'"
    using Driver_start_run by blast
  define m1 where "m1 = snd (Go (snd (Go (NewManager (cl_superCancelled c)))))"
  define m2 where "m2 = (if c_KeepAlive (cl_cfg c) > 0 then snd (Go m1) else m1)"
  let ?c = "c\<lparr>cl_inbox := [], cl_mgr := Some m2, cl_session := Some s'\<rparr>"
  have "startWorkers X c = (Ok (), ?c)"
    using assms d(1) by (simp add: startWorkers_def readS_def bindS_def onSession_def modS_def Let_def m1_def m2_def)
  moreover have "started ?c"
    by (simp add: started_def workerRuns_def m2_def m1_def Go_def NewManager_def)
  moreover have "same_tunnel s s'" using d(2) by (simp add: same_tunnel_def)
  ultimately show ?thesis by (intro exI [of _ ?c] exI [of _ s']) simp
qed

text \<open>A dial attempt that succeeds, and the client it brings up.\<close>

lemma Dial_succeeds:
  assumes X: "outside_ok X" and cfg: "validate cfg = Inr cfg'" "o_dial X 0 = (W, E)"
    and run: "IKESAInit W E (New_session (toSessionConfig cfg')) = (Ok (), s1)" "IKEAuth W E s1 = (Ok (), s)" "s_child s = Some ch"
  obtains c s' sa where "Dial X cfg = (Ok (), c)" "started c" "cl_super c = (if autoReconnectEnabled cfg' then Idle else NotStarted)"
    "cl_session c = Some s'" "same_tunnel s s'" "cl_inbound c = Some [ch_InitiatorSPI ch \<mapsto> 0]"
    "cl_tun c = Some (Tunnel_New 0 (tunConfig s cfg'))" "cl_callbacks c = []" "cl_graceTimers c = []" "h_sas c = [sa]"
    "NewSA (ch_Suite ch) (ch_ResponderSPI ch) (ch_InitiatorSPI ch) (EncrIR (ch_Keys ch)) (IntegIR (ch_Keys ch))
       (EncrRI (ch_Keys ch)) (IntegRI (ch_Keys ch)) (c_ReplayWindow cfg') = Ok sa"
proof -
  have d: "dialSession X (newClient cfg') = (Ok s, (newClient cfg')\<lparr>cl_attempts := 1\<rparr>)"
    using cfg(2) run by (simp add: dialSession_def defaultDialSession_def newClient_def readS_def bindS_def modS_def onErrS_def tryS_def liftS_def retS_def)
  then have "dialled_ok s" using dialSession_run(3) [OF X d] by simp
  then have ch: "child_ok ch" using run(3) by (auto simp: dialled_ok_def session_ok_def)
  define c1 where "c1 = (newClient cfg')\<lparr>cl_attempts := 1, cl_session := Some s, cl_gen := 0, cl_localIP := as_IP (s_assigned s)\<rparr>"
  have c1: "cl_session c1 = Some s" "cl_cfg c1 = cfg'" "cl_super c1 = NotStarted" "h_sas c1 = []" "cl_callbacks c1 = []" "cl_graceTimers c1 = []"
    by (simp_all add: c1_def newClient_def)
  obtain sa where sa: "NewSA (ch_Suite ch) (ch_ResponderSPI ch) (ch_InitiatorSPI ch) (EncrIR (ch_Keys ch)) (IntegIR (ch_Keys ch))
     (EncrRI (ch_Keys ch)) (IntegRI (ch_Keys ch)) (c_ReplayWindow (cl_cfg c1)) = Ok sa"
    using child_NewSA [OF ch] by blast
  define c2 where "c2 = (let c' = c1\<lparr>h_sas := h_sas c1 @ [sa], cl_inbound := Some [ch_InitiatorSPI ch \<mapsto> length (h_sas c1)],
                cl_tun := Some (Tunnel_New (length (h_sas c1)) (tunConfig s (cl_cfg c1)))\<rparr> in
     if autoReconnectEnabled (cl_cfg c1) then c'\<lparr>cl_super := Idle\<rparr> else c')"
  have c2: "startDataPlane X c1 = startWorkers X c2" unfolding c2_def by (rule startDataPlane_run [OF c1(1) run(3) sa])
  have f: "cl_session c2 = Some s" "cl_super c2 = (if autoReconnectEnabled cfg' then Idle else NotStarted)"
     "cl_inbound c2 = Some [ch_InitiatorSPI ch \<mapsto> 0]" "cl_tun c2 = Some (Tunnel_New 0 (tunConfig s cfg'))"
     "cl_callbacks c2 = []" "cl_graceTimers c2 = []" "h_sas c2 = [sa]"
    using c1 by (simp_all add: c2_def Let_def)
  obtain c s' where w: "startWorkers X c2 = (Ok (), c)" "started c" "cl_session c = Some s'" "same_tunnel s s'" "cl_super c = cl_super c2"
      "cl_inbound c = cl_inbound c2" "cl_tun c = cl_tun c2" "cl_callbacks c = cl_callbacks c2" "cl_graceTimers c = cl_graceTimers c2" "h_sas c = h_sas c2"
    using startWorkers_run [OF f(1), of X] by metis
  have "Dial X cfg = (Ok (), c)"
    using cfg(1) d c2 w(1)
    by (simp add: Dial_def bindS_def onErrS_def tryS_def retS_def storeSession_def modS_def c1_def)
  then show thesis using that w f sa c1(2) by simp
qed

section \<open>What a turn leaves alone\<close>

text \<open>
  \<open>leaves g m\<close>: whatever its outcome, \<open>m\<close> does not change what \<open>g\<close> reads.
\<close>

named_theorems leaves_intros \<open>computations that leave a part of the state alone\<close>

definition leaves :: "('s \<Rightarrow> 'b) \<Rightarrow> ('s, 'e, 'a) go \<Rightarrow> bool" where
  "leaves g m \<longleftrightarrow> (\<forall>s. g (snd (m s)) = g s)"

lemma leavesD: "leaves g m \<Longrightarrow> g (snd (m s)) = g s"
  by (simp add: leaves_def)

lemma leaves_quiet [leaves_intros]: "leaves g (retS x)" "leaves g (failS e)" "leaves g (liftS r)"
  by (simp_all add: leaves_def retS_def failS_def liftS_def)

lemma leaves_modS [leaves_intros]: "(\<And>s. g (f s) = g s) \<Longrightarrow> leaves g (modS f)"
  by (simp add: leaves_def modS_def)

lemma leaves_readS [leaves_intros]: "(\<And>x. leaves g (k x)) \<Longrightarrow> leaves g (readS f k)"
  by (simp add: leaves_def readS_def)

lemma leaves_bindS [leaves_intros]:
  assumes "leaves g m" "\<And>x. leaves g (k x)"
  shows "leaves g (bindS m k)"
  unfolding leaves_def
proof
  fix s
  obtain r s' where "m s = (r, s')" by force
  then show "g (snd (bindS m k s)) = g s"
    using leavesD [OF assms(1), of s] assms(2) by (cases r) (simp_all add: bindS_def leaves_def)
qed

lemma leaves_guardS [leaves_intros]: "leaves g k \<Longrightarrow> leaves g (guardS c e k)"
  by (simp add: guardS_def leaves_quiet)

lemma leaves_derefS [leaves_intros]: "(\<And>y. leaves g (k y)) \<Longrightarrow> leaves g (derefS x k)"
  by (simp add: derefS_def leaves_quiet split: option.split)

lemma leaves_tryS [leaves_intros]: "leaves g m \<Longrightarrow> leaves g (tryS m)"
  by (auto simp: leaves_def tryS_def split: prod.split res.split) (metis snd_conv)+

lemma leaves_ignoreS [leaves_intros]: "leaves g m \<Longrightarrow> leaves g (ignoreS m)"
  unfolding ignoreS_def by (intro leaves_intros)

lemma leaves_wrapS [leaves_intros]: "leaves g m \<Longrightarrow> leaves g (wrapS f m)"
  by (simp add: leaves_def wrapS_def)

lemma leaves_cases [leaves_intros]:
  "leaves g a \<Longrightarrow> (\<And>x. leaves g (b x)) \<Longrightarrow> leaves g (case o1 of None \<Rightarrow> a | Some x \<Rightarrow> b x)"
  "(\<And>x. leaves g (c x)) \<Longrightarrow> (\<And>y. leaves g (d y)) \<Longrightarrow> leaves g (case o2 of Inl x \<Rightarrow> c x | Inr y \<Rightarrow> d y)"
  "(\<And>x y. leaves g (e x y)) \<Longrightarrow> leaves g (case p of (x, y) \<Rightarrow> e x y)"
  "leaves g f \<Longrightarrow> (\<And>y ys. leaves g (h y ys)) \<Longrightarrow> leaves g (case xs of [] \<Rightarrow> f | y # ys \<Rightarrow> h y ys)"
  "leaves g u \<Longrightarrow> leaves g v \<Longrightarrow> leaves g (if q then u else v)"
  by (auto split: option.split sum.split prod.split list.split)

lemma leaves_Let [leaves_intros]: "(\<And>x. leaves g (f x)) \<Longrightarrow> leaves g (Let a f)"
  by simp

text \<open>
  The traffic: what is sent as ESP and what is delivered to the network stack.
\<close>

fun traffic :: "act list \<Rightarrow> act list" where
  "traffic [] = []"
| "traffic (SentESP p # as) = SentESP p # traffic as"
| "traffic (Deliver h p # as) = Deliver h p # traffic as"
| "traffic (_ # as) = traffic as"

lemma traffic_append [simp]: "traffic (as @ bs) = traffic as @ traffic bs"
  by (induction as rule: traffic.induct) simp_all

text \<open>Of the client, the workers leave the shutdown and the supervisor alone.\<close>

abbreviation noted :: "Client \<Rightarrow> act list \<times> bool \<times> bool" where
  "noted c \<equiv> (traffic (h_out c), cl_torndown c, cl_closed c \<longrightarrow> cl_superCancelled c)"

abbreviation calm :: "Client \<Rightarrow> act list \<times> bool \<times> bool \<times> bool \<times> supervisor \<times> Config \<times> nat" where
  "calm c \<equiv> (traffic (h_out c), cl_torndown c, cl_closed c, cl_superCancelled c, cl_super c, cl_cfg c, cl_attempts c)"

lemma leaves_hooks [leaves_intros]: "leaves calm (fire_hooks hs)" "leaves calm (call_hooks cfg rs)"
proof -
  have "traffic (map RekeyHook hs) = []" by (induction hs) simp_all
  then show "leaves calm (fire_hooks hs)" by (simp add: leaves_def fire_hooks_run)
  have "traffic (map (\<lambda>h. Reconf (snd h) cfg) rs) = []" by (induction rs) simp_all
  then show "leaves calm (call_hooks cfg rs)" by (simp add: leaves_def call_hooks_run)
qed

lemma leaves_onSession [leaves_intros]: "leaves calm (onSession m)"
  by (simp add: leaves_def onSession_def split: option.split prod.split)

lemma leaves_allocSA [leaves_intros]: "leaves calm (allocSA r)"
  unfolding allocSA_def by (intro leaves_intros) simp

lemma leaves_InstallChildSA [leaves_intros]: "leaves calm (InstallChildSA u)"
  unfolding InstallChildSA_def fireRekey_def scheduleInboundRemoval_def by (intro leaves_intros; simp)

lemma leaves_data_plane_calls [leaves_intros]: "leaves calm (data_plane_calls es)"
  by (induction es rule: data_plane_calls.induct)
     (auto intro!: leaves_intros simp: onDead_def signalDeath_def)

lemma leaves_driverTurn [leaves_intros]: "leaves calm (driverTurn X ev)"
  unfolding driverTurn_def exitWorker_def by (intro leaves_intros; simp)

lemma leaves_stopWorkers [leaves_intros]: "leaves calm (stopWorkers X)"
  unfolding stopWorkers_def by (intro leaves_intros; simp)

lemma leaves_closeSession [leaves_intros]: "leaves calm closeSession"
  unfolding closeSession_def by (intro leaves_intros)

lemma calm_noted: "leaves calm m \<Longrightarrow> leaves noted m"
  by (auto simp: leaves_def)

lemmas [leaves_intros] = leaves_hooks [THEN calm_noted] leaves_onSession [THEN calm_noted] leaves_allocSA [THEN calm_noted]
  leaves_driverTurn [THEN calm_noted] leaves_stopWorkers [THEN calm_noted] leaves_closeSession [THEN calm_noted]

lemma leaves_startWorkers [leaves_intros]: "leaves noted (startWorkers X)"
  unfolding startWorkers_def by (intro leaves_intros; simp)

lemma leaves_dialSession [leaves_intros]: "leaves noted (dialSession X)"
  unfolding dialSession_def by (intro leaves_intros; simp)

lemma leaves_reconnect_finish [leaves_intros]: "leaves noted (reconnect_finish X s)"
  unfolding reconnect_finish_def espSAFromChild_def signalDeath_def resetInbound_def storeSession_def Reconfigure_def fireRekey_def
  by (intro leaves_intros; simp)

lemma leaves_redial_turn [leaves_intros]: "leaves noted (redial_turn X rnd b)"
  unfolding redial_turn_def emitH_def by (intro leaves_intros; simp)

lemma leaves_Close_begin [leaves_intros]: "leaves noted Close_begin"
  by (simp add: leaves_def Close_begin_def superCancel_def readS_def retS_def bindS_def modS_def)

text \<open>Every turn but a write, a receive and the end of a close.\<close>

lemma leaves_client_event:
  assumes "\<And>p rnd sent late. ev \<noteq> EvWrite p rnd sent late" "\<And>raw now. ev \<noteq> EvRx raw now" "ev \<noteq> EvCloseEnd"
  shows "leaves noted (client_event X ev)"
  using assms unfolding client_event_def whenS_def timerFires_def timerRuns_def removeInbound_def keepalive_turn_def exitWorker_def emitH_def
    reconnect_begin_def stopGraceTimers_def onTun_def
  by (cases ev) (auto intro!: leaves_intros simp: OnRekey_def split: option.splits supervisor.split)

section \<open>The traffic of a run\<close>

lemma client_step:
  assumes "outside_ok X" "client_ok c"
  shows "client_ok (snd (client_event X ev c))" "client_run X (ev # evs) c = client_run X evs (snd (client_event X ev c))"
proof -
  obtain r c' where run: "client_event X ev c = (r, c')" by force
  have "r \<noteq> Panic \<and> client_ok c'"
    using holdsD [OF any_store.keeps_client_event [OF assms(1) refl, of ev, unfolded within_any] assms(2) run] by simp
  then show "client_ok (snd (client_event X ev c))" "client_run X (ev # evs) c = client_run X evs (snd (client_event X ev c))"
    by (cases r; simp add: run bindS_def ignoreS_def tryS_def retS_def)+
qed

lemma client_run_ok:
  assumes "outside_ok X" "client_ok c"
  shows "fst (client_run X evs c) = Ok () \<and> client_ok (snd (client_run X evs c))"
  using assms(2)
proof (induction evs arbitrary: c)
  case (Cons ev evs)
  show ?case unfolding client_step(2) [OF assms(1) Cons.prems] by (rule Cons.IH, rule client_step [OF assms(1) Cons.prems])
qed (simp add: retS_def)

lemma client_run_append:
  assumes "outside_ok X" "client_ok c"
  shows "client_run X (evs @ es) c = client_run X es (snd (client_run X evs c))"
  using assms(2) by (induction evs arbitrary: c) (simp_all add: client_step [OF assms(1)] retS_def del: client_run.simps(2))

text \<open>The packets put on the wire, and the datagrams handed up, among what the client did.\<close>

fun wire_packets :: "act list \<Rightarrow> bytes list" where
  "wire_packets [] = []"
| "wire_packets (SentESP p # as) = p # wire_packets as"
| "wire_packets (_ # as) = wire_packets as"

fun handed_up :: "act list \<Rightarrow> bytes list" where
  "handed_up [] = []"
| "handed_up (Deliver h p # as) = p # handed_up as"
| "handed_up (_ # as) = handed_up as"

lemma traffic_views [simp]: "wire_packets (traffic as) = wire_packets as" "handed_up (traffic as) = handed_up as"
  by (induction as rule: traffic.induct) simp_all

lemma views_append [simp]: "wire_packets (as @ bs) = wire_packets as @ wire_packets bs" "handed_up (as @ bs) = handed_up as @ handed_up bs"
  by (induction as rule: traffic.induct) simp_all

lemma same_traffic:
  assumes "traffic as = traffic bs"
  shows "wire_packets as = wire_packets bs" "handed_up as = handed_up bs"
  using arg_cong [OF assms, of wire_packets] arg_cong [OF assms, of handed_up] by simp_all

text \<open>A write.\<close>

lemma write_out:
  assumes "client_ok c"
  shows "h_out (snd (client_event X (EvWrite p rnd sent late) c)) = h_out c @ map (SentESP \<circ> snd) (emits X c (EvWrite p rnd sent late))"
proof -
  obtain t s where t: "cl_tun c = Some t" "ec_sa (t_conn t) < length (h_sas c)" "cl_session c = Some s"
    using assms by (auto simp: client_ok_def sending_ok_def)
  obtain x sa where enc: "Encrypt (o_prims X) (h_sas c ! ec_sa (t_conn t)) rnd p = (x, sa)" by force
  have run: "useSA (\<lambda>sa. Encrypt (o_prims X) sa rnd p) (ec_sa (t_conn t)) c = (wrapR ErrESP x, c\<lparr>h_sas := (h_sas c)[ec_sa (t_conn t) := sa]\<rparr>)"
    by (rule useSA_run [OF t(2)]) (rule enc)
  have emits: "emits X c (EvWrite p rnd sent late) = (case x of Ok pkt \<Rightarrow> if ec_closed (t_conn t) then [] else [(ec_sa (t_conn t), pkt)] | _ \<Rightarrow> [])"
    using t(1) enc by (cases x) (simp_all add: emits_def)
  have "h_out (snd (tunnelWrite X rnd sent late p c)) = h_out c @ map (SentESP \<circ> snd) (emits X c (EvWrite p rnd sent late))"
    unfolding emits tunnelWrite_def espConn_Write_def
    by (cases x) (simp_all add: t readS_def derefS_def guardS_def failS_def bindS_def run tryS_def sendESP_def emitH_def modS_def retS_def)
  then show ?thesis by (simp add: client_event_def snd_ignoreS)
qed

text \<open>A datagram from the network.\<close>

lemma rx_out:
  assumes X: "outside_ok X" and c: "client_ok c"
  shows "\<exists>ds. traffic (h_out (snd (client_event X (EvRx raw now) c))) = traffic (h_out c) @ ds \<and> wire_packets ds = [] \<and>
     subseq (handed_up ds) (map (\<lambda>(_, _, inner). inner) (takes X c (EvRx raw now)))"
proof (cases "workerRuns rxWorker c \<and> (\<exists>pkt r. Classify raw = (KindESP, pkt) \<and> lookupInbound (Uint32 (take 4 pkt)) c = Some r)")
  case False
  have "h_out (snd (client_event X (EvRx raw now) c)) = h_out c"
  proof (cases "workerRuns rxWorker c")
    case True
    obtain k pkt where k: "Classify raw = (k, pkt)" by force
    show ?thesis
    proof (cases k)
      case KindESP
      then have "lookupInbound (Uint32 (take 4 pkt)) c = None" using False True k by auto
      then show ?thesis using True k KindESP
        by (simp add: client_event_def whenS_def rxDemux_turn_def readS_def rxDrop_def modS_def)
    qed (use True k in \<open>simp_all add: client_event_def whenS_def rxDemux_turn_def readS_def modS_def retS_def\<close>)
  qed (simp add: client_event_def whenS_def readS_def retS_def)
  then show ?thesis by (intro exI [of _ "[]"]) simp
next
  case True
  then obtain pkt r where p: "workerRuns rxWorker c" "Classify raw = (KindESP, pkt)" "lookupInbound (Uint32 (take 4 pkt)) c = Some r"
    by blast
  have r: "r < length (h_sas c)" by (rule lookup_bound [OF c p(3)])
  obtain x sa where dec: "Decrypt (o_prims X) (h_sas c ! r) pkt = (x, sa)" by force
  have "sa_ok (h_sas c ! r)" using c r by (simp add: client_ok_def)
  then have x: "x \<noteq> Panic" using Decrypt_sa_ok(1) [of "o_prims X" "h_sas c ! r" pkt] X dec by (simp add: outside_ok_def)
  obtain t where t: "cl_tun c = Some t" using c by (auto simp: client_ok_def)
  have takes: "takes X c (EvRx raw now) = (case x of Ok inner \<Rightarrow> [(r, pkt, inner)] | _ \<Rightarrow> [])"
    using p dec by (cases x) (simp_all add: takes_def)
  show ?thesis
    unfolding rx_run [OF p r dec x t] takes
    by (cases x; cases "t_inbound t") (auto simp: Let_def DeliverInbound_run)
qed

text \<open>A run puts on the wire exactly what its writes emit, and hands up nothing but what it has taken.\<close>

lemma event_traffic:
  assumes X: "outside_ok X" and c: "client_ok c"
  shows "\<exists>ds. traffic (h_out (snd (client_event X ev c))) = traffic (h_out c) @ ds \<and> wire_packets ds = map snd (emits X c ev) \<and>
     subseq (handed_up ds) (map (\<lambda>(_, _, inner). inner) (takes X c ev))"
proof -
  have keep: ?thesis if "emits X c ev = []" "leaves (\<lambda>c. traffic (h_out c)) (client_event X ev)"
    using leavesD [OF that(2), of c] that(1) by (intro exI [of _ "[]"]) simp
  consider (writing) p rnd sent late where "ev = EvWrite p rnd sent late" | (rx) raw now where "ev = EvRx raw now"
    | (close) "ev = EvCloseEnd" | (other) "\<forall>p rnd sent late. ev \<noteq> EvWrite p rnd sent late" "\<forall>raw now. ev \<noteq> EvRx raw now" "ev \<noteq> EvCloseEnd"
    by blast
  then show ?thesis
  proof cases
    case writing
    have traffic: "traffic (map (SentESP \<circ> snd) ps) = map (SentESP \<circ> snd) ps" "wire_packets (map (SentESP \<circ> snd) ps) = map snd ps"
        "handed_up (map (SentESP \<circ> snd) ps) = []" for ps :: "(sa_ref \<times> bytes) list"
      by (induction ps) simp_all
    show ?thesis unfolding writing write_out [OF c] traffic_append traffic by (rule exI, rule conjI, rule refl) (simp add: traffic)
  next
    case rx
    then show ?thesis using rx_out [OF X c, of raw now] by (auto simp: emits_def)
  next
    case close
    have "leaves (\<lambda>c. traffic (h_out c)) m" if "leaves calm m" for m :: "(Client, client_err, unit) go"
      using that by (auto simp: leaves_def)
    note parts = this [OF leaves_stopWorkers] this [OF leaves_closeSession]
    have "leaves (\<lambda>c. traffic (h_out c)) (client_event X ev)"
      unfolding close client_event_def turn.case whenS_def Close_end_def stopGraceTimers_def
      by (intro leaves_intros parts; simp)
    then show ?thesis by (rule keep [rotated]) (simp add: close emits_def)
  next
    case other
    then have "emits X c ev = []" by (cases ev) (auto simp: emits_def)
    then show ?thesis using keep leaves_client_event [of ev X] other by (simp add: leaves_def)
  qed
qed

lemma run_traffic:
  assumes X: "outside_ok X" and c: "client_ok c"
  shows "\<exists>ds. traffic (h_out (snd (client_run X evs c))) = traffic (h_out c) @ ds \<and> wire_packets ds = map snd (emitted X evs c) \<and>
     subseq (handed_up ds) (map (\<lambda>(_, _, inner). inner) (taken X evs c))"
  using c
proof (induction evs arbitrary: c)
  case (Cons ev evs)
  obtain ds where ds: "traffic (h_out (snd (client_event X ev c))) = traffic (h_out c) @ ds" "wire_packets ds = map snd (emits X c ev)"
     "subseq (handed_up ds) (map (\<lambda>(_, _, inner). inner) (takes X c ev))"
    using event_traffic [OF X Cons.prems, of ev] by blast
  obtain es where es: "traffic (h_out (snd (client_run X evs (snd (client_event X ev c))))) = traffic (h_out (snd (client_event X ev c))) @ es"
    "wire_packets es = map snd (emitted X evs (snd (client_event X ev c)))"
    "subseq (handed_up es) (map (\<lambda>(_, _, inner). inner) (taken X evs (snd (client_event X ev c))))"
    using Cons.IH [OF client_step(1) [OF X Cons.prems]] by blast
  show ?case
    unfolding client_step(2) [OF X Cons.prems] es(1) ds(1)
    using ds(2,3) es(2,3) by (intro exI [of _ "ds @ es"]) (auto intro: list_emb_append_mono)
qed (auto simp: retS_def)

section \<open>Closing\<close>

text \<open>\<open>errless m\<close>: the computation returns no error; it may panic.\<close>

named_theorems errless_intros \<open>computations that return no error\<close>

definition errless :: "('s, 'e, 'a) go \<Rightarrow> bool" where
  "errless m \<longleftrightarrow> (\<forall>s e. fst (m s) \<noteq> Err e)"

lemma errless_simple [errless_intros]:
  "errless (retS x)" "errless (modS f)" "errless (liftS Panic)" "errless (tryS m)" "errless (ignoreS m)"
  by (auto simp: errless_def retS_def modS_def liftS_def tryS_def ignoreS_def bindS_def split: prod.split res.split)

lemma errless_bindS [errless_intros]: "errless m \<Longrightarrow> (\<And>x. errless (k x)) \<Longrightarrow> errless (bindS m k)"
  unfolding errless_def bindS_def by (auto split: prod.split res.split) (metis fst_conv)

lemma errless_readS [errless_intros]: "(\<And>x. errless (k x)) \<Longrightarrow> errless (readS f k)"
  by (simp add: errless_def readS_def)

lemma errless_derefS [errless_intros]: "(\<And>x. errless (k x)) \<Longrightarrow> errless (derefS y k)"
  by (simp add: derefS_def errless_simple split: option.split)

lemma errless_cases [errless_intros]:
  "errless a \<Longrightarrow> (\<And>x. errless (b x)) \<Longrightarrow> errless (case o1 of None \<Rightarrow> a | Some x \<Rightarrow> b x)"
  "(\<And>x. errless (c x)) \<Longrightarrow> (\<And>y. errless (d y)) \<Longrightarrow> errless (case o2 of Inl x \<Rightarrow> c x | Inr y \<Rightarrow> d y)"
  "errless u \<Longrightarrow> errless v \<Longrightarrow> errless (if q then u else v)"
  by (auto split: option.split sum.split)

lemma errless_Let [errless_intros]: "(\<And>x. errless (f x)) \<Longrightarrow> errless (Let a f)"
  by simp

lemma errless_fire_hooks [errless_intros]: "errless (fire_hooks hs)"
  by (simp add: errless_def fire_hooks_run)

lemma errless_data_plane_calls [errless_intros]: "errless (data_plane_calls es)"
  by (induction es rule: data_plane_calls.induct)
     (auto intro!: errless_intros simp: onDead_def signalDeath_def InstallChildSA_def fireRekey_def scheduleInboundRemoval_def)

lemma errless_CtxDone: "errless (driver_event W CtxDone)"
  unfolding driver_event_def event.case sendGracefulDelete_def by (intro errless_intros)

lemma errless_driverTurn: "errless (driverTurn X CtxDone)"
  unfolding driverTurn_def
proof (intro errless_readS errless_derefS)
  fix c :: Client and s
  obtain r s' where r: "driver_event (fst (o_dial X (cl_gen c))) CtxDone s = (r :: (client_err, bool) res, s')" by force
  then have "r \<noteq> Err e" for e using errless_CtxDone [of "fst (o_dial X (cl_gen c))"] unfolding errless_def by (metis fst_conv)
  then have "errless (liftS r :: (Client, client_err, bool) go)" by (simp add: errless_def liftS_def)
  then show "errless (case driver_event (fst (o_dial X (cl_gen c))) CtxDone s of (r, s') \<Rightarrow>
     thenS (modS (\<lambda>c. c\<lparr>cl_session := Some s'\<rparr>))
     (thenS (data_plane_calls (drop (length (s_out s)) (s_out s')))
     (bindS (liftS r) (\<lambda>exit. if exit then exitWorker driverWorker else retS ()))))"
    unfolding r prod.case exitWorker_def by (intro errless_intros)
qed

lemma ok_run:
  assumes "errless m" "keeps client_ok m" "client_ok c"
  obtains c' where "m c = (Ok (), c')" "client_ok c'"
proof -
  obtain r c' where run: "m c = (r, c')" by force
  have "r \<noteq> Panic \<and> client_ok c'" using holdsD [OF assms(2,3) run] .
  moreover have "r \<noteq> Err e" for e using assms(1) run unfolding errless_def by (metis fst_conv)
  ultimately show thesis using that run by (cases r) auto
qed

lemma stopWorkers_run:
  assumes "outside_ok X" "client_ok c"
  obtains c' where "stopWorkers X c = (Ok (), c')" "client_ok c'" "\<And>i. \<not> workerRuns i c'" "calm c' = calm c"
proof (cases "cl_mgr c")
  case None
  then show thesis using that [of c] assms(2) by (simp add: stopWorkers_def readS_def retS_def workerRuns_def)
next
  case (Some m)
  have e: "errless (stopWorkers X)" unfolding stopWorkers_def by (intro errless_intros errless_driverTurn)
  obtain c' where c': "stopWorkers X c = (Ok (), c')" "client_ok c'"
    using ok_run [OF e any_store.keeps_stopWorkers [OF assms(1), unfolded within_any] assms(2)] .
  have "\<not> workerRuns i c'" for i
    using c'(1) Some
    by (auto simp: stopWorkers_def readS_def bindS_def modS_def workerRuns_def split: prod.splits res.splits if_splits option.splits)
  moreover have "calm c' = calm c" using leavesD [OF leaves_stopWorkers, of X c] c'(1) by simp
  ultimately show thesis using that c' by blast
qed

text \<open>The client after \<open>Close\<close> has returned.\<close>

definition wiped :: "Session \<Rightarrow> bool" where
  "wiped s \<longleftrightarrow> set (cf_PSK (s_cfg s)) \<subseteq> {0} \<and> set (cf_EAPPass (s_cfg s)) \<subseteq> {0}"

definition down :: "Client \<Rightarrow> bool" where
  "down c \<longleftrightarrow> cl_closed c \<and> cl_superCancelled c \<and> cl_torndown c \<and> (cl_super c = NotStarted \<or> cl_super c = Exited) \<and> (\<forall>i. \<not> workerRuns i c) \<and>
     (\<exists>t. cl_tun c = Some t \<and> ec_closed (t_conn t)) \<and> (\<exists>s. cl_session c = Some s \<and> wiped s)"

lemma wiped_Close: "wiped (Session_Close s)"
  by (auto simp: wiped_def Session_Close_def Wipe_def)

lemma Close_end_run:
  assumes "outside_ok X" "client_ok c" "cl_closed c" "cl_superCancelled c" "cl_super c = NotStarted \<or> cl_super c = Exited"
  shows "down (snd (Close_end X c))"
proof -
  obtain c1 where c1: "stopWorkers X c = (Ok (), c1)" "client_ok c1" "\<And>i. \<not> workerRuns i c1" "calm c1 = calm c"
    using stopWorkers_run [OF assms(1,2)] by blast
  obtain s t where st: "cl_session c1 = Some s" "cl_tun c1 = Some t" using c1(2) by (auto simp: client_ok_def)
  have "snd (Close_end X c) = c1\<lparr>cl_tun := Some (Tunnel_Close t), cl_graceTimers := [], cl_session := Some (Session_Close s), cl_torndown := True\<rparr>"
    by (simp add: Close_end_def bindS_def c1(1) st modS_def stopGraceTimers_def closeSession_def readS_def onSession_def)
  then show ?thesis using c1(3,4) assms(3-5)
    by (auto simp: down_def workerRuns_def Tunnel_Close_def espConn_Close_def wiped_Close split: option.splits)
qed

text \<open>It stays so, and does nothing more.\<close>

lemma down_event:
  assumes "down c"
  shows "down (snd (client_event X ev c)) \<and> h_out (snd (client_event X ev c)) = h_out c \<and> cl_session (snd (client_event X ev c)) = cl_session c"
proof -
  obtain t s where d: "cl_closed c" "cl_torndown c" "\<And>i. \<not> workerRuns i c" "cl_tun c = Some t" "ec_closed (t_conn t)" "cl_session c = Some s" "wiped s"
    "cl_super c \<noteq> Idle" "\<And>b. cl_super c \<noteq> Redialing b"
    using assms by (auto simp: down_def)
  note defs = client_event_def whenS_def readS_def retS_def bindS_def modS_def d
  have same: ?thesis if "snd (client_event X ev c) = c" using that assms by simp
  show ?thesis
  proof (cases ev)
    case (EvWrite p rnd sent late)
    then have "client_event X ev c = (Ok (), c)"
      by (simp add: defs ignoreS_def tryS_def tunnelWrite_def derefS_def espConn_Write_def guardS_def failS_def)
    then show ?thesis by (intro same) simp
  next
    case (EvRedial rnd)
    then show ?thesis using d(9) by (intro same) (simp add: client_event_def readS_def retS_def split: supervisor.split)
  next
    case EvCallback
    then show ?thesis using assms
      by (auto simp: defs timerRuns_def removeInbound_def derefS_def liftS_def down_def workerRuns_def split: list.split option.splits)
  next
    case (EvOnRekey h)
    then show ?thesis using assms by (auto simp: defs OnRekey_def down_def workerRuns_def split: option.splits)
  qed (use assms in \<open>auto simp: defs Close_begin_def timerFires_def onTun_def SetInbound_def detachInbound_def OnReconfigure_def
      detachReconfigure_def Let_def down_def workerRuns_def split: option.splits\<close>)
qed

text \<open>What holds of the shutdown at any time.\<close>

definition closing_ok :: "Client \<Rightarrow> bool" where
  "closing_ok c \<longleftrightarrow> (cl_torndown c \<longrightarrow> down c) \<and> (cl_closed c \<longrightarrow> cl_superCancelled c)"

abbreviation shut :: "Client \<Rightarrow> bool \<times> bool" where
  "shut c \<equiv> (cl_torndown c, cl_closed c \<longrightarrow> cl_superCancelled c)"

lemma leaves_shut:
  assumes "ev \<noteq> EvCloseEnd"
  shows "leaves shut (client_event X ev)"
proof -
  have use: "leaves shut (useSA f r)" for f :: "SA \<Rightarrow> (esp_err, 'a) res \<times> SA" and r
    unfolding useSA_def by (intro leaves_intros; simp)
  consider (wr) p rnd sent late where "ev = EvWrite p rnd sent late" | (rx) raw now where "ev = EvRx raw now"
    | (other) "\<forall>p rnd sent late. ev \<noteq> EvWrite p rnd sent late" "\<forall>raw now. ev \<noteq> EvRx raw now"
    by blast
  then show ?thesis
  proof cases
    case wr
    show ?thesis
      unfolding wr client_event_def turn.case tunnelWrite_def espConn_Write_def sendESP_def emitH_def
      by (intro leaves_intros use; simp)
  next
    case rx
    show ?thesis
      unfolding rx client_event_def turn.case whenS_def rxDemux_turn_def rxDrop_def DeliverInbound_def emitH_def
      by (auto intro!: leaves_intros use split: Kind.split if_splits)
  next
    case other
    then show ?thesis using leaves_client_event [of ev X] assms by (auto simp: leaves_def)
  qed
qed

lemma closing_event:
  assumes X: "outside_ok X" and c: "client_ok c" "closing_ok c"
  shows "closing_ok (snd (client_event X ev c))"
proof (cases "cl_torndown c")
  case True
  then have "down (snd (client_event X ev c))" using c(2) down_event by (simp add: closing_ok_def)
  then show ?thesis by (simp add: closing_ok_def down_def)
next
  case False
  show ?thesis
  proof (cases "ev = EvCloseEnd")
    case True
    show ?thesis
    proof (cases "cl_closed c \<and> (cl_super c = NotStarted \<or> cl_super c = Exited)")
      case go: True
      then have "down (snd (client_event X ev c))"
        using Close_end_run [OF X c(1)] c(2) False True by (simp add: client_event_def whenS_def readS_def closing_ok_def)
      then show ?thesis by (simp add: closing_ok_def down_def)
    next
      case wait: False
      then have "snd (client_event X ev c) = c" using True by (auto simp: client_event_def whenS_def readS_def retS_def)
      then show ?thesis using c(2) by simp
    qed
  next
    case other: False
    then show ?thesis using leavesD [OF leaves_shut [OF other], of X c] False c(2) by (auto simp: closing_ok_def)
  qed
qed

lemma closing_run:
  assumes X: "outside_ok X" and c: "client_ok c" "closing_ok c"
  shows "closing_ok (snd (client_run X evs c))"
  using c
proof (induction evs arbitrary: c)
  case (Cons ev evs)
  show ?case unfolding client_step(2) [OF X Cons.prems(1)]
    by (rule Cons.IH, rule client_step [OF X Cons.prems(1)], rule closing_event [OF X Cons.prems])
qed (simp add: retS_def)

lemma down_run:
  assumes X: "outside_ok X" and c: "client_ok c" "down c"
  shows "down (snd (client_run X evs c)) \<and> h_out (snd (client_run X evs c)) = h_out c \<and> cl_session (snd (client_run X evs c)) = cl_session c"
  using c
proof (induction evs arbitrary: c)
  case (Cons ev evs)
  have d: "down (snd (client_event X ev c))" "h_out (snd (client_event X ev c)) = h_out c" "cl_session (snd (client_event X ev c)) = cl_session c"
    using down_event [OF Cons.prems(2), of X ev] by simp_all
  show ?case unfolding client_step(2) [OF X Cons.prems(1)]
    using Cons.IH [OF client_step(1) [OF X Cons.prems(1)] d(1)] d(2,3) by simp
qed (simp add: retS_def)

text \<open>\<open>Close\<close> comes to its end, wherever the supervisor is.\<close>

lemma close_ends:
  assumes X: "outside_ok X" and c: "client_ok c" "closing_ok c"
  shows "down (snd (client_run X [EvCloseBegin, EvRedial rnd, EvSuperDone, EvCloseEnd] c))"
proof (cases "cl_torndown c")
  case True
  then show ?thesis using down_run [OF X c(1)] c(2) by (simp add: closing_ok_def del: client_run.simps)
next
  case False
  define f where "f ev c = snd (client_event X ev c)" for ev c
  have ok: "client_ok (f ev d)" if "client_ok d" for ev d using client_step(1) [OF X that] by (simp add: f_def)
  have eq: "snd (client_run X [EvCloseBegin, EvRedial rnd, EvSuperDone, EvCloseEnd] c) = f EvCloseEnd (f EvSuperDone (f (EvRedial rnd) (f EvCloseBegin c)))"
    using client_step(2) [OF X] ok c(1) by (simp add: f_def retS_def del: client_run.simps(2))
  define c1 where "c1 = f EvCloseBegin c"
  have c1: "client_ok c1" "cl_closed c1" "cl_superCancelled c1" "cl_torndown c1 = False"
    using c False ok by (auto simp: c1_def f_def client_event_def Close_begin_def readS_def bindS_def modS_def retS_def superCancel_def closing_ok_def)
  define c2 where "c2 = f (EvRedial rnd) c1"
  have c2: "client_ok c2" "cl_closed c2" "cl_superCancelled c2" "cl_torndown c2 = False" "\<And>b. cl_super c2 \<noteq> Redialing b"
    using c1 ok by (auto simp: c2_def f_def client_event_def readS_def redial_turn_def isClosing_def modS_def retS_def split: supervisor.split)
  define c3 where "c3 = f EvSuperDone c2"
  have c3: "client_ok c3" "cl_closed c3" "cl_superCancelled c3" "cl_torndown c3 = False" "cl_super c3 = NotStarted \<or> cl_super c3 = Exited"
    using c2 ok [OF c2(1), of EvSuperDone] by (cases "cl_super c2"; simp add: c3_def f_def client_event_def whenS_def readS_def modS_def retS_def)+
  have "f EvCloseEnd c3 = snd (Close_end X c3)"
    using c3 by (simp add: f_def client_event_def whenS_def readS_def)
  then have "down (f EvCloseEnd c3)" using Close_end_run [OF X c3(1-3,5)] by simp
  then show ?thesis unfolding eq c1_def [symmetric] c2_def [symmetric] c3_def [symmetric] .
qed

section \<open>A client that comes up\<close>

text \<open>
  A configuration with a pre-shared key, and an outside in which every dial attempt meets the
  same responder.
\<close>

definition plain_public :: Config where
  "plain_public =
     \<lparr>c_Server = ''vpn'', c_LocalID = \<lparr>id_Kind = 2, id_Data = [1]\<rparr>, c_RemoteID = \<lparr>id_Kind = 0, id_Data = []\<rparr>,
      c_Username = [], c_Password = [], c_PSK = [7], c_RootCAs = None, c_MTU = 0, c_KeepAlive = 0,
      c_DPDTimeout = 0, c_RekeyLifetime = 0, c_IKERekeyLifetime = 0, c_ReplayWindow = 0, c_RekeyMaxPackets = 0,
      c_ESPCipherSuites = [], c_IKECipherSuites = [], c_ChildSAPFS = False, c_RequestIPv6 = None, c_AutoReconnect = None,
      c_ReconnectBackoffBase = 0, c_ReconnectBackoffMax = 0, c_ReconnectAttemptTimeout = 0\<rparr>"

definition answering :: "world \<Rightarrow> outside" where
  "answering W = \<lparr>o_prims = plain_prims, o_dial = (\<lambda>_. (W, quiet_env)), o_range = id, o_jitter = (\<lambda>d _. d)\<rparr>"

lemma plain_public_valid:
  obtains cfg where "validate plain_public = Inr cfg" "small_cfg (toSessionConfig cfg)" "cf_PSK (toSessionConfig cfg) \<noteq> []"
    "cf_ESPSuites (toSessionConfig cfg) = []" "cf_IKESuites (toSessionConfig cfg) = []"
    "checkConfiguredSuites (cf_ESPSuites (toSessionConfig cfg)) (cf_IKESuites (toSessionConfig cfg)) = Inr ()"
    "autoReconnectEnabled cfg"
proof -
  obtain cfg where v: "validate plain_public = Inr cfg" "c_PSK cfg = [7]" "c_ESPCipherSuites cfg = []" "c_IKECipherSuites cfg = []"
      "c_LocalID cfg = \<lparr>id_Kind = 2, id_Data = [1]\<rparr>" "c_AutoReconnect cfg = None"
    by (simp add: validate_def check_credentials_def IsZero_def check_def plain_public_def validateCipherSuites_def fill_defaults_def)
  then show thesis
    by (intro that [of cfg]) (simp_all add: toSessionConfig_def small_cfg_def checkConfiguredSuites_def autoReconnectEnabled_def idData_def)
qed

lemma leaves_startDataPlane [leaves_intros]: "leaves noted (startDataPlane X)"
  unfolding startDataPlane_def espSAFromChild_def resetInbound_def by (intro leaves_intros; simp)

lemma Dial_fresh:
  assumes "Dial X cfg = (Ok (), c)"
  shows "traffic (h_out c) = []" "closing_ok c"
proof -
  obtain cfg' where v: "validate cfg = Inr cfg'" using assms by (auto simp: Dial_def split: sum.splits)
  obtain r c0 where d: "dialSession X (newClient cfg') = (r, c0)" by force
  then obtain s where r: "r = Ok s"
    using assms v by (cases r) (auto simp: Dial_def bindS_def onErrS_def tryS_def failS_def split: prod.splits res.splits)
  obtain r1 c1 where st: "startDataPlane X (snd (storeSession s c0)) = (r1, c1)" by force
  have run: "Dial X cfg = onErrS (startDataPlane X) (thenS closeSession superCancel) (snd (storeSession s c0))"
    using v d r by (simp add: Dial_def bindS_def onErrS_def tryS_def retS_def storeSession_def modS_def)
  then have "c1 = c"
    using assms st by (cases r1) (auto simp: onErrS_def bindS_def tryS_def retS_def failS_def split: prod.splits res.splits)
  moreover have "noted c0 = noted (newClient cfg')" using leavesD [OF leaves_dialSession, of X "newClient cfg'"] d by simp
  moreover have "noted (snd (storeSession s c0)) = noted c0" by (simp add: storeSession_def modS_def)
  ultimately have "noted c = noted (newClient cfg')"
    using leavesD [OF leaves_startDataPlane, of X "snd (storeSession s c0)"] st by simp
  then show "traffic (h_out c) = []" "closing_ok c" by (simp_all add: newClient_def closing_ok_def)
qed

lemma able_prims: "able W \<Longrightarrow> prims_ok (w_prims W)"
  by (simp add: able_def)

lemma outside_ok_answering: "able W \<Longrightarrow> outside_ok (answering W)"
  by (simp add: outside_ok_def answering_def plain_prims_ok able_prims)

text \<open>A world with chosen octets for the SPI of the first Child SA.\<close>

definition with_spi :: "byte \<Rightarrow> world \<Rightarrow> world" where
  "with_spi q W = W\<lparr>w_rand := (w_rand W)(6 := replicate 64 q)\<rparr>"

lemma psk_peer_with_spi: "psk_peer (with_spi q W) E cfg saR nr idr esuite spi attrs = psk_peer W E cfg saR nr idr esuite spi attrs"
  by (simp add: psk_peer_def with_spi_def)

lemma able_with_spi: "able W \<Longrightarrow> able (with_spi q W)"
  by (auto simp: able_def with_spi_def rand_ok_def keygen_ok_def)

lemma four_octets: "replicate 4 x = [x, x, x, x]"
  by (simp only: numeral_eq_Suc pred_numeral_simps replicate.simps BitM.simps)

lemma octets_spi: "Uint32 (replicate 4 6) = 0x06060606" "Uint32 (replicate 4 0) = 0"
  unfolding four_octets by (simp_all add: Uint32_def get_be_def)

text \<open>A client that has been dialled there.\<close>

lemma example_client:
  obtains W cfg c saR nr idr esuite spi t where "able W" "validate plain_public = Inr cfg" "small_cfg (toSessionConfig cfg)"
    "cf_PSK (toSessionConfig cfg) \<noteq> []"
    "checkConfiguredSuites (cf_ESPSuites (toSessionConfig cfg)) (cf_IKESuites (toSessionConfig cfg)) = Inr ()"
    "psk_peer W quiet_env (toSessionConfig cfg) saR nr idr esuite spi []"
    "w_rand W 6 = replicate 64 q" "Dial (answering W) plain_public = (Ok (), c)" "started c" "cl_super c = Idle"
    "cl_inbound c = Some [Uint32 (replicate 4 q) \<mapsto> 0]" "cl_tun c = Some t" "\<not> ec_closed (t_conn t)" "cl_callbacks c = []" "cl_graceTimers c = []"
proof -
  obtain cfg where cfg: "validate plain_public = Inr cfg" "small_cfg (toSessionConfig cfg)" "cf_PSK (toSessionConfig cfg) \<noteq> []"
    "cf_ESPSuites (toSessionConfig cfg) = []" "cf_IKESuites (toSessionConfig cfg) = []"
    "checkConfiguredSuites (cf_ESPSuites (toSessionConfig cfg)) (cf_IKESuites (toSessionConfig cfg)) = Inr ()"
    "autoReconnectEnabled cfg"
    by (rule plain_public_valid)
  define idr where "idr = \<lparr>wi_Type = 2, wi_Data = [3 :: byte]\<rparr>"
  obtain a b saR nr esuite spi where "psk_peer (scripted a b) quiet_env (toSessionConfig cfg) saR nr idr esuite spi []"
    by (rule scripted_peer [OF idr_def cfg(4,5)])
  then have peer: "psk_peer (with_spi q (scripted a b)) quiet_env (toSessionConfig cfg) saR nr idr esuite spi []"
    by (simp add: psk_peer_with_spi)
  note able = able_with_spi [OF able_scripted, of q a b]
  have spi6: "w_rand (with_spi q (scripted a b)) 6 = replicate 64 q" by (simp add: with_spi_def)
  obtain s s' ch where hs: "IKESAInit (with_spi q (scripted a b)) quiet_env (New_session (toSessionConfig cfg)) = (Ok (), s)"
      "IKEAuth (with_spi q (scripted a b)) quiet_env s = (Ok (), s')" "s_child s' = Some ch" "ch_InitiatorSPI ch = Uint32 (replicate 4 q)"
    using psk_peer_completes [OF able cfg(2,3,6) peer] spi6 by auto
  have dial: "o_dial (answering (with_spi q (scripted a b))) 0 = (with_spi q (scripted a b), quiet_env)" by (simp add: answering_def)
  obtain c where c: "Dial (answering (with_spi q (scripted a b))) plain_public = (Ok (), c)" "started c"
      "cl_super c = (if autoReconnectEnabled cfg then Idle else NotStarted)" "cl_inbound c = Some [ch_InitiatorSPI ch \<mapsto> 0]"
      "cl_tun c = Some (Tunnel_New 0 (tunConfig s' cfg))" "cl_callbacks c = []" "cl_graceTimers c = []"
    by (rule Dial_succeeds [OF outside_ok_answering [OF able] cfg(1) dial hs(1-3)])
  show thesis
    by (rule that [OF able cfg(1-3,6) peer spi6 c(1,2) _ _ c(5) _ c(6,7)])
       (use c(3,4) hs(4) cfg(7) in \<open>simp_all add: Tunnel_New_def newESPConn_def\<close>)
qed

lemma example_dial:
  obtains X c where "outside_ok X" "Dial X plain_public = (Ok (), c)"
proof -
  obtain W c where "able W" "Dial (answering W) plain_public = (Ok (), c)" by (rule example_client [of 6])
  then show thesis using that outside_ok_answering by blast
qed

end
