(* ===== verification/Client_Registry.thy ===== *)
theory Client_Registry
  imports Client_Life
begin

text \<open>
  The inbound registry over the life of the client: which turns may take an entry out of it, and
  what becomes of the association a rekey supersedes.
\<close>

section \<open>The SPIs in the store\<close>

text \<open>The store only grows, and an association keeps its SPI.\<close>

lemma sa_inSPI_update: "r < length sas \<Longrightarrow> sa_inSPI sa = sa_inSPI (sas ! r) \<Longrightarrow> map sa_inSPI (sas[r := sa]) = map sa_inSPI sas"
  by (simp add: map_update list_update_same_conv)

interpretation spis: store_law P "\<lambda>sas. prefix L (map sa_inSPI sas)" True True for P L
proof unfold_locales
  fix sas r rnd p x sa'
  assume "prefix L (map sa_inSPI sas)" "r < length sas" "Encrypt P (sas ! r) rnd p = (x, sa')"
  then show "prefix L (map sa_inSPI (sas[r := sa']))" using Encrypt_frame [of P "sas ! r" rnd p x sa'] by (auto simp: sa_inSPI_update)
next
  fix sas r p y sa'
  assume "prims_ok P" "prefix L (map sa_inSPI sas)" "r < length sas" "sa_ok (sas ! r)" "Decrypt P (sas ! r) p = (y, sa')"
  then show "prefix L (map sa_inSPI (sas[r := sa']))" using Decrypt_frame [of P "sas ! r" p y sa'] by (auto simp: sa_inSPI_update)
qed simp

abbreviation listed :: "u32 list \<Rightarrow> Client \<Rightarrow> bool" where
  "listed L \<equiv> within (\<lambda>sas. prefix L (map sa_inSPI sas))"

lemma keeps_listed:
  assumes "\<And>L. keeps (listed L) m" "client_ok c"
  shows "fst (m c) \<noteq> Panic" "client_ok (snd (m c))" "prefix (map sa_inSPI (h_sas c)) (map sa_inSPI (h_sas (snd (m c))))"
proof -
  obtain r c' where run: "m c = (r, c')" by force
  have "listed (map sa_inSPI (h_sas c)) c" using assms(2) by (simp add: within_def)
  from holdsD [OF assms(1) this run]
  show "fst (m c) \<noteq> Panic" "client_ok (snd (m c))" "prefix (map sa_inSPI (h_sas c)) (map sa_inSPI (h_sas (snd (m c))))"
    using run by (simp_all add: within_def)
qed

section \<open>An entry of the registry\<close>

text \<open>
  An entry is \<open>resolved\<close> as long as its SPI leads to its association, unless an association made
  since (with a number from \<open>n\<close> on) was given the same SPI.
\<close>

definition reused :: "nat \<Rightarrow> u32 \<Rightarrow> Client \<Rightarrow> bool" where
  "reused n spi c \<longleftrightarrow> (\<exists>r<length (h_sas c). n \<le> r \<and> sa_inSPI (h_sas c ! r) = spi)"

definition resolved :: "nat \<Rightarrow> u32 \<Rightarrow> sa_ref \<Rightarrow> Client \<Rightarrow> bool" where
  "resolved n spi sa c \<longleftrightarrow> client_ok c \<and> n \<le> length (h_sas c) \<and> (lookupInbound spi c = Some sa \<or> reused n spi c)"

lemma reused_prefix:
  assumes "reused n spi c" "prefix (map sa_inSPI (h_sas c)) (map sa_inSPI (h_sas d))"
  shows "reused n spi d"
proof -
  obtain r where r: "r < length (h_sas c)" "n \<le> r" "sa_inSPI (h_sas c ! r) = spi" using assms(1) by (auto simp: reused_def)
  obtain ys where ys: "map sa_inSPI (h_sas d) = map sa_inSPI (h_sas c) @ ys" using assms(2) by (auto simp: prefix_def)
  then have len: "length (h_sas d) = length (h_sas c) + length ys" by (metis length_append length_map)
  have "map sa_inSPI (h_sas d) ! r = map sa_inSPI (h_sas c) ! r" unfolding ys using r(1) by (simp add: nth_append)
  then have "sa_inSPI (h_sas d ! r) = spi" "r < length (h_sas d)" using r(1,3) len by simp_all
  then show ?thesis using r(2) by (auto simp: reused_def)
qed

lemma keeps_resolvedI:
  assumes "\<And>L. keeps (listed L) m" "leaves cl_inbound m"
  shows "keeps (resolved n spi sa) m"
  unfolding holds_def
proof (intro allI impI)
  fix c assume c: "resolved n spi sa c"
  then have ok: "client_ok c" by (simp add: resolved_def)
  note k = keeps_listed [OF assms(1) ok]
  have "length (h_sas c) \<le> length (h_sas (snd (m c)))" using prefix_length_le [OF k(3)] by simp
  moreover have "lookupInbound spi (snd (m c)) = lookupInbound spi c" using leavesD [OF assms(2), of c] by (simp add: lookupInbound_def)
  ultimately show "wp m (\<lambda>r s'. r \<noteq> Panic \<and> resolved n spi sa s') c"
    using c k reused_prefix [OF _ k(3)] by (auto simp: resolved_def wp_def split: prod.split)
qed

lemma keeps_resolved_install:
  assumes "update_ok u"
  shows "keeps (resolved n spi sa) (InstallChildSA u)"
  unfolding holds_def
proof (intro allI impI)
  fix c assume c: "resolved n spi sa c"
  then have ok: "client_ok c" by (simp add: resolved_def)
  note k = keeps_listed [OF spis.keeps_InstallChildSA [OF assms] ok]
  obtain m t where m: "cl_inbound c = Some m" "cl_tun c = Some t" using ok by (auto simp: client_ok_def)
  obtain sa' where sa': "NewSA (cu_Suite u) (cu_NewOutSPI u) (cu_NewInSPI u) (cu_OutEncr u) (cu_OutInteg u) (cu_InEncr u) (cu_InInteg u)
       (c_ReplayWindow (cl_cfg c)) = Ok sa'" by (rule update_NewSA [OF assms])
  let ?c = "snd (InstallChildSA u c)"
  have f: "h_sas ?c = h_sas c @ [sa']" "cl_inbound ?c = Some (m(cu_NewInSPI u \<mapsto> length (h_sas c)))"
    by (simp_all add: InstallChildSA_run [OF m sa'] Let_def)
  have "sa_inSPI sa' = cu_NewInSPI u" by (rule NewSA_sa_ok(6) [OF sa'])
  then have "spi = cu_NewInSPI u \<Longrightarrow> reused n spi ?c" using c by (auto simp: f(1) reused_def resolved_def intro!: exI [of _ "length (h_sas c)"])
  moreover have "spi \<noteq> cu_NewInSPI u \<Longrightarrow> lookupInbound spi ?c = lookupInbound spi c" using m(1) f(2) by (simp add: lookupInbound_def)
  ultimately show "wp (InstallChildSA u) (\<lambda>r s'. r \<noteq> Panic \<and> resolved n spi sa s') c"
    using c k reused_prefix [OF _ k(3)] f(1) by (cases "spi = cu_NewInSPI u") (auto simp: resolved_def wp_def split: prod.split)
qed

section \<open>The turns that keep it\<close>

lemma keeps_resolved_modS:
  assumes "\<And>c. client_ok c \<Longrightarrow> client_ok (f c)" "\<And>c. h_sas (f c) = h_sas c" "\<And>c. cl_inbound (f c) = cl_inbound c"
  shows "keeps (resolved n spi sa) (modS f)"
  using assms by (intro keeps_resolvedI spis.keeps_modS leaves_modS)

lemma resolved_frame [simp]:
  "resolved n spi sa (c\<lparr>cl_inbox := q\<rparr>) = resolved n spi sa c" "resolved n spi sa (c\<lparr>cl_super := p\<rparr>) = resolved n spi sa c"
  "resolved n spi sa (c\<lparr>cl_deathSig := b\<rparr>) = resolved n spi sa c" "resolved n spi sa (c\<lparr>cl_torndown := b\<rparr>) = resolved n spi sa c"
  by (simp_all add: resolved_def lookupInbound_def reused_def)

lemma resolved_tun:
  "resolved n spi sa c \<Longrightarrow> resolved n spi sa (c\<lparr>cl_tun := map_option Tunnel_Close (cl_tun c)\<rparr>)"
  using client_ok_tun [of c Tunnel_Close] by (simp add: resolved_def lookupInbound_def reused_def Tunnel_Close_def espConn_Close_def)

lemma keeps_resolved_calls:
  "\<forall>u. Install u \<in> set es \<longrightarrow> update_ok u \<Longrightarrow> keeps (resolved n spi sa) (data_plane_calls es)"
proof (induction es rule: data_plane_calls.induct)
  case (3 u es)
  then show ?case by (auto intro!: holds_bindS keeps_resolved_install)
next
  case (4 es)
  have "keeps (resolved n spi sa) onDead"
    by (intro keeps_resolvedI spis.keeps_onDead) (auto simp: onDead_def signalDeath_def intro!: leaves_intros)
  with 4 show ?case by (auto intro!: holds_bindS)
qed (auto intro: holds_retS)

lemma keeps_resolved_driver: "outside_ok X \<Longrightarrow> keeps (resolved n spi sa) (driverTurn X ev)"
  by (rule holds_driverTurn)
     (auto intro: keeps_resolved_calls keeps_resolved_modS client_ok_session simp: exitWorker_def resolved_def lookupInbound_def reused_def)

lemma leaves_registry [leaves_intros]: "leaves cl_inbound (onSession m)" "leaves cl_inbound closeSession"
  by (auto simp: leaves_def onSession_def closeSession_def readS_def retS_def split: option.split prod.split)

lemma keeps_resolved_stop:
  assumes "outside_ok X"
  shows "keeps (resolved n spi sa) (stopWorkers X)" "keeps (resolved n spi sa) closeSession" "keeps (resolved n spi sa) stopGraceTimers"
proof -
  show "keeps (resolved n spi sa) (stopWorkers X)"
    unfolding stopWorkers_def
    by (intro holds_intros keeps_resolved_driver [OF assms] keeps_resolved_modS) simp_all
  show "keeps (resolved n spi sa) closeSession" by (intro keeps_resolvedI spis.keeps_closeSession leaves_registry)
  show "keeps (resolved n spi sa) stopGraceTimers"
    by (intro keeps_resolvedI spis.keeps_stopGraceTimers) (simp add: stopGraceTimers_def leaves_modS)
qed

text \<open>
  What takes an entry out of the registry: the callback of the timer that waits for it, and a
  redial, which starts a new registry.
\<close>

fun disturbs :: "u32 \<Rightarrow> sa_ref \<Rightarrow> turn \<Rightarrow> Client \<Rightarrow> bool" where
  "disturbs spi sa (EvRedial _) c \<longleftrightarrow> True"
| "disturbs spi sa EvCallback c \<longleftrightarrow> (\<exists>i rest. cl_callbacks c = (i, spi, Some sa) # rest)"
| "disturbs spi sa _ c \<longleftrightarrow> False"

fun undisturbed :: "outside \<Rightarrow> u32 \<Rightarrow> sa_ref \<Rightarrow> turn list \<Rightarrow> Client \<Rightarrow> bool" where
  "undisturbed X spi sa [] c \<longleftrightarrow> True"
| "undisturbed X spi sa (ev # evs) c \<longleftrightarrow> \<not> disturbs spi sa ev c \<and> undisturbed X spi sa evs (snd (client_event X ev c))"

lemma leaves_useSA [leaves_intros]: "leaves cl_inbound (useSA f r)"
  unfolding useSA_def by (intro leaves_intros) simp

lemma leaves_inbound:
  assumes "ev \<noteq> EvInbox" "ev \<noteq> EvTick" "ev \<noteq> EvCtxDone" "ev \<noteq> EvDeath" "ev \<noteq> EvCloseEnd" "ev \<noteq> EvCallback" "\<And>rnd. ev \<noteq> EvRedial rnd"
  shows "leaves cl_inbound (client_event X ev)"
  using assms unfolding client_event_def whenS_def timerFires_def keepalive_turn_def exitWorker_def emitH_def onTun_def
    tunnelWrite_def espConn_Write_def sendESP_def rxDemux_turn_def rxDrop_def DeliverInbound_def Close_begin_def superCancel_def
  by (cases ev) (auto intro!: leaves_intros simp: OnRekey_def split: option.splits supervisor.split Kind.split)

lemma keeps_resolved_event:
  assumes X: "outside_ok X" and ev: "ev \<noteq> EvCallback" "\<And>rnd. ev \<noteq> EvRedial rnd"
  shows "keeps (resolved n spi sa) (client_event X ev)"
proof (cases "ev \<in> {EvInbox, EvTick, EvCtxDone, EvDeath, EvCloseEnd}")
  case True
  note ops = keeps_resolved_driver [OF X] keeps_resolved_stop [OF X]
  show ?thesis
    using True unfolding client_event_def whenS_def reconnect_begin_def Close_end_def
    by (auto intro!: holds_intros ops resolved_tun)
next
  case False
  then show ?thesis using ev by (intro keeps_resolvedI spis.keeps_client_event X leaves_inbound) auto
qed

lemma callback_run:
  assumes "cl_callbacks c = (i, spi, want) # rest" "cl_inbound c = Some m"
  shows "cl_inbound (snd (client_event X EvCallback c)) = Some (if m spi \<noteq> None \<and> m spi = want then m(spi := None) else m)"
  using assms by (simp add: client_event_def timerRuns_def removeInbound_def run_defs bindS_def split: option.split)

lemma keeps_resolved_step:
  assumes X: "outside_ok X" and c: "resolved n spi sa c" and ev: "\<not> disturbs spi sa ev c"
  shows "resolved n spi sa (snd (client_event X ev c))"
proof (cases "ev = EvCallback")
  case True
  have ok: "client_ok c" using c by (simp add: resolved_def)
  obtain m where m: "cl_inbound c = Some m" using ok by (auto simp: client_ok_def)
  note k = keeps_listed [OF spis.keeps_client_event [OF X refl, of ev] ok]
  have "lookupInbound spi (snd (client_event X ev c)) = Some sa" if "lookupInbound spi c = Some sa"
  proof (cases "cl_callbacks c")
    case Nil
    then have "snd (client_event X ev c) = c" using True by (simp add: client_event_def timerRuns_def readS_def retS_def)
    then show ?thesis using that by simp
  next
    case (Cons e rest)
    then obtain i spi' want where e: "cl_callbacks c = (i, spi', want) # rest" by (cases e) auto
    have "spi' \<noteq> spi \<or> want \<noteq> Some sa" using ev e True by simp
    then show ?thesis using callback_run [OF e m, of X] that m True by (auto simp: lookupInbound_def)
  qed
  moreover have "n \<le> length (h_sas (snd (client_event X ev c)))" using prefix_length_le [OF k(3)] c by (simp add: resolved_def)
  ultimately show ?thesis using c k(2) reused_prefix [OF _ k(3)] by (auto simp: resolved_def)
next
  case False
  have "ev \<noteq> EvRedial rnd" for rnd using ev by auto
  from keeps_resolved_event [OF X False this] show ?thesis using c by (simp add: holds_def wp_def)
qed

lemma resolved_run:
  assumes X: "outside_ok X"
  shows "resolved n spi sa c \<Longrightarrow> undisturbed X spi sa evs c \<Longrightarrow> resolved n spi sa (snd (client_run X evs c))"
proof (induction evs arbitrary: c)
  case (Cons ev evs)
  have "client_ok c" using Cons.prems(1) by (simp add: resolved_def)
  then show ?case
    using Cons.IH [OF keeps_resolved_step [OF X Cons.prems(1)]] Cons.prems(2) client_step(2) [OF X, of c ev evs]
    by (simp del: client_run.simps)
qed (simp add: retS_def)

section \<open>An association nothing reaches\<close>

lemma spis_run:
  assumes X: "outside_ok X"
  shows "client_ok c \<Longrightarrow> prefix (map sa_inSPI (h_sas c)) (map sa_inSPI (h_sas (snd (client_run X evs c))))"
proof (induction evs arbitrary: c)
  case (Cons ev evs)
  show ?case
    using keeps_listed(3) [OF spis.keeps_client_event [OF X refl, of ev] Cons.prems] Cons.IH [OF client_step(1) [OF X Cons.prems], of ev]
    unfolding client_step(2) [OF X Cons.prems] by (rule prefix_order.trans) auto
qed (simp add: retS_def)

text \<open>
  While the only association has the SPI zero nothing is taken from the wire: the receive loop
  has taken such a packet for a wrapped IKE message before it looks into the registry.
\<close>

lemma taken_zero_spi:
  assumes X: "outside_ok X"
  shows "client_ok c \<Longrightarrow> map sa_inSPI (h_sas c) = [0] \<Longrightarrow> length (h_sas (snd (client_run X evs c))) = 1 \<Longrightarrow> taken X evs c = []"
proof (induction evs arbitrary: c)
  case (Cons ev evs)
  let ?c = "snd (client_event X ev c)"
  note step = client_step [OF X Cons.prems(1)]
  have "prefix [0] (map sa_inSPI (h_sas ?c))"
    using keeps_listed(3) [OF spis.keeps_client_event [OF X refl, of ev] Cons.prems(1)] Cons.prems(2) by simp
  moreover have "length (h_sas ?c) \<le> 1"
    using prefix_length_le [OF spis_run [OF X step(1), of ev evs]] Cons.prems(3) unfolding step(2) by simp
  ultimately have one: "map sa_inSPI (h_sas ?c) = [0]" by (cases "h_sas ?c") (auto simp: prefix_def)
  have "lookupInbound spi c \<noteq> Some r" if "spi \<noteq> 0" for spi r
  proof
    assume r: "lookupInbound spi c = Some r"
    then have "r < length (h_sas c)" "sa_inSPI (h_sas c ! r) = spi"
      using Cons.prems(1) by (auto simp: lookupInbound_def client_ok_def registry_ok_def split: option.splits)
    then have "map sa_inSPI (h_sas c) ! r = spi" "r < length (map sa_inSPI (h_sas c))" by simp_all
    then show False unfolding Cons.prems(2) using that by simp
  qed
  then have "takes X c ev = []"
    using Classify_ESP by (fastforce simp: takes_def split: turn.split prod.split Kind.split option.split res.split)
  then show ?case using Cons.IH [OF step(1) one] Cons.prems(3) unfolding step(2) by simp
qed simp

end
