(* ===== verification/Client_Correct.thy ===== *)
theory Client_Correct
  imports Client_Registry
begin

text \<open>
  The guarantees of the whole client: it does not panic, stays reachable, delivers once, uses a
  nonce once, survives rekeys and reconnects, and ends.
\<close>

section \<open>What the client guarantees\<close>

text \<open>
  C5 (type).  Whatever the configuration, the responder and the network do, \<open>Dial\<close> does not
  panic; and once it has returned a client, no interleaving of the turns of its goroutines, of
  datagrams, timers, deaths, redials and a shutdown makes one of them panic or takes the client
  out of its invariant: well-formed associations and session, every registered pointer valid
  and under its own SPI.
\<close>

theorem client_safe:
  assumes "outside_ok X"
  shows "fst (Dial X cfg) \<noteq> Panic \<and>
     (\<forall>c evs. Dial X cfg = (Ok (), c) \<longrightarrow> fst (client_run X evs c) = Ok () \<and> client_ok (snd (client_run X evs c)))"
  using Dial_run [OF assms] client_run_ok [OF assms] by blast

theorem client_safe_witness:
  "\<exists>X c. outside_ok X \<and> Dial X plain_public = (Ok (), c) \<and>
     fst (client_run X [EvRx [0, 0] 3, EvWrite [69] (zeros 16) True False, EvDeath, EvCloseBegin] c) = Ok ()"
proof -
  obtain X c where w: "outside_ok X" "Dial X plain_public = (Ok (), c)" by (rule example_dial)
  show ?thesis using client_safe [OF w(1), of plain_public] w by blast
qed

text \<open>
  C11 (invariant).  The client is never deaf to the traffic it asks for.  After any run, the
  association the tunnel sends with is the newest one, and its inbound SPI is registered for
  exactly that association: no late grace timer of a superseded Child SA, not even one whose
  callback was already started when a reconnect cleared the timers, takes it out.
\<close>

theorem client_never_deaf:
  assumes "outside_ok X" "Dial X cfg = (Ok (), c)" "c' = snd (client_run X evs c)"
  shows "\<exists>t. cl_tun c' = Some t \<and> Suc (ec_sa (t_conn t)) = length (h_sas c') \<and>
     lookupInbound (sa_inSPI (h_sas c' ! ec_sa (t_conn t))) c' = Some (ec_sa (t_conn t))"
proof -
  have "client_ok c'" using client_run_ok [OF assms(1) Dial_run(2) [OF assms(1,2)]] assms(3) by simp
  then show ?thesis by (auto simp: client_ok_def sending_ok_def lookupInbound_def)
qed

theorem client_never_deaf_witness:
  "\<exists>X c c' t. Dial X plain_public = (Ok (), c) \<and> c' = snd (client_run X [EvTimer 0, EvDeath, EvRedial [], EvCallback] c) \<and>
     cl_tun c' = Some t \<and> lookupInbound (sa_inSPI (h_sas c' ! ec_sa (t_conn t))) c' = Some (ec_sa (t_conn t))"
proof -
  obtain X c where w: "outside_ok X" "Dial X plain_public = (Ok (), c)" by (rule example_dial)
  show ?thesis using client_never_deaf [OF w refl] w(2) by blast
qed

text \<open>
  C7 (safety).  No packet reaches the network stack twice, whatever is replayed and however
  rekeys, timers and reconnects interleave: the pairs of the association and the sequence number
  of the packets a run accepts are pairwise different, and what is handed to the network stack
  are the datagrams of these packets, in order, those that came while a handler was installed.
\<close>

theorem client_delivers_once:
  assumes "outside_ok X" "Dial X cfg = (Ok (), c)"
  shows "distinct (map (\<lambda>(sa, pkt, _). (sa, seqOf pkt)) (taken X evs c)) \<and>
     subseq (handed_up (h_out (snd (client_run X evs c)))) (map (\<lambda>(_, _, inner). inner) (taken X evs c))"
proof -
  have c: "client_ok c" by (rule Dial_run(2) [OF assms])
  then have "within (remembered {}) c" by (auto simp: within_def remembered_def client_ok_def sa_ok_def)
  moreover obtain ds where "traffic (h_out (snd (client_run X evs c))) = traffic (h_out c) @ ds"
    "subseq (handed_up ds) (map (\<lambda>(_, _, inner). inner) (taken X evs c))"
    using run_traffic [OF assms(1) c] by blast
  ultimately show ?thesis
    using taken_distinct [OF assms(1)] Dial_fresh(1) [OF assms(2)] traffic_views(2) [of "h_out (snd (client_run X evs c))"] by simp
qed

theorem client_delivers_once_witness:
  "\<exists>X c. Dial X plain_public = (Ok (), c) \<and>
     distinct (map (\<lambda>(sa, pkt, _). (sa, seqOf pkt)) (taken X [EvSetInbound 1, EvRx [6, 6, 6, 6, 0] 3, EvRx [6, 6, 6, 6, 0] 4] c))"
proof -
  obtain X c where w: "outside_ok X" "Dial X plain_public = (Ok (), c)" by (rule example_dial)
  show ?thesis using client_delivers_once [OF w, of "[EvSetInbound 1, EvRx [6, 6, 6, 6, 0] 3, EvRx [6, 6, 6, 6, 0] 4]"] w(2) by blast
qed

text \<open>
  C8 (safety).  No sequence number, and so no AEAD nonce, is used twice under one association,
  over all writes of a run with its rekeys and reconnects: the packets on the wire are exactly
  those the writes encrypted, and the pairs of the association and the sequence number are
  pairwise different.
\<close>

theorem client_nonces_unique:
  assumes "outside_ok X" "Dial X cfg = (Ok (), c)"
  shows "wire_packets (h_out (snd (client_run X evs c))) = map snd (emitted X evs c) \<and>
     distinct (map (\<lambda>(sa, pkt). (sa, seqOf pkt)) (emitted X evs c))"
proof -
  have c: "client_ok c" by (rule Dial_run(2) [OF assms])
  then have "within (numbered {}) c" by (auto simp: within_def numbered_def)
  moreover obtain ds where "traffic (h_out (snd (client_run X evs c))) = traffic (h_out c) @ ds" "wire_packets ds = map snd (emitted X evs c)"
    using run_traffic [OF assms(1) c] by blast
  ultimately show ?thesis
    using emitted_distinct [OF assms(1)] Dial_fresh(1) [OF assms(2)] traffic_views(1) [of "h_out (snd (client_run X evs c))"] by simp
qed

theorem client_nonces_unique_witness:
  "\<exists>X c. Dial X plain_public = (Ok (), c) \<and>
     distinct (map (\<lambda>(sa, pkt). (sa, seqOf pkt)) (emitted X [EvWrite [69] (zeros 16) True False, EvWrite [69] (zeros 16) True False] c))"
proof -
  obtain X c where w: "outside_ok X" "Dial X plain_public = (Ok (), c)" by (rule example_dial)
  show ?thesis using client_nonces_unique [OF w, of "[EvWrite [69] (zeros 16) True False, EvWrite [69] (zeros 16) True False]"] w(2) by blast
qed

text \<open>
  C10 (termination).  \<open>Close\<close> comes to its end at any time and is final.  Wherever the client and
  its supervisor are, also in the middle of a redial, the context cancelled by \<open>Close\<close> lets the
  supervisor return in at most two turns, and the rest of \<open>Close\<close> then stops every worker, wipes
  the session's credentials and closes the tunnel; no later event sends anything, delivers
  anything or touches the session again.
\<close>

theorem client_close_completes:
  assumes "outside_ok X" "Dial X cfg = (Ok (), c)"
    and "c' = snd (client_run X (evs @ [EvCloseBegin, EvRedial rnd, EvSuperDone, EvCloseEnd]) c)"
  shows "cl_torndown c' \<and> (\<forall>i. \<not> workerRuns i c') \<and> (\<exists>s. cl_session c' = Some s \<and> wiped s) \<and>
     (\<forall>evs'. h_out (snd (client_run X evs' c')) = h_out c' \<and> cl_session (snd (client_run X evs' c')) = cl_session c')"
proof -
  define c1 where "c1 = snd (client_run X evs c)"
  have c: "client_ok c" by (rule Dial_run(2) [OF assms(1,2)])
  then have c1: "client_ok c1" "closing_ok c1"
    using client_run_ok [OF assms(1) c] closing_run [OF assms(1) c Dial_fresh(2) [OF assms(2)]] by (simp_all add: c1_def)
  have c': "c' = snd (client_run X [EvCloseBegin, EvRedial rnd, EvSuperDone, EvCloseEnd] c1)"
    using assms(3) client_run_append [OF assms(1) c] by (simp add: c1_def)
  then have "client_ok c'" "down c'" using client_run_ok [OF assms(1) c1(1)] close_ends [OF assms(1) c1, of rnd] by (simp_all del: client_run.simps)
  then show ?thesis using down_run [OF assms(1)] by (simp add: down_def)
qed

theorem client_close_completes_witness:
  "\<exists>X c c'. Dial X plain_public = (Ok (), c) \<and>
     c' = snd (client_run X ([EvTick] @ [EvCloseBegin, EvRedial [], EvSuperDone, EvCloseEnd]) c) \<and> cl_torndown c' \<and>
     h_out (snd (client_run X [EvWrite [69] (zeros 16) True False] c')) = h_out c'"
proof -
  obtain X c where w: "outside_ok X" "Dial X plain_public = (Ok (), c)" by (rule example_dial)
  show ?thesis using client_close_completes [OF w refl, of "[EvTick]" "[]"] w(2) by blast
qed

section \<open>Two clients\<close>

text \<open>
  \<open>linked n a b h\<close>: what \<open>a\<close> sends, \<open>b\<close> will hand to its handler \<open>h\<close>, for at least \<open>n\<close> more
  packets.
\<close>

definition linked :: "nat \<Rightarrow> Client \<Rightarrow> Client \<Rightarrow> hook \<Rightarrow> bool" where
  "linked n a b h \<longleftrightarrow> client_ok a \<and> client_ok b \<and> workerRuns rxWorker b \<and>
     (\<exists>ta tb r H. cl_tun a = Some ta \<and> \<not> ec_closed (t_conn ta) \<and> cl_tun b = Some tb \<and> t_inbound tb = Some h \<and>
        (let A = h_sas a ! ec_sa (t_conn ta); B = h_sas b ! r in
         sa_outSPI A \<noteq> 0 \<and> lookupInbound (sa_outSPI A) b = Some r \<and> mirrors A B \<and> tracks (sa_replay B) H \<and>
         (\<forall>q\<in>H. q \<le> unat (sa_seq A)) \<and> unat (sa_seq A) + n < 2 ^ 32))"

lemma linkedI:
  assumes "client_ok a" "client_ok b" "workerRuns rxWorker b" "cl_tun a = Some ta" "\<not> ec_closed (t_conn ta)" "cl_tun b = Some tb" "t_inbound tb = Some h"
    and "h_sas a ! ec_sa (t_conn ta) = A" "h_sas b ! r = B" "sa_outSPI A \<noteq> 0" "lookupInbound (sa_outSPI A) b = Some r" "mirrors A B"
    and "tracks (sa_replay B) H" "\<forall>q\<in>H. q \<le> unat (sa_seq A)" "unat (sa_seq A) + n < 2 ^ 32"
  shows "linked n a b h"
  unfolding linked_def Let_def using assms by blast

lemma write_run:
  assumes "cl_tun c = Some t" "ec_sa (t_conn t) < length (h_sas c)" "\<not> ec_closed (t_conn t)" "cl_session c \<noteq> None"
    and "Encrypt (o_prims X) (h_sas c ! ec_sa (t_conn t)) rnd p = (Ok pkt, sa)"
  shows "snd (client_event X (EvWrite p rnd sent late) c) =
     c\<lparr>h_sas := (h_sas c)[ec_sa (t_conn t) := sa], h_out := h_out c @ [SentESP pkt]\<rparr>"
proof -
  have run: "useSA (\<lambda>sa. Encrypt (o_prims X) sa rnd p) (ec_sa (t_conn t)) c = (Ok pkt, c\<lparr>h_sas := (h_sas c)[ec_sa (t_conn t) := sa]\<rparr>)"
    using useSA_run [of "ec_sa (t_conn t)" c "\<lambda>sa. Encrypt (o_prims X) sa rnd p" "Ok pkt" sa] assms(2,5) by simp
  obtain s where s: "cl_session c = Some s" using assms(4) by blast
  have "snd (tunnelWrite X rnd sent late p c) = c\<lparr>h_sas := (h_sas c)[ec_sa (t_conn t) := sa], h_out := h_out c @ [SentESP pkt]\<rparr>"
    unfolding tunnelWrite_def espConn_Write_def
    by (simp add: assms(1,3) s readS_def derefS_def guardS_def failS_def bindS_def run tryS_def sendESP_def emitH_def modS_def retS_def)
  then show ?thesis by (simp add: client_event_def snd_ignoreS)
qed

lemma relay:
  assumes X: "outside_ok X" "outside_ok Y" "o_prims Y = o_prims X" and l: "linked (Suc n) a b h" and rnd: "16 \<le> length rnd"
  obtains pkt where "h_out (snd (client_event X (EvWrite p rnd sent late) a)) = h_out a @ [SentESP pkt]"
    "h_out (snd (client_event Y (EvRx pkt now) b)) = h_out b @ [Deliver h p]"
    "linked n (snd (client_event X (EvWrite p rnd sent late) a)) (snd (client_event Y (EvRx pkt now) b)) h"
proof -
  obtain ta tb r H where ok: "client_ok a" "client_ok b" "workerRuns rxWorker b" and t: "cl_tun a = Some ta" "\<not> ec_closed (t_conn ta)"
      "cl_tun b = Some tb" "t_inbound tb = Some h"
    and sa: "sa_outSPI (h_sas a ! ec_sa (t_conn ta)) \<noteq> 0" "lookupInbound (sa_outSPI (h_sas a ! ec_sa (t_conn ta))) b = Some r"
      "mirrors (h_sas a ! ec_sa (t_conn ta)) (h_sas b ! r)" "tracks (sa_replay (h_sas b ! r)) H"
      "\<forall>q\<in>H. q \<le> unat (sa_seq (h_sas a ! ec_sa (t_conn ta)))" "unat (sa_seq (h_sas a ! ec_sa (t_conn ta))) + Suc n < 2 ^ 32"
    using l by (auto simp: linked_def Let_def)
  define i A B where "i = ec_sa (t_conn ta)" and "A = h_sas a ! i" and "B = h_sas b ! r"
  note sa = sa [folded i_def, folded A_def B_def]
  have i: "i < length (h_sas a)" "cl_session a \<noteq> None" using ok(1) t(1) by (auto simp: client_ok_def sending_ok_def i_def)
  have r: "r < length (h_sas b)" by (rule lookup_bound [OF ok(2) sa(2)])
  have P: "prims_ok (o_prims X)" using X(1) by (simp add: outside_ok_def)
  have Aok: "sa_ok A" using ok(1) i by (simp add: client_ok_def A_def)
  have ne: "sa_seq A \<noteq> NOT 0" using sa(6) by (auto simp: unsigned_minus_1_eq_mask mask_eq_exp_minus_1)
  obtain pkt where pkt: "Encrypt (o_prims X) A rnd p = (Ok pkt, A\<lparr>sa_seq := sa_seq A + 1\<rparr>)"
      "Decrypt (o_prims X) B pkt = acceptSeq B (sa_seq A + 1) (Ok p)"
    using encrypt_decrypt [OF P Aok sa(3) ne rnd] by blast
  have s: "unat (sa_seq A + 1) = unat (sa_seq A) + 1" by (rule word_succ(1) [OF ne])
  have adm: "admits (width (sa_replay B)) H (unat (sa_seq A + 1))" using sa(5) s by (fastforce simp: admits_def)
  obtain w where w: "acceptSeq B (sa_seq A + 1) (Ok p) = (Ok p, B\<lparr>sa_replay := w\<rparr>)" "tracks w (insert (unat (sa_seq A + 1)) H)"
    using acceptSeq_spec [OF sa(4), of "sa_seq A + 1" "Ok p"] adm by (auto simp: remember_def)
  define a' where "a' = a\<lparr>h_sas := (h_sas a)[i := A\<lparr>sa_seq := sa_seq A + 1\<rparr>], h_out := h_out a @ [SentESP pkt]\<rparr>"
  have wr: "snd (client_event X (EvWrite p rnd sent late) a) = a'"
    using write_run [OF t(1) i(1) [unfolded i_def] t(2) i(2), of X rnd p pkt] pkt(1) by (simp add: i_def A_def a'_def)
  have cls: "Classify pkt = (KindESP, pkt)" "Uint32 (take 4 pkt) = sa_outSPI A"
    using Encrypt_starts_with_SPI [OF pkt(1)] sa(1) by (simp_all add: Classify_def)
  define b' where "b' = b\<lparr>h_sas := (h_sas b)[r := B\<lparr>sa_replay := w\<rparr>], cl_lastDataInbound := now, h_out := h_out b @ [Deliver h p]\<rparr>"
  have rx: "client_event Y (EvRx pkt now) b = (Ok (), b')"
    using rx_run [OF ok(3) cls(1) _ r _ _ t(3), of Y "Ok p" "B\<lparr>sa_replay := w\<rparr>" now] sa(2) cls(2) pkt(2) w(1) X(3) t(4)
    by (simp add: B_def b'_def DeliverInbound_run Let_def)
  have "client_ok a'" "client_ok b'"
    using client_step(1) [OF X(1) ok(1), of "EvWrite p rnd sent late"] client_step(1) [OF X(2) ok(2), of "EvRx pkt now"] wr rx by simp_all
  moreover have "h_sas a' ! i = A\<lparr>sa_seq := sa_seq A + 1\<rparr>" "h_sas b' ! r = B\<lparr>sa_replay := w\<rparr>" using i r by (simp_all add: a'_def b'_def)
  moreover have "\<forall>q\<in>insert (unat (sa_seq A + 1)) H. q \<le> unat (sa_seq A + 1)" using sa(5) s by fastforce
  moreover have "mirrors (A\<lparr>sa_seq := sa_seq A + 1\<rparr>) (B\<lparr>sa_replay := w\<rparr>)" "workerRuns rxWorker b'" "lookupInbound (sa_outSPI A) b' = Some r"
    subgoal using sa(3) by (simp add: mirrors_def)
    subgoal using ok(3) by (simp add: b'_def workerRuns_def)
    subgoal using sa(2) by (simp add: b'_def lookupInbound_def)
    done
  moreover have "cl_tun a' = Some ta" "cl_tun b' = Some tb" using t by (simp_all add: a'_def b'_def)
  ultimately have "linked n a' b' h"
    using t(2,4) sa(1,6) w(2) s
    by (intro linkedI [where ta = ta and tb = tb and r = r and A = "A\<lparr>sa_seq := sa_seq A + 1\<rparr>" and B = "B\<lparr>sa_replay := w\<rparr>"
          and H = "insert (unat (sa_seq A + 1)) H"]) (simp_all add: i_def)
  then show thesis using that [of pkt] wr rx by (simp add: a'_def b'_def)
qed

text \<open>A stream of datagrams: one run of writes, one run that receives what they sent.\<close>

lemma relay_all:
  assumes X: "outside_ok X" "outside_ok Y" "o_prims Y = o_prims X" and l: "linked (length xs) a b h"
    and rnd: "\<forall>(rnd, p)\<in>set xs. 16 \<le> length rnd"
  shows "\<exists>pkts. h_out (snd (client_run X (map (\<lambda>(rnd, p). EvWrite p rnd True False) xs) a)) = h_out a @ map SentESP pkts \<and>
     h_out (snd (client_run Y (map (\<lambda>pkt. EvRx pkt now) pkts) b)) = h_out b @ map (\<lambda>(_, p). Deliver h p) xs"
  using l rnd
proof (induction xs arbitrary: a b)
  case (Cons x xs)
  obtain rn p where x: "x = (rn, p)" by force
  have rn: "16 \<le> length rn" using Cons.prems(2) x by simp
  have ok: "client_ok a" "client_ok b" using Cons.prems(1) by (simp_all add: linked_def)
  obtain pkt where p: "h_out (snd (client_event X (EvWrite p rn True False) a)) = h_out a @ [SentESP pkt]"
    "h_out (snd (client_event Y (EvRx pkt now) b)) = h_out b @ [Deliver h p]"
    "linked (length xs) (snd (client_event X (EvWrite p rn True False) a)) (snd (client_event Y (EvRx pkt now) b)) h"
    using relay [OF X Cons.prems(1) [unfolded list.size(4) add_0_right One_nat_def add_Suc_right] rn] by blast
  obtain pkts where "h_out (snd (client_run X (map (\<lambda>(rnd, p). EvWrite p rnd True False) xs) (snd (client_event X (EvWrite p rn True False) a)))) =
      (h_out a @ [SentESP pkt]) @ map SentESP pkts"
    "h_out (snd (client_run Y (map (\<lambda>pkt. EvRx pkt now) pkts) (snd (client_event Y (EvRx pkt now) b)))) =
      (h_out b @ [Deliver h p]) @ map (\<lambda>(_, p). Deliver h p) xs"
    using Cons.IH [OF p(3)] Cons.prems(2) p(1,2) by auto
  then show ?case
    using ok by (intro exI [of _ "pkt # pkts"]) (simp add: x client_step(2) [OF X(1)] client_step(2) [OF X(2)] del: client_run.simps(2))
qed (simp add: retS_def)

section \<open>Coming back\<close>

text \<open>The state in which the supervisor starts to redial.\<close>

lemma death_run:
  assumes X: "outside_ok X" and c: "client_ok c" "cl_super c = Idle" "cl_deathSig c" "\<not> cl_superCancelled c"
  obtains c1 where "client_event X EvDeath c = (Ok (), c1)" "client_ok c1" "cl_super c1 = Redialing (c_ReconnectBackoffBase (cl_cfg c))"
    "\<And>i. \<not> workerRuns i c1" "\<exists>s. cl_session c1 = Some s \<and> wiped s" "\<not> cl_superCancelled c1" "cl_cfg c1 = cl_cfg c"
    "cl_attempts c1 = cl_attempts c" "traffic (h_out c1) = traffic (h_out c)"
proof -
  let ?c = "c\<lparr>cl_deathSig := False\<rparr>"
  have ok: "client_ok ?c" using c(1) by simp
  obtain c2 where c2: "stopWorkers X ?c = (Ok (), c2)" "client_ok c2" "\<And>i. \<not> workerRuns i c2" "calm c2 = calm ?c"
    using stopWorkers_run [OF X ok] by blast
  obtain s where s: "cl_session c2 = Some s" using c2(2) by (auto simp: client_ok_def)
  define c1 where "c1 = c2\<lparr>cl_session := Some (Session_Close s), cl_graceTimers := [], cl_super := Redialing (c_ReconnectBackoffBase (cl_cfg c2))\<rparr>"
  have run: "client_event X EvDeath c = (Ok (), c1)"
    using c c2(1) s by (simp add: client_event_def whenS_def readS_def bindS_def modS_def reconnect_begin_def isClosing_def closeSession_def
        onSession_def stopGraceTimers_def c1_def)
  moreover have "client_ok c1" using client_step(1) [OF X c(1), of EvDeath] run by simp
  moreover have "\<not> workerRuns i c1" for i using c2(3) [of i] by (simp add: c1_def workerRuns_def)
  ultimately show thesis
    using that [of c1] c2(4) c(4) wiped_Close by (simp add: c1_def)
qed

text \<open>A failed attempt and the wait after it.\<close>

lemma redial_fails:
  assumes X: "outside_ok X" and c: "client_ok c" "cl_super c = Redialing b" "\<not> cl_superCancelled c"
    and fails: "fst (defaultDialSession (fst (o_dial X (cl_attempts c))) (snd (o_dial X (cl_attempts c))) (cl_cfg c)) \<noteq> Ok ()"
  shows "snd (client_event X (EvRedial rnd) c) = c\<lparr>cl_attempts := cl_attempts c + 1, h_out := h_out c @ [Waited (o_jitter X b rnd)],
     cl_super := Redialing (min (b * 2) (c_ReconnectBackoffMax (cl_cfg c)))\<rparr>"
proof -
  obtain W E where WE: "o_dial X (cl_attempts c) = (W, E)" by force
  obtain r s where d: "defaultDialSession W E (cl_cfg c) = (r, s)" by force
  have "prims_ok (w_prims W)" using X WE unfolding outside_ok_def by (metis fst_conv)
  then obtain e where r: "r = Err e" using defaultDialSession_ok(1) [OF _ d] fails WE d by (cases r) auto
  show ?thesis
    using c(2,3) WE d r
    by (simp add: client_event_def readS_def redial_turn_def isClosing_def bindS_def tryS_def dialSession_def modS_def liftS_def emitH_def)
qed

text \<open>The attempt that succeeds.\<close>

lemma redial_succeeds:
  assumes X: "outside_ok X" and c: "client_ok c" "cl_super c = Redialing b" "\<not> cl_superCancelled c" "cl_tun c = Some t"
    and dial: "o_dial X (cl_attempts c) = (W, E)"
    and hs: "IKESAInit W E (New_session (toSessionConfig (cl_cfg c))) = (Ok (), s1)" "IKEAuth W E s1 = (Ok (), s)" "s_child s = Some ch"
  obtains c' s' where "snd (client_event X (EvRedial rnd) c) = c'" "started c'" "cl_super c' = Idle"
    "cl_session c' = Some s'" "same_tunnel s s'" "LocalIP c' = as_IP (s_assigned s)" "lookupInbound (ch_InitiatorSPI ch) c' = Some (length (h_sas c))"
    "cl_tun c' = Some (reconfigured (length (h_sas c)) (tunConfig s (cl_cfg c)) t)"
    "h_out c' = h_out c @ map (\<lambda>h. Reconf (snd h) (tunConfig s (cl_cfg c))) (o_range X (t_reconfigure t)) @ map RekeyHook (cl_onRekey c)"
proof -
  let ?c = "c\<lparr>cl_attempts := cl_attempts c + 1\<rparr>"
  have d: "dialSession X c = (Ok s, ?c)"
    using dial hs by (simp add: dialSession_def defaultDialSession_def readS_def bindS_def modS_def onErrS_def tryS_def liftS_def retS_def)
  then have "dialled_ok s" using dialSession_run(3) [OF X d] by simp
  then have ch: "child_ok ch" using hs(3) by (auto simp: dialled_ok_def session_ok_def)
  obtain sa where sa: "NewSA (ch_Suite ch) (ch_ResponderSPI ch) (ch_InitiatorSPI ch) (EncrIR (ch_Keys ch)) (IntegIR (ch_Keys ch))
     (EncrRI (ch_Keys ch)) (IntegRI (ch_Keys ch)) (c_ReplayWindow (cl_cfg ?c)) = Ok sa"
    using child_NewSA [OF ch] by blast
  have t: "cl_tun ?c = Some t" using c(4) by simp
  define c2 where "c2 = takeover X s ch sa t ?c"
  have f: "cl_session c2 = Some s" "cl_super c2 = Idle" "cl_localIP c2 = as_IP (s_assigned s)" "lookupInbound (ch_InitiatorSPI ch) c2 = Some (length (h_sas c))"
    "cl_tun c2 = Some (reconfigured (length (h_sas c)) (tunConfig s (cl_cfg c)) t)"
    "h_out c2 = h_out c @ map (\<lambda>h. Reconf (snd h) (tunConfig s (cl_cfg c))) (o_range X (t_reconfigure t)) @ map RekeyHook (cl_onRekey c)"
    by (simp_all add: c2_def takeover_def Let_def lookupInbound_def)
  obtain c' s' where w: "startWorkers X c2 = (Ok (), c')" "started c'" "cl_session c' = Some s'" "same_tunnel s s'" "cl_super c' = cl_super c2"
      "cl_inbound c' = cl_inbound c2" "cl_tun c' = cl_tun c2" "h_out c' = h_out c2" "cl_localIP c' = cl_localIP c2"
    using startWorkers_run [OF f(1), of X] by metis
  have "snd (client_event X (EvRedial rnd) c) = c'"
    using c(2,3) d w(1) reconnect_finish_run [OF hs(3) t sa, of X]
    by (simp add: client_event_def readS_def redial_turn_def isClosing_def bindS_def tryS_def c2_def)
  then show thesis using that w f by (simp add: lookupInbound_def LocalIP_def)
qed

text \<open>The waits between attempts, and the value of \<open>backoff\<close> after some of them.\<close>

fun waits :: "outside \<Rightarrow> duration \<Rightarrow> duration \<Rightarrow> bytes list \<Rightarrow> act list" where
  "waits X mx b [] = []"
| "waits X mx b (rnd # rnds) = Waited (o_jitter X b rnd) # waits X mx (min (b * 2) mx) rnds"

fun backoff_after :: "duration \<Rightarrow> duration \<Rightarrow> nat \<Rightarrow> duration" where
  "backoff_after mx b 0 = b"
| "backoff_after mx b (Suc n) = backoff_after mx (min (b * 2) mx) n"

lemma redials_fail:
  assumes X: "outside_ok X" and c: "client_ok c" "cl_super c = Redialing b" "\<not> cl_superCancelled c"
    and fails: "\<forall>j<length rnds. fst (defaultDialSession (fst (o_dial X (cl_attempts c + j))) (snd (o_dial X (cl_attempts c + j))) (cl_cfg c)) \<noteq> Ok ()"
  shows "snd (client_run X (map EvRedial rnds) c) = c\<lparr>cl_attempts := cl_attempts c + length rnds,
     h_out := h_out c @ waits X (c_ReconnectBackoffMax (cl_cfg c)) b rnds,
     cl_super := Redialing (backoff_after (c_ReconnectBackoffMax (cl_cfg c)) b (length rnds))\<rparr>"
  using c fails
proof (induction rnds arbitrary: c b)
  case (Cons rnd rnds)
  let ?c = "snd (client_event X (EvRedial rnd) c)" and ?mx = "c_ReconnectBackoffMax (cl_cfg c)"
  have f1: "fst (defaultDialSession (fst (o_dial X (cl_attempts c))) (snd (o_dial X (cl_attempts c))) (cl_cfg c)) \<noteq> Ok ()"
    using Cons.prems(4) [rule_format, of 0] by simp
  have f2: "fst (defaultDialSession (fst (o_dial X (cl_attempts c + 1 + j))) (snd (o_dial X (cl_attempts c + 1 + j))) (cl_cfg c)) \<noteq> Ok ()"
    if "j < length rnds" for j
    using Cons.prems(4) [rule_format, of "Suc j"] that by simp
  have c': "?c = c\<lparr>cl_attempts := cl_attempts c + 1, h_out := h_out c @ [Waited (o_jitter X b rnd)],
     cl_super := Redialing (min (b * 2) ?mx)\<rparr>"
    by (rule redial_fails [OF X Cons.prems(1-3) f1])
  have "snd (client_run X (map EvRedial rnds) ?c) = ?c\<lparr>cl_attempts := cl_attempts ?c + length rnds,
     h_out := h_out ?c @ waits X (c_ReconnectBackoffMax (cl_cfg ?c)) (min (b * 2) ?mx) rnds,
     cl_super := Redialing (backoff_after (c_ReconnectBackoffMax (cl_cfg ?c)) (min (b * 2) ?mx) (length rnds))\<rparr>"
    using client_step(1) [OF X Cons.prems(1), of "EvRedial rnd"] f2 Cons.prems(3) by (intro Cons.IH) (simp_all add: c')
  then show ?case
    using client_step(2) [OF X Cons.prems(1), of "EvRedial rnd" "map EvRedial rnds"] c' by (simp del: client_run.simps)
qed (simp add: retS_def)

text \<open>Doubling, up to the cap.\<close>

lemma backoff_after_eq:
  assumes "0 \<le> b" "0 \<le> mx"
  shows "backoff_after mx b (Suc n) = min (b * 2 ^ Suc n) mx"
  using assms
proof (induction n arbitrary: b)
  case (Suc n)
  have "0 \<le> min (b * 2) mx" using Suc.prems by simp
  then have "backoff_after mx b (Suc (Suc n)) = min (min (b * 2) mx * 2 ^ Suc n) mx" using Suc.IH Suc.prems(2) by simp
  also have "\<dots> = min (b * 2 ^ Suc (Suc n)) mx"
  proof (cases "b * 2 \<le> mx")
    case False
    have "(1 :: duration) \<le> 2 ^ Suc n" by (rule one_le_power) simp
    then have "mx * 1 \<le> mx * 2 ^ Suc n" using Suc.prems(2) by (rule mult_left_mono)
    moreover have "mx * 2 ^ Suc n \<le> b * 2 * 2 ^ Suc n" using False by (intro mult_right_mono) simp_all
    ultimately have "min (mx * 2 ^ Suc n) mx = mx" "min (b * 2 * 2 ^ Suc n) mx = mx" by linarith+
    moreover have "min (b * 2) mx = mx" using False by simp
    moreover have "b * 2 * 2 ^ Suc n = b * 2 ^ Suc (Suc n)" by simp
    ultimately show ?thesis by (simp only:)
  qed (simp add: mult.assoc)
  finally show ?case .
qed simp

section \<open>Rekeys, reconnects and their limits\<close>

text \<open>
  C9 (liveness).  A client whose peer died comes back.  When the death is seen, the workers of
  the dead generation are gone and its credentials wiped; then, however many dial attempts fail,
  with the waits of the capped doubling backoff between them, the first attempt that meets a
  responder with the pre-shared key brings the client up again: established, its workers
  running, the new Child SA registered and used by the tunnel, and the network stack and the
  rekey hooks told of the new addresses, which the client itself reports.
\<close>

theorem reconnect_restores:
  assumes X: "outside_ok X" and c: "client_ok c" "cl_super c = Idle" "cl_deathSig c" "\<not> cl_superCancelled c"
    and c1: "c1 = snd (client_event X EvDeath c)" "cl_tun c1 = Some t"
    and fails: "\<forall>j<length rnds. fst (defaultDialSession (fst (o_dial X (cl_attempts c + j))) (snd (o_dial X (cl_attempts c + j))) (cl_cfg c)) \<noteq> Ok ()"
    and peer: "o_dial X (cl_attempts c + length rnds) = (W, E)" "able W" "cfg = toSessionConfig (cl_cfg c)" "small_cfg cfg" "cf_PSK cfg \<noteq> []"
      "checkConfiguredSuites (cf_ESPSuites cfg) (cf_IKESuites cfg) = Inr ()" "psk_peer W E cfg saR nr idr esuite spi attrs"
    and c': "c' = snd (client_run X (EvDeath # map EvRedial rnds @ [EvRedial rnd]) c)"
  shows "(\<forall>i. \<not> workerRuns i c1) \<and> (\<exists>s. cl_session c1 = Some s \<and> wiped s) \<and>
     started c' \<and> cl_super c' = Idle \<and>
     (\<exists>s. cl_session c' = Some s \<and> s_established s \<and> s_remoteIDr s = idr \<and> s_assigned s = parseCPReply attrs \<and>
        (\<exists>u. cl_tun c' = Some u \<and> ec_sa (t_conn u) = length (h_sas c1) \<and>
           h_out c' = h_out c1 @ waits X (c_ReconnectBackoffMax (cl_cfg c)) (c_ReconnectBackoffBase (cl_cfg c)) rnds @
             map (\<lambda>h. Reconf (snd h) (t_cfg u)) (o_range X (t_reconfigure t)) @ map RekeyHook (cl_onRekey c1))) \<and>
     LocalIP c' = as_IP (parseCPReply attrs) \<and> LocalIP6 c' = as_IP6 (parseCPReply attrs) \<and>
     DNS c' = as_DNS (parseCPReply attrs) \<and> DNS6 c' = as_DNS6 (parseCPReply attrs) \<and>
     lookupInbound (Uint32 (take 4 (w_rand W 6))) c' = Some (length (h_sas c1))"
proof -
  let ?b = "c_ReconnectBackoffBase (cl_cfg c)" and ?mx = "c_ReconnectBackoffMax (cl_cfg c)"
  obtain s1 s keys where hs: "IKESAInit W E (New_session cfg) = (Ok (), s1)" "IKEAuth W E s1 = (Ok (), s)" "s_established s"
     "s_remoteIDr s = idr" "s_assigned s = parseCPReply attrs"
     "s_child s = Some \<lparr>ch_InitiatorSPI = Uint32 (take 4 (w_rand W 6)), ch_ResponderSPI = Uint32 spi, ch_Suite = su_id esuite, ch_Keys = keys\<rparr>"
    using psk_peer_completes [OF peer(2,4-7)] by blast
  have d: "client_event X EvDeath c = (Ok (), c1)" "client_ok c1" "cl_super c1 = Redialing ?b" "\<And>i. \<not> workerRuns i c1"
    "\<exists>s. cl_session c1 = Some s \<and> wiped s" "\<not> cl_superCancelled c1" "cl_cfg c1 = cl_cfg c" "cl_attempts c1 = cl_attempts c"
    using death_run [OF X c] c1(1) by (metis snd_conv)+
  define c2 where "c2 = c1\<lparr>cl_attempts := cl_attempts c1 + length rnds, h_out := h_out c1 @ waits X ?mx ?b rnds,
     cl_super := Redialing (backoff_after ?mx ?b (length rnds))\<rparr>"
  have run2: "snd (client_run X (map EvRedial rnds) c1) = c2"
    using redials_fail [OF X d(2,3,6), of rnds] fails unfolding c2_def d(7,8) by simp
  have c2: "client_ok c2" "cl_super c2 = Redialing (backoff_after ?mx ?b (length rnds))" "\<not> cl_superCancelled c2" "cl_tun c2 = Some t"
    "o_dial X (cl_attempts c2) = (W, E)" "cl_cfg c2 = cl_cfg c" "h_sas c2 = h_sas c1" "cl_onRekey c2 = cl_onRekey c1"
    "h_out c2 = h_out c1 @ waits X ?mx ?b rnds"
    using d c1(2) peer(1) by (simp_all add: c2_def)
  have "c' = snd (client_event X (EvRedial rnd) c2)"
    using c' client_step(2) [OF X c(1), of EvDeath] d(1) client_run_append [OF X d(2), of "map EvRedial rnds" "[EvRedial rnd]"] run2
      client_step(2) [OF X c2(1), of "EvRedial rnd" "[]"] by (simp add: retS_def del: client_run.simps(2))
  moreover have hs': "IKESAInit W E (New_session (toSessionConfig (cl_cfg c2))) = (Ok (), s1)" using hs(1) peer(3) c2(6) by simp
  ultimately obtain s' where r: "started c'" "cl_super c' = Idle" "cl_session c' = Some s'" "same_tunnel s s'"
    "LocalIP c' = as_IP (s_assigned s)" "lookupInbound (Uint32 (take 4 (w_rand W 6))) c' = Some (length (h_sas c1))"
    "cl_tun c' = Some (reconfigured (length (h_sas c1)) (tunConfig s (cl_cfg c)) t)"
    "h_out c' = h_out c2 @ map (\<lambda>h. Reconf (snd h) (tunConfig s (cl_cfg c))) (o_range X (t_reconfigure t)) @ map RekeyHook (cl_onRekey c1)"
    using redial_succeeds [OF X c2(1-5) hs' hs(2,6), of rnd] c2(6-8) by (metis ChildSA.select_convs(1))
  have "\<exists>u. cl_tun c' = Some u \<and> ec_sa (t_conn u) = length (h_sas c1) \<and>
           h_out c' = h_out c1 @ waits X ?mx ?b rnds @ map (\<lambda>h. Reconf (snd h) (t_cfg u)) (o_range X (t_reconfigure t)) @ map RekeyHook (cl_onRekey c1)"
    using r(7,8) c2(9) by (intro exI [of _ "reconfigured (length (h_sas c1)) (tunConfig s (cl_cfg c)) t"]) (simp add: reconfigured_def swapSA_def)
  moreover have "LocalIP6 c' = as_IP6 (parseCPReply attrs)" "DNS c' = as_DNS (parseCPReply attrs)" "DNS6 c' = as_DNS6 (parseCPReply attrs)"
    using r(3,4) hs(5) by (simp_all add: LocalIP6_def DNS_def DNS6_def same_tunnel_def)
  ultimately show ?thesis using d(4,5) r(1-6) hs(3-5) by (auto simp: same_tunnel_def)
qed

text \<open>An outside that refuses the second attempt.\<close>

definition refusing :: "world \<Rightarrow> outside" where
  "refusing W = (answering W)\<lparr>o_dial := (\<lambda>k. if k = 1 then (W, quiet_env\<lparr>e_dial := \<lambda>_ _. None\<rparr>) else (W, quiet_env))\<rparr>"

lemma dial_refused:
  assumes "checkConfiguredSuites (cf_ESPSuites (toSessionConfig cfg)) (cf_IKESuites (toSessionConfig cfg)) = Inr ()"
  shows "fst (defaultDialSession W (quiet_env\<lparr>e_dial := \<lambda>_ _. None\<rparr>) cfg) \<noteq> Ok ()"
  using assms
  by (simp add: defaultDialSession_def bindS_def onErrS_def tryS_def IKESAInit_def readS_def New_session_def sainit_dial_def tickS_def failS_def modS_def)

theorem reconnect_restores_witness:
  "\<exists>X c t idr. client_ok c \<and> cl_tun (snd (client_event X EvDeath c)) = Some t \<and>
     (let c' = snd (client_run X [EvDeath, EvRedial [1], EvRedial [2]] c) in
      started c' \<and> (\<exists>s. cl_session c' = Some s \<and> s_established s \<and> s_remoteIDr s = idr))"
proof -
  obtain W cfg c0 saR nr idr esuite spi where w: "able W" "validate plain_public = Inr cfg" "small_cfg (toSessionConfig cfg)"
    "cf_PSK (toSessionConfig cfg) \<noteq> []"
    "checkConfiguredSuites (cf_ESPSuites (toSessionConfig cfg)) (cf_IKESuites (toSessionConfig cfg)) = Inr ()"
    "psk_peer W quiet_env (toSessionConfig cfg) saR nr idr esuite spi []"
    "Dial (answering W) plain_public = (Ok (), c0)" "cl_super c0 = Idle"
    by (rule example_client [of 6])
  define X where "X = refusing W"
  have X: "outside_ok X" using w(1) by (simp add: X_def refusing_def answering_def outside_ok_def plain_prims_ok able_prims)
  define c where "c = c0\<lparr>cl_deathSig := True, cl_superCancelled := False, cl_cfg := cfg, cl_attempts := 1\<rparr>"
  have ok: "client_ok c0" by (rule Dial_run(2) [OF outside_ok_answering [OF w(1)] w(7)])
  then have c: "client_ok c" "cl_super c = Idle" "cl_deathSig c" "\<not> cl_superCancelled c"
    using w(8) by (simp_all add: c_def client_ok_def)
  have ok1: "client_ok (snd (client_event X EvDeath c))" by (rule client_step(1) [OF X c(1)])
  then obtain t where t: "cl_tun (snd (client_event X EvDeath c)) = Some t" by (auto simp: client_ok_def)
  have cfg: "cl_cfg c = cfg" "cl_attempts c = 1" by (simp_all add: c_def)
  have "\<forall>j<length [[1 :: byte]]. fst (defaultDialSession (fst (o_dial X (cl_attempts c + j))) (snd (o_dial X (cl_attempts c + j))) (cl_cfg c)) \<noteq> Ok ()"
    using dial_refused [OF w(5), of W] by (simp add: X_def refusing_def cfg)
  note restores = reconnect_restores [OF X c refl t this _ w(1) _ w(3-6) refl, where rnd = "[2]"]
  have "let c' = snd (client_run X [EvDeath, EvRedial [1], EvRedial [2]] c) in
      started c' \<and> (\<exists>s. cl_session c' = Some s \<and> s_established s \<and> s_remoteIDr s = idr)"
    using restores by (auto simp: X_def refusing_def cfg Let_def simp del: client_run.simps)
  then show ?thesis using c(1) t by blast
qed

lemma install_fields:
  assumes "client_ok c" "update_ok u" "cl_tun c = Some t"
  obtains c' sa m where "InstallChildSA u c = (Ok (), c')" "client_ok c'" "update_SA u (c_ReplayWindow (cl_cfg c)) = Ok sa"
    "cl_inbound c = Some m" "cl_inbound c' = Some (m(cu_NewInSPI u \<mapsto> length (h_sas c)))" "h_sas c' = h_sas c @ [sa]"
    "cl_tun c' = Some (SwapSA (length (h_sas c)) t)" "cl_mgr c' = cl_mgr c" "cl_callbacks c' = cl_callbacks c"
    "cl_graceTimers c' = (if cu_OldInSPI u \<noteq> 0 \<and> cu_OldInSPI u \<noteq> cu_NewInSPI u
       then cl_graceTimers c @ [(cl_nextTimer c, cu_OldInSPI u, m (cu_OldInSPI u))] else cl_graceTimers c)"
proof -
  obtain m where m: "cl_inbound c = Some m" using assms(1) by (auto simp: client_ok_def)
  obtain sa where sa: "NewSA (cu_Suite u) (cu_NewOutSPI u) (cu_NewInSPI u) (cu_OutEncr u) (cu_OutInteg u) (cu_InEncr u) (cu_InInteg u)
       (c_ReplayWindow (cl_cfg c)) = Ok sa"
    using update_NewSA [OF assms(2)] by blast
  have "within (\<lambda>_. True) c" using assms(1) by (simp add: within_def)
  then obtain c' where c': "InstallChildSA u c = (Ok (), c')" "client_ok c'"
    using any_store.within_install [of c u] assms(2) by (auto simp: within_def)
  note run = InstallChildSA_run [OF m assms(3) sa]
  show thesis
    using that [OF c' _ m] sa c'(1) unfolding run update_SA_def by (auto simp: Let_def split: if_splits)
qed

text \<open>
  C6 (functional).  A rekey leaves two clients connected.  When the two ends have installed the
  updates that mirror each other, with which a rekey ends, every stream of datagrams written to
  one tunnel is handed to the network stack of the other, complete, in order and unchanged.
\<close>

theorem rekeyed_clients_connected:
  assumes X: "outside_ok X" "outside_ok Y" "o_prims Y = o_prims X" and ab: "client_ok a" "client_ok b"
    and u: "mirrored_updates u v" "update_ok u" "update_ok v" "cu_NewOutSPI u \<noteq> 0"
    and a: "cl_tun a = Some ta" "\<not> ec_closed (t_conn ta)"
    and b: "cl_tun b = Some tb" "t_inbound tb = Some h" "workerRuns rxWorker b"
    and xs: "length xs < 2 ^ 32" "\<forall>(rnd, p)\<in>set xs. 16 \<le> length rnd"
    and installed: "a' = snd (InstallChildSA u a)" "b' = snd (InstallChildSA v b)"
  shows "\<exists>pkts. h_out (snd (client_run X (map (\<lambda>(rnd, p). EvWrite p rnd True False) xs) a')) = h_out a' @ map SentESP pkts \<and>
     h_out (snd (client_run Y (map (\<lambda>pkt. EvRx pkt now) pkts) b')) = h_out b' @ map (\<lambda>(_, p). Deliver h p) xs"
proof -
  obtain saA where A: "client_ok a'" "update_SA u (c_ReplayWindow (cl_cfg a)) = Ok saA" "h_sas a' = h_sas a @ [saA]"
      "cl_tun a' = Some (SwapSA (length (h_sas a)) ta)"
    using install_fields [OF ab(1) u(2) a(1)] installed(1) by (metis snd_conv)
  obtain saB m where B: "client_ok b'" "update_SA v (c_ReplayWindow (cl_cfg b)) = Ok saB" "h_sas b' = h_sas b @ [saB]"
      "cl_tun b' = Some (SwapSA (length (h_sas b)) tb)" "cl_mgr b' = cl_mgr b"
      "cl_inbound b' = Some (m(cu_NewInSPI v \<mapsto> length (h_sas b)))"
    using install_fields [OF ab(2) u(3) b(1)] installed(2) by (metis snd_conv)
  have "mirrors saA saB"
    using mirrored_updates_SA [OF u(1,2), of "c_ReplayWindow (cl_cfg a)" "c_ReplayWindow (cl_cfg b)"] A(2) B(2) by (metis res.inject(1))
  moreover have "sa_seq saA = 0" "sa_outSPI saA = cu_NewOutSPI u" using NewSA_sa_ok(2,5) A(2) unfolding update_SA_def by blast+
  moreover have "sa_replay saB = NewReplayWindow (c_ReplayWindow (cl_cfg b))" using NewSA_sa_ok(4) B(2) unfolding update_SA_def by blast
  moreover have "cu_NewOutSPI u = cu_NewInSPI v" using u(1) by (simp add: mirrored_updates_def)
  moreover have "workerRuns rxWorker b'" using b(3) B(5) by (simp add: workerRuns_def)
  ultimately have "linked (length xs) a' b' h"
    using A B a b u(4) xs(1) tracks_NewReplayWindow [of "c_ReplayWindow (cl_cfg b)"]
    by (intro linkedI [where ta = "SwapSA (length (h_sas a)) ta" and tb = "SwapSA (length (h_sas b)) tb" and A = saA and B = saB and r = "length (h_sas b)" and H = "{}"]) (simp_all add: SwapSA_def swapSA_def lookupInbound_def)
  then show ?thesis by (rule relay_all [OF X _ xs(2)])
qed

definition plain_update :: "u32 \<Rightarrow> u32 \<Rightarrow> u32 \<Rightarrow> ChildSAUpdate" where
  "plain_update old new out = \<lparr>cu_NewInSPI = new, cu_NewOutSPI = out, cu_OldInSPI = old, cu_Suite = 1,
     cu_OutEncr = zeros 36, cu_OutInteg = [], cu_InEncr = zeros 36, cu_InInteg = []\<rparr>"

lemma plain_update_ok: "update_ok (plain_update old new out)" "mirrored_updates (plain_update old new out) (plain_update old' out new)"
  by (simp_all add: update_ok_def keys_ok_def plain_update_def espSuites_def mirrored_updates_def)

theorem rekeyed_clients_connected_witness:
  "\<exists>X a b pkts. client_ok a \<and> client_ok b \<and>
     h_out (snd (client_run X (map (\<lambda>pkt. EvRx pkt 5) pkts) (snd (InstallChildSA (plain_update 1 9 8) b)))) =
       h_out (snd (InstallChildSA (plain_update 1 9 8) b)) @ [Deliver 4 [69], Deliver 4 [96, 0]]"
proof -
  obtain W c t where w: "able W" "Dial (answering W) plain_public = (Ok (), c)" "started c" "cl_tun c = Some t" "\<not> ec_closed (t_conn t)"
    by (rule example_client [of 6])
  have X: "outside_ok (answering W)" by (rule outside_ok_answering [OF w(1)])
  have c: "client_ok c" by (rule Dial_run(2) [OF X w(2)])
  define b where "b = c\<lparr>cl_tun := Some (t\<lparr>t_inbound := Some 4\<rparr>)\<rparr>"
  have b: "client_ok b" "cl_tun b = Some (t\<lparr>t_inbound := Some 4\<rparr>)" "workerRuns rxWorker b"
    using client_ok_tun [OF c, of "\<lambda>t. t\<lparr>t_inbound := Some 4\<rparr>"] w(3,4) by (simp_all add: b_def started_def workerRuns_def)
  let ?u = "plain_update 1 8 9" and ?v = "plain_update 1 9 8" and ?xs = "[(zeros 16, [69]), (zeros 16, [96, 0])] :: (bytes \<times> bytes) list"
  have side: "cu_NewOutSPI ?u \<noteq> 0" "t_inbound (t\<lparr>t_inbound := Some 4\<rparr>) = Some 4" "length ?xs < 2 ^ 32" "\<forall>(rnd, p)\<in>set ?xs. 16 \<le> length rnd"
    by (simp_all add: plain_update_def)
  obtain pkts where "h_out (snd (client_run (answering W) (map (\<lambda>pkt. EvRx pkt 5) pkts) (snd (InstallChildSA ?v b)))) =
      h_out (snd (InstallChildSA ?v b)) @ map (\<lambda>(_, p). Deliver 4 p) ?xs"
    using rekeyed_clients_connected [OF X X refl c b(1) plain_update_ok(2) plain_update_ok(1,1) side(1) w(4,5) b(2) side(2) b(3) side(3,4) refl refl,
        of 5 1] by blast
  then show ?thesis using c b(1) by auto
qed

lemma install_resolved:
  assumes "client_ok c" "update_ok u" "lookupInbound spi c = Some sa" "spi \<noteq> cu_NewInSPI u"
  shows "resolved (Suc (length (h_sas c))) spi sa (snd (InstallChildSA u c))"
    "resolved (Suc (length (h_sas c))) (cu_NewInSPI u) (length (h_sas c)) (snd (InstallChildSA u c))"
proof -
  obtain t where t: "cl_tun c = Some t" using assms(1) by (auto simp: client_ok_def)
  obtain c' m sa' where "InstallChildSA u c = (Ok (), c')" "client_ok c'" "cl_inbound c = Some m"
      "cl_inbound c' = Some (m(cu_NewInSPI u \<mapsto> length (h_sas c)))" "h_sas c' = h_sas c @ [sa']"
    by (rule install_fields [OF assms(1,2) t])
  then show "resolved (Suc (length (h_sas c))) spi sa (snd (InstallChildSA u c))"
    "resolved (Suc (length (h_sas c))) (cu_NewInSPI u) (length (h_sas c)) (snd (InstallChildSA u c))"
    using assms(3,4) by (simp_all add: resolved_def lookupInbound_def)
qed

text \<open>
  C37 (functional).  A rekey is hitless.  From the moment the replacement is installed the tunnel
  sends with it.  The superseded inbound SPI and the new one both lead to their associations
  through every later run, whatever the turns in it are (writes, datagrams, further rekeys,
  timers firing, the supervisor, a close), until the callback of the grace timer for that very
  entry runs or the client is redialled; the one exception is a later Child SA that was given the
  same SPI.  The grace timer is armed for the superseded entry, its firing queues the callback,
  and the callback takes exactly that SPI out of the registry.
\<close>

theorem rekey_hitless:
  assumes X: "outside_ok X" and c: "client_ok c"
    and u: "update_ok u" "cu_OldInSPI u \<noteq> 0" "cu_OldInSPI u \<noteq> cu_NewInSPI u" "lookupInbound (cu_OldInSPI u) c = Some old"
    and installed: "c' = snd (InstallChildSA u c)" "new = length (h_sas c)" "timer = (cl_nextTimer c, cu_OldInSPI u, Some old)"
  shows "(\<exists>t. cl_tun c' = Some t \<and> ec_sa (t_conn t) = new) \<and> timer \<in> set (cl_graceTimers c') \<and>
     (\<forall>es d. d = snd (client_run X es c') \<longrightarrow>
        (undisturbed X (cu_OldInSPI u) old es c' \<longrightarrow> lookupInbound (cu_OldInSPI u) d = Some old \<or> reused (Suc new) (cu_OldInSPI u) d) \<and>
        (undisturbed X (cu_NewInSPI u) new es c' \<longrightarrow> lookupInbound (cu_NewInSPI u) d = Some new \<or> reused (Suc new) (cu_NewInSPI u) d) \<and>
        (timer \<in> set (cl_graceTimers d) \<longrightarrow> timer \<in> set (cl_callbacks (snd (client_event X (EvTimer (cl_nextTimer c)) d)))) \<and>
        (lookupInbound (cu_OldInSPI u) d = Some old \<and> (\<exists>rest. cl_callbacks d = timer # rest) \<longrightarrow>
           lookupInbound (cu_OldInSPI u) (snd (client_event X EvCallback d)) = None \<and>
           (\<forall>spi. spi \<noteq> cu_OldInSPI u \<longrightarrow> lookupInbound spi (snd (client_event X EvCallback d)) = lookupInbound spi d)))"
proof -
  obtain t where t: "cl_tun c = Some t" using c by (auto simp: client_ok_def)
  obtain m where f: "client_ok c'" "cl_inbound c = Some m" "cl_tun c' = Some (SwapSA new t)"
      "cl_graceTimers c' = cl_graceTimers c @ [(cl_nextTimer c, cu_OldInSPI u, m (cu_OldInSPI u))]"
    using install_fields [OF c u(1) t] installed(1,2) u(2,3) by (metis snd_conv)
  have send: "\<exists>t. cl_tun c' = Some t \<and> ec_sa (t_conn t) = new" using f(3) by (simp add: SwapSA_def swapSA_def)
  have armed: "timer \<in> set (cl_graceTimers c')" using f(2,4) u(4) by (simp add: installed(3) lookupInbound_def)
  have fires: "timer \<in> set (cl_callbacks (snd (client_event X (EvTimer (cl_nextTimer c)) d)))" if "timer \<in> set (cl_graceTimers d)" for d
    using that by (auto simp: client_event_def timerFires_def modS_def installed(3))
  have callback: "lookupInbound spi (snd (client_event X EvCallback d)) = (if spi = cu_OldInSPI u then None else lookupInbound spi d)"
    if entry: "lookupInbound (cu_OldInSPI u) d = Some old" "cl_callbacks d = timer # rest" for spi d rest
  proof -
    obtain m where m: "cl_inbound d = Some m" "m (cu_OldInSPI u) = Some old"
      using entry(1) by (auto simp: lookupInbound_def split: option.splits)
    show ?thesis using callback_run [OF entry(2) [unfolded installed(3)] m(1), of X] m by (simp add: lookupInbound_def)
  qed
  note run = resolved_run [OF X install_resolved(1) [OF c u(1,4,3)]] resolved_run [OF X install_resolved(2) [OF c u(1,4,3)]]
  show ?thesis using send armed fires callback run unfolding installed(1,2) resolved_def by auto
qed

theorem rekey_hitless_witness:
  "\<exists>X c c'. client_ok c \<and> c' = snd (InstallChildSA (plain_update 0x06060606 8 9) c) \<and> lookupInbound 0x06060606 c = Some 0 \<and>
     (\<forall>raw d. d = snd (client_run X [EvTimer (cl_nextTimer c), EvRx raw 5, EvTick] c') \<longrightarrow>
        (lookupInbound 0x06060606 d = Some 0 \<or> reused (Suc (length (h_sas c))) 0x06060606 d) \<and>
        (lookupInbound 8 d = Some (length (h_sas c)) \<or> reused (Suc (length (h_sas c))) 8 d)) \<and>
     lookupInbound 0x06060606 (snd (client_event X EvCallback (snd (client_run X [EvTimer (cl_nextTimer c)] c')))) = None"
proof -
  obtain W c where w: "able W" "Dial (answering W) plain_public = (Ok (), c)" "cl_inbound c = Some [Uint32 (replicate 4 6) \<mapsto> 0]"
      "cl_callbacks c = []" "cl_graceTimers c = []"
    by (rule example_client [of 6])
  let ?X = "answering W" and ?u = "plain_update 0x06060606 8 9" and ?timer = "(cl_nextTimer c, 0x06060606 :: u32, Some (0 :: sa_ref))"
  have X: "outside_ok ?X" by (rule outside_ok_answering [OF w(1)])
  have c: "client_ok c" by (rule Dial_run(2) [OF X w(2)])
  have u: "cu_OldInSPI ?u \<noteq> 0" "cu_OldInSPI ?u \<noteq> cu_NewInSPI ?u" "lookupInbound (cu_OldInSPI ?u) c = Some 0"
      "cu_OldInSPI ?u = 0x06060606" "cu_NewInSPI ?u = 8"
    using w(3) by (simp_all add: plain_update_def lookupInbound_def octets_spi)
  have upd: "update_ok ?u" by (rule plain_update_ok(1))
  obtain t where t: "cl_tun c = Some t" using c by (auto simp: client_ok_def)
  define c' where "c' = snd (InstallChildSA ?u c)"
  obtain m where f: "client_ok c'" "cl_inbound c = Some m" "cl_inbound c' = Some (m(8 \<mapsto> length (h_sas c)))" "cl_callbacks c' = []"
      "cl_graceTimers c' = [(cl_nextTimer c, 0x06060606, m 0x06060606)]"
    using install_fields [OF c upd t] w(4,5) u(1,2) unfolding c'_def u(4,5) by (metis append_Nil snd_conv)
  have m: "m 0x06060606 = Some 0" using f(2) w(3) by (auto simp: octets_spi)
  note hit = rekey_hitless [OF X c upd u(1-3) c'_def refl refl, unfolded u(4,5), THEN conjunct2, THEN conjunct2, THEN spec, THEN spec, THEN mp]
  define d where "d = snd (client_run ?X [EvTimer (cl_nextTimer c)] c')"
  have d: "d = c'\<lparr>cl_callbacks := [?timer]\<rparr>"
    using client_step(2) [OF X f(1), of "EvTimer (cl_nextTimer c)" "[]"] f(4,5) m
    by (simp add: d_def retS_def client_event_def timerFires_def modS_def octets_spi del: client_run.simps(2))
  have entry: "lookupInbound 0x06060606 d = Some 0" "cl_callbacks d = ?timer # []"
    using f(3) m by (simp_all add: d lookupInbound_def octets_spi)
  have "lookupInbound 0x06060606 (snd (client_event ?X EvCallback d)) = None" using hit [OF d_def] entry by blast
  moreover have "(lookupInbound 0x06060606 e = Some 0 \<or> reused (Suc (length (h_sas c))) 0x06060606 e) \<and>
      (lookupInbound 8 e = Some (length (h_sas c)) \<or> reused (Suc (length (h_sas c))) 8 e)"
    if "e = snd (client_run ?X [EvTimer (cl_nextTimer c), EvRx raw 5, EvTick] c')" for raw e
  proof -
    have "undisturbed ?X spi sa [EvTimer (cl_nextTimer c), EvRx raw 5, EvTick] c'" for spi sa by simp
    then show ?thesis using hit [OF that] by blast
  qed
  ultimately show ?thesis using c u(3,4) unfolding d_def by (intro exI [of _ ?X] exI [of _ c] exI [of _ c']) (simp add: c'_def)
qed

text \<open>The first packet that reaches a fresh association.\<close>

lemma first_packet:
  assumes X: "outside_ok X" and c: "client_ok c" "workerRuns rxWorker c" "cl_tun c = Some t" "h_sas c = [a]" "lookupInbound (sa_inSPI a) c = Some 0"
    and a: "sa_inSPI a \<noteq> 0" "tracks (sa_replay a) {}" and b: "sa_ok b" "mirrors b a" "sa_seq b \<noteq> NOT 0" "16 \<le> length rnd"
  shows "\<exists>pkt. fst (Encrypt (o_prims X) b rnd p) = Ok pkt \<and>
     h_out (snd (client_run X [EvSetInbound h, EvRx pkt now] c)) = h_out c @ [Deliver h p]"
proof -
  have P: "prims_ok (o_prims X)" using X by (simp add: outside_ok_def)
  obtain pkt where pkt: "Encrypt (o_prims X) b rnd p = (Ok pkt, b\<lparr>sa_seq := sa_seq b + 1\<rparr>)" "Decrypt (o_prims X) a pkt = acceptSeq a (sa_seq b + 1) (Ok p)"
    using encrypt_decrypt [OF P b] by blast
  obtain w where w: "acceptSeq a (sa_seq b + 1) (Ok p) = (Ok p, a\<lparr>sa_replay := w\<rparr>)"
    using acceptSeq_spec [OF a(2), of "sa_seq b + 1" "Ok p"] word_succ(1) [OF b(3)] by (auto simp: admits_def)
  have spi: "sa_outSPI b = sa_inSPI a" using b(2) by (simp add: mirrors_def)
  have cls: "Classify pkt = (KindESP, pkt)" "Uint32 (take 4 pkt) = sa_inSPI a"
    using Encrypt_starts_with_SPI [OF pkt(1)] a(1) spi by (simp_all add: Classify_def)
  define c1 where "c1 = c\<lparr>cl_tun := Some (SetInbound h t)\<rparr>"
  have set: "snd (client_event X (EvSetInbound h) c) = c1" using c(3) by (simp add: client_event_def onTun_def modS_def c1_def)
  have ok: "client_ok c1" using client_step(1) [OF X c(1), of "EvSetInbound h"] set by simp
  have run: "snd (client_run X [EvSetInbound h, EvRx pkt now] c) = snd (client_event X (EvRx pkt now) c1)"
    using client_step(2) [OF X c(1), of "EvSetInbound h" "[EvRx pkt now]"] client_step(2) [OF X ok, of "EvRx pkt now" "[]"] set
    by (simp add: retS_def del: client_run.simps(2))
  have rx: "workerRuns rxWorker c1" "lookupInbound (Uint32 (take 4 pkt)) c1 = Some 0" "0 < length (h_sas c1)"
      "Decrypt (o_prims X) (h_sas c1 ! 0) pkt = (Ok p, a\<lparr>sa_replay := w\<rparr>)" "cl_tun c1 = Some (SetInbound h t)"
    using c cls(2) pkt(2) w by (simp_all add: c1_def workerRuns_def lookupInbound_def)
  have "h_out (snd (client_event X (EvRx pkt now) c1)) = h_out c @ [Deliver h p]"
    unfolding rx_run [OF rx(1) cls(1) rx(2-4) _ rx(5), simplified] by (simp add: DeliverInbound_run Let_def SetInbound_def c1_def)
  then show ?thesis using pkt(1) run by auto
qed

text \<open>
  C40 (error).  An SPI of zero leaves the client deaf.  \<open>allocChildSPI\<close> takes its four random
  octets as they come, and against a responder that holds the pre-shared key \<open>Dial\<close> returns a
  running client for any of them.  When they are not
  all zero the first packet the peer sends on the tunnel is handed to the network stack as soon
  as it has attached.  When they are all zero nothing is ever handed up, by any run of the client
  with any datagrams, until it makes another association: the receive loop takes a
  packet with this SPI for a wrapped IKE message.
\<close>

theorem zero_spi_deaf:
  assumes X: "outside_ok X" "o_dial X 0 = (W, E)" and W: "able W" "ispi = Uint32 (take 4 (w_rand W 6))"
    and cfg: "validate pcfg = Inr cfg'" "cfg = toSessionConfig cfg'" "small_cfg cfg" "cf_PSK cfg \<noteq> []"
      "checkConfiguredSuites (cf_ESPSuites cfg) (cf_IKESuites cfg) = Inr ()" "psk_peer W E cfg saR nr idr esuite spi attrs"
  shows "\<exists>c a. Dial X pcfg = (Ok (), c) \<and> started c \<and> h_sas c = [a] \<and>
     (if ispi = 0
      then \<forall>es. length (h_sas (snd (client_run X es c))) = 1 \<longrightarrow> handed_up (h_out (snd (client_run X es c))) = []
      else \<forall>b rnd p h now. sa_ok b \<and> mirrors b a \<and> sa_seq b \<noteq> NOT 0 \<and> 16 \<le> length rnd \<longrightarrow>
        (\<exists>pkt. fst (Encrypt (o_prims X) b rnd p) = Ok pkt \<and>
           handed_up (h_out (snd (client_run X [EvSetInbound h, EvRx pkt now] c))) = [p]))"
proof -
  obtain s1 s ch where hs: "IKESAInit W E (New_session (toSessionConfig cfg')) = (Ok (), s1)" "IKEAuth W E s1 = (Ok (), s)" "s_child s = Some ch"
     "ch_InitiatorSPI ch = ispi"
    using psk_peer_completes [OF W(1) cfg(3-6)] W(2) cfg(2) by auto
  obtain c a where c: "Dial X pcfg = (Ok (), c)" "started c" "cl_inbound c = Some [ch_InitiatorSPI ch \<mapsto> 0]"
      "cl_tun c = Some (Tunnel_New 0 (tunConfig s cfg'))" "h_sas c = [a]"
    and a: "NewSA (ch_Suite ch) (ch_ResponderSPI ch) (ch_InitiatorSPI ch) (EncrIR (ch_Keys ch)) (IntegIR (ch_Keys ch))
       (EncrRI (ch_Keys ch)) (IntegRI (ch_Keys ch)) (c_ReplayWindow cfg') = Ok a"
    by (rule Dial_succeeds [OF X(1) cfg(1) X(2) hs(1-3)])
  have ok: "client_ok c" by (rule Dial_run(2) [OF X(1) c(1)])
  have spi: "sa_inSPI a = ispi" using NewSA_sa_ok(6) [OF a] hs(4) by simp
  have quiet: "handed_up (h_out c) = []" using Dial_fresh(1) [OF c(1)] traffic_views(2) [of "h_out c"] by simp
  have deaf: "handed_up (h_out (snd (client_run X es c))) = []" if "ispi = 0" "length (h_sas (snd (client_run X es c))) = 1" for es
  proof -
    have "taken X es c = []" by (rule taken_zero_spi [OF X(1) ok _ that(2)]) (simp add: c(5) spi that(1))
    moreover obtain ds where "traffic (h_out (snd (client_run X es c))) = traffic (h_out c) @ ds" "subseq (handed_up ds) (map (\<lambda>(_, _, inner). inner) (taken X es c))"
      using run_traffic [OF X(1) ok] by blast
    ultimately show ?thesis using quiet by (metis append_Nil list_emb_Nil2 map_is_Nil_conv traffic_views(2) views_append(2))
  qed
  have hears: "\<exists>pkt. fst (Encrypt (o_prims X) b rnd p) = Ok pkt \<and> handed_up (h_out (snd (client_run X [EvSetInbound h, EvRx pkt now] c))) = [p]"
    if "ispi \<noteq> 0" "sa_ok b" "mirrors b a" "sa_seq b \<noteq> NOT 0" "16 \<le> length rnd" for b rnd p h now
  proof -
    have run: "workerRuns rxWorker c" "lookupInbound (sa_inSPI a) c = Some 0" "sa_inSPI a \<noteq> 0" "tracks (sa_replay a) {}"
      using c(2,3) hs(4) spi that(1) NewSA_sa_ok(4) [OF a] tracks_NewReplayWindow by (simp_all add: started_def lookupInbound_def)
    show ?thesis
      using first_packet [OF X(1) ok run(1) c(4,5) run(2-4) that(2-5), of p h now] quiet by (auto simp del: client_run.simps)
  qed
  show ?thesis using c(1,2,5) deaf hears by (intro exI [of _ c] exI [of _ a]) (simp del: client_run.simps)
qed

lemma mirror_image:
  assumes "sa_ok a"
  obtains b where "sa_ok b" "mirrors b a" "sa_seq b = 0"
  using assms
  by (intro that [of "a\<lparr>sa_outSPI := sa_inSPI a, sa_outBlock := sa_inBlock a, sa_outInteg := sa_inInteg a,
    sa_outAEAD := sa_inAEAD a, sa_outSalt := sa_inSalt a, sa_seq := 0\<rparr>"]) (auto simp: sa_ok_def mirrors_def split: if_splits)

theorem zero_spi_deaf_witness:
  "(\<exists>X c. Dial X plain_public = (Ok (), c) \<and>
     (\<forall>es. length (h_sas (snd (client_run X es c))) = 1 \<longrightarrow> handed_up (h_out (snd (client_run X es c))) = [])) \<and>
   (\<exists>X c pkt. Dial X plain_public = (Ok (), c) \<and> handed_up (h_out (snd (client_run X [EvSetInbound 3, EvRx pkt 5] c))) = [[69]])"
proof -
  have dial: "\<exists>X c a. outside_ok X \<and> Dial X plain_public = (Ok (), c) \<and> h_sas c = [a] \<and>
     (if Uint32 (replicate 4 q) = 0
      then \<forall>es. length (h_sas (snd (client_run X es c))) = 1 \<longrightarrow> handed_up (h_out (snd (client_run X es c))) = []
      else \<forall>b rnd p h now. sa_ok b \<and> mirrors b a \<and> sa_seq b \<noteq> NOT 0 \<and> 16 \<le> length rnd \<longrightarrow>
        (\<exists>pkt. fst (Encrypt (o_prims X) b rnd p) = Ok pkt \<and>
           handed_up (h_out (snd (client_run X [EvSetInbound h, EvRx pkt now] c))) = [p]))" for q
  proof -
    obtain W cfg saR nr idr esuite spi where w: "able W" "validate plain_public = Inr cfg" "small_cfg (toSessionConfig cfg)"
      "cf_PSK (toSessionConfig cfg) \<noteq> []"
      "checkConfiguredSuites (cf_ESPSuites (toSessionConfig cfg)) (cf_IKESuites (toSessionConfig cfg)) = Inr ()"
      "psk_peer W quiet_env (toSessionConfig cfg) saR nr idr esuite spi []" "w_rand W 6 = replicate 64 q"
      by (rule example_client [of q])
    have o: "o_dial (answering W) 0 = (W, quiet_env)" "Uint32 (replicate 4 q) = Uint32 (take 4 (w_rand W 6))" using w(7) by (simp_all add: answering_def)
    note X = outside_ok_answering [OF w(1)]
    show ?thesis
      using zero_spi_deaf [OF X o(1) w(1) o(2) w(2) refl w(3-6)] X
      by (elim exE conjE, intro exI [of _ "answering W"] exI conjI)
  qed
  obtain X c where deaf: "Dial X plain_public = (Ok (), c)" "\<forall>es. length (h_sas (snd (client_run X es c))) = 1 \<longrightarrow> handed_up (h_out (snd (client_run X es c))) = []"
    using dial [of 0] unfolding octets_spi(2) by auto
  obtain Y d a where d: "outside_ok Y" "Dial Y plain_public = (Ok (), d)" "h_sas d = [a]" "\<forall>b rnd p h now. sa_ok b \<and> mirrors b a \<and> sa_seq b \<noteq> NOT 0 \<and> 16 \<le> length rnd \<longrightarrow>
        (\<exists>pkt. fst (Encrypt (o_prims Y) b rnd p) = Ok pkt \<and> handed_up (h_out (snd (client_run Y [EvSetInbound h, EvRx pkt now] d))) = [p])"
    using dial [of 6] unfolding octets_spi(1) by (auto simp del: client_run.simps)
  have "sa_ok a" using Dial_run(2) [OF d(1,2)] d(3) by (simp add: client_ok_def)
  then obtain b where "sa_ok b" "mirrors b a" "sa_seq b = 0" by (rule mirror_image)
  then have "\<exists>pkt. handed_up (h_out (snd (client_run Y [EvSetInbound 3, EvRx pkt 5] d))) = [[69]]"
    using d(4) [rule_format, of b "zeros 16" "[69]" 3 5] by (auto simp del: client_run.simps)
  then show ?thesis using deaf d(2) by blast
qed

text \<open>
  C38 (termination).  A dial attempt ends.  Whatever the responder and the network do, the
  handshake returns an established session or an error and never panics, after at most 38
  exchanges, each of at most five sends: IKE\_SA\_INIT with a cookie and another group four times,
  IKE\_AUTH at most 34 times, since EAP is cut off after 32 rounds.
\<close>

theorem dial_bounded:
  assumes "prims_ok (w_prims W)"
  shows "\<exists>r s. defaultDialSession W E cfg = (r, s) \<and> r \<noteq> Panic \<and> (r = Ok () \<longrightarrow> s_child s \<noteq> None) \<and> length (s_out s) \<le> 38 * 5"
proof -
  obtain r s where d: "defaultDialSession W E cfg = (r, s)" by force
  let ?cfg = "toSessionConfig cfg" and ?s0 = "New_session (toSessionConfig cfg)"
  have tries: "nat (retransmitTries ?cfg) = 5" by (simp add: retransmitTries_def toSessionConfig_def DefaultRetransmitTries_def)
  have n: "s_cfg ?s0 = ?cfg" "s_out ?s0 = []" by (simp_all add: New_session_def)
  obtain r1 s1 where i: "IKESAInit W E ?s0 = (r1, s1)" by force
  have s1: "s_cfg s1 = ?cfg" "length (s_out s1) \<le> 20"
    using spends_IKESAInit [of ?cfg W E, unfolded spends_def, rule_format, OF n(1)] i tries n(2) by simp_all
  obtain r2 s2 where a: "IKEAuth W E s1 = (r2, s2)" by force
  have s2: "length (s_out s2) \<le> 190" using spends_IKEAuth [of ?cfg W E, unfolded spends_def, rule_format, OF s1(1)] a tries s1(2) by simp
  have "length (s_out s) \<le> 190"
    using d i a s1 s2
    by (cases r1; cases r2) (auto simp: defaultDialSession_def bindS_def onErrS_def tryS_def retS_def failS_def modS_def Session_Close_def)
  then show ?thesis using defaultDialSession_ok [OF assms d] d by (auto simp: dialled_ok_def)
qed

theorem dial_bounded_witness:
  "\<exists>r s. defaultDialSession plain_world quiet_env plain_public = (r, s) \<and> r \<noteq> Panic \<and> length (s_out s) \<le> 38 * 5"
proof -
  have "prims_ok (w_prims plain_world)" by (simp add: plain_world_def plain_prims_ok)
  from dial_bounded [OF this, of quiet_env plain_public] show ?thesis by blast
qed

end
