(* ===== verification/Proxy_Main.thy ===== *)
theory Proxy_Main
  imports Socks_Relay Client_Correct
begin

text \<open>
  The proxy command (\<open>cmd/ipsec2socks/main.go\<close>): its checks of the options, the configuration it
  dials with, and the SOCKS server it starts.  Parsing an address, reading a file and parsing
  certificates are parameters.  The signal handler, the flag parser and the logging are left out.
\<close>

section \<open>Options\<close>

record cliOpts =
  o_server :: string
  o_caFile :: string
  o_eapUser :: string
  o_eapPass :: string
  o_psk :: string
  o_localID :: string
  o_remoteID :: string
  o_listen :: string
  o_socksAuth :: string
  o_dns :: string
  o_maxConns :: int
  o_idle :: duration
  o_timeout :: duration
  o_rekey :: duration
  o_ikeRekey :: duration
  o_dpd :: duration
  o_insecure :: bool

datatype main_err =
    MainServer | MainBothCredentials | MainNoCredentials | MainEAPIncomplete | MainTimeout | MainIdle
  | MainMaxConns | MainSocksAuth | MainBadListen hostport_err | MainNotLoopback | MainNoAuth
  | MainReadCA | MainNoCertificates | MainDial client_err

text \<open>The conversion of a string to its octets.\<close>

definition octets_of :: "string \<Rightarrow> bytes" where
  "octets_of s = map (\<lambda>c. word_of_nat (of_char c)) s"

text \<open>\<open>strings.Cut\<close> at a colon: before it and after it.\<close>

definition Cut :: "string \<Rightarrow> string \<times> string" where
  "Cut s = (case IndexByte CHR '':'' s of Some i \<Rightarrow> (take i s, drop (i + 1) s) | None \<Rightarrow> (s, []))"

definition parseIdentity :: "(string \<Rightarrow> Addr option) \<Rightarrow> string \<Rightarrow> Identity" where
  "parseIdentity ParseAddr s =
     (if CHR ''@'' \<in> set s then Email (octets_of s)
      else
        (case ParseAddr s of
           Some a \<Rightarrow> (case addr_Unmap a of Addr4 _ \<Rightarrow> IPv4 (Some a) | Addr16 _ \<Rightarrow> IPv6 (Some a))
         | None \<Rightarrow> FQDN (octets_of s)))"

definition loadCAPool :: "(string \<Rightarrow> bytes option) \<Rightarrow> (bytes \<Rightarrow> bytes list) \<Rightarrow> string \<Rightarrow> (main_err, bytes list) res" where
  "loadCAPool ReadFile certs path =
     (case ReadFile path of
        None \<Rightarrow> Err MainReadCA
      | Some pem \<Rightarrow> if certs pem = [] then Err MainNoCertificates else Ok (certs pem))"

definition IsLoopback :: "Addr \<Rightarrow> bool" where
  "IsLoopback a = (case addr_Unmap a of Addr4 b \<Rightarrow> b ! 0 = 127 | Addr16 b \<Rightarrow> b = zeros 15 @ [1])"

definition loopback_host :: "(string \<Rightarrow> Addr option) \<Rightarrow> string \<Rightarrow> bool" where
  "loopback_host ParseAddr host =
     (case ParseAddr host of Some ip \<Rightarrow> IsLoopback ip | None \<Rightarrow> host = ''localhost'')"

definition checkLoopbackBind :: "(string \<Rightarrow> Addr option) \<Rightarrow> string \<Rightarrow> bool \<Rightarrow> bool \<Rightarrow> (main_err, unit) res" where
  "checkLoopbackBind ParseAddr listen allow hasAuth =
     (case SplitHostPort listen of
        Inl e \<Rightarrow> Err (MainBadListen e)
      | Inr (host, _) \<Rightarrow>
          if loopback_host ParseAddr host then Ok ()
          else if \<not> allow then Err MainNotLoopback
          else if \<not> hasAuth then Err MainNoAuth
          else Ok ())"

section \<open>Starting up\<close>

text \<open>The checks of \<open>run\<close> before it builds the configuration.\<close>

definition check_options :: "(string \<Rightarrow> Addr option) \<Rightarrow> cliOpts \<Rightarrow> (main_err, unit) res" where
  "check_options ParseAddr opts =
     (let hasPSK = o_psk opts \<noteq> []; hasEAP = (o_eapUser opts \<noteq> [] \<or> o_eapPass opts \<noteq> []) in
      guardR (o_server opts = []) MainServer
      (guardR (hasPSK \<and> hasEAP) MainBothCredentials
      (guardR (\<not> hasPSK \<and> \<not> hasEAP) MainNoCredentials
      (guardR (hasEAP \<and> (o_eapUser opts = [] \<or> o_eapPass opts = [])) MainEAPIncomplete
      (guardR (o_timeout opts \<le> 0) MainTimeout
      (guardR (o_idle opts < 0) MainIdle
      (guardR (o_maxConns opts < 0) MainMaxConns
      (guardR (o_socksAuth opts \<noteq> [] \<and> CHR '':'' \<notin> set (o_socksAuth opts)) MainSocksAuth
      (checkLoopbackBind ParseAddr (o_listen opts) (o_insecure opts) (o_socksAuth opts \<noteq> []))))))))))"

definition zeroIdentity :: Identity where
  "zeroIdentity = \<lparr>id_Kind = 0, id_Data = []\<rparr>"

text \<open>The fields \<open>run\<close> does not set have Go's zero values.\<close>

definition build_config ::
  "(string \<Rightarrow> Addr option) \<Rightarrow> (string \<Rightarrow> bytes option) \<Rightarrow> (bytes \<Rightarrow> bytes list) \<Rightarrow> cliOpts \<Rightarrow> (main_err, Config) res" where
  "build_config ParseAddr ReadFile certs opts =
     (let hasPSK = o_psk opts \<noteq> [];
          cfg = \<lparr>c_Server = o_server opts,
                 c_LocalID = (if o_localID opts \<noteq> [] then parseIdentity ParseAddr (o_localID opts) else zeroIdentity),
                 c_RemoteID = (if o_remoteID opts \<noteq> [] then parseIdentity ParseAddr (o_remoteID opts) else zeroIdentity),
                 c_Username = (if hasPSK then [] else octets_of (o_eapUser opts)),
                 c_Password = (if hasPSK then [] else octets_of (o_eapPass opts)),
                 c_PSK = (if hasPSK then octets_of (o_psk opts) else []),
                 c_RootCAs = None, c_MTU = 0, c_KeepAlive = 0, c_DPDTimeout = o_dpd opts,
                 c_RekeyLifetime = o_rekey opts, c_IKERekeyLifetime = o_ikeRekey opts,
                 c_ReplayWindow = 0, c_RekeyMaxPackets = 0, c_ESPCipherSuites = [], c_IKECipherSuites = [],
                 c_ChildSAPFS = False, c_RequestIPv6 = None, c_AutoReconnect = None,
                 c_ReconnectBackoffBase = 0, c_ReconnectBackoffMax = 0, c_ReconnectAttemptTimeout = 0\<rparr> in
      if o_caFile opts \<noteq> []
      then bindR (loadCAPool ReadFile certs (o_caFile opts)) (\<lambda>pool. Ok (cfg\<lparr>c_RootCAs := Some pool\<rparr>))
      else Ok cfg)"

definition build_server :: "cliOpts \<Rightarrow> socksServer" where
  "build_server opts =
     (let srv = \<lparr>authUser = [], authPass = [], authOn = False, maxConns = o_maxConns opts, idle = o_idle opts\<rparr> in
      if o_socksAuth opts \<noteq> [] then
        (case Cut (o_socksAuth opts) of
           (user, pass) \<Rightarrow> srv\<lparr>authUser := octets_of user, authPass := octets_of pass, authOn := True\<rparr>)
      else srv)"

text \<open>\<open>run\<close> up to \<open>serve\<close>: the client, the resolver's server and the SOCKS server.\<close>

definition run ::
  "(string \<Rightarrow> Addr option) \<Rightarrow> (Addr \<Rightarrow> string) \<Rightarrow> (string \<Rightarrow> bytes option) \<Rightarrow> (bytes \<Rightarrow> bytes list) \<Rightarrow> outside \<Rightarrow> cliOpts \<Rightarrow>
     (main_err, Client \<times> string \<times> socksServer) res" where
  "run ParseAddr str ReadFile certs X opts =
     bindR (check_options ParseAddr opts) (\<lambda>_.
     bindR (build_config ParseAddr ReadFile certs opts) (\<lambda>cfg.
     case Dial X cfg of
       (r, client) \<Rightarrow>
         bindR (wrapR MainDial r) (\<lambda>_. Ok (client, buildResolver str client (o_dns opts), build_server opts))))"

section \<open>What a proxy that came up guarantees\<close>

lemma guardR_Ok: "guardR c e r = Ok x \<longleftrightarrow> \<not> c \<and> r = Ok x"
  by (simp add: guardR_def)

lemma bindR_Ok: "bindR r f = Ok x \<longleftrightarrow> (\<exists>y. r = Ok y \<and> f y = Ok x)"
  by (cases r) simp_all

lemma wrapR_Ok: "wrapR g r = Ok x \<longleftrightarrow> r = Ok x"
  by (cases r) simp_all

lemma IndexByte_split: "IndexByte c s = Some i \<Longrightarrow> s = take i s @ c # drop (i + 1) s \<and> c \<notin> set (take i s)"
  by (induction s arbitrary: i) (auto split: if_splits)

lemma Cut_colon: "CHR '':'' \<in> set s \<Longrightarrow> Cut s = (user, pass) \<Longrightarrow> s = user @ '':'' @ pass \<and> CHR '':'' \<notin> set user"
  using IndexByte_split [of "CHR '':''" s] IndexByte_None [of "CHR '':''" s]
  by (cases "IndexByte CHR '':'' s") (auto simp: Cut_def)

lemma run_Ok:
  assumes "run ParseAddr str ReadFile certs X opts = Ok (client, dns, srv)"
  shows "check_options ParseAddr opts = Ok ()" "srv = build_server opts"
    "\<exists>cfg. build_config ParseAddr ReadFile certs opts = Ok cfg \<and> Dial X cfg = (Ok (), client)"
  using assms unfolding run_def by (auto simp: bindR_Ok wrapR_Ok case_prod_beta prod_eq_iff)

lemma check_options_Ok:
  assumes "check_options ParseAddr opts = Ok ()"
  shows "o_server opts \<noteq> []" "(o_psk opts \<noteq> []) = (o_eapUser opts = [])" "(o_psk opts \<noteq> []) = (o_eapPass opts = [])"
    "o_idle opts \<ge> 0" "o_maxConns opts \<ge> 0" "o_socksAuth opts = [] \<or> CHR '':'' \<in> set (o_socksAuth opts)"
    "checkLoopbackBind ParseAddr (o_listen opts) (o_insecure opts) (o_socksAuth opts \<noteq> []) = Ok ()"
  using assms unfolding check_options_def by (auto simp: guardR_Ok Let_def)

lemma checkLoopbackBind_Ok:
  assumes "checkLoopbackBind ParseAddr listen allow hasAuth = Ok ()"
  shows "\<exists>host port. SplitHostPort listen = Inr (host, port) \<and> (loopback_host ParseAddr host \<or> allow \<and> hasAuth)"
  using assms unfolding checkLoopbackBind_def by (auto split: sum.splits if_splits)

lemma build_server_auth:
  assumes "o_socksAuth opts = [] \<or> CHR '':'' \<in> set (o_socksAuth opts)"
  shows "authOn (build_server opts) = (o_socksAuth opts \<noteq> [])"
    "o_socksAuth opts \<noteq> [] \<Longrightarrow> \<exists>user pass. o_socksAuth opts = user @ '':'' @ pass \<and> CHR '':'' \<notin> set user \<and>
       authUser (build_server opts) = octets_of user \<and> authPass (build_server opts) = octets_of pass"
proof -
  obtain user pass where c: "Cut (o_socksAuth opts) = (user, pass)" by (metis surj_pair)
  show "authOn (build_server opts) = (o_socksAuth opts \<noteq> [])" by (simp add: build_server_def c Let_def)
  show "\<exists>user pass. o_socksAuth opts = user @ '':'' @ pass \<and> CHR '':'' \<notin> set user \<and>
       authUser (build_server opts) = octets_of user \<and> authPass (build_server opts) = octets_of pass"
    if "o_socksAuth opts \<noteq> []"
  proof -
    have "authUser (build_server opts) = octets_of user" "authPass (build_server opts) = octets_of pass"
      using that by (simp_all add: build_server_def c Let_def)
    then show ?thesis using Cut_colon [OF _ c] assms that by blast
  qed
qed

lemma handle_auth:
  assumes "handle N srv s = (r, s')" "authOn srv" "k_dials s' \<noteq> k_dials s"
  shows "presented (authUser srv) (authPass srv) (k_in s)"
  using handle_dials [OF assms(1)] negotiate_Ok [OF _ assms(2)] assms(3) by fastforce

text \<open>
  C13 (safety).  The proxy is never an open relay onto the VPN.  If the command came up listening on
  an address that is not loopback, then the operator allowed that and set credentials, and no client of
  the proxy gets a connection through the tunnel unless it sent exactly these: the part of
  \<open>-socks-auth\<close> before the first colon as its user name and all the rest as its password.
\<close>

theorem proxy_not_open:
  assumes "run ParseAddr str ReadFile certs X opts = Ok (client, dns, srv)"
  shows "\<exists>host port. SplitHostPort (o_listen opts) = Inr (host, port) \<and>
    (loopback_host ParseAddr host \<or>
     o_insecure opts \<and>
     (\<exists>user pass. o_socksAuth opts = user @ '':'' @ pass \<and> CHR '':'' \<notin> set user \<and>
       (\<forall>N s r s'. handle N srv s = (r, s') \<and> k_dials s' \<noteq> k_dials s \<longrightarrow>
         presented (octets_of user) (octets_of pass) (k_in s))))"
proof -
  note ok = check_options_Ok [OF run_Ok(1) [OF assms]] and srv = run_Ok(2) [OF assms]
  obtain host port where hp: "SplitHostPort (o_listen opts) = Inr (host, port)"
    "loopback_host ParseAddr host \<or> o_insecure opts \<and> o_socksAuth opts \<noteq> []"
    using checkLoopbackBind_Ok [OF ok(7)] by blast
  show ?thesis
  proof (cases "loopback_host ParseAddr host")
    case False
    then have set: "o_insecure opts" "o_socksAuth opts \<noteq> []" using hp(2) by auto
    obtain user pass where up: "o_socksAuth opts = user @ '':'' @ pass" "CHR '':'' \<notin> set user"
      "authUser srv = octets_of user" "authPass srv = octets_of pass"
      using build_server_auth(2) [OF ok(6) set(2)] srv by blast
    have on: "authOn srv" using build_server_auth(1) [OF ok(6)] set(2) srv by simp
    have "presented (octets_of user) (octets_of pass) (k_in s)"
      if "handle N srv s = (r, s')" "k_dials s' \<noteq> k_dials s" for N s r s'
      using handle_auth [OF that(1) on that(2)] unfolding up .
    then show ?thesis using hp(1) set(1) up(1,2) by blast
  qed (use hp(1) in blast)
qed

definition example_opts :: cliOpts where
  "example_opts =
     \<lparr>o_server = ''vpn'', o_caFile = [], o_eapUser = [], o_eapPass = [], o_psk = [CHR 0x07], o_localID = [CHR 0x01], o_remoteID = [],
      o_listen = ''0.0.0.0:1080'', o_socksAuth = ''u:p:'', o_dns = [], o_maxConns = 2, o_idle = 0, o_timeout = 45 * Second,
      o_rekey = 0, o_ikeRekey = 0, o_dpd = 0, o_insecure = True\<rparr>"

definition example_parse :: "string \<Rightarrow> Addr option" where
  "example_parse s = (if s = ''0.0.0.0'' then Some (Addr4 [0, 0, 0, 0]) else None)"

lemma example_config: "build_config example_parse (\<lambda>_. None) (\<lambda>_. []) example_opts = Ok plain_public"
  by (simp add: build_config_def example_opts_def plain_public_def parseIdentity_def example_parse_def FQDN_def octets_of_def zeroIdentity_def)

lemma example_options: "check_options example_parse example_opts = Ok ()"
  by code_simp

lemma example_run:
  obtains X client dns srv where "run example_parse (\<lambda>_. []) (\<lambda>_. None) (\<lambda>_. []) X example_opts = Ok (client, dns, srv)"
proof -
  obtain X c where "outside_ok X" "Dial X plain_public = (Ok (), c)" by (rule example_dial)
  then have "run example_parse (\<lambda>_. []) (\<lambda>_. None) (\<lambda>_. []) X example_opts =
      Ok (c, buildResolver (\<lambda>_. []) c (o_dns example_opts), build_server example_opts)"
    by (simp add: run_def example_config example_options)
  then show thesis by (rule that)
qed

theorem proxy_not_open_witness:
  "\<exists>X client dns srv. run example_parse (\<lambda>_. []) (\<lambda>_. None) (\<lambda>_. []) X example_opts = Ok (client, dns, srv) \<and>
     (\<forall>N s r s'. handle N srv s = (r, s') \<and> k_dials s' \<noteq> k_dials s \<longrightarrow> presented [117] [112, 58] (k_in s))"
proof -
  obtain X client dns srv where run: "run example_parse (\<lambda>_. []) (\<lambda>_. None) (\<lambda>_. []) X example_opts = Ok (client, dns, srv)"
    by (rule example_run)
  have listen: "o_listen example_opts = ''0.0.0.0:1080''" "o_socksAuth example_opts = ''u:p:''" by (simp_all add: example_opts_def)
  have "\<not> loopback_host example_parse ''0.0.0.0''" "SplitHostPort ''0.0.0.0:1080'' = Inr (''0.0.0.0'', ''1080'')" by code_simp+
  then obtain user pass where cut: "''u:p:'' = user @ '':'' @ pass" "CHR '':'' \<notin> set user"
    and all: "\<forall>N s r s'. handle N srv s = (r, s') \<and> k_dials s' \<noteq> k_dials s \<longrightarrow> presented (octets_of user) (octets_of pass) (k_in s)"
    using proxy_not_open [OF run] unfolding listen by auto
  have "IndexByte CHR '':'' ''u:p:'' = Some (length user)" using IndexByte_append [OF cut(2), of pass] unfolding cut(1) by simp
  then have "length user = 1" by simp
  then have "user = ''u''" "pass = ''p:''" using cut(1) by (auto simp: length_Suc_conv)
  then show ?thesis using run all by (auto simp: octets_of_def)
qed

text \<open>Addresses as \<open>netip.ParseAddr\<close> returns them: of 4 or 16 octets.\<close>

definition parses_addresses :: "(string \<Rightarrow> Addr option) \<Rightarrow> bool" where
  "parses_addresses ParseAddr \<longleftrightarrow>
     (\<forall>s. case ParseAddr s of None \<Rightarrow> True | Some (Addr4 b) \<Rightarrow> length b = 4 | Some (Addr16 b) \<Rightarrow> length b = 16)"

lemma parseIdentity_checks:
  assumes "parses_addresses ParseAddr" "s \<noteq> []"
  shows "check (parseIdentity ParseAddr s) = Inr () \<and> \<not> IsZero (parseIdentity ParseAddr s)"
proof -
  have "case ParseAddr s of None \<Rightarrow> True | Some (Addr4 b) \<Rightarrow> length b = 4 | Some (Addr16 b) \<Rightarrow> length b = 16"
    using assms(1) by (simp add: parses_addresses_def)
  then show ?thesis
    using assms(2)
    by (auto simp: parseIdentity_def check_def Email_def FQDN_def octets_of_def IPv4_def IPv6_def addr_Unmap_def Unmap_def Is4In6_def IsZero_def
        split: option.splits Addr.splits)
qed

lemma zeroIdentity_checks: "check zeroIdentity = Inr ()" "IsZero zeroIdentity"
  by (simp_all add: zeroIdentity_def check_def IsZero_def)

lemma build_config_fields:
  assumes "build_config ParseAddr ReadFile certs opts = Ok cfg"
  shows "c_Server cfg = o_server opts" "c_PSK cfg = octets_of (o_psk opts)"
    "o_psk opts = [] \<Longrightarrow> c_Username cfg = octets_of (o_eapUser opts) \<and> c_Password cfg = octets_of (o_eapPass opts)"
    "o_psk opts \<noteq> [] \<Longrightarrow> c_Username cfg = [] \<and> c_Password cfg = []"
    "c_LocalID cfg = (if o_localID opts \<noteq> [] then parseIdentity ParseAddr (o_localID opts) else zeroIdentity)"
    "c_RemoteID cfg = (if o_remoteID opts \<noteq> [] then parseIdentity ParseAddr (o_remoteID opts) else zeroIdentity)"
    "c_ESPCipherSuites cfg = []" "c_IKECipherSuites cfg = []"
  using assms unfolding build_config_def by (auto simp: Let_def bindR_Ok octets_of_def split: if_splits)

lemma validate_LocalID:
  assumes "validate c = Inr c'"
  shows "c_LocalID c' = (if IsZero (c_LocalID c) then defaultEAPIdentity (c_Username c) else c_LocalID c)"
  using assms by (auto simp: validate_def Let_def thenE_Inr fill_defaults_def split: if_splits)

lemma config_ok_LocalID:
  assumes "config_ok c"
  shows "wi_Data (cf_LocalID (toSessionConfig c)) \<noteq> []"
  using assms by (auto simp: config_ok_def IsZero_def check_def toSessionConfig_def idData_def split: if_splits)

text \<open>
  C21 (type).  The configuration the command builds is one the library accepts: options that passed
  the command's own checks never fail the library's validation, whatever identities they name (e-mail,
  domain name, IPv4 or IPv6 literal, IPv4-mapped or not), with one exception: a pre-shared key without
  a local identity is refused.  An accepted configuration never announces an empty identity: without
  a local identity on the command line, the one derived from the EAP user name is sent.
\<close>

theorem proxy_config_valid:
  assumes "parses_addresses ParseAddr" "check_options ParseAddr opts = Ok ()" "build_config ParseAddr ReadFile certs opts = Ok cfg"
  shows "if o_psk opts \<noteq> [] \<and> o_localID opts = [] then validate cfg = Inl ErrLocalIDRequired
    else \<exists>cfg'. validate cfg = Inr cfg' \<and> config_ok cfg' \<and> wi_Data (cf_LocalID (toSessionConfig cfg')) \<noteq> [] \<and>
      c_LocalID cfg' = (if o_localID opts = [] then defaultEAPIdentity (octets_of (o_eapUser opts)) else parseIdentity ParseAddr (o_localID opts))"
proof -
  note ok = check_options_Ok [OF assms(2)] and f = build_config_fields [OF assms(3)]
  have cred: "check_credentials cfg = Inr ()"
    unfolding check_credentials_iff using ok(2,3) f(2-4) by (cases "o_psk opts = []") (auto simp: octets_of_def)
  have zero: "IsZero (c_LocalID cfg) = (o_localID opts = [])" and remote: "check (c_RemoteID cfg) = Inr ()"
    and loc: "check (c_LocalID cfg) = Inr ()"
    using parseIdentity_checks [OF assms(1)] zeroIdentity_checks by (simp_all add: f(5,6))
  have psk: "(c_PSK cfg \<noteq> []) = (o_psk opts \<noteq> [])" by (simp add: f(2) octets_of_def)
  show ?thesis
  proof (cases "o_psk opts \<noteq> [] \<and> o_localID opts = []")
    case True
    then show ?thesis using ok(1) f(1) cred zero psk by (simp add: validate_def)
  next
    case False
    have dflt: "check (defaultEAPIdentity (c_Username cfg)) = Inr ()" if "o_localID opts = []"
      using False that f(3) ok(2) by (auto simp: defaultEAPIdentity_def check_def Email_def FQDN_def octets_of_def)
    have "\<exists>cfg'. validate cfg = Inr cfg'"
      using False ok(1) f(1,7,8) cred zero psk remote loc dflt by (auto simp: validate_def validateCipherSuites_def Let_def)
    then obtain cfg' where v: "validate cfg = Inr cfg'" "config_ok cfg'" using validate_ok by blast
    moreover have "c_LocalID cfg' = (if o_localID opts = [] then defaultEAPIdentity (octets_of (o_eapUser opts)) else parseIdentity ParseAddr (o_localID opts))"
      using validate_LocalID [OF v(1)] zero False f(3,5) by auto
    ultimately show ?thesis using False config_ok_LocalID [OF v(2)] by auto
  qed
qed

theorem proxy_config_valid_witness:
  "parses_addresses example_parse \<and>
    (\<exists>cfg'. validate plain_public = Inr cfg' \<and> config_ok cfg' \<and> c_LocalID cfg' = parseIdentity example_parse [CHR 0x01])"
proof -
  have "parses_addresses example_parse" by (simp add: parses_addresses_def example_parse_def)
  then show ?thesis
    using proxy_config_valid [OF _ example_options example_config] by (auto simp: example_opts_def)
qed

end
