(* ===== verification/Spec2Isabelle.thy ===== *)
theory Spec2Isabelle
  imports Natt Dh Config_Print Driver_Live Rekey_Agree Netstack Transport Proxy_Main
begin

text \<open>
  A verification development for go-ipsec, a VPN client in user space: IKEv2 sets up and renews keys,
  ESP carries IP datagrams under them, and the command \<open>ipsec2socks\<close> offers the tunnel as a SOCKS5 proxy.

  \<^bold>\<open>The program and how its parts interact.\<close>  \<open>Dial\<close> (\<open>ipsec.go\<close>) validates a configuration, opens a
  datagram channel (\<open>internal/transport\<close>) and runs the handshake of \<open>internal/session\<close>: IKE\_SA\_INIT agrees on
  a Diffie-Hellman secret (\<open>internal/ikesa\<close>), IKE\_AUTH proves both identities by a pre-shared key or by a
  certificate and EAP-MSCHAPv2 (\<open>internal/auth\<close>, \<open>internal/eap\<close>) and yields the first Child SA.  Messages are
  encoded by \<open>internal/ikemsg\<close>, sealed by \<open>internal/ikesa\<close>, and framed by \<open>internal/natt\<close> behind a NAT.  The
  client then runs workers (\<open>internal/workers\<close>): a receive loop that decrypts ESP (\<open>internal/esp\<close>, with its
  anti-replay window) and hands datagrams to the network stack through \<open>internal/tunnel\<close>, a control loop that
  answers the peer, probes it, and renews the keys, a keepalive loop, and a supervisor that reconnects when the
  peer is dead.  The proxy's SOCKS server dials through the network stack.

  \<^bold>\<open>How the code is modelled.\<close>  A Go struct is a record, an enumeration or interface a datatype, a fixed-width
  integer a word of that width.  A function that may fail returns \<open>Ok\<close>, \<open>Err\<close> or \<open>Panic\<close>
  (\<open>Go_Prelude\<close>); one that also updates its receiver is a state computation that keeps the assignments made
  before an error (\<open>Go_State\<close>).  So an index out of range, a slice beyond its capacity and a nil
  dereference are values, and that they never occur is a theorem.  Goroutines are turns: a run is any
  sequence of turns of any of them, and the properties of the client, the workers, the relay and the accept
  loop hold over every such sequence.  Pointers to shared associations are addresses in a store.
  What is not in the repository is a parameter: the cryptographic primitives (\<open>Primitives\<close>), the random
  source, the clock, the socket, certificate and MSCHAPv2 libraries (the records \<open>world\<close> and \<open>env\<close>), the
  resolver, the dialer and address printing (\<open>network\<close>).  The laws assumed of a primitive are its documented
  ones, for instance that opening what was sealed under the same key gives the plaintext; each property that
  needs them has a witness in which they hold.

  \<^bold>\<open>Foundations.\<close>
  \<^item> \<open>Go_Prelude\<close>: words, slices, big-endian numbers, outcomes.
  \<^item> \<open>Go_State\<close>: state computations, weakest preconditions, and rules for what a computation keeps.
  \<^item> \<open>Primitives\<close>: the interface of the cryptographic functions and a transparent instance of it.

  \<^bold>\<open>Data plane.\<close>
  \<^item> \<open>Replay\<close> (\<open>esp/replay.go\<close>): the bitmap refines a history of accepted numbers; the contract
    \<open>anti_replay\<close> is what the ESP layer uses.
  \<^item> \<open>Esp\<close> (\<open>esp/esp.go\<close>): both framings, allocation of sequence numbers by concurrent senders; mirrored
    associations carry every stream, forged packets change nothing, no nonce repeats.
  \<^item> \<open>Tunnel\<close> (\<open>tunnel/tunnel.go\<close>), \<open>Workers\<close> (\<open>workers/workers.go\<close>).

  \<^bold>\<open>Messages.\<close>
  \<^item> \<open>Ikemsg_Const\<close>, \<open>Ikemsg_Body\<close>, \<open>Ikemsg\<close> (\<open>ikemsg\<close>): registries, payload bodies, chains and framing;
    the messages that decoding gives back unchanged are characterised exactly (\<open>chain_ok\<close>); decoding never
    panics and allocates in proportion to its input.  The locale
    \<open>substructures\<close> is the contract of transforms, proposals and configuration attributes.
  \<^item> \<open>Ikesa\<close>, \<open>Dh\<close> (\<open>ikesa\<close>): key schedule, encrypted envelope, key exchange; both ends agree.
  \<^item> \<open>Protected\<close> (\<open>session/protected.go\<close>), \<open>Natt\<close> (\<open>natt/natt.go\<close>, \<open>session/natt.go\<close>), \<open>Suites\<close>
    (\<open>session/suite.go\<close>, with the locale \<open>suite_table\<close> for the ESP and the IKE table), \<open>Eap\<close> (\<open>eap\<close>), \<open>Auth\<close> (\<open>auth\<close>).

  \<^bold>\<open>Session.\<close>
  \<^item> \<open>Session_State\<close>, \<open>Session_Payloads\<close>: the session's record, its outputs, its questions to the outside.
  \<^item> \<open>Rekey\<close> (\<open>session/rekey.go\<close>), \<open>Driver\<close> (\<open>session/informational.go\<close>), \<open>Handshake\<close>
    (\<open>session/session.go\<close>, \<open>session/ikeauth.go\<close>): the operations.
  \<^item> \<open>Wire\<close>, \<open>Session_Run\<close>, \<open>Session_Example\<close>: message sizes, step-by-step runs, a concrete surrounding.
  \<^item> \<open>Driver_Safety\<close>, \<open>Driver_Live\<close>: the control loop never panics; when it declares a peer dead.
  \<^item> \<open>Rekey_Agree\<close>: two ends that run this code install mirrored Child SAs.
  \<^item> \<open>Handshake_Auth\<close>, \<open>Handshake_Run\<close>, \<open>Handshake_Bound\<close>: what a completed handshake guarantees, that it
    completes against an honest responder, and a bound on what it sends.

  \<^bold>\<open>Client.\<close>
  \<^item> \<open>Client_Config\<close>, \<open>Config_Print\<close> (\<open>config.go\<close>, \<open>identity.go\<close>): validation; what a configuration prints.
  \<^item> \<open>Client\<close> (\<open>ipsec.go\<close>, \<open>dataplane.go\<close>, \<open>reconnect.go\<close>): dialling, the registry of inbound associations,
    rekey cutover with its grace timers, receive and keepalive loops, supervisor, \<open>Close\<close>.
  \<^item> \<open>Client_Safety\<close>: the invariant of the client over all runs.  The locale \<open>store_law\<close> is a law of the
    store of associations that every change of it keeps; it is interpreted with the trivial law, with the
    memory of accepted packets, with the counters of sent ones, and with the list of inbound SPIs.
  \<^item> \<open>Client_Life\<close>, \<open>Client_Registry\<close>, \<open>Client_Correct\<close>: dialling, traffic, the fate of an entry of the
    registry, rekeys, reconnects, closing.
  \<^item> \<open>Netstack\<close> (\<open>netstack\<close> of \<open>ipsec.go\<close>), \<open>Net_Text\<close> (\<open>resolver.go\<close>), \<open>Transport\<close> (\<open>internal/transport\<close>,
    with the locale \<open>datagram_channel\<close> for the interface \<open>Conn\<close>).

  \<^bold>\<open>Proxy.\<close>
  \<^item> \<open>Socks\<close>, \<open>Socks_Relay\<close> (\<open>cmd/ipsec2socks/socks5.go\<close>): negotiation, request, relay, accept loop.
  \<^item> \<open>Proxy_Main\<close> (\<open>cmd/ipsec2socks/main.go\<close>): the checks of the options and the start-up; it ties the SOCKS
    server to the client.

  \<^bold>\<open>Bounds.\<close>  Loops of the code are recursion on their data, or on a number the code itself bounds: the
  retransmission tries, the EAP rounds (\<open>maxEAPRounds\<close>), the retries of IKE\_SA\_INIT.  There is no fuel besides
  these.  Loops that wait for the outside (receive, control, supervisor, relay, accept) are turns, so a run
  is as long as the sequence of turns; that \<open>Close\<close> and a dial come to an end is proved with an explicit
  number of turns or datagrams.  The socket's answers to a receive are a list, whose end is the deadline.

  \<^bold>\<open>Abstractions.\<close>
  \<^item> Times and durations are unbounded integers of nanoseconds.  They agree with the code's 64-bit values as
    long as no sum or doubling (\<open>redial_turn\<close>, \<open>retransBackoff\<close>, \<open>ikeRekeyLifetime\<close>) reaches \<open>2^63\<close>, some 292 years.
  \<^item> \<open>InstallChildSA\<close> and \<open>reconnect_finish\<close> are one turn each.  The code publishes the new registry before it
    swaps the association of the tunnel, so a packet received in between sees the state of after the turn, and
    one sent in between that of before it.
  \<^item> \<open>stopWorkers\<close> is \<open>Shutdown\<close> followed by \<open>Wait\<close>: the driver makes its last turn and the other workers return,
    as their loops do once their context is cancelled.
  \<^item> A grace timer may fire at any moment after it was armed, not only after its 30 seconds, and its callback
    may run at any moment after that.  Every behaviour of the code is among these.
  \<^item> \<open>Session_Close\<close> is the wiping of the credentials; the socket it also closes belongs to \<open>Transport\<close>.  When the
    association of a redialled session cannot be built the code closes that session, which nothing refers to any
    more; the model drops it.
  \<^item> A slice expression or index whose bounds the line before it has checked is in some definitions
    (\<open>Classify\<close>, \<open>HandleSuccess\<close>) the list operation without the panic branch.

  \<^bold>\<open>Not modelled.\<close>  Log lines and the text of error messages (errors are constructors); the flag parser, the
  signal handler and the exit status of the command; \<open>secretmem.Do\<close>, whose effect a program cannot observe;
  \<open>describeSelectors\<close>, \<open>describeProposals\<close> and \<open>transformIDs\<close>, which feed log lines; floating-point scaling
  in \<open>jitterDuration\<close> and \<open>jitteredDeadline\<close> (a parameter); constant-time execution, wiping of copies the
  runtime makes, and weak memory: an atomic operation or a section under a mutex is one step.  The network
  stack (\<open>go-tun2net\<close>), the cryptographic primitives, \<open>crypto/x509\<close> and the RADIUS package are other people's
  code and appear only as parameters.
\<close>

end
